(* ===== verification/Prelude.thy ===== *)
theory Prelude
  imports Main "HOL-Library.Word"
begin

text \<open>
  Shared vocabulary of the development: machine words, kernel object names (locks, sleep
  channels), the outcome of a stretch of kernel code and its sequencing \<open>kbind\<close>, loops over
  C arrays, and the generic locales that several components instantiate.

  A C array is a total function on indices; a \<open>for\<close> loop over it visits \<open>[0..<n]\<close>.
  A C string (\<open>char *\<close> whose bytes are followed by a NUL) is the list of its bytes without
  the NUL, see \<open>CStrings\<close>.
\<close>

section \<open>Words\<close>

type_synonym u8 = "8 word"
type_synonym u16 = "16 word"
type_synonym u32 = "32 word"
type_synonym cstring = "u8 list"

section \<open>Names of kernel objects\<close>

text \<open>
  Pointers to locks and sleep channels are compared only for equality, so a datatype with one
  constructor per object stands for the addresses the code passes to \<open>acquire\<close>,
  \<open>sleep\<close> and \<open>wakeup\<close>.
\<close>

datatype sleeplock_id = BufLock nat | InodeLock nat

datatype lock_id =
    PtableLock | TicksLock | KmemLock | LogLock | BcacheLock | IcacheLock
  | FtableLock | UtableLock | ConsLock | IdeLock | PipeLock u32 | SleepLk sleeplock_id

datatype chan =
    ChanProc nat | ChanTicks | ChanLog | ChanSleep sleeplock_id
  | ChanPipeRead u32 | ChanPipeWrite u32 | ChanInput | ChanBuf nat

section \<open>Outcomes of kernel code\<close>

text \<open>
  Kernel code run from a state either returns a value and a new state, calls \<open>panic\<close>,
  does something C leaves undefined (a null dereference, a write past the end of an array),
  spins forever on a lock another CPU holds, or gives up the CPU in \<open>sched\<close> with the given
  state.
\<close>

datatype ('a, 's) res =
    Ret 'a 's
  | Panic string
  | Fault string
  | Spins lock_id
  | Swtch 's

fun kbind :: "('a, 's) res \<Rightarrow> ('a \<Rightarrow> 's \<Rightarrow> ('b, 's) res) \<Rightarrow> ('b, 's) res" where
  "kbind (Ret a s) f = f a s"
| "kbind (Panic m) f = Panic m"
| "kbind (Fault m) f = Fault m"
| "kbind (Spins l) f = Spins l"
| "kbind (Swtch s) f = Swtch s"

text \<open>
  \<open>kret\<close> collects the rules that take a returning run apart; they are not default
  simplification rules, so that the simplifier can also run code forwards.
\<close>

named_theorems kret

lemma kbind_cong [fundef_cong]:
  "m = m' \<Longrightarrow> (\<And>a s. m' = Ret a s \<Longrightarrow> f a s = f' a s) \<Longrightarrow> kbind m f = kbind m' f'"
  by (cases m') simp_all

lemma kbind_eq_Ret [kret]:
  "kbind m f = Ret b t \<longleftrightarrow> (\<exists>a s. m = Ret a s \<and> f a s = Ret b t)"
  by (cases m) auto

lemma kbind_eq_Panic:
  "kbind m f = Panic e \<longleftrightarrow> m = Panic e \<or> (\<exists>a s. m = Ret a s \<and> f a s = Panic e)"
  by (cases m) auto

lemma kbind_assoc: "kbind (kbind m f) g = kbind m (\<lambda>a s. kbind (f a s) g)"
  by (cases m) auto

lemma kbind_if: "kbind (if b then m else m') f = (if b then kbind m f else kbind m' f)"
  by simp

text \<open>Only the returning outcome, as an option.\<close>

definition ret_of :: "('a, 's) res \<Rightarrow> ('a \<times> 's) option" where
  "ret_of r = (case r of Ret a s \<Rightarrow> Some (a, s) | _ \<Rightarrow> None)"

lemma ret_of_simps [simp]:
  "ret_of (Ret a s) = Some (a, s)"
  "ret_of (Panic m) = None"
  "ret_of (Fault m) = None"
  "ret_of (Spins l) = None"
  "ret_of (Swtch s) = None"
  by (simp_all add: ret_of_def)

lemma ret_of_eq_Some [simp]: "ret_of r = Some (a, s) \<longleftrightarrow> r = Ret a s"
  by (cases r) (auto simp: ret_of_def)

text \<open>
  Total correctness: \<open>wp m P\<close> says that \<open>m\<close> returns, with a value and state that satisfy
  \<open>P\<close>. The equations are simplification rules, so a goal about a sequence of calls reduces
  to one about its first call; the specification of a call is an introduction rule.
\<close>

definition wp :: "('a, 's) res \<Rightarrow> ('a \<Rightarrow> 's \<Rightarrow> bool) \<Rightarrow> bool" where
  "wp m P = (case m of Ret a s \<Rightarrow> P a s | _ \<Rightarrow> False)"

lemma wp_simps [simp]:
  "wp (Ret a s) P = P a s" "wp (Panic e) P = False" "wp (Fault e) P = False"
  "wp (Spins l) P = False" "wp (Swtch s) P = False"
  by (simp_all add: wp_def)

lemma wp_kbind [simp]: "wp (kbind m f) P = wp m (\<lambda>a s. wp (f a s) P)"
  by (cases m) simp_all

lemma wp_mono: "wp m P \<Longrightarrow> (\<And>a s. P a s \<Longrightarrow> Q a s) \<Longrightarrow> wp m Q"
  by (cases m) simp_all

lemma wp_Ret_ex: "wp m P \<longleftrightarrow> (\<exists>a s. m = Ret a s \<and> P a s)"
  by (cases m) simp_all

text \<open>A \<open>for\<close> loop over a list of indices whose body runs kernel code.\<close>

fun kfor :: "'i list \<Rightarrow> ('i \<Rightarrow> 's \<Rightarrow> (unit, 's) res) \<Rightarrow> 's \<Rightarrow> (unit, 's) res" where
  "kfor [] f s = Ret () s"
| "kfor (i # is) f s = kbind (f i s) (\<lambda>_ s. kfor is f s)"

lemma kfor_append: "kfor (xs @ ys) f s = kbind (kfor xs f s) (\<lambda>_ s. kfor ys f s)"
  by (induction xs arbitrary: s) (auto simp: kbind_assoc intro!: kbind_cong)

text \<open>An invariant that every body keeps holds after the loop.\<close>

lemma kfor_invariant:
  assumes "kfor xs f s = Ret u t" and "I s"
    and "\<And>i s t u. i \<in> set xs \<Longrightarrow> I s \<Longrightarrow> f i s = Ret u t \<Longrightarrow> I t"
  shows "I t"
  using assms
proof (induction xs arbitrary: s)
  case Nil
  then show ?case by simp
next
  case (Cons i xs)
  from Cons.prems(1) obtain v r where r: "f i s = Ret v r" and rest: "kfor xs f r = Ret u t"
    by (auto simp: kret)
  from Cons.prems(2) Cons.prems(3) r have "I r" by auto
  from Cons.IH [OF rest this] Cons.prems(3) show ?case by auto
qed

lemma wp_kfor:
  assumes "I 0 s" and "\<And>k s. k < length xs \<Longrightarrow> I k s \<Longrightarrow> wp (f (xs ! k) s) (\<lambda>_ t. I (Suc k) t)"
    and "\<And>t. I (length xs) t \<Longrightarrow> P () t"
  shows "wp (kfor xs f s) P"
  using assms
proof (induction xs arbitrary: s I)
  case Nil
  then show ?case by simp
next
  case (Cons x xs)
  have "wp (f x s) (\<lambda>_ t. I 1 t)" using Cons.prems(1) Cons.prems(2) [of 0 s] by simp
  moreover have "wp (kfor xs f t) P" if "I 1 t" for t
    by (rule Cons.IH [of "\<lambda>k. I (Suc k)"]) (use that Cons.prems(2) [of "Suc _"] Cons.prems(3) in auto)
  ultimately show ?case by (auto elim: wp_mono)
qed

text \<open>A loop whose body may leave the enclosing function with a value.\<close>

fun kscan :: "'i list \<Rightarrow> ('i \<Rightarrow> 's \<Rightarrow> ('r option, 's) res) \<Rightarrow> 's \<Rightarrow> ('r option, 's) res" where
  "kscan [] f s = Ret None s"
| "kscan (i # is) f s = kbind (f i s) (\<lambda>r s. case r of Some x \<Rightarrow> Ret (Some x) s | None \<Rightarrow> kscan is f s)"

lemma wp_kscan:
  assumes "I 0 s"
    and "\<And>k s. k < length xs \<Longrightarrow> I k s \<Longrightarrow>
      wp (f (xs ! k) s) (\<lambda>r t. case r of Some x \<Rightarrow> P (Some x) t | None \<Rightarrow> I (Suc k) t)"
    and "\<And>t. I (length xs) t \<Longrightarrow> P None t"
  shows "wp (kscan xs f s) P"
  using assms
proof (induction xs arbitrary: s I)
  case Nil
  then show ?case by simp
next
  case (Cons x xs)
  have "wp (f x s) (\<lambda>r t. case r of Some x \<Rightarrow> P (Some x) t | None \<Rightarrow> I (Suc 0) t)"
    using Cons.prems(1) Cons.prems(2) [of 0 s] by simp
  moreover have "wp (kscan xs f t) P" if "I (Suc 0) t" for t
    by (rule Cons.IH [of "\<lambda>k. I (Suc k)"]) (use that Cons.prems(2) [of "Suc _"] Cons.prems(3) in auto)
  ultimately show ?case by (auto elim!: wp_mono split: option.splits)
qed

section \<open>Loops over arrays\<close>

text \<open>\<open>for(i = 0; i < n; i++) a[i] = g(a[i])\<close>.\<close>

definition for_upd :: "nat \<Rightarrow> ('a \<Rightarrow> 'a) \<Rightarrow> (nat \<Rightarrow> 'a) \<Rightarrow> nat \<Rightarrow> 'a" where
  "for_upd n g a = fold (\<lambda>i a. a(i := g (a i))) [0..<n] a"

lemma for_upd_apply [simp]: "for_upd n g a i = (if i < n then g (a i) else a i)"
proof (induction n arbitrary: i)
  case 0
  then show ?case by (simp add: for_upd_def)
next
  case (Suc n)
  have "for_upd (Suc n) g a = (for_upd n g a)(n := g (for_upd n g a n))"
    by (simp add: for_upd_def)
  then show ?case using Suc by auto
qed

text \<open>
  \<open>for(i = 0; i < n; i++) if(P(i)) goto found\<close>: the first index in range that satisfies
  the test.
\<close>

definition first_idx :: "nat \<Rightarrow> (nat \<Rightarrow> bool) \<Rightarrow> nat option" where
  "first_idx n P = List.find P [0..<n]"

lemma find_upt_Some:
  "List.find P [k..<n] = Some i \<longleftrightarrow> k \<le> i \<and> i < n \<and> P i \<and> (\<forall>j. k \<le> j \<and> j < i \<longrightarrow> \<not> P j)"
proof (induction "n - k" arbitrary: k)
  case 0
  then show ?case by auto
next
  case (Suc m)
  then have kn: "k < n" and m: "m = n - Suc k" by auto
  have step: "[k..<n] = k # [Suc k..<n]" using kn by (simp add: upt_conv_Cons)
  show ?case
  proof (cases "P k")
    case True
    then show ?thesis using kn by (auto simp: step)
  next
    case False
    then show ?thesis
      using Suc(1) [OF m] kn by (auto simp: step) (metis Suc_leI le_neq_implies_less)+
  qed
qed

lemma first_idx_Some:
  "first_idx n P = Some i \<longleftrightarrow> i < n \<and> P i \<and> (\<forall>j<i. \<not> P j)"
  by (auto simp: first_idx_def find_upt_Some)

lemma first_idx_None: "first_idx n P = None \<longleftrightarrow> (\<forall>i<n. \<not> P i)"
  by (auto simp: first_idx_def find_None_iff)

lemma first_idx_SomeD:
  "first_idx n P = Some i \<Longrightarrow> i < n"
  "first_idx n P = Some i \<Longrightarrow> P i"
  "first_idx n P = Some i \<Longrightarrow> j < i \<Longrightarrow> \<not> P j"
  by (auto simp: first_idx_Some)

text \<open>Calling an operation \<open>n\<close> times, collecting what it returns.\<close>

fun draw :: "('s \<Rightarrow> 'a \<times> 's) \<Rightarrow> nat \<Rightarrow> 's \<Rightarrow> 'a list \<times> 's" where
  "draw f 0 s = ([], s)"
| "draw f (Suc n) s = (let (a, t) = f s; (as, u) = draw f n t in (a # as, u))"

section \<open>Ring buffers\<close>

text \<open>Two indices less than the size of a ring apart fall on different slots.\<close>

lemma mod_add_inj:
  fixes a j k m :: nat
  assumes "(a + j) mod m = (a + k) mod m" and "j < m" and "k < m"
  shows "j = k"
proof -
  from arg_cong [OF assms(1), of int] have "(int a + int j) mod int m = (int a + int k) mod int m"
    by (simp add: zmod_int)
  then have "int m dvd (int j - int k)" by (simp add: mod_eq_dvd_iff)
  then show ?thesis
    using assms(2,3) zdvd_not_zless [of "int j - int k" "int m"] zdvd_not_zless [of "int k - int j" "int m"]
    by (cases "j < k"; cases "k < j") (auto simp: dvd_diff_commute)
qed

section \<open>Generic contracts\<close>

text \<open>
  A transition system with an invariant: every step keeps it, so every run does. Components
  give their step relation and the invariant.
\<close>

locale invariant_system =
  fixes step :: "'s \<Rightarrow> 's \<Rightarrow> bool"
    and inv :: "'s \<Rightarrow> bool"
  assumes step_inv: "step s t \<Longrightarrow> inv s \<Longrightarrow> inv t"
begin

lemma run_inv: "step\<^sup>*\<^sup>* s t \<Longrightarrow> inv s \<Longrightarrow> inv t"
  by (induction rule: rtranclp_induct) (auto intro: step_inv)

lemma run_implies: "step\<^sup>*\<^sup>* s t \<Longrightarrow> inv s \<Longrightarrow> (\<And>u. inv u \<Longrightarrow> P u) \<Longrightarrow> P t"
  using run_inv by blast

end

text \<open>
  A table of \<open>n\<close> slots with a first-fit allocator, as \<open>allocproc\<close>, \<open>filealloc\<close>,
  \<open>fdalloc\<close> and \<open>useradd\<close> scan for one: \<open>used\<close> tells which slots are taken and
  \<open>alloc\<close> takes the first free one or fails.
\<close>

locale slot_table =
  fixes n :: nat
    and used :: "'s \<Rightarrow> nat \<Rightarrow> bool"
    and ok :: "'s \<Rightarrow> bool"
    and alloc :: "'s \<Rightarrow> (nat \<times> 's) option"
  assumes alloc_None: "ok s \<Longrightarrow> alloc s = None \<longleftrightarrow> (\<forall>i<n. used s i)"
    and alloc_fresh: "ok s \<Longrightarrow> alloc s = Some (i, t) \<Longrightarrow> i < n \<and> \<not> used s i \<and> (\<forall>j<i. used s j)"
    and alloc_used: "ok s \<Longrightarrow> alloc s = Some (i, t) \<Longrightarrow> used t j \<longleftrightarrow> j = i \<or> used s j"
    and alloc_ok: "ok s \<Longrightarrow> alloc s = Some (i, t) \<Longrightarrow> ok t"
begin

lemma alloc_card:
  assumes "ok s" and "alloc s = Some (i, t)"
  shows "card {j. j < n \<and> used t j} = Suc (card {j. j < n \<and> used s j})"
proof -
  from assms have i: "i < n" "\<not> used s i" using alloc_fresh by blast+
  have "{j. j < n \<and> used t j} = insert i {j. j < n \<and> used s j}"
    using alloc_used [OF assms] i by auto
  then show ?thesis using i by simp
qed

lemma alloc_twice_distinct:
  assumes "ok s" and "alloc s = Some (i, t)" and "alloc t = Some (j, u)"
  shows "i \<noteq> j"
  using alloc_used [OF assms(1,2)] alloc_fresh [OF alloc_ok [OF assms(1,2)] assms(3)] by auto

lemma alloc_succeeds: "ok s \<Longrightarrow> i < n \<Longrightarrow> \<not> used s i \<Longrightarrow> \<exists>j t. alloc s = Some (j, t) \<and> j \<le> i"
  using alloc_None [of s] alloc_fresh [of s]
  by (metis linorder_not_le not_Some_eq old.prod.exhaust)

end

end
