(* ===== verification/Spinlock.thy ===== *)
theory Spinlock
  imports Prelude
begin

text \<open>
  CPUs, interrupt flags and spin locks: \<open>spinlock.c\<close> and the \<open>mycpu\<close>/\<open>cpuid\<close> of
  \<open>proc.c\<close>. The state is what the CPU running the modelled code sees; other CPUs appear
  through the locks they hold. \<open>getcallerpcs\<close> and the lock's \<open>name\<close> and \<open>pcs\<close> are
  debugging aids and are left out.

  Every later theory extends the record \<open>machine\<close>; the canonical states of this theory
  (\<open>quiet\<close>, \<open>with_locks\<close>) let the simplifier run code that takes and drops locks.
\<close>

section \<open>State\<close>

record cpu =
  apicid :: u8
  ncli :: int
  intena :: bool
  cpu_proc :: "nat option"
  ts_esp0 :: u32
  cr3 :: u32

record spinlock =
  locked :: bool
  lock_cpu :: "nat option"

record machine =
  lapicid :: u8
  eflags_IF :: bool
  ncpu :: nat
  cpus :: "nat \<Rightarrow> cpu"
  locks :: "lock_id \<Rightarrow> spinlock"

definition free_lock :: spinlock where
  "free_lock = \<lparr>locked = False, lock_cpu = None\<rparr>"

definition held_by :: "nat \<Rightarrow> spinlock" where
  "held_by c = \<lparr>locked = True, lock_cpu = Some c\<rparr>"

lemma lock_shapes [simp]:
  "locked free_lock = False" "lock_cpu free_lock = None"
  "locked (held_by c) = True" "lock_cpu (held_by c) = Some c"
  "held_by c \<noteq> free_lock" "free_lock \<noteq> held_by c"
  by (simp_all add: free_lock_def held_by_def)

section \<open>Operations\<close>

definition upd_cpu :: "nat \<Rightarrow> (cpu \<Rightarrow> cpu) \<Rightarrow> 'z machine_scheme \<Rightarrow> 'z machine_scheme" where
  "upd_cpu c f s = s\<lparr>cpus := (cpus s)(c := f (cpus s c))\<rparr>"

definition mycpu :: "'z machine_scheme \<Rightarrow> (nat, 'z machine_scheme) res" where
  "mycpu s =
     (if eflags_IF s then Panic ''mycpu called with interrupts enabled''
      else case first_idx (ncpu s) (\<lambda>i. apicid (cpus s i) = lapicid s) of
             Some i \<Rightarrow> Ret i s
           | None \<Rightarrow> Panic ''unknown apicid'')"

definition cpuid :: "'z machine_scheme \<Rightarrow> (nat, 'z machine_scheme) res" where
  "cpuid s = mycpu s"

definition pushcli :: "'z machine_scheme \<Rightarrow> (unit, 'z machine_scheme) res" where
  "pushcli s =
     (let eflags = eflags_IF s;
          s = s\<lparr>eflags_IF := False\<rparr>
      in kbind (mycpu s) (\<lambda>c s.
         let s = (if ncli (cpus s c) = 0 then upd_cpu c (\<lambda>u. u\<lparr>intena := eflags\<rparr>) s else s)
         in Ret () (upd_cpu c (\<lambda>u. u\<lparr>ncli := ncli u + 1\<rparr>) s)))"

definition popcli :: "'z machine_scheme \<Rightarrow> (unit, 'z machine_scheme) res" where
  "popcli s =
     (if eflags_IF s then Panic ''popcli - interruptible''
      else kbind (mycpu s) (\<lambda>c s.
        let s = upd_cpu c (\<lambda>u. u\<lparr>ncli := ncli u - 1\<rparr>) s
        in if ncli (cpus s c) < 0 then Panic ''popcli''
           else if ncli (cpus s c) = 0 \<and> intena (cpus s c) then Ret () (s\<lparr>eflags_IF := True\<rparr>)
           else Ret () s))"

definition holding :: "lock_id \<Rightarrow> 'z machine_scheme \<Rightarrow> (bool, 'z machine_scheme) res" where
  "holding l s =
     kbind (pushcli s) (\<lambda>_ s.
     kbind (mycpu s) (\<lambda>c s.
     let r = (locked (locks s l) \<and> lock_cpu (locks s l) = Some c)
     in kbind (popcli s) (\<lambda>_ s. Ret r s)))"

definition initlock :: "lock_id \<Rightarrow> 'z machine_scheme \<Rightarrow> (unit, 'z machine_scheme) res" where
  "initlock l s = Ret () (s\<lparr>locks := (locks s)(l := free_lock)\<rparr>)"

text \<open>
  The exchange loop \<open>while(xchg(&lk->locked, 1) != 0)\<close> ends at once on a free lock; on a
  lock another CPU holds it waits for that CPU, which is the outcome \<open>Spins\<close>.
\<close>

definition acquire :: "lock_id \<Rightarrow> 'z machine_scheme \<Rightarrow> (unit, 'z machine_scheme) res" where
  "acquire l s =
     kbind (pushcli s) (\<lambda>_ s.
     kbind (holding l s) (\<lambda>r s.
     if r then Panic ''acquire''
     else if locked (locks s l) then Spins l
     else let s = s\<lparr>locks := (locks s)(l := (locks s l)\<lparr>locked := True\<rparr>)\<rparr>
          in kbind (mycpu s) (\<lambda>c s.
             Ret () (s\<lparr>locks := (locks s)(l := (locks s l)\<lparr>lock_cpu := Some c\<rparr>)\<rparr>))))"

definition release :: "lock_id \<Rightarrow> 'z machine_scheme \<Rightarrow> (unit, 'z machine_scheme) res" where
  "release l s =
     kbind (holding l s) (\<lambda>r s.
     if \<not> r then Panic ''release''
     else let s = s\<lparr>locks := (locks s)(l := (locks s l)\<lparr>lock_cpu := None\<rparr>)\<rparr>;
              s = s\<lparr>locks := (locks s)(l := (locks s l)\<lparr>locked := False\<rparr>)\<rparr>
          in popcli s)"

section \<open>Canonical states\<close>

text \<open>
  \<open>this_cpu\<close>: the index of the CPU the code runs on. \<open>quiet\<close>: a kernel thread that holds
  no spin lock, with every lock free and \<open>intena\<close> recording the current interrupt flag, as
  \<open>myproc\<close> leaves it at the start of every trap. \<open>with_locks L s\<close>: the same state with
  exactly the locks of \<open>L\<close> held by this CPU.
\<close>

definition this_cpu :: "'z machine_scheme \<Rightarrow> nat" where
  "this_cpu s = the (first_idx (ncpu s) (\<lambda>i. apicid (cpus s i) = lapicid s))"

definition cpu_known :: "'z machine_scheme \<Rightarrow> bool" where
  "cpu_known s \<longleftrightarrow> first_idx (ncpu s) (\<lambda>i. apicid (cpus s i) = lapicid s) = Some (this_cpu s)"

definition quiet :: "'z machine_scheme \<Rightarrow> bool" where
  "quiet s \<longleftrightarrow> cpu_known s \<and> ncli (cpus s (this_cpu s)) = 0 \<and>
     intena (cpus s (this_cpu s)) = eflags_IF s \<and> (\<forall>l. locks s l = free_lock)"

definition with_locks :: "lock_id list \<Rightarrow> 'z machine_scheme \<Rightarrow> 'z machine_scheme" where
  "with_locks L s =
     s\<lparr>eflags_IF := (L = [] \<and> eflags_IF s),
       cpus := (cpus s)(this_cpu s := (cpus s (this_cpu s))\<lparr>ncli := int (length L)\<rparr>),
       locks := (\<lambda>l. if l \<in> set L then held_by (this_cpu s) else locks s l)\<rparr>"

lemma this_cpu_frame [simp]:
  "this_cpu (s\<lparr>eflags_IF := b\<rparr>) = this_cpu s"
  "this_cpu (s\<lparr>locks := m\<rparr>) = this_cpu s"
  by (simp_all add: this_cpu_def)

lemma with_locks_ids:
  "(\<lambda>i. apicid (cpus (with_locks L s) i) = lapicid (with_locks L s)) =
     (\<lambda>i. apicid (cpus s i) = lapicid s)"
  "ncpu (with_locks L s) = ncpu s"
  by (auto simp: with_locks_def)

lemma this_cpu_with_locks [simp]: "this_cpu (with_locks L s) = this_cpu s"
  by (simp only: this_cpu_def with_locks_ids)

lemma cpu_known_with_locks [simp]: "cpu_known (with_locks L s) = cpu_known s"
  by (simp only: cpu_known_def this_cpu_with_locks with_locks_ids)

lemma locks_with_locks [simp]:
  "locks (with_locks L s) l = (if l \<in> set L then held_by (this_cpu s) else locks s l)"
  by (simp add: with_locks_def)

lemma ncli_with_locks [simp]: "ncli (cpus (with_locks L s) (this_cpu s)) = int (length L)"
  by (simp add: with_locks_def)

lemma eflags_with_locks [simp]: "eflags_IF (with_locks L s) \<longleftrightarrow> L = [] \<and> eflags_IF s"
  by (simp add: with_locks_def)

lemma cpus_with_locks_sel [simp]:
  "cpu_proc (cpus (with_locks L s) c) = cpu_proc (cpus s c)"
  "intena (cpus (with_locks L s) c) = intena (cpus s c)"
  "apicid (cpus (with_locks L s) c) = apicid (cpus s c)"
  by (simp_all add: with_locks_def)

lemma intena_upd_same: "intena u = b \<Longrightarrow> u\<lparr>intena := b\<rparr> = u"
  by (cases u) simp

lemma ncli_upd_same: "ncli u = n \<Longrightarrow> u\<lparr>ncli := n\<rparr> = u"
  by (cases u) simp

lemma with_locks_Nil [simp]: "quiet s \<Longrightarrow> with_locks [] s = s"
  by (cases s) (auto simp: with_locks_def quiet_def ncli_upd_same)

lemma quietD:
  assumes "quiet s"
  shows "cpu_known s" "ncli (cpus s (this_cpu s)) = 0"
    "intena (cpus s (this_cpu s)) = eflags_IF s" "locks s l = free_lock"
  using assms by (simp_all add: quiet_def)

lemma mycpu_eq: "cpu_known s \<Longrightarrow> \<not> eflags_IF s \<Longrightarrow> mycpu s = Ret (this_cpu s) s"
  by (simp add: mycpu_def cpu_known_def)

lemma mycpu_with_locks [simp]:
  "quiet s \<Longrightarrow> L \<noteq> [] \<Longrightarrow> mycpu (with_locks L s) = Ret (this_cpu s) (with_locks L s)"
  by (simp add: mycpu_eq quietD)


text \<open>
  The effect of the operations on canonical states. A push and a pop of \<open>holding\<close> cancel
  as long as one lock or one \<open>pushcli\<close> is outstanding.
\<close>

lemma upd_cpu_ids:
  assumes "\<And>u. apicid (f u) = apicid u"
  shows "this_cpu (upd_cpu c f s) = this_cpu s" and "cpu_known (upd_cpu c f s) = cpu_known s"
proof -
  have "(\<lambda>i. apicid (cpus (upd_cpu c f s) i) = lapicid (upd_cpu c f s)) =
      (\<lambda>i. apicid (cpus s i) = lapicid s)"
    using assms by (auto simp: upd_cpu_def)
  moreover have "ncpu (upd_cpu c f s) = ncpu s" by (simp add: upd_cpu_def)
  ultimately show "this_cpu (upd_cpu c f s) = this_cpu s"
    and "cpu_known (upd_cpu c f s) = cpu_known s"
    by (simp_all only: this_cpu_def cpu_known_def)
qed

text \<open>The state \<open>pushcli\<close> produces.\<close>

definition pushed :: "'z machine_scheme \<Rightarrow> 'z machine_scheme" where
  "pushed s = upd_cpu (this_cpu s)
     (\<lambda>u. u\<lparr>intena := (if ncli u = 0 then eflags_IF s else intena u), ncli := ncli u + 1\<rparr>)
     (s\<lparr>eflags_IF := False\<rparr>)"

lemma cpu_known_eflags [simp]:
  "cpu_known (s\<lparr>eflags_IF := b\<rparr>) = cpu_known s"
  "cpu_known (s\<lparr>locks := m\<rparr>) = cpu_known s"
  by (simp_all add: cpu_known_def)

lemma pushcli_eq: "cpu_known s \<Longrightarrow> pushcli s = Ret () (pushed s)"
  by (simp add: pushcli_def Let_def mycpu_eq pushed_def upd_cpu_def intena_upd_same)

lemma pushed_simps [simp]:
  "this_cpu (pushed s) = this_cpu s" "cpu_known (pushed s) = cpu_known s"
  "eflags_IF (pushed s) = False" "locks (pushed s) = locks s"
  "ncli (cpus (pushed s) (this_cpu s)) = ncli (cpus s (this_cpu s)) + 1"
  "cpu_proc (cpus (pushed s) c) = cpu_proc (cpus s c)"
  by (simp_all add: pushed_def upd_cpu_ids) (simp_all add: upd_cpu_def)

lemma upd_pushed:
  "upd_cpu (this_cpu s) (\<lambda>u. u\<lparr>ncli := ncli u - 1\<rparr>) (pushed s) =
   upd_cpu (this_cpu s) (\<lambda>u. u\<lparr>intena := (if ncli u = 0 then eflags_IF s else intena u)\<rparr>)
     (s\<lparr>eflags_IF := False\<rparr>)"
  by (simp add: pushed_def upd_cpu_def)

lemma popcli_pushed:
  assumes known: "cpu_known s" and nonneg: "0 \<le> ncli (cpus s (this_cpu s))"
    and settled: "ncli (cpus s (this_cpu s)) = 0 \<Longrightarrow> intena (cpus s (this_cpu s)) = eflags_IF s"
    and masked: "0 < ncli (cpus s (this_cpu s)) \<Longrightarrow> \<not> eflags_IF s"
  shows "popcli (pushed s) = Ret () s"
proof -
  let ?c = "this_cpu s"
  let ?t = "s\<lparr>eflags_IF := False\<rparr>"
  have t: "upd_cpu ?c (\<lambda>u. u\<lparr>ncli := ncli u - 1\<rparr>) (pushed s) = ?t"
    using settled unfolding upd_pushed by (auto simp: upd_cpu_def intena_upd_same)
  have "popcli (pushed s) =
      (if ncli (cpus s ?c) = 0 \<and> intena (cpus s ?c) then Ret () (?t\<lparr>eflags_IF := True\<rparr>) else Ret () ?t)"
    using known nonneg by (simp add: popcli_def mycpu_eq t Let_def)
  then show ?thesis
    using settled masked nonneg by (cases s) auto
qed

text \<open>\<open>holding\<close> leaves the state as it was and tells whether this CPU holds the lock.\<close>

lemma holding_eq:
  assumes "cpu_known s" and "0 \<le> ncli (cpus s (this_cpu s))"
    and "ncli (cpus s (this_cpu s)) = 0 \<Longrightarrow> intena (cpus s (this_cpu s)) = eflags_IF s"
    and "0 < ncli (cpus s (this_cpu s)) \<Longrightarrow> \<not> eflags_IF s"
  shows "holding l s = Ret (locked (locks s l) \<and> lock_cpu (locks s l) = Some (this_cpu s)) s"
  using assms by (simp add: holding_def pushcli_eq mycpu_eq popcli_pushed Let_def)

lemma holding_with_locks [simp]:
  "quiet s \<Longrightarrow> holding l (with_locks L s) = Ret (l \<in> set L) (with_locks L s)"
  by (subst holding_eq) (auto simp: quietD)

lemma popcli_pushed_with_locks: "quiet s \<Longrightarrow> popcli (pushed (with_locks L s)) = Ret () (with_locks L s)"
  by (subst popcli_pushed) (auto simp: quietD)

lemma pushed_with_locks:
  "quiet s \<Longrightarrow> pushed (with_locks L s) =
     (with_locks L s)\<lparr>eflags_IF := False,
        cpus := (cpus s)(this_cpu s := (cpus s (this_cpu s))\<lparr>ncli := int (length L) + 1\<rparr>)\<rparr>"
  unfolding pushed_def upd_cpu_def this_cpu_with_locks this_cpu_frame
  by (auto simp: with_locks_def quiet_def intena_upd_same)

lemma ncli_pushed_with_locks [simp]:
  "ncli (cpus (pushed (with_locks L s)) (this_cpu s)) = int (length L) + 1"
  using pushed_simps(5) [of "with_locks L s"] by simp

lemma acquire_with_locks [simp]:
  assumes "quiet s" and "l \<notin> set L"
  shows "acquire l (with_locks L s) = Ret () (with_locks (l # L) s)"
proof -
  let ?p = "pushed (with_locks L s)"
  have h: "holding l ?p = Ret False ?p"
    using assms by (subst holding_eq) (auto simp: quietD)
  have "acquire l (with_locks L s) = Ret () (?p\<lparr>locks := (locks ?p)(l := held_by (this_cpu s))\<rparr>)"
    using assms by (simp add: acquire_def pushcli_eq quietD Let_def mycpu_eq h held_by_def free_lock_def)
  also have "?p\<lparr>locks := (locks ?p)(l := held_by (this_cpu s))\<rparr> = with_locks (l # L) s"
    unfolding pushed_simps pushed_with_locks [OF assms(1)] by (auto simp: with_locks_def fun_eq_iff)
  finally show ?thesis .
qed

lemma acquire_quiet [simp]: "quiet s \<Longrightarrow> acquire l s = Ret () (with_locks [l] s)"
  using acquire_with_locks [of s l "[]"] by simp

lemma acquire_held_panics [simp]:
  assumes "quiet s" and "l \<in> set L"
  shows "acquire l (with_locks L s) = Panic ''acquire''"
proof -
  have "holding l (pushed (with_locks L s)) = Ret True (pushed (with_locks L s))"
    using assms by (subst holding_eq) (auto simp: quietD)
  then show ?thesis
    using assms by (simp add: acquire_def pushcli_eq quietD)
qed

lemma popcli_eq:
  "cpu_known s \<Longrightarrow> \<not> eflags_IF s \<Longrightarrow> 0 < ncli (cpus s (this_cpu s)) \<Longrightarrow>
   popcli s = Ret () (s\<lparr>eflags_IF := (ncli (cpus s (this_cpu s)) = 1 \<and> intena (cpus s (this_cpu s))),
     cpus := (cpus s)(this_cpu s := (cpus s (this_cpu s))\<lparr>ncli := ncli (cpus s (this_cpu s)) - 1\<rparr>)\<rparr>)"
  by (cases s) (auto simp: popcli_def mycpu_eq Let_def upd_cpu_def)

lemma release_with_locks [simp]:
  assumes "quiet s" and "l \<in> set L" and "distinct L"
  shows "release l (with_locks L s) = Ret () (with_locks (remove1 l L) s)"
proof -
  let ?r = "(with_locks L s)\<lparr>locks := (locks (with_locks L s))(l := free_lock)\<rparr>"
  obtain m where m: "length L = Suc m"
    using assms(2) by (cases L) auto
  then have L: "L \<noteq> []" "length (remove1 l L) = m" "remove1 l L = [] \<longleftrightarrow> m = 0"
    using assms by (auto simp: length_remove1 simp flip: length_0_conv)
  have "release l (with_locks L s) = popcli ?r"
    using assms by (simp add: release_def Let_def free_lock_def held_by_def)
  also have "\<dots> = Ret () (?r\<lparr>eflags_IF := (m = 0 \<and> intena (cpus s (this_cpu s))),
      cpus := (cpus ?r)(this_cpu s := (cpus ?r (this_cpu s))\<lparr>ncli := int m\<rparr>)\<rparr>)"
    using assms L m popcli_eq [of ?r] by (auto simp: quietD)
  also have "?r\<lparr>eflags_IF := (m = 0 \<and> intena (cpus s (this_cpu s))),
      cpus := (cpus ?r)(this_cpu s := (cpus ?r (this_cpu s))\<lparr>ncli := int m\<rparr>)\<rparr> =
      with_locks (remove1 l L) s"
    using assms L by (intro machine.equality) (auto simp: with_locks_def quietD)
  finally show ?thesis .
qed

lemma release_not_held_panics [simp]:
  "quiet s \<Longrightarrow> l \<notin> set L \<Longrightarrow> release l (with_locks L s) = Panic ''release''"
  by (simp add: release_def)

section \<open>Updates of the CPU record that locks do not see\<close>

definition cpu_neutral :: "(cpu \<Rightarrow> cpu) \<Rightarrow> bool" where
  "cpu_neutral f \<longleftrightarrow> (\<forall>u. apicid (f u) = apicid u \<and> ncli (f u) = ncli u \<and> intena (f u) = intena u) \<and>
     (\<forall>u n. f (u\<lparr>ncli := n\<rparr>) = (f u)\<lparr>ncli := n\<rparr>) \<and> (\<forall>u b. f (u\<lparr>intena := b\<rparr>) = (f u)\<lparr>intena := b\<rparr>)"

lemma cpu_neutral_fields [simp]:
  "cpu_neutral (\<lambda>u. u\<lparr>cpu_proc := p\<rparr>)" "cpu_neutral (\<lambda>u. u\<lparr>ts_esp0 := e\<rparr>)"
  "cpu_neutral (\<lambda>u. u\<lparr>cr3 := d\<rparr>)"
  by (simp_all add: cpu_neutral_def)

lemma upd_cpu_neutral:
  assumes "cpu_neutral f"
  shows "this_cpu (upd_cpu c f s) = this_cpu s" "cpu_known (upd_cpu c f s) = cpu_known s"
    "quiet (upd_cpu c f s) = quiet s"
    "upd_cpu c f (with_locks L s) = with_locks L (upd_cpu c f s)"
    "pushed (upd_cpu c f s) = upd_cpu c f (pushed s)"
proof -
  have f: "apicid (f u) = apicid u" "ncli (f u) = ncli u" "intena (f u) = intena u"
      "f (u\<lparr>ncli := n\<rparr>) = (f u)\<lparr>ncli := n\<rparr>" "f (u\<lparr>intena := b\<rparr>) = (f u)\<lparr>intena := b\<rparr>" for u n b
    using assms by (auto simp: cpu_neutral_def)
  show id: "this_cpu (upd_cpu c f s) = this_cpu s" "cpu_known (upd_cpu c f s) = cpu_known s"
    by (rule upd_cpu_ids, rule f(1))+
  have sel: "eflags_IF (upd_cpu c f s) = eflags_IF s" "locks (upd_cpu c f s) = locks s"
      "ncli (cpus (upd_cpu c f s) d) = ncli (cpus s d)"
      "intena (cpus (upd_cpu c f s) d) = intena (cpus s d)" for d
    by (simp_all add: upd_cpu_def f)
  show "quiet (upd_cpu c f s) = quiet s"
    by (simp only: quiet_def id sel)
  show "upd_cpu c f (with_locks L s) = with_locks L (upd_cpu c f s)"
    unfolding with_locks_def id sel by (rule machine.equality) (auto simp: upd_cpu_def f)
  show "pushed (upd_cpu c f s) = upd_cpu c f (pushed s)"
    unfolding pushed_def id sel by (rule machine.equality) (auto simp: upd_cpu_def f)
qed

lemma upd_cpu_sel [simp]:
  "locks (upd_cpu c f s) = locks s" "eflags_IF (upd_cpu c f s) = eflags_IF s"
  "cpus (upd_cpu c f s) = (cpus s)(c := f (cpus s c))"
  by (simp_all add: upd_cpu_def)

text \<open>
  A CPU that holds nothing, whatever \<open>intena\<close> says: the state at the head of the schedulers'
  loops. Taking a lock first records the interrupt flag.
\<close>

definition calm :: "'z machine_scheme \<Rightarrow> bool" where
  "calm s \<longleftrightarrow> cpu_known s \<and> ncli (cpus s (this_cpu s)) = 0 \<and> (\<forall>l. locks s l = free_lock)"

definition settle :: "'z machine_scheme \<Rightarrow> 'z machine_scheme" where
  "settle s = upd_cpu (this_cpu s) (\<lambda>u. u\<lparr>intena := eflags_IF s\<rparr>) s"

lemma quiet_calm: "quiet s \<Longrightarrow> calm s"
  by (simp add: quiet_def calm_def)

lemma calm_eflags [simp]: "calm (s\<lparr>eflags_IF := b\<rparr>) = calm s"
  by (simp add: calm_def)

lemma settle_ids [simp]: "this_cpu (settle s) = this_cpu s" "cpu_known (settle s) = cpu_known s"
  by (simp_all add: settle_def upd_cpu_ids)

lemma settle_eflags [simp]: "eflags_IF (settle s) = eflags_IF s"
  by (simp add: settle_def)

lemma settle_quiet [simp]: "calm s \<Longrightarrow> quiet (settle s)"
  by (simp add: calm_def quiet_def) (simp add: settle_def)

lemma pushed_settle: "calm s \<Longrightarrow> pushed (settle s) = pushed s"
  unfolding pushed_def settle_ids
  by (simp add: settle_def calm_def) (simp add: upd_cpu_def)

lemma acquire_calm: "calm s \<Longrightarrow> acquire l s = Ret () (with_locks [l] (settle s))"
proof -
  assume c: "calm s"
  then have "cpu_known s" by (simp add: calm_def)
  then have "pushcli s = pushcli (settle s)"
    by (simp add: pushcli_eq pushed_settle [OF c])
  then have "acquire l s = acquire l (settle s)"
    by (simp add: acquire_def)
  then show ?thesis using c by simp
qed

section \<open>What lock operations leave alone\<close>

text \<open>
  Locks and interrupt flags touch nothing outside \<open>eflags_IF\<close>, \<open>cpus\<close> and \<open>locks\<close>;
  \<open>no_locks\<close> blanks these three fields.
\<close>

definition no_locks :: "'z machine_scheme \<Rightarrow> 'z machine_scheme" where
  "no_locks s = s\<lparr>eflags_IF := False, locks := (\<lambda>_. free_lock),
     cpus := (\<lambda>_. \<lparr>apicid = 0, ncli = 0, intena = False, cpu_proc = None, ts_esp0 = 0, cr3 = 0\<rparr>)\<rparr>"

lemma no_locks_upds [simp]:
  "no_locks (s\<lparr>eflags_IF := b\<rparr>) = no_locks s" "no_locks (s\<lparr>locks := l\<rparr>) = no_locks s"
  "no_locks (s\<lparr>cpus := u\<rparr>) = no_locks s"
  "no_locks (upd_cpu c f s) = no_locks s" "no_locks (with_locks L s) = no_locks s"
  "no_locks (settle s) = no_locks s"
  by (simp_all add: no_locks_def upd_cpu_def with_locks_def settle_def)

lemma mycpu_Ret: "mycpu s = Ret c t \<Longrightarrow> t = s"
  by (auto simp: mycpu_def split: if_splits option.splits)

lemma pushcli_frame: "pushcli s = Ret u t \<Longrightarrow> no_locks t = no_locks s"
  by (auto simp: pushcli_def Let_def kret dest!: mycpu_Ret)

lemma popcli_frame: "popcli s = Ret u t \<Longrightarrow> no_locks t = no_locks s"
  by (auto simp: popcli_def Let_def kret dest!: mycpu_Ret split: if_splits)

lemma holding_frame: "holding l s = Ret r t \<Longrightarrow> no_locks t = no_locks s"
  by (auto simp: holding_def Let_def kret dest!: mycpu_Ret pushcli_frame popcli_frame)

lemma acquire_frame: "acquire l s = Ret u t \<Longrightarrow> no_locks t = no_locks s"
  by (auto simp: acquire_def Let_def kret dest!: mycpu_Ret pushcli_frame holding_frame split: if_splits)

lemma release_frame: "release l s = Ret u t \<Longrightarrow> no_locks t = no_locks s"
  by (auto simp: release_def Let_def kret dest!: holding_frame popcli_frame split: if_splits)

end
