(* ===== verification/Bytes.thy ===== *)
theory Bytes
  imports Prelude
begin

text \<open>
  Byte buffers (a disk block, a table in kernel memory) as functions from offsets to bytes,
  with \<open>memmove\<close>-style reads and writes and the little-endian layout the i386 gives
  \<open>short\<close>, \<open>uint\<close> and the structs that go to disk.
\<close>

type_synonym buffer = "nat \<Rightarrow> u8"

definition get_bytes :: "buffer \<Rightarrow> nat \<Rightarrow> nat \<Rightarrow> u8 list" where
  "get_bytes m off n = map (\<lambda>i. m (off + i)) [0..<n]"

definition put_bytes :: "buffer \<Rightarrow> nat \<Rightarrow> u8 list \<Rightarrow> buffer" where
  "put_bytes m off xs = (\<lambda>i. if off \<le> i \<and> i < off + length xs then xs ! (i - off) else m i)"

lemma length_get_bytes [simp]: "length (get_bytes m off n) = n"
  by (simp add: get_bytes_def)

lemma nth_get_bytes [simp]: "i < n \<Longrightarrow> get_bytes m off n ! i = m (off + i)"
  by (simp add: get_bytes_def)

lemma get_bytes_0 [simp]: "get_bytes m off 0 = []"
  by (simp add: get_bytes_def)

lemma get_put_bytes [simp]: "get_bytes (put_bytes m off xs) off (length xs) = xs"
  by (rule nth_equalityI) (simp_all add: put_bytes_def)

lemma get_put_bytes_other:
  "off + length xs \<le> off' \<or> off' + n \<le> off \<Longrightarrow>
     get_bytes (put_bytes m off xs) off' n = get_bytes m off' n"
  by (rule nth_equalityI) (auto simp: put_bytes_def)

lemma put_bytes_apply_out [simp]:
  "i < off \<or> off + length xs \<le> i \<Longrightarrow> put_bytes m off xs i = m i"
  by (auto simp: put_bytes_def)

lemma put_bytes_Nil [simp]: "put_bytes m off [] = m"
  by (auto simp: put_bytes_def fun_eq_iff)

lemma put_get_bytes_same [simp]: "put_bytes m off (get_bytes m off n) = m"
  by (auto simp: put_bytes_def fun_eq_iff)

lemma get_bytes_append: "get_bytes m off (n + k) = get_bytes m off n @ get_bytes m (off + n) k"
  by (rule nth_equalityI) (auto simp: nth_append)

lemma get_bytes_eq_iff:
  "get_bytes m off n = get_bytes m' off n \<longleftrightarrow> (\<forall>i<n. m (off + i) = m' (off + i))"
  by (auto simp: list_eq_iff_nth_eq)

section \<open>Little-endian integers\<close>

definition le16 :: "u16 \<Rightarrow> u8 list" where
  "le16 w = [ucast w, ucast (drop_bit 8 w)]"

definition le32 :: "u32 \<Rightarrow> u8 list" where
  "le32 w = [ucast w, ucast (drop_bit 8 w), ucast (drop_bit 16 w), ucast (drop_bit 24 w)]"

definition load16 :: "buffer \<Rightarrow> nat \<Rightarrow> u16" where
  "load16 m off = ucast (m off) + push_bit 8 (ucast (m (off + 1)))"

definition load32 :: "buffer \<Rightarrow> nat \<Rightarrow> u32" where
  "load32 m off = ucast (m off) + push_bit 8 (ucast (m (off + 1)))
     + push_bit 16 (ucast (m (off + 2))) + push_bit 24 (ucast (m (off + 3)))"

definition store16 :: "buffer \<Rightarrow> nat \<Rightarrow> u16 \<Rightarrow> buffer" where
  "store16 m off w = put_bytes m off (le16 w)"

definition store32 :: "buffer \<Rightarrow> nat \<Rightarrow> u32 \<Rightarrow> buffer" where
  "store32 m off w = put_bytes m off (le32 w)"

lemma length_le16 [simp]: "length (le16 w) = 2"
  by (simp add: le16_def)

lemma length_le32 [simp]: "length (le32 w) = 4"
  by (simp add: le32_def)

lemma bytes_of_u16:
  "ucast (ucast w :: u8) + push_bit 8 (ucast (ucast (drop_bit 8 w) :: u8)) = (w :: u16)"
proof -
  have "ucast (ucast w :: u8) + push_bit 8 (ucast (ucast (drop_bit 8 w) :: u8)) =
      or (ucast (ucast w :: u8)) (push_bit 8 (ucast (ucast (drop_bit 8 w) :: u8)) :: u16)"
    by (rule disjunctive_add) (auto simp: bit_simps)
  also have "\<dots> = w"
    by (rule bit_word_eqI) (auto simp: bit_simps)
  finally show ?thesis .
qed

lemma bytes_of_u32:
  "ucast (ucast w :: u8) + push_bit 8 (ucast (ucast (drop_bit 8 w) :: u8))
     + push_bit 16 (ucast (ucast (drop_bit 16 w) :: u8))
     + push_bit 24 (ucast (ucast (drop_bit 24 w) :: u8)) = (w :: u32)"
  apply (subst disjunctive_add, (auto simp: bit_simps)[1])+
  apply (rule bit_word_eqI)
  subgoal for n by (cases "n < 24"; cases "n < 16") (auto simp: bit_simps)
  done

lemma load16_store16 [simp]: "load16 (store16 m off w) off = w"
  by (simp add: load16_def store16_def put_bytes_def le16_def bytes_of_u16)

lemma load32_store32 [simp]: "load32 (store32 m off w) off = w"
  by (simp add: load32_def store32_def put_bytes_def le32_def bytes_of_u32
      numeral_2_eq_2 numeral_3_eq_3)

lemma load32_put_other:
  "off + length xs \<le> off' \<or> off' + 4 \<le> off \<Longrightarrow> load32 (put_bytes m off xs) off' = load32 m off'"
  by (auto simp: load32_def)

lemma load16_put_other:
  "off + length xs \<le> off' \<or> off' + 2 \<le> off \<Longrightarrow> load16 (put_bytes m off xs) off' = load16 m off'"
  by (auto simp: load16_def)

end
