(* ===== verification/CStrings.thy ===== *)
theory CStrings
  imports Bytes
begin

text \<open>
  The C string and memory routines of \<open>string.c\<close> and \<open>ulib.c\<close>, and the copies of
  \<open>strcmp\<close> (\<open>proc.c\<close>) and \<open>strcpy\<close> (\<open>PRJ03_syscall.c\<close>) the kernel links.

  A \<open>const char *\<close> argument that is NUL-terminated is the list of the bytes before its NUL
  (\<open>wf_cstr\<close>: none of them is 0). Routines that write memory work on a buffer and offsets
  into it.
\<close>

definition wf_cstr :: "cstring \<Rightarrow> bool" where
  "wf_cstr s \<longleftrightarrow> 0 \<notin> set s"

text \<open>The bytes of a string literal.\<close>

definition str :: "string \<Rightarrow> cstring" where
  "str s = map of_char s"

lemma str_Nil: "str [] = []"
  by (simp add: str_def)

lemma str_Cons: "str (c # s) = of_char c # str s"
  by (simp add: str_def)

lemma length_str [simp]: "length (str s) = length s"
  by (simp add: str_def)

lemmas str_simps = str_Nil str_Cons

section \<open>Comparison\<close>

text \<open>\<open>while(*p && *p == *q) p++, q++; return (uchar)*p - (uchar)*q;\<close>\<close>

fun strcmp :: "cstring \<Rightarrow> cstring \<Rightarrow> int" where
  "strcmp [] [] = 0"
| "strcmp [] (y # ys) = - uint y"
| "strcmp (x # xs) [] = uint x"
| "strcmp (x # xs) (y # ys) = (if x = y then strcmp xs ys else uint x - uint y)"

fun strncmp :: "cstring \<Rightarrow> cstring \<Rightarrow> nat \<Rightarrow> int" where
  "strncmp p q 0 = 0"
| "strncmp [] [] (Suc n) = 0"
| "strncmp [] (y # ys) (Suc n) = - uint y"
| "strncmp (x # xs) [] (Suc n) = uint x"
| "strncmp (x # xs) (y # ys) (Suc n) = (if x = y then strncmp xs ys n else uint x - uint y)"

lemma uint_eq_0 [simp]: "uint (x :: 'a::len word) = 0 \<longleftrightarrow> x = 0"
  by (simp add: uint_0_iff)

lemma uint_eq_uint [simp]: "uint (x :: 'a::len word) = uint y \<longleftrightarrow> x = y"
  by (simp add: word_uint_eq_iff)

lemma strcmp_eq_0:
  "wf_cstr p \<Longrightarrow> wf_cstr q \<Longrightarrow> strcmp p q = 0 \<longleftrightarrow> p = q"
  by (induction p q rule: strcmp.induct) (auto simp: wf_cstr_def)

lemma strncmp_eq_0:
  "wf_cstr p \<Longrightarrow> wf_cstr q \<Longrightarrow> strncmp p q n = 0 \<longleftrightarrow> take n p = take n q"
  by (induction p q n rule: strncmp.induct) (auto simp: wf_cstr_def)

lemma strcmp_antisym: "strcmp p q = - strcmp q p"
  by (induction p q rule: strcmp.induct) auto

definition strlen :: "cstring \<Rightarrow> nat" where
  "strlen s = length s"

fun memcmp :: "u8 list \<Rightarrow> u8 list \<Rightarrow> nat \<Rightarrow> int" where
  "memcmp (x # xs) (y # ys) (Suc n) = (if x \<noteq> y then uint x - uint y else memcmp xs ys n)"
| "memcmp xs ys n = 0"

lemma memcmp_eq_0:
  "n \<le> length p \<Longrightarrow> n \<le> length q \<Longrightarrow> memcmp p q n = 0 \<longleftrightarrow> take n p = take n q"
  by (induction p q n rule: memcmp.induct) auto

section \<open>Reading a string out of a buffer\<close>

text \<open>The C string that starts at \<open>off\<close>, looking no further than \<open>lim\<close>.\<close>

definition cstr_at :: "buffer \<Rightarrow> nat \<Rightarrow> nat \<Rightarrow> cstring" where
  "cstr_at m off lim = takeWhile (\<lambda>b. b \<noteq> 0) (get_bytes m off (lim - off))"

lemma wf_cstr_at [simp]: "wf_cstr (cstr_at m off lim)"
  by (auto simp: wf_cstr_def cstr_at_def dest: set_takeWhileD)

section \<open>Copying strings\<close>

text \<open>The bytes \<open>strncpy(s, t, n)\<close> stores at \<open>s\<close>.\<close>

fun strncpy :: "cstring \<Rightarrow> nat \<Rightarrow> u8 list" where
  "strncpy t 0 = []"
| "strncpy [] (Suc n) = 0 # replicate n 0"
| "strncpy (x # xs) (Suc n) = x # strncpy xs n"

lemma length_strncpy [simp]: "length (strncpy t n) = n"
  by (induction t n rule: strncpy.induct) auto

lemma strncpy_eq: "strncpy t n = take n t @ replicate (n - length t) 0"
  by (induction t n rule: strncpy.induct) auto

text \<open>
  The bytes \<open>safestrcpy(s, t, n)\<close> stores at \<open>s\<close>: \<open>while(--n > 0 && (*s++ = *t++) != 0);
  *s = 0\<close>. The second NUL after a short string is the \<open>*s = 0\<close> after the copied NUL.
\<close>

fun safestrcpy :: "cstring \<Rightarrow> nat \<Rightarrow> u8 list" where
  "safestrcpy t 0 = []"
| "safestrcpy t (Suc 0) = [0]"
| "safestrcpy [] (Suc (Suc n)) = [0, 0]"
| "safestrcpy (x # xs) (Suc (Suc n)) = x # safestrcpy xs (Suc n)"

lemma length_safestrcpy: "length (safestrcpy t n) \<le> n"
  by (induction t n rule: safestrcpy.induct) auto

lemma takeWhile_safestrcpy:
  "wf_cstr t \<Longrightarrow> 0 < n \<Longrightarrow> takeWhile (\<lambda>b. b \<noteq> 0) (safestrcpy t n) = take (n - 1) t"
  by (induction t n rule: safestrcpy.induct) (auto simp: wf_cstr_def)

text \<open>The string a reader finds after \<open>safestrcpy(s, t, n)\<close> with \<open>0 < n\<close>.\<close>

definition safestrcpy_str :: "cstring \<Rightarrow> nat \<Rightarrow> cstring" where
  "safestrcpy_str t n = takeWhile (\<lambda>b. b \<noteq> 0) (safestrcpy t n)"

text \<open>\<open>strcpy\<close> into a buffer, its NUL included: no bound is checked.\<close>

definition strcpy :: "buffer \<Rightarrow> nat \<Rightarrow> cstring \<Rightarrow> buffer" where
  "strcpy m off t = put_bytes m off (t @ [0])"

lemma takeWhile_append_NUL: "wf_cstr t \<Longrightarrow> takeWhile (\<lambda>b. b \<noteq> 0) (t @ 0 # xs) = t"
  by (induction t) (auto simp: wf_cstr_def)

lemma cstr_atI:
  assumes "wf_cstr t" and "off + length t < lim" and "get_bytes m off (length (t @ [0])) = t @ [0]"
  shows "cstr_at m off lim = t"
proof -
  have "lim - off = Suc (length t) + (lim - off - Suc (length t))" using assms(2) by simp
  then have "get_bytes m off (lim - off) =
      get_bytes m off (length (t @ [0])) @ get_bytes m (off + Suc (length t)) (lim - off - Suc (length t))"
    by (metis get_bytes_append length_append_singleton)
  then show ?thesis using assms(1,3) by (simp add: cstr_at_def takeWhile_append_NUL)
qed

lemma cstr_at_strcpy:
  assumes "wf_cstr t" and "off + length t < lim"
  shows "cstr_at (strcpy m off t) off lim = t"
  by (rule cstr_atI [OF assms]) (simp only: strcpy_def get_put_bytes)

text \<open>A string depends only on its own bytes and its NUL.\<close>

lemma cstr_at_cong:
  assumes "length (cstr_at m off lim) < n" and "n \<le> lim - off" and "\<And>i. off \<le> i \<Longrightarrow> i < off + n \<Longrightarrow> m' i = m i"
  shows "cstr_at m' off lim = cstr_at m off lim"
proof (rule cstr_atI)
  let ?xs = "get_bytes m off (lim - off)" and ?t = "cstr_at m off lim"
  have len: "length ?t < length ?xs" using assms(1,2) by simp
  have nul: "?xs ! length ?t = 0"
    using nth_length_takeWhile [of "\<lambda>b. b \<noteq> 0" ?xs] len by (simp add: cstr_at_def)
  have "get_bytes m' off (Suc (length ?t)) ! j = (?t @ [0]) ! j" if j: "j < Suc (length ?t)" for j
  proof -
    have "get_bytes m' off (Suc (length ?t)) ! j = ?xs ! j" using j assms by simp
    also have "\<dots> = (?t @ [0]) ! j"
      using j nul takeWhile_nth [of j "\<lambda>b. b \<noteq> 0" ?xs] by (auto simp: nth_append less_Suc_eq cstr_at_def)
    finally show ?thesis .
  qed
  then show "get_bytes m' off (length (?t @ [0])) = ?t @ [0]" by (intro nth_equalityI) simp_all
qed (use assms in simp_all)

text \<open>
  \<open>strcpy\<close> into a \<open>char\<close> array that is a struct field of its own, of size \<open>sz\<close>:
  writing past its end is a \<open>Fault\<close>.
\<close>

definition strcpy_field :: "nat \<Rightarrow> cstring \<Rightarrow> 's \<Rightarrow> (cstring, 's) res" where
  "strcpy_field sz t s =
     (if length t < sz then Ret t s else Fault ''strcpy: past the end of the array'')"

section \<open>Blocks of memory\<close>

text \<open>The two copy loops of \<open>memmove\<close>: ascending, and descending from the ends.\<close>

fun copy_fwd :: "nat \<Rightarrow> nat \<Rightarrow> nat \<Rightarrow> buffer \<Rightarrow> buffer" where
  "copy_fwd d s 0 m = m"
| "copy_fwd d s (Suc n) m = copy_fwd (Suc d) (Suc s) n (m(d := m s))"

fun copy_bwd :: "nat \<Rightarrow> nat \<Rightarrow> nat \<Rightarrow> buffer \<Rightarrow> buffer" where
  "copy_bwd d s 0 m = m"
| "copy_bwd d s (Suc n) m = copy_bwd d s n (m(d + n := m (s + n)))"

definition memmove :: "buffer \<Rightarrow> nat \<Rightarrow> nat \<Rightarrow> nat \<Rightarrow> buffer" where
  "memmove m dst src n =
     (if src < dst \<and> src + n > dst then copy_bwd dst src n m else copy_fwd dst src n m)"

lemma copy_fwd_eq:
  "d \<le> s \<or> s + n \<le> d \<Longrightarrow> copy_fwd d s n m i = (if d \<le> i \<and> i < d + n then m (s + (i - d)) else m i)"
proof (induction n arbitrary: d s m)
  case 0
  then show ?case by auto
next
  case (Suc n)
  then have "Suc d \<le> Suc s \<or> Suc s + n \<le> Suc d" by auto
  note IH = Suc.IH [OF this, of "m(d := m s)"]
  have idx: "Suc s + (i - Suc d) = s + (i - d)" if "d < i" using that by simp
  show ?case
    unfolding copy_fwd.simps IH using Suc.prems idx by (auto simp: le_less)
qed

lemma copy_bwd_eq:
  "s < d \<Longrightarrow> copy_bwd d s n m i = (if d \<le> i \<and> i < d + n then m (s + (i - d)) else m i)"
proof (induction n arbitrary: m)
  case 0
  then show ?case by auto
next
  case (Suc n)
  then show ?case by auto
qed

lemma memmove_put_get: "memmove m dst src n = put_bytes m dst (get_bytes m src n)"
proof
  fix i
  show "memmove m dst src n i = put_bytes m dst (get_bytes m src n) i"
    by (cases "src < dst \<and> src + n > dst")
      (auto simp: memmove_def put_bytes_def copy_bwd_eq copy_fwd_eq not_less)
qed

text \<open>
  \<open>memset\<close>: the word loop \<open>stosl\<close> when the address and the length are multiples of 4,
  the byte loop \<open>stosb\<close> otherwise.
\<close>

fun stosb :: "nat \<Rightarrow> u8 \<Rightarrow> nat \<Rightarrow> buffer \<Rightarrow> buffer" where
  "stosb a c 0 m = m"
| "stosb a c (Suc n) m = stosb (Suc a) c n (m(a := c))"

fun stosl :: "nat \<Rightarrow> u32 \<Rightarrow> nat \<Rightarrow> buffer \<Rightarrow> buffer" where
  "stosl a w 0 m = m"
| "stosl a w (Suc n) m = stosl (a + 4) w n (store32 m a w)"

definition memset :: "buffer \<Rightarrow> nat \<Rightarrow> u32 \<Rightarrow> nat \<Rightarrow> buffer" where
  "memset m dst c n =
     (if dst mod 4 = 0 \<and> n mod 4 = 0 then
        (let c = and c 0xFF in
         stosl dst (or (or (or (push_bit 24 c) (push_bit 16 c)) (push_bit 8 c)) c) (n div 4) m)
      else stosb dst (ucast c) n m)"

lemma stosb_eq: "stosb a c n m i = (if a \<le> i \<and> i < a + n then c else m i)"
  by (induction n arbitrary: a m) auto

lemma replicate_4: "replicate 4 x = [x, x, x, x]"
  by (simp add: eval_nat_numeral)

lemma le32_repeat:
  fixes c d :: u32
  assumes d: "d = and c 0xFF"
  shows "le32 (or (or (or (push_bit 24 d) (push_bit 16 d)) (push_bit 8 d)) d) = replicate 4 (ucast c)"
proof -
  have m8: "(0xFF :: u32) = mask 8" by (simp add: mask_eq_exp_minus_1)
  have b: "bit d i \<longleftrightarrow> i < 8 \<and> bit c i" for i
    unfolding d m8 by (auto simp only: bit_and_iff bit_mask_iff possible_bit_word dest: bit_imp_le_length)
  have
    "(ucast (or (or (or (push_bit 24 d) (push_bit 16 d)) (push_bit 8 d)) d) :: u8) = ucast c"
    "(ucast (drop_bit 8 (or (or (or (push_bit 24 d) (push_bit 16 d)) (push_bit 8 d)) d)) :: u8) = ucast c"
    "(ucast (drop_bit 16 (or (or (or (push_bit 24 d) (push_bit 16 d)) (push_bit 8 d)) d)) :: u8) = ucast c"
    "(ucast (drop_bit 24 (or (or (or (push_bit 24 d) (push_bit 16 d)) (push_bit 8 d)) d)) :: u8) = ucast c"
    by (rule bit_word_eqI, auto simp: bit_simps b)+
  then show ?thesis unfolding le32_def replicate_4 by simp
qed

lemma stosl_eq:
  assumes "le32 w = replicate 4 c"
  shows "stosl a w n m i = (if a \<le> i \<and> i < a + 4 * n then c else m i)"
proof (induction n arbitrary: a m)
  case 0
  then show ?case by auto
next
  case (Suc n)
  have "store32 m a w i = (if a \<le> i \<and> i < a + 4 then c else m i)"
    using assms by (auto simp: store32_def put_bytes_def)
  then show ?case by (auto simp: Suc.IH)
qed

lemma memset_put_replicate: "memset m dst c n = put_bytes m dst (replicate n (ucast c))"
proof
  fix i
  show "memset m dst c n i = put_bytes m dst (replicate n (ucast c)) i"
  proof (cases "dst mod 4 = 0 \<and> n mod 4 = 0")
    case True
    then have n: "4 * (n div 4) = n" by auto
    have "memset m dst c n i = (if dst \<le> i \<and> i < dst + 4 * (n div 4) then ucast c else m i)"
      using True stosl_eq [OF le32_repeat [OF refl], of dst c "n div 4" m i]
      by (simp only: memset_def Let_def simp_thms if_True)
    then show ?thesis unfolding n by (auto simp: put_bytes_def)
  next
    case False
    then show ?thesis by (auto simp: memset_def put_bytes_def stosb_eq)
  qed
qed

end
