(* ===== verification/Kalloc.thy ===== *)
theory Kalloc
  imports Spinlock CStrings
begin

text \<open>
  The physical page allocator \<open>kalloc.c\<close>: free pages are chained through their own first
  word, starting at \<open>kmem.freelist\<close>. \<open>ram\<close> is memory as the kernel addresses it (a byte
  per kernel virtual address); \<open>kend\<close> is the linker symbol \<open>end\<close>.
\<close>

section \<open>Addresses\<close>

definition PGSIZE :: u32 where "PGSIZE = 4096"
definition KERNBASE :: u32 where "KERNBASE = 0x80000000"
definition PHYSTOP :: u32 where "PHYSTOP = 0xE000000"

definition V2P :: "u32 \<Rightarrow> u32" where "V2P a = a - KERNBASE"
definition P2V :: "u32 \<Rightarrow> u32" where "P2V a = a + KERNBASE"

definition PGROUNDUP :: "u32 \<Rightarrow> u32" where
  "PGROUNDUP sz = and (sz + PGSIZE - 1) (not (PGSIZE - 1))"

definition PGROUNDDOWN :: "u32 \<Rightarrow> u32" where
  "PGROUNDDOWN a = and a (not (PGSIZE - 1))"

lemma V2P_P2V [simp]: "V2P (P2V a) = a" "P2V (V2P a) = a"
  by (simp_all add: V2P_def P2V_def)

section \<open>State and operations\<close>

record mem_state = machine +
  use_lock :: bool
  freelist :: u32
  ram :: buffer
  kend :: u32

definition kfree :: "u32 \<Rightarrow> 'z mem_state_scheme \<Rightarrow> (unit, 'z mem_state_scheme) res" where
  "kfree v s =
     (if v mod PGSIZE \<noteq> 0 \<or> v < kend s \<or> V2P v \<ge> PHYSTOP then Panic ''kfree''
      else
        let s = s\<lparr>ram := memset (ram s) (unat v) 1 (unat PGSIZE)\<rparr>
        in kbind (if use_lock s then acquire KmemLock s else Ret () s) (\<lambda>_ s.
           let s = s\<lparr>ram := store32 (ram s) (unat v) (freelist s)\<rparr>;
               s = s\<lparr>freelist := v\<rparr>
           in if use_lock s then release KmemLock s else Ret () s))"

definition kalloc :: "'z mem_state_scheme \<Rightarrow> (u32, 'z mem_state_scheme) res" where
  "kalloc s =
     kbind (if use_lock s then acquire KmemLock s else Ret () s) (\<lambda>_ s.
     let r = freelist s;
         s = (if r \<noteq> 0 then s\<lparr>freelist := load32 (ram s) (unat r)\<rparr> else s)
     in kbind (if use_lock s then release KmemLock s else Ret () s) (\<lambda>_ s. Ret r s))"

section \<open>Frame rules\<close>

lemma mem_this_cpu [simp]:
  "this_cpu (s\<lparr>use_lock := x0\<rparr>) = this_cpu s"
  "this_cpu (s\<lparr>freelist := x1\<rparr>) = this_cpu s"
  "this_cpu (s\<lparr>ram := x2\<rparr>) = this_cpu s"
  "this_cpu (s\<lparr>kend := x3\<rparr>) = this_cpu s"
  by (simp_all add: this_cpu_def)

lemma mem_cpu_known [simp]:
  "cpu_known (s\<lparr>use_lock := x0\<rparr>) = cpu_known s"
  "cpu_known (s\<lparr>freelist := x1\<rparr>) = cpu_known s"
  "cpu_known (s\<lparr>ram := x2\<rparr>) = cpu_known s"
  "cpu_known (s\<lparr>kend := x3\<rparr>) = cpu_known s"
  by (simp_all add: cpu_known_def)

lemma mem_quiet [simp]:
  "quiet (s\<lparr>use_lock := x0\<rparr>) = quiet s"
  "quiet (s\<lparr>freelist := x1\<rparr>) = quiet s"
  "quiet (s\<lparr>ram := x2\<rparr>) = quiet s"
  "quiet (s\<lparr>kend := x3\<rparr>) = quiet s"
  by (simp_all add: quiet_def)

lemma mem_sel [simp]:
  "use_lock (with_locks L s) = use_lock s"
  "freelist (with_locks L s) = freelist s"
  "ram (with_locks L s) = ram s"
  "kend (with_locks L s) = kend s"
  by (simp_all add: with_locks_def)

lemma mem_upd [simp]:
  "(with_locks L s)\<lparr>use_lock := x0\<rparr> = with_locks L (s\<lparr>use_lock := x0\<rparr>)"
  "(with_locks L s)\<lparr>freelist := x1\<rparr> = with_locks L (s\<lparr>freelist := x1\<rparr>)"
  "(with_locks L s)\<lparr>ram := x2\<rparr> = with_locks L (s\<lparr>ram := x2\<rparr>)"
  "(with_locks L s)\<lparr>kend := x3\<rparr> = with_locks L (s\<lparr>kend := x3\<rparr>)"
  by (simp_all add: with_locks_def cong: if_cong)

section \<open>The operations on canonical states\<close>

text \<open>A page the allocator may be given: aligned, above the kernel and in physical memory.\<close>

definition page_ok :: "u32 \<Rightarrow> u32 \<Rightarrow> bool" where
  "page_ok e v \<longleftrightarrow> v mod PGSIZE = 0 \<and> e \<le> v \<and> V2P v < PHYSTOP"

definition next_free :: "'z mem_state_scheme \<Rightarrow> u32" where
  "next_free s = (if freelist s = 0 then 0 else load32 (ram s) (unat (freelist s)))"

definition freed :: "u32 \<Rightarrow> 'z mem_state_scheme \<Rightarrow> 'z mem_state_scheme" where
  "freed v s = s\<lparr>ram := store32 (memset (ram s) (unat v) 1 (unat PGSIZE)) (unat v) (freelist s),
                 freelist := v\<rparr>"

lemma freed_quiet [simp]: "quiet (freed v s) = quiet s"
  by (simp add: freed_def)

lemma upd_same_freelist: "freelist s = x \<Longrightarrow> s\<lparr>freelist := x\<rparr> = s"
  by (cases s) simp

lemma kalloc_with_locks [simp]:
  assumes "quiet s" and "KmemLock \<notin> set K" and "distinct K"
  shows "kalloc (with_locks K s) = Ret (freelist s) (with_locks K (s\<lparr>freelist := next_free s\<rparr>))"
  using assms by (simp add: kalloc_def next_free_def Let_def upd_same_freelist)

lemma kfree_with_locks [simp]:
  assumes "quiet s" and "KmemLock \<notin> set K" and "distinct K"
  shows "kfree v (with_locks K s) =
    (if page_ok (kend s) v then Ret () (with_locks K (freed v s)) else Panic ''kfree'')"
  using assms by (auto simp: kfree_def page_ok_def freed_def Let_def not_le)

section \<open>The chain of free pages\<close>

primrec chain :: "buffer \<Rightarrow> u32 \<Rightarrow> u32 \<Rightarrow> u32 list \<Rightarrow> bool" where
  "chain m e p [] \<longleftrightarrow> p = 0"
| "chain m e p (v # vs) \<longleftrightarrow> p = v \<and> page_ok e v \<and> chain m e (load32 m (unat v)) vs"

definition free_list :: "'z mem_state_scheme \<Rightarrow> u32 list \<Rightarrow> bool" where
  "free_list s L \<longleftrightarrow> chain (ram s) (kend s) (freelist s) L \<and> distinct L"

lemma page_ok_range: "page_ok e v \<Longrightarrow> 0x80000000 \<le> unat v \<and> unat v < 0x8E000000"
proof -
  assume "page_ok e v"
  then have "unat (v - 0x80000000) < 0xE000000"
    by (simp add: page_ok_def V2P_def KERNBASE_def PHYSTOP_def word_less_nat_alt)
  moreover have "unat (v - 0x80000000) = (if 0x80000000 \<le> unat v then unat v - 0x80000000
      else 2 ^ 32 + unat v - 0x80000000)"
    by (simp add: unat_sub_if' word_le_nat_alt)
  ultimately show ?thesis by (auto split: if_splits)
qed

lemma page_ok_nonzero: "page_ok e v \<Longrightarrow> v \<noteq> 0"
  using page_ok_range [of e v] by auto

lemma page_ok_aligned: "page_ok e v \<Longrightarrow> unat v mod 4096 = 0"
  by (simp add: page_ok_def PGSIZE_def word_unat_eq_iff unat_mod_distrib)

lemma pages_disjoint:
  assumes "page_ok e v" and "page_ok e' w" and "v \<noteq> w"
  shows "unat v + 4096 \<le> unat w \<or> unat w + 4096 \<le> unat v"
proof -
  from assms(1,2) obtain a b where "unat v = 4096 * a" "unat w = 4096 * b"
    by (meson dvdE mod_0_imp_dvd page_ok_aligned)
  moreover from assms(3) have "unat v \<noteq> unat w" by (simp add: word_unat_eq_iff)
  ultimately show ?thesis by (cases a b rule: linorder_cases) auto
qed

lemma unat_PGSIZE [simp]: "unat PGSIZE = 4096"
  by (simp add: PGSIZE_def)

text \<open>What freeing writes: a junk byte everywhere but in the link word.\<close>

lemma freed_ram:
  "ram (freed v s) = put_bytes (put_bytes (ram s) (unat v) (replicate 4096 1)) (unat v) (le32 (freelist s))"
  by (simp add: freed_def memset_put_replicate store32_def)

lemma freed_frame: "i < unat v \<or> unat v + 4096 \<le> i \<Longrightarrow> ram (freed v s) i = ram s i"
  by (auto simp: freed_ram)

lemma freed_link: "load32 (ram (freed v s)) (unat v) = freelist s"
  by (simp add: freed_def)

lemma freed_sel [simp]: "freelist (freed v s) = v" "kend (freed v s) = kend s"
  by (simp_all add: freed_def)

lemma chain_cong:
  "\<forall>v\<in>set L. load32 m (unat v) = load32 m' (unat v) \<Longrightarrow> chain m e p L = chain m' e p L"
  by (induction L arbitrary: p) auto

lemma chain_page_ok: "chain m e p L \<Longrightarrow> v \<in> set L \<Longrightarrow> page_ok e v"
  by (induction L arbitrary: p) auto

lemma free_list_freed:
  assumes "free_list s L" and "page_ok (kend s) v" and "v \<notin> set L"
  shows "free_list (freed v s) (v # L)"
proof -
  have "load32 (ram (freed v s)) (unat w) = load32 (ram s) (unat w)" if "w \<in> set L" for w
  proof -
    from that assms(1) have "page_ok (kend s) w" by (auto simp: free_list_def chain_page_ok)
    with pages_disjoint [OF assms(2) this] that assms(3)
    have "unat v + 4096 \<le> unat w \<or> unat w + 4096 \<le> unat v" by auto
    then show ?thesis by (auto simp: load32_def freed_frame)
  qed
  then have "chain (ram (freed v s)) (kend s) (freelist s) L"
    using assms(1) chain_cong [of L "ram s" "ram (freed v s)"] by (simp add: free_list_def)
  then show ?thesis using assms by (simp add: free_list_def freed_link)
qed

lemma free_list_take:
  "free_list s (v # L) \<Longrightarrow> freelist s = v \<and> v \<noteq> 0 \<and> free_list (s\<lparr>freelist := next_free s\<rparr>) L"
  by (auto simp: free_list_def next_free_def dest: page_ok_nonzero)

lemma free_list_empty: "free_list s [] \<longleftrightarrow> freelist s = 0"
  by (simp add: free_list_def)

section \<open>Filling the pool\<close>

text \<open>
  \<open>for(; p + PGSIZE <= (char*)vend; p += PGSIZE) kfree(p)\<close>. The loop ends because
  \<open>kfree\<close> refuses pages outside physical memory, so \<open>p\<close> never wraps around.
\<close>

lemma kfree_Ret_bound: "kfree v s = Ret u t \<Longrightarrow> unat v < 0x8E000000"
  using page_ok_range [of "kend s" v]
  by (auto simp: kfree_def page_ok_def not_less not_le split: if_splits)

function freerange_loop :: "u32 \<Rightarrow> u32 \<Rightarrow> 'z mem_state_scheme \<Rightarrow> (unit, 'z mem_state_scheme) res" where
  "freerange_loop p vend s =
     (if p + PGSIZE \<le> vend then kbind (kfree p s) (\<lambda>_ s. freerange_loop (p + PGSIZE) vend s)
      else Ret () s)"
  by auto
termination
proof (relation "measure (\<lambda>(p, _, _). 2 ^ 32 - unat p)")
  fix p vend :: u32 and s :: "'z mem_state_scheme" and a t
  assume "kfree p s = Ret a t"
  then have b: "unat p < 0x8E000000" by (rule kfree_Ret_bound)
  then have "unat (p + PGSIZE) = unat p + 4096"
    by (subst unat_add_lem [THEN iffD1]) (simp_all add: PGSIZE_def)
  with b show "((p + PGSIZE, vend, t), p, vend, s) \<in> measure (\<lambda>(p, _, _). 2 ^ 32 - unat p)"
    by simp
qed simp

declare freerange_loop.simps [simp del]

definition freerange :: "u32 \<Rightarrow> u32 \<Rightarrow> 'z mem_state_scheme \<Rightarrow> (unit, 'z mem_state_scheme) res" where
  "freerange vstart vend s = freerange_loop (PGROUNDUP vstart) vend s"

definition kinit1 :: "u32 \<Rightarrow> u32 \<Rightarrow> 'z mem_state_scheme \<Rightarrow> (unit, 'z mem_state_scheme) res" where
  "kinit1 vstart vend s =
     kbind (initlock KmemLock s) (\<lambda>_ s. freerange vstart vend (s\<lparr>use_lock := False\<rparr>))"

definition kinit2 :: "u32 \<Rightarrow> u32 \<Rightarrow> 'z mem_state_scheme \<Rightarrow> (unit, 'z mem_state_scheme) res" where
  "kinit2 vstart vend s =
     kbind (freerange vstart vend s) (\<lambda>_ s. Ret () (s\<lparr>use_lock := True\<rparr>))"

section \<open>The allocator as a pool of pages\<close>

text \<open>
  What the rest of the kernel relies on: a page handed out leaves the pool, a freed page
  enters it, and the pool never holds a page twice.
\<close>

locale page_pool =
  fixes pool :: "'s \<Rightarrow> 'p list \<Rightarrow> bool"
    and get :: "'s \<Rightarrow> 'p option \<times> 's"
    and put :: "'p \<Rightarrow> 's \<Rightarrow> 's"
    and valid :: "'s \<Rightarrow> 'p \<Rightarrow> bool"
  assumes pool_distinct: "pool s L \<Longrightarrow> distinct L"
    and get_Nil: "pool s [] \<Longrightarrow> fst (get s) = None"
    and get_Cons: "pool s (p # L) \<Longrightarrow> fst (get s) = Some p \<and> pool (snd (get s)) L"
    and put_new: "pool s L \<Longrightarrow> valid s p \<Longrightarrow> p \<notin> set L \<Longrightarrow> pool (put p s) (p # L)"
begin

lemma get_after_put:
  "pool s L \<Longrightarrow> valid s p \<Longrightarrow> p \<notin> set L \<Longrightarrow> fst (get (put p s)) = Some p \<and> pool (snd (get (put p s))) L"
  using put_new get_Cons by blast

lemma draw_pages:
  "pool s L \<Longrightarrow> n \<le> length L \<Longrightarrow>
     fst (draw get n s) = map Some (take n L) \<and> pool (snd (draw get n s)) (drop n L)"
proof (induction n arbitrary: s L)
  case (Suc n)
  then obtain p M where L: "L = p # M" by (cases L) auto
  with Suc.prems get_Cons [of s p M] Suc.IH [of "snd (get s)" M]
  show ?case by (auto simp: Let_def split: prod.splits)
qed simp

lemma draw_all: "pool s L \<Longrightarrow> fst (get (snd (draw get (length L) s))) = None"
  using draw_pages [of s L "length L"] get_Nil by simp

end

definition kalloc_page :: "'z mem_state_scheme \<Rightarrow> u32 option \<times> 'z mem_state_scheme" where
  "kalloc_page s = (case kalloc s of Ret r t \<Rightarrow> (if r = 0 then None else Some r, t) | _ \<Rightarrow> (None, s))"

definition kfree_page :: "u32 \<Rightarrow> 'z mem_state_scheme \<Rightarrow> 'z mem_state_scheme" where
  "kfree_page v s = (case kfree v s of Ret _ t \<Rightarrow> t | _ \<Rightarrow> s)"

lemma kalloc_quiet: "quiet s \<Longrightarrow> kalloc s = Ret (freelist s) (s\<lparr>freelist := next_free s\<rparr>)"
  using kalloc_with_locks [of s "[]"] by simp

lemma kfree_quiet:
  "quiet s \<Longrightarrow> kfree v s = (if page_ok (kend s) v then Ret () (freed v s) else Panic ''kfree'')"
  using kfree_with_locks [of s "[]" v] by simp

lemma free_list_distinct: "free_list s L \<Longrightarrow> distinct L"
  by (simp add: free_list_def)

interpretation kpool: page_pool "\<lambda>s L. quiet s \<and> free_list s L" kalloc_page kfree_page
  "\<lambda>s v. page_ok (kend s) v"
proof unfold_locales
  fix s :: "'z mem_state_scheme" and L p
  assume "quiet s \<and> free_list s (p # L)"
  then show "fst (kalloc_page s) = Some p \<and> quiet (snd (kalloc_page s)) \<and> free_list (snd (kalloc_page s)) L"
    using free_list_take [of s p L] by (simp add: kalloc_page_def kalloc_quiet)
qed (auto simp: free_list_distinct free_list_empty kalloc_page_def kfree_page_def kalloc_quiet
      kfree_quiet free_list_freed)

section \<open>Properties\<close>

text \<open>
  Drawing pages until the pool is empty hands out every free page exactly once, in the
  order of the free list, and the next call of \<open>kalloc\<close> returns the null pointer.
\<close>

theorem kalloc_exhausts:
  assumes "quiet s" and "free_list s L"
  shows "fst (draw kalloc_page (length L) s) = map Some L \<and> distinct L \<and>
    fst (kalloc_page (snd (draw kalloc_page (length L) s))) = None"
  using assms kpool.draw_pages [of s L "length L"] kpool.draw_all [of s L] free_list_distinct [of s L]
  by simp

text \<open>
  \<open>kfree\<close> of a page that is not free makes it the next page \<open>kalloc\<close> returns; the pair
  restores the pool and leaves every byte outside the page alone. Freeing anything that is
  not an aligned page of allocatable memory panics.
\<close>

theorem kfree_kalloc:
  assumes "quiet s" and "free_list s L" and "v \<notin> set L"
  shows "if page_ok (kend s) v
    then \<exists>t. kbind (kfree v s) (\<lambda>_. kalloc) = Ret v t \<and> quiet t \<and> free_list t L \<and>
      (\<forall>i. i < unat v \<or> unat v + 4096 \<le> i \<longrightarrow> ram t i = ram s i)
    else kfree v s = Panic ''kfree''"
proof (cases "page_ok (kend s) v")
  case True
  let ?t = "(freed v s)\<lparr>freelist := next_free (freed v s)\<rparr>"
  from free_list_take [OF free_list_freed [OF assms(2) True assms(3)]]
  have "free_list ?t L" by simp
  moreover have "kbind (kfree v s) (\<lambda>_. kalloc) = Ret v ?t"
    using assms(1) True by (simp add: kfree_quiet kalloc_quiet)
  ultimately show ?thesis
    using True assms(1) freed_frame [of _ v s] by (auto intro!: exI [of _ ?t])
next
  case False
  with assms(1) show ?thesis by (simp add: kfree_quiet)
qed

definition mem_demo :: mem_state where
  "mem_demo = \<lparr>lapicid = 0, eflags_IF = True, ncpu = 1,
     cpus = (\<lambda>_. \<lparr>apicid = 0, ncli = 0, intena = True, cpu_proc = None, ts_esp0 = 0, cr3 = 0\<rparr>),
     locks = (\<lambda>_. free_lock), use_lock = True, freelist = 0x80400000,
     ram = store32 (\<lambda>_. 0) 0x80400000 0x80401000, kend = 0x80400000\<rparr>"

lemma mem_demo_quiet: "quiet mem_demo"
proof -
  have "first_idx 1 (\<lambda>_. True) = Some 0" by (simp add: first_idx_def)
  then show ?thesis by (simp add: mem_demo_def quiet_def cpu_known_def this_cpu_def)
qed

lemma mem_demo_free: "free_list mem_demo [0x80400000, 0x80401000]"
proof -
  have "load32 (store32 (\<lambda>_. 0) 0x80400000 w) 0x80401000 = load32 (\<lambda>_. 0) 0x80401000" for w
    unfolding store32_def by (rule load32_put_other) simp
  then show ?thesis
    by (simp add: mem_demo_def free_list_def page_ok_def PGSIZE_def V2P_def KERNBASE_def PHYSTOP_def)
       (simp add: load32_def)
qed

theorem kalloc_exhausts_witness:
  "fst (draw kalloc_page 2 mem_demo) = [Some 0x80400000, Some 0x80401000]"
  using kalloc_exhausts [OF mem_demo_quiet mem_demo_free] by (simp add: numeral_2_eq_2)

theorem kfree_kalloc_witness:
  "\<exists>t. kbind (kfree 0x80402000 mem_demo) (\<lambda>_. kalloc) = Ret 0x80402000 t \<and>
     free_list t [0x80400000, 0x80401000]"
  using kfree_kalloc [OF mem_demo_quiet mem_demo_free, of "0x80402000"]
  by (auto simp: mem_demo_def page_ok_def PGSIZE_def V2P_def KERNBASE_def PHYSTOP_def)

end
