(* ===== verification/Format.thy ===== *)
theory Format
  imports CStrings
begin

text \<open>
  Number and format-string printing: \<open>printint\<close>/\<open>printf\<close> of \<open>printf.c\<close> (user programs),
  \<open>printint\<close>/\<open>cprintf\<close> of \<open>console.c\<close> (the kernel) and \<open>atoi\<close> of \<open>ulib.c\<close>.

  The functions return the bytes they hand to \<open>putc\<close>/\<open>consputc\<close>, or \<open>None\<close> where the C
  code would write past \<open>char buf[16]\<close> or read an argument that is not there.
\<close>

section \<open>Integers\<close>

text \<open>
  \<open>do { buf[i++] = digits[x % base]; } while((x /= base) != 0)\<close> with \<open>k\<close> free places left
  in \<open>buf\<close>.
\<close>

fun fill_digits :: "nat \<Rightarrow> cstring \<Rightarrow> u32 \<Rightarrow> u32 \<Rightarrow> u8 list option" where
  "fill_digits 0 ds base x = None"
| "fill_digits (Suc k) ds base x =
     (let c = ds ! unat (x mod base);
          x = x div base
      in if x \<noteq> 0 then map_option (\<lambda>buf. c # buf) (fill_digits k ds base x) else Some [c])"

definition printint_with :: "cstring \<Rightarrow> u32 \<Rightarrow> u32 \<Rightarrow> bool \<Rightarrow> u8 list option" where
  "printint_with ds xx base sign =
     (let neg = (sign \<and> sint xx < 0);
          x = (if neg then - xx else xx)
      in case fill_digits 16 ds base x of
           None \<Rightarrow> None
         | Some buf \<Rightarrow>
             if neg then (if length buf < 16 then Some (rev (buf @ str ''-'')) else None)
             else Some (rev buf))"

definition printint :: "u32 \<Rightarrow> u32 \<Rightarrow> bool \<Rightarrow> u8 list option" where
  "printint = printint_with (str ''0123456789ABCDEF'')"

definition cons_printint :: "u32 \<Rightarrow> u32 \<Rightarrow> bool \<Rightarrow> u8 list option" where
  "cons_printint = printint_with (str ''0123456789abcdef'')"

text \<open>
  \<open>while('0' <= *s && *s <= '9') n = n*10 + *s++ - '0'\<close>, with the accumulator at its 32 bits.
\<close>

fun atoi_loop :: "u32 \<Rightarrow> cstring \<Rightarrow> u32" where
  "atoi_loop n [] = n"
| "atoi_loop n (c # s) = (if 48 \<le> c \<and> c \<le> 57 then atoi_loop (n * 10 + ucast c - 48) s else n)"

definition atoi :: "cstring \<Rightarrow> u32" where
  "atoi s = atoi_loop 0 s"

section \<open>Format strings\<close>

text \<open>
  The variadic arguments, in order: an integer word, a pointer to a string, or a null pointer.
  A conversion that meets an argument of another kind has no defined meaning.
\<close>

datatype fmt_arg = AInt u32 | AStr cstring | ANull

definition fmt_str :: "fmt_arg \<Rightarrow> u8 list option" where
  "fmt_str a = (case a of AStr s \<Rightarrow> Some s | ANull \<Rightarrow> Some (str ''(null)'') | AInt _ \<Rightarrow> None)"

definition fmt_int :: "(u32 \<Rightarrow> u8 list option) \<Rightarrow> fmt_arg \<Rightarrow> u8 list option" where
  "fmt_int pr a = (case a of AInt w \<Rightarrow> pr w | ANull \<Rightarrow> pr 0 | AStr _ \<Rightarrow> None)"

fun emit :: "u8 list option \<Rightarrow> u8 list option \<Rightarrow> u8 list option" where
  "emit (Some xs) (Some ys) = Some (xs @ ys)"
| "emit _ _ = None"

text \<open>\<open>printf\<close>: \<open>pct\<close> is the variable \<open>state\<close>, true after a percent sign.\<close>

fun printf_loop :: "bool \<Rightarrow> cstring \<Rightarrow> fmt_arg list \<Rightarrow> u8 list option" where
  "printf_loop pct [] ap = Some []"
| "printf_loop False (c # fmt) ap =
     (if c = of_char CHR ''%'' then printf_loop True fmt ap
      else emit (Some [c]) (printf_loop False fmt ap))"
| "printf_loop True (c # fmt) ap =
     (if c = of_char CHR ''d'' then
        (case ap of [] \<Rightarrow> None
         | a # ap \<Rightarrow> emit (fmt_int (\<lambda>w. printint w 10 True) a) (printf_loop False fmt ap))
      else if c = of_char CHR ''x'' \<or> c = of_char CHR ''p'' then
        (case ap of [] \<Rightarrow> None
         | a # ap \<Rightarrow> emit (fmt_int (\<lambda>w. printint w 16 False) a) (printf_loop False fmt ap))
      else if c = of_char CHR ''s'' then
        (case ap of [] \<Rightarrow> None
         | a # ap \<Rightarrow> emit (fmt_str a) (printf_loop False fmt ap))
      else if c = of_char CHR ''c'' then
        (case ap of [] \<Rightarrow> None
         | a # ap \<Rightarrow> emit (fmt_int (\<lambda>w. Some [ucast w]) a) (printf_loop False fmt ap))
      else if c = of_char CHR ''%'' then emit (Some [c]) (printf_loop False fmt ap)
      else emit (Some [of_char CHR ''%'', c]) (printf_loop False fmt ap))"

definition printf :: "cstring \<Rightarrow> fmt_arg list \<Rightarrow> u8 list option" where
  "printf fmt ap = printf_loop False fmt ap"

text \<open>The body of \<open>cprintf\<close> between the locking; a trailing percent sign ends it.\<close>

fun cprintf_loop :: "cstring \<Rightarrow> fmt_arg list \<Rightarrow> u8 list option" where
  "cprintf_loop [] ap = Some []"
| "cprintf_loop [c] ap = (if c \<noteq> of_char CHR ''%'' then Some [c] else Some [])"
| "cprintf_loop (c # d # fmt) ap =
     (if c \<noteq> of_char CHR ''%'' then emit (Some [c]) (cprintf_loop (d # fmt) ap)
      else if d = of_char CHR ''d'' then
        (case ap of [] \<Rightarrow> None
         | a # ap \<Rightarrow> emit (fmt_int (\<lambda>w. cons_printint w 10 True) a) (cprintf_loop fmt ap))
      else if d = of_char CHR ''x'' \<or> d = of_char CHR ''p'' then
        (case ap of [] \<Rightarrow> None
         | a # ap \<Rightarrow> emit (fmt_int (\<lambda>w. cons_printint w 16 False) a) (cprintf_loop fmt ap))
      else if d = of_char CHR ''s'' then
        (case ap of [] \<Rightarrow> None | a # ap \<Rightarrow> emit (fmt_str a) (cprintf_loop fmt ap))
      else if d = of_char CHR ''%'' then emit (Some [d]) (cprintf_loop fmt ap)
      else emit (Some [of_char CHR ''%'', d]) (cprintf_loop fmt ap))"

lemma cprintf_loop_plain:
  "list_all (\<lambda>c. c \<noteq> of_char CHR ''%'') fmt \<Longrightarrow> cprintf_loop fmt ap = Some fmt"
  by (induction fmt ap rule: cprintf_loop.induct) auto

lemma list_all_str: "list_all P (str s) = list_all (\<lambda>c. P (of_char c)) s"
  by (simp add: str_def list_all_iff)

section \<open>The digit buffer is large enough\<close>

lemma unat_div: "unat (x div y) = unat x div unat (y :: 'a::len word)"
  by (simp add: unat_div_distrib)

lemma fill_digits_Some:
  "2 \<le> unat base \<Longrightarrow> unat x < unat base ^ Suc k \<Longrightarrow> Suc k \<le> room \<Longrightarrow>
     \<exists>buf. fill_digits room ds base x = Some buf \<and> length buf \<le> Suc k \<and> buf \<noteq> []"
proof (induction k arbitrary: room x)
  case 0
  then obtain r where "room = Suc r" by (cases room) auto
  moreover have "x div base = 0"
    using 0 by (simp add: word_unat_eq_iff unat_div)
  ultimately show ?case by simp
next
  case (Suc k)
  then obtain r where r: "room = Suc r" by (cases room) auto
  have "unat x div unat base < unat base ^ Suc k"
    using Suc.prems(1,2) by (intro less_mult_imp_div_less) (simp add: mult.commute)
  then have "unat (x div base) < unat base ^ Suc k"
    by (simp add: unat_div)
  from Suc.IH [OF Suc.prems(1) this, of r] Suc.prems(3) r
  obtain buf where "fill_digits r ds base (x div base) = Some buf" "length buf \<le> Suc k" by auto
  then show ?case by (simp add: r Let_def)
qed

lemma u32_bound: "unat (x :: u32) < 10 ^ 10" "unat (x :: u32) < 16 ^ 8"
  using unsigned_less [of x, where 'a = nat] by simp_all

lemma fill_digits_10: "\<exists>buf. fill_digits 16 ds 10 (x :: u32) = Some buf \<and> length buf \<le> 10 \<and> buf \<noteq> []"
  using fill_digits_Some [of 10 x 9 16 ds] u32_bound(1) [of x] by simp

lemma fill_digits_16: "\<exists>buf. fill_digits 16 ds 16 (x :: u32) = Some buf \<and> length buf \<le> 8 \<and> buf \<noteq> []"
  using fill_digits_Some [of 16 x 7 16 ds] u32_bound(2) [of x] by simp

lemma printint_with_total:
  "\<exists>out. printint_with ds x 10 sign = Some out \<and> out \<noteq> [] \<and> length out \<le> 11"
  "\<exists>out. printint_with ds x 16 sign = Some out \<and> out \<noteq> [] \<and> length out \<le> 9"
  using fill_digits_10 [of ds x] fill_digits_10 [of ds "-x"] fill_digits_16 [of ds x]
    fill_digits_16 [of ds "-x"]
  by (auto simp: printint_with_def Let_def split: if_splits)

section \<open>Printing and parsing agree\<close>

definition is_digit :: "u8 \<Rightarrow> bool" where
  "is_digit c \<longleftrightarrow> 48 \<le> c \<and> c \<le> 57"

lemma atoi_loop_append:
  "list_all is_digit xs \<Longrightarrow> atoi_loop n (xs @ ys) = atoi_loop (atoi_loop n xs) ys"
  by (induction xs arbitrary: n) (auto simp: is_digit_def)

lemma less_10_cases:
  "(i :: nat) < 10 \<Longrightarrow> i = 0 \<or> i = 1 \<or> i = 2 \<or> i = 3 \<or> i = 4 \<or> i = 5 \<or> i = 6 \<or> i = 7 \<or> i = 8 \<or> i = 9"
  by auto

definition decimal_digits :: "cstring \<Rightarrow> bool" where
  "decimal_digits ds \<longleftrightarrow> (\<forall>i<10. ds ! i = 48 + of_nat i)"

lemma decimal_digit:
  assumes "decimal_digits ds" and "d < (10 :: u32)"
  shows "is_digit (ds ! unat d)" and "ucast (ds ! unat d) - 48 = d"
proof -
  define i where "i = unat d"
  have d: "d = of_nat i" by (simp add: i_def)
  have i: "i < 10" using assms(2) by (simp add: i_def word_less_nat_alt)
  from assms(1) i have e: "ds ! unat d = 48 + of_nat i"
    by (simp add: decimal_digits_def i_def)
  show "is_digit (ds ! unat d)" "ucast (ds ! unat d) - 48 = d"
    using less_10_cases [OF i] unfolding e unfolding d by (auto simp: is_digit_def)
qed

lemma atoi_fill_digits:
  "decimal_digits ds \<Longrightarrow> fill_digits k ds 10 x = Some buf \<Longrightarrow>
     list_all is_digit (rev buf) \<and> atoi_loop 0 (rev buf) = x"
proof (induction k arbitrary: x buf)
  case (Suc k)
  have "x mod 10 < 10" by (simp add: word_mod_less_divisor)
  note dig = decimal_digit [OF Suc.prems(1) this]
  have split: "x div 10 * 10 + x mod 10 = x" by (rule div_mult_mod_eq)
  have last: "atoi_loop n [ds ! unat (x mod 10)] = n * 10 + x mod 10" for n
    using dig by (simp add: is_digit_def algebra_simps)
  show ?case
  proof (cases "x div 10 = 0")
    case True
    then show ?thesis
      using Suc.prems(2) dig(1) last [of 0] split by (auto simp: Let_def)
  next
    case False
    with Suc.prems(2) obtain b where b: "fill_digits k ds 10 (x div 10) = Some b"
      and buf: "buf = ds ! unat (x mod 10) # b" by (auto simp: Let_def)
    from Suc.IH [OF Suc.prems(1) b] show ?thesis
      using dig(1) last [of "x div 10"] split by (simp add: buf atoi_loop_append)
  qed
qed simp

lemma kernel_and_user_digits:
  "decimal_digits (str ''0123456789ABCDEF'')" "decimal_digits (str ''0123456789abcdef'')"
  by (auto simp: decimal_digits_def str_simps dest!: less_10_cases)

lemma atoi_printint_with:
  assumes "decimal_digits ds" and "0 \<le> sint x"
  shows "\<exists>out. printint_with ds x 10 True = Some out \<and> atoi out = x"
proof -
  obtain buf where buf: "fill_digits 16 ds 10 x = Some buf" using fill_digits_10 by blast
  with atoi_fill_digits [OF assms(1) buf] assms(2) show ?thesis
    by (simp add: printint_with_def atoi_def)
qed

end
