(* ===== verification/ProcTable.thy ===== *)
theory ProcTable
  imports Kalloc Format
begin

text \<open>
  The process table of \<open>proc.c\<close>/\<open>proc.h\<close> and the operations on it that need neither page
  tables nor files: allocation, sleep and wakeup, kill, the scheduling calls of Project 1, the
  administrator and memory-limit calls of Project 2; \<open>cprintf\<close> of \<open>console.c\<close>; and the two
  address-space switches of \<open>vm.c\<close> the scheduler calls.

  A \<open>struct proc *\<close> is a slot number, the null pointer \<open>None\<close>; a \<open>struct file *\<close> and a
  \<open>struct inode *\<close> are indices into the tables of later theories. Trap frames and kernel
  contexts live on the kernel stack page in \<open>ram\<close>.
\<close>

section \<open>Data\<close>

datatype procstate = UNUSED | EMBRYO | SLEEPING | RUNNABLE | RUNNING | ZOMBIE

datatype execmode = USER | ADMINISTRATOR

record proc =
  p_sz :: u32
  p_pgdir :: u32
  p_kstack :: u32
  p_state :: procstate
  p_pid :: int
  p_parent :: "nat option"
  p_tf :: u32
  p_context :: u32
  p_chan :: "chan option"
  p_killed :: bool
  p_ofile :: "nat \<Rightarrow> nat option"
  p_cwd :: "nat option"
  p_name :: cstring
  p_time_c :: u32
  p_priority :: int
  p_level :: int
  p_hold :: int
  p_mode :: execmode
  p_limit :: u32
  p_userid :: cstring

definition NPROC :: nat where "NPROC = 64"
definition NOFILE :: nat where "NOFILE = 16"
definition KSTACKSIZE :: u32 where "KSTACKSIZE = 4096"
definition MIN_PRIORITY :: int where "MIN_PRIORITY = 0"
definition MAX_PRIORITY :: int where "MAX_PRIORITY = 10"

definition TIME_QUANTUM :: "nat \<Rightarrow> int" where
  "TIME_QUANTUM i = [4, 6, 8, 10, 12] ! i"

text \<open>
  The linked addresses of \<open>forkret\<close> and \<open>trapret\<close>, the console output so far and
  \<open>cons.locking\<close> are state fields next to the table. \<open>mlfq\<close> tells whether the kernel is
  built with \<open>MLFQ_SCHED\<close>.
\<close>

record proc_state = mem_state +
  ptable :: "nat \<Rightarrow> proc"
  initproc :: "nat option"
  nextpid :: int
  ticks :: u32
  cons_locking :: bool
  console :: "u8 list"
  kpgdir :: u32
  forkret_addr :: u32
  trapret_addr :: u32
  mlfq :: bool

lemma proc_this_cpu [simp]:
  "this_cpu (s\<lparr>ptable := x0\<rparr>) = this_cpu s"
  "this_cpu (s\<lparr>initproc := x1\<rparr>) = this_cpu s"
  "this_cpu (s\<lparr>nextpid := x2\<rparr>) = this_cpu s"
  "this_cpu (s\<lparr>ticks := x3\<rparr>) = this_cpu s"
  "this_cpu (s\<lparr>cons_locking := x4\<rparr>) = this_cpu s"
  "this_cpu (s\<lparr>console := x5\<rparr>) = this_cpu s"
  "this_cpu (s\<lparr>kpgdir := x6\<rparr>) = this_cpu s"
  "this_cpu (s\<lparr>forkret_addr := x7\<rparr>) = this_cpu s"
  "this_cpu (s\<lparr>trapret_addr := x8\<rparr>) = this_cpu s"
  "this_cpu (s\<lparr>mlfq := x9\<rparr>) = this_cpu s"
  by (simp_all add: this_cpu_def)

lemma proc_cpu_known [simp]:
  "cpu_known (s\<lparr>ptable := x0\<rparr>) = cpu_known s"
  "cpu_known (s\<lparr>initproc := x1\<rparr>) = cpu_known s"
  "cpu_known (s\<lparr>nextpid := x2\<rparr>) = cpu_known s"
  "cpu_known (s\<lparr>ticks := x3\<rparr>) = cpu_known s"
  "cpu_known (s\<lparr>cons_locking := x4\<rparr>) = cpu_known s"
  "cpu_known (s\<lparr>console := x5\<rparr>) = cpu_known s"
  "cpu_known (s\<lparr>kpgdir := x6\<rparr>) = cpu_known s"
  "cpu_known (s\<lparr>forkret_addr := x7\<rparr>) = cpu_known s"
  "cpu_known (s\<lparr>trapret_addr := x8\<rparr>) = cpu_known s"
  "cpu_known (s\<lparr>mlfq := x9\<rparr>) = cpu_known s"
  by (simp_all add: cpu_known_def)

lemma proc_quiet [simp]:
  "quiet (s\<lparr>ptable := x0\<rparr>) = quiet s"
  "quiet (s\<lparr>initproc := x1\<rparr>) = quiet s"
  "quiet (s\<lparr>nextpid := x2\<rparr>) = quiet s"
  "quiet (s\<lparr>ticks := x3\<rparr>) = quiet s"
  "quiet (s\<lparr>cons_locking := x4\<rparr>) = quiet s"
  "quiet (s\<lparr>console := x5\<rparr>) = quiet s"
  "quiet (s\<lparr>kpgdir := x6\<rparr>) = quiet s"
  "quiet (s\<lparr>forkret_addr := x7\<rparr>) = quiet s"
  "quiet (s\<lparr>trapret_addr := x8\<rparr>) = quiet s"
  "quiet (s\<lparr>mlfq := x9\<rparr>) = quiet s"
  by (simp_all add: quiet_def)

lemma proc_sel [simp]:
  "ptable (with_locks L s) = ptable s"
  "initproc (with_locks L s) = initproc s"
  "nextpid (with_locks L s) = nextpid s"
  "ticks (with_locks L s) = ticks s"
  "cons_locking (with_locks L s) = cons_locking s"
  "console (with_locks L s) = console s"
  "kpgdir (with_locks L s) = kpgdir s"
  "forkret_addr (with_locks L s) = forkret_addr s"
  "trapret_addr (with_locks L s) = trapret_addr s"
  "mlfq (with_locks L s) = mlfq s"
  by (simp_all add: with_locks_def)

lemma proc_upd [simp]:
  "(with_locks L s)\<lparr>ptable := x0\<rparr> = with_locks L (s\<lparr>ptable := x0\<rparr>)"
  "(with_locks L s)\<lparr>initproc := x1\<rparr> = with_locks L (s\<lparr>initproc := x1\<rparr>)"
  "(with_locks L s)\<lparr>nextpid := x2\<rparr> = with_locks L (s\<lparr>nextpid := x2\<rparr>)"
  "(with_locks L s)\<lparr>ticks := x3\<rparr> = with_locks L (s\<lparr>ticks := x3\<rparr>)"
  "(with_locks L s)\<lparr>cons_locking := x4\<rparr> = with_locks L (s\<lparr>cons_locking := x4\<rparr>)"
  "(with_locks L s)\<lparr>console := x5\<rparr> = with_locks L (s\<lparr>console := x5\<rparr>)"
  "(with_locks L s)\<lparr>kpgdir := x6\<rparr> = with_locks L (s\<lparr>kpgdir := x6\<rparr>)"
  "(with_locks L s)\<lparr>forkret_addr := x7\<rparr> = with_locks L (s\<lparr>forkret_addr := x7\<rparr>)"
  "(with_locks L s)\<lparr>trapret_addr := x8\<rparr> = with_locks L (s\<lparr>trapret_addr := x8\<rparr>)"
  "(with_locks L s)\<lparr>mlfq := x9\<rparr> = with_locks L (s\<lparr>mlfq := x9\<rparr>)"
  by (simp_all add: with_locks_def cong: if_cong)

definition upd_proc :: "nat \<Rightarrow> (proc \<Rightarrow> proc) \<Rightarrow> 'z proc_state_scheme \<Rightarrow> 'z proc_state_scheme" where
  "upd_proc i f s = s\<lparr>ptable := (ptable s)(i := f (ptable s i))\<rparr>"

lemma upd_proc_frame [simp]:
  "this_cpu (upd_proc i f s) = this_cpu s" "quiet (upd_proc i f s) = quiet s"
  "cpus (upd_proc i f s) = cpus s" "nextpid (upd_proc i f s) = nextpid s"
  "ticks (upd_proc i f s) = ticks s" "freelist (upd_proc i f s) = freelist s"
  "ram (upd_proc i f s) = ram s" "kend (upd_proc i f s) = kend s"
  "initproc (upd_proc i f s) = initproc s" "locks (upd_proc i f s) = locks s"
  "console (upd_proc i f s) = console s" "mlfq (upd_proc i f s) = mlfq s"
  "upd_proc i f (with_locks L s) = with_locks L (upd_proc i f s)"
  by (simp_all add: upd_proc_def)

lemma ptable_upd_proc [simp]: "ptable (upd_proc i f s) = (ptable s)(i := f (ptable s i))"
  by (simp add: upd_proc_def)

text \<open>Following a pointer: a null pointer is a fault.\<close>

definition deref :: "'a option \<Rightarrow> 's \<Rightarrow> ('a, 's) res" where
  "deref p s = (case p of Some a \<Rightarrow> Ret a s | None \<Rightarrow> Fault ''null pointer dereference'')"

lemma deref_simps [simp]:
  "deref (Some a) s = Ret a s" "deref None s = Fault ''null pointer dereference''"
  by (simp_all add: deref_def)

section \<open>Console output\<close>

definition cprintf :: "string \<Rightarrow> fmt_arg list \<Rightarrow> 'z proc_state_scheme \<Rightarrow> (unit, 'z proc_state_scheme) res" where
  "cprintf fmt args s =
     (let locking = cons_locking s
      in kbind (if locking then acquire ConsLock s else Ret () s) (\<lambda>_ s.
         case cprintf_loop (str fmt) args of
           None \<Rightarrow> Fault ''cprintf''
         | Some out \<Rightarrow>
             let s = s\<lparr>console := console s @ out\<rparr>
             in if locking then release ConsLock s else Ret () s))"

section \<open>The current process\<close>

definition myproc :: "'z machine_scheme \<Rightarrow> (nat option, 'z machine_scheme) res" where
  "myproc s =
     kbind (pushcli s) (\<lambda>_ s.
     kbind (mycpu s) (\<lambda>c s.
     let p = cpu_proc (cpus s c)
     in kbind (popcli s) (\<lambda>_ s. Ret p s)))"

text \<open>\<open>myproc()\<close> followed by a field access.\<close>

definition curproc :: "'z machine_scheme \<Rightarrow> (nat, 'z machine_scheme) res" where
  "curproc s = kbind (myproc s) deref"

definition pinit :: "'z machine_scheme \<Rightarrow> (unit, 'z machine_scheme) res" where
  "pinit s = initlock PtableLock s"

section \<open>Allocation\<close>

text \<open>
  \<open>allocproc\<close> after the label \<open>found\<close> and under the lock, then the kernel stack: 76 bytes of
  trap frame at its top, the return address \<open>trapret\<close>, and a zeroed context (20 bytes) whose
  \<open>eip\<close> (offset 16) is \<open>forkret\<close>.
\<close>

definition claim_proc :: "nat \<Rightarrow> 'z proc_state_scheme \<Rightarrow> ('z proc_state_scheme)" where
  "claim_proc i s =
     (let s = upd_proc i (\<lambda>p. p\<lparr>p_state := EMBRYO\<rparr>) s;
          s = upd_proc i (\<lambda>p. p\<lparr>p_pid := nextpid s\<rparr>) s;
          s = s\<lparr>nextpid := nextpid s + 1\<rparr>;
          s = upd_proc i (\<lambda>p. p\<lparr>p_time_c := ticks s\<rparr>) s;
          s = (if mlfq s then upd_proc i (\<lambda>p. p\<lparr>p_priority := MIN_PRIORITY, p_level := 0,
                 p_hold := TIME_QUANTUM 0\<rparr>) s else s)
      in upd_proc i (\<lambda>p. p\<lparr>p_mode := USER, p_limit := 0, p_userid := str ''root''\<rparr>) s)"

definition setup_kstack :: "nat \<Rightarrow> u32 \<Rightarrow> 'z proc_state_scheme \<Rightarrow> 'z proc_state_scheme" where
  "setup_kstack i kstack s =
     (let sp = kstack + KSTACKSIZE;
          sp = sp - 76;
          s = upd_proc i (\<lambda>p. p\<lparr>p_tf := sp\<rparr>) s;
          sp = sp - 4;
          s = s\<lparr>ram := store32 (ram s) (unat sp) (trapret_addr s)\<rparr>;
          sp = sp - 20;
          s = upd_proc i (\<lambda>p. p\<lparr>p_context := sp\<rparr>) s;
          s = s\<lparr>ram := memset (ram s) (unat sp) 0 20\<rparr>
      in s\<lparr>ram := store32 (ram s) (unat sp + 16) (forkret_addr s)\<rparr>)"

definition allocproc :: "'z proc_state_scheme \<Rightarrow> (nat option, 'z proc_state_scheme) res" where
  "allocproc s =
     kbind (acquire PtableLock s) (\<lambda>_ s.
     case first_idx NPROC (\<lambda>i. p_state (ptable s i) = UNUSED) of
       None \<Rightarrow> kbind (release PtableLock s) (\<lambda>_ s. Ret None s)
     | Some i \<Rightarrow>
         let s = claim_proc i s
         in kbind (release PtableLock s) (\<lambda>_ s.
            kbind (kalloc s) (\<lambda>k s.
            let s = upd_proc i (\<lambda>p. p\<lparr>p_kstack := k\<rparr>) s
            in if k = 0 then Ret None (upd_proc i (\<lambda>p. p\<lparr>p_state := UNUSED\<rparr>) s)
               else Ret (Some i) (setup_kstack i k s))))"

section \<open>Switching\<close>

text \<open>
  \<open>switchuvm\<close> and \<open>switchkvm\<close>: of the task state segment only \<open>esp0\<close> is kept; the
  descriptor and \<open>ltr\<close> are constants of the hardware interface.
\<close>

definition switchuvm :: "nat option \<Rightarrow> 'z proc_state_scheme \<Rightarrow> (unit, 'z proc_state_scheme) res" where
  "switchuvm p s =
     (case p of None \<Rightarrow> Panic ''switchuvm: no process''
      | Some i \<Rightarrow>
          if p_kstack (ptable s i) = 0 then Panic ''switchuvm: no kstack''
          else if p_pgdir (ptable s i) = 0 then Panic ''switchuvm: no pgdir''
          else kbind (pushcli s) (\<lambda>_ s.
               kbind (mycpu s) (\<lambda>c s.
               let s = upd_cpu c (\<lambda>u. u\<lparr>ts_esp0 := p_kstack (ptable s i) + KSTACKSIZE\<rparr>) s;
                   s = upd_cpu c (\<lambda>u. u\<lparr>cr3 := V2P (p_pgdir (ptable s i))\<rparr>) s
               in popcli s)))"

definition switchkvm :: "'z proc_state_scheme \<Rightarrow> (unit, 'z proc_state_scheme) res" where
  "switchkvm s = kbind (mycpu s) (\<lambda>c s. Ret () (upd_cpu c (\<lambda>u. u\<lparr>cr3 := V2P (kpgdir s)\<rparr>) s))"

text \<open>
  \<open>sched\<close> up to its \<open>swtch\<close>, which hands the state to the scheduler. When the thread is
  chosen again it goes on with \<open>sched_return\<close>, with the \<open>intena\<close> it saved.
\<close>

definition sched :: "'z proc_state_scheme \<Rightarrow> (unit, 'z proc_state_scheme) res" where
  "sched s =
     kbind (myproc s) (\<lambda>p s.
     kbind (holding PtableLock s) (\<lambda>h s.
     if \<not> h then Panic ''sched ptable.lock''
     else kbind (mycpu s) (\<lambda>c s.
       if ncli (cpus s c) \<noteq> 1 then Panic ''sched locks''
       else kbind (deref p s) (\<lambda>i s.
         if p_state (ptable s i) = RUNNING then Panic ''sched running''
         else if eflags_IF s then Panic ''sched interruptible''
         else Swtch s))))"

definition sched_return :: "bool \<Rightarrow> 'z proc_state_scheme \<Rightarrow> (unit, 'z proc_state_scheme) res" where
  "sched_return saved s = kbind (mycpu s) (\<lambda>c s. Ret () (upd_cpu c (\<lambda>u. u\<lparr>intena := saved\<rparr>) s))"

definition yield :: "'z proc_state_scheme \<Rightarrow> (unit, 'z proc_state_scheme) res" where
  "yield s =
     kbind (acquire PtableLock s) (\<lambda>_ s.
     kbind (curproc s) (\<lambda>i s.
     let s = upd_proc i (\<lambda>p. p\<lparr>p_state := RUNNABLE\<rparr>) s
     in kbind (sched s) (\<lambda>_ s. release PtableLock s)))"

definition yield2 :: "'z proc_state_scheme \<Rightarrow> (unit, 'z proc_state_scheme) res" where
  "yield2 s =
     kbind (acquire PtableLock s) (\<lambda>_ s.
     kbind (curproc s) (\<lambda>i s.
     let s = upd_proc i (\<lambda>p. p\<lparr>p_state := RUNNABLE\<rparr>) s
     in kbind (curproc s) (\<lambda>i s.
     let s = upd_proc i (\<lambda>p. p\<lparr>p_level := 0\<rparr>) s
     in kbind (curproc s) (\<lambda>i s.
     let s = upd_proc i (\<lambda>p. p\<lparr>p_hold := TIME_QUANTUM 0\<rparr>) s
     in kbind (sched s) (\<lambda>_ s. release PtableLock s)))))"

section \<open>Sleep and wakeup\<close>

definition sleep :: "chan \<Rightarrow> lock_id \<Rightarrow> 'z proc_state_scheme \<Rightarrow> (unit, 'z proc_state_scheme) res" where
  "sleep ch lk s =
     kbind (myproc s) (\<lambda>p s.
     case p of None \<Rightarrow> Panic ''sleep''
     | Some i \<Rightarrow>
         kbind (if lk \<noteq> PtableLock
                then kbind (acquire PtableLock s) (\<lambda>_ s. release lk s)
                else Ret () s) (\<lambda>_ s.
         let s = upd_proc i (\<lambda>p. p\<lparr>p_chan := Some ch\<rparr>) s;
             s = upd_proc i (\<lambda>p. p\<lparr>p_state := SLEEPING\<rparr>) s
         in sched s))"

text \<open>What a sleeper does when it runs again.\<close>

definition sleep_return :: "nat \<Rightarrow> lock_id \<Rightarrow> bool \<Rightarrow> 'z proc_state_scheme \<Rightarrow> (unit, 'z proc_state_scheme) res" where
  "sleep_return i lk saved s =
     kbind (sched_return saved s) (\<lambda>_ s.
     let s = upd_proc i (\<lambda>p. p\<lparr>p_chan := None\<rparr>) s
     in if lk \<noteq> PtableLock then kbind (release PtableLock s) (\<lambda>_ s. acquire lk s) else Ret () s)"

definition wakeup1 :: "chan \<Rightarrow> 'z proc_state_scheme \<Rightarrow> 'z proc_state_scheme" where
  "wakeup1 ch s = s\<lparr>ptable := for_upd NPROC
     (\<lambda>p. if p_state p = SLEEPING \<and> p_chan p = Some ch then p\<lparr>p_state := RUNNABLE\<rparr> else p) (ptable s)\<rparr>"

definition wakeup :: "chan \<Rightarrow> 'z proc_state_scheme \<Rightarrow> (unit, 'z proc_state_scheme) res" where
  "wakeup ch s = kbind (acquire PtableLock s) (\<lambda>_ s. release PtableLock (wakeup1 ch s))"

section \<open>Calls on the process table\<close>

definition kill :: "int \<Rightarrow> 'z proc_state_scheme \<Rightarrow> (int, 'z proc_state_scheme) res" where
  "kill pid s =
     kbind (acquire PtableLock s) (\<lambda>_ s.
     case first_idx NPROC (\<lambda>i. p_pid (ptable s i) = pid) of
       Some i \<Rightarrow>
         let s = upd_proc i (\<lambda>p. p\<lparr>p_killed := True\<rparr>) s;
             s = upd_proc i (\<lambda>p. if p_state p = SLEEPING then p\<lparr>p_state := RUNNABLE\<rparr> else p) s
         in kbind (release PtableLock s) (\<lambda>_ s. Ret 0 s)
     | None \<Rightarrow> kbind (release PtableLock s) (\<lambda>_ s. Ret (-1) s))"

definition getlev :: "'z proc_state_scheme \<Rightarrow> (int, 'z proc_state_scheme) res" where
  "getlev s = kbind (curproc s) (\<lambda>i s. Ret (p_level (ptable s i)) s)"

text \<open>The loop of \<open>setpriority\<close>; \<open>flag\<close> as in the code.\<close>

fun setpriority_loop ::
  "nat list \<Rightarrow> int \<Rightarrow> int \<Rightarrow> int \<Rightarrow> bool \<Rightarrow> 'z proc_state_scheme \<Rightarrow> (bool, 'z proc_state_scheme) res" where
  "setpriority_loop [] mypid pid priority flag s = Ret flag s"
| "setpriority_loop (i # is) mypid pid priority flag s =
     (if p_pid (ptable s i) = pid then
        kbind (deref (p_parent (ptable s i)) s) (\<lambda>q s.
        if p_pid (ptable s q) = mypid then
          setpriority_loop is mypid pid priority True (upd_proc i (\<lambda>p. p\<lparr>p_priority := priority\<rparr>) s)
        else setpriority_loop is mypid pid priority flag s)
      else setpriority_loop is mypid pid priority flag s)"

definition setpriority :: "int \<Rightarrow> int \<Rightarrow> 'z proc_state_scheme \<Rightarrow> (int, 'z proc_state_scheme) res" where
  "setpriority pid priority s =
     kbind (curproc s) (\<lambda>me s.
     kbind (acquire PtableLock s) (\<lambda>_ s.
     if priority < MIN_PRIORITY \<or> priority > MAX_PRIORITY
     then kbind (release PtableLock s) (\<lambda>_ s. Ret (-2) s)
     else kbind (setpriority_loop [0..<NPROC] (p_pid (ptable s me)) pid priority False s) (\<lambda>flag s.
          kbind (release PtableLock s) (\<lambda>_ s. Ret (if flag then 0 else -1) s))))"

definition getadmin :: "cstring \<Rightarrow> 'z proc_state_scheme \<Rightarrow> (int, 'z proc_state_scheme) res" where
  "getadmin password s =
     kbind (acquire PtableLock s) (\<lambda>_ s.
     if strcmp password (str ''2016024875'') = 0 then
       kbind (curproc s) (\<lambda>i s.
       let s = upd_proc i (\<lambda>p. p\<lparr>p_mode := ADMINISTRATOR\<rparr>) s
       in kbind (release PtableLock s) (\<lambda>_ s. Ret 0 s))
     else kbind (release PtableLock s) (\<lambda>_ s. Ret (-1) s))"

text \<open>The comparison \<open>p->sz > limit\<close> converts the \<open>int\<close> to \<open>uint\<close>.\<close>

definition setmemorylimit :: "int \<Rightarrow> int \<Rightarrow> 'z proc_state_scheme \<Rightarrow> (int, 'z proc_state_scheme) res" where
  "setmemorylimit pid limit s =
     kbind (curproc s) (\<lambda>me s.
     if limit < 0 \<or> p_mode (ptable s me) \<noteq> ADMINISTRATOR then
       kbind (cprintf ''setmemorylimit: fail (limit < 0 or privilege error)\<newline>'' [] s) (\<lambda>_ s. Ret (-1) s)
     else case first_idx NPROC (\<lambda>i. p_pid (ptable s i) = pid \<and> p_state (ptable s i) \<noteq> UNUSED) of
       Some i \<Rightarrow>
         kbind (acquire PtableLock s) (\<lambda>_ s.
         if p_sz (ptable s i) > word_of_int limit \<and> limit \<noteq> 0 then
           kbind (release PtableLock s) (\<lambda>_ s.
           kbind (cprintf ''setmemorylimit: fail (designated limit is smaller than current sz)\<newline>'' [] s)
             (\<lambda>_ s. Ret (-1) s))
         else
           let s = upd_proc i (\<lambda>p. p\<lparr>p_limit := word_of_int limit\<rparr>) s
           in kbind (release PtableLock s) (\<lambda>_ s. Ret 0 s))
     | None \<Rightarrow> kbind (cprintf ''setmemorylimit: fail (no such pid)\<newline>'' [] s) (\<lambda>_ s. Ret (-1) s))"

definition getprocstate :: "procstate \<Rightarrow> string" where
  "getprocstate num =
     (case num of EMBRYO \<Rightarrow> ''EMBRYO'' | SLEEPING \<Rightarrow> ''SLEEPING'' | RUNNABLE \<Rightarrow> ''RUNNABLE''
      | RUNNING \<Rightarrow> ''RUNNING'' | ZOMBIE \<Rightarrow> ''ZOMBIE'' | UNUSED \<Rightarrow> ''NULL'')"

definition printproclist :: "'z proc_state_scheme \<Rightarrow> (unit, 'z proc_state_scheme) res" where
  "printproclist s =
     kbind (acquire PtableLock s) (\<lambda>_ s.
     kbind (cprintf ''NAME | PID | UID | State | Elapsed Time (ticks) | Memory Size (bytes) | Limit (bytes)\<newline>'' [] s) (\<lambda>_ s.
     kbind (kfor [0..<NPROC] (\<lambda>i s.
       let p = ptable s i
       in if p_state p \<noteq> UNUSED
          then cprintf ''%s | %d | %s | %s | %d | %d | %d\<newline>''
                 [AStr (p_name p), AInt (word_of_int (p_pid p)), AStr (p_userid p),
                  AStr (str (getprocstate (p_state p))), AInt (ticks s - p_time_c p),
                  AInt (p_sz p), AInt (p_limit p)] s
          else Ret () s) s) (\<lambda>_ s.
     kbind (cprintf ''\<newline>'' [] s) (\<lambda>_ s. release PtableLock s))))"

definition isalive :: "int \<Rightarrow> 'z proc_state_scheme \<Rightarrow> (int, 'z proc_state_scheme) res" where
  "isalive pid s =
     kbind (acquire PtableLock s) (\<lambda>_ s.
     case first_idx NPROC (\<lambda>i. \<not> p_killed (ptable s i) \<and> p_pid (ptable s i) = pid) of
       Some i \<Rightarrow> Ret 1 s
     | None \<Rightarrow> kbind (release PtableLock s) (\<lambda>_ s. Ret 0 s))"

section \<open>The operations on canonical states\<close>

text \<open>A process in slot \<open>i\<close> runs kernel code on this CPU and holds no lock.\<close>

definition in_proc :: "'z proc_state_scheme \<Rightarrow> nat \<Rightarrow> bool" where
  "in_proc s i \<longleftrightarrow> quiet s \<and> cpu_proc (cpus s (this_cpu s)) = Some i"

lemma in_proc_quiet [simp]: "in_proc s i \<Longrightarrow> quiet s"
  by (simp add: in_proc_def)

lemma in_proc_upd [simp]:
  "in_proc (upd_proc j f s) i = in_proc s i"
  "in_proc (s\<lparr>ptable := m\<rparr>) i = in_proc s i"
  "in_proc (s\<lparr>console := o'\<rparr>) i = in_proc s i"
  by (simp_all add: in_proc_def)

lemma myproc_with_locks [simp]:
  "quiet s \<Longrightarrow> myproc (with_locks L s) = Ret (cpu_proc (cpus s (this_cpu s))) (with_locks L s)"
  using pushed_simps(6) [of "with_locks L s" "this_cpu s"]
  by (simp add: myproc_def pushcli_eq mycpu_eq Let_def quietD del: pushed_simps(6))
     (subst popcli_pushed, auto simp: quietD)

lemma curproc_with_locks [simp]: "in_proc s i \<Longrightarrow> curproc (with_locks L s) = Ret i (with_locks L s)"
  by (simp add: curproc_def in_proc_def)

lemma curproc_quiet [simp]: "in_proc s i \<Longrightarrow> curproc s = Ret i s"
  using curproc_with_locks [of s i "[]"] by simp

lemma myproc_quiet: "in_proc s i \<Longrightarrow> myproc s = Ret (Some i) s"
  using myproc_with_locks [of s "[]"] by (simp add: in_proc_def)

lemma cprintf_with_locks [simp]:
  "quiet s \<Longrightarrow> ConsLock \<notin> set L \<Longrightarrow> distinct L \<Longrightarrow> cprintf_loop (str fmt) args = Some out \<Longrightarrow>
     cprintf fmt args (with_locks L s) = Ret () (with_locks L (s\<lparr>console := console s @ out\<rparr>))"
  by (simp add: cprintf_def Let_def)

lemma cprintf_plain:
  "quiet s \<Longrightarrow> ConsLock \<notin> set L \<Longrightarrow> distinct L \<Longrightarrow>
     list_all (\<lambda>c. (of_char c :: u8) \<noteq> of_char CHR ''%'') fmt \<Longrightarrow>
     cprintf fmt [] (with_locks L s) = Ret () (with_locks L (s\<lparr>console := console s @ str fmt\<rparr>))"
  by (simp add: cprintf_loop_plain list_all_str)

lemma cprintf_plain_quiet:
  "quiet s \<Longrightarrow> list_all (\<lambda>c. (of_char c :: u8) \<noteq> of_char CHR ''%'') fmt \<Longrightarrow>
     cprintf fmt [] s = Ret () (s\<lparr>console := console s @ str fmt\<rparr>)"
  using cprintf_plain [of s "[]" fmt] by simp

lemma sched_with_locks:
  assumes "in_proc s i"
  shows "sched (with_locks L s) =
    (if PtableLock \<notin> set L then Panic ''sched ptable.lock''
     else if length L \<noteq> 1 then Panic ''sched locks''
     else if p_state (ptable s i) = RUNNING then Panic ''sched running''
     else Swtch (with_locks L s))"
proof -
  have L: "L \<noteq> []" if "PtableLock \<in> set L" using that by auto
  show ?thesis using assms by (auto simp: sched_def in_proc_def L)
qed

lemma sleep_with_locks:
  assumes "in_proc s i" and "lk \<noteq> PtableLock"
  shows "sleep ch lk (with_locks [lk] s) =
    Swtch (with_locks [PtableLock] (upd_proc i (\<lambda>p. p\<lparr>p_chan := Some ch, p_state := SLEEPING\<rparr>) s))"
  using assms by (simp add: sleep_def in_proc_def Let_def)
     (simp add: sched_with_locks in_proc_def upd_proc_def)

lemma sleep_ptable_lock:
  assumes "in_proc s i"
  shows "sleep ch PtableLock (with_locks [PtableLock] s) =
    Swtch (with_locks [PtableLock] (upd_proc i (\<lambda>p. p\<lparr>p_chan := Some ch, p_state := SLEEPING\<rparr>) s))"
  using assms by (simp add: sleep_def in_proc_def Let_def)
     (simp add: sched_with_locks in_proc_def upd_proc_def)

lemma wakeup1_frame [simp]:
  "quiet (wakeup1 ch s) = quiet s" "this_cpu (wakeup1 ch s) = this_cpu s"
  "cpus (wakeup1 ch s) = cpus s" "nextpid (wakeup1 ch s) = nextpid s"
  "wakeup1 ch (with_locks L s) = with_locks L (wakeup1 ch s)"
  by (simp_all add: wakeup1_def)

lemma wakeup1_ptable:
  "ptable (wakeup1 ch s) i =
     (if i < NPROC \<and> p_state (ptable s i) = SLEEPING \<and> p_chan (ptable s i) = Some ch
      then (ptable s i)\<lparr>p_state := RUNNABLE\<rparr> else ptable s i)"
  by (simp add: wakeup1_def)

lemma wakeup_with_locks [simp]:
  "quiet s \<Longrightarrow> PtableLock \<notin> set L \<Longrightarrow> distinct L \<Longrightarrow>
     wakeup ch (with_locks L s) = Ret () (with_locks L (wakeup1 ch s))"
  by (simp add: wakeup_def)

lemma wakeup_quiet [simp]: "quiet s \<Longrightarrow> wakeup ch s = Ret () (wakeup1 ch s)"
  using wakeup_with_locks [of s "[]" ch] by simp

lemma kill_quiet:
  "quiet s \<Longrightarrow> kill pid s =
     (case first_idx NPROC (\<lambda>i. p_pid (ptable s i) = pid) of
        None \<Rightarrow> Ret (-1) s
      | Some i \<Rightarrow> Ret 0 (upd_proc i (\<lambda>p. p\<lparr>p_killed := True,
          p_state := (if p_state p = SLEEPING then RUNNABLE else p_state p)\<rparr>) s))"
proof -
  have e: "(if p_state p = SLEEPING then p\<lparr>p_killed := True, p_state := RUNNABLE\<rparr> else p\<lparr>p_killed := True\<rparr>) =
      p\<lparr>p_killed := True, p_state := (if p_state p = SLEEPING then RUNNABLE else p_state p)\<rparr>" for p :: proc
    by (cases p) simp
  assume "quiet s"
  then show ?thesis
    by (auto simp: kill_def Let_def e upd_proc_def split: option.splits)
qed

text \<open>The slots \<open>setpriority\<close> changes: children of the caller, by process number.\<close>

definition child_slot :: "'z proc_state_scheme \<Rightarrow> int \<Rightarrow> int \<Rightarrow> nat \<Rightarrow> bool" where
  "child_slot s mypid pid i \<longleftrightarrow> p_pid (ptable s i) = pid \<and>
     (case p_parent (ptable s i) of None \<Rightarrow> False | Some q \<Rightarrow> p_pid (ptable s q) = mypid)"

lemma ptable_same [simp]: "s\<lparr>ptable := ptable s\<rparr> = s"
  by simp

lemma setpriority_loop_eq:
  assumes "\<forall>i\<in>set is. p_pid (ptable s i) = pid \<longrightarrow> p_parent (ptable s i) \<noteq> None"
  shows "setpriority_loop is mypid pid priority flag s =
    Ret (flag \<or> (\<exists>i\<in>set is. child_slot s mypid pid i))
      (s\<lparr>ptable := (\<lambda>i. if i \<in> set is \<and> child_slot s mypid pid i
         then (ptable s i)\<lparr>p_priority := priority\<rparr> else ptable s i)\<rparr>)"
  using assms
proof (induction "is" arbitrary: s flag)
  case Nil
  then show ?case by simp
next
  case (Cons i "is")
  define t where "t = upd_proc i (\<lambda>p. p\<lparr>p_priority := priority\<rparr>) s"
  have inv: "child_slot t mypid pid j = child_slot s mypid pid j" for j
    by (simp add: child_slot_def t_def split: option.splits)
  have pre: "\<forall>j\<in>set is. p_pid (ptable t j) = pid \<longrightarrow> p_parent (ptable t j) \<noteq> None"
    using Cons.prems by (auto simp: t_def)
  have upd: "t\<lparr>ptable := (\<lambda>j. if j \<in> set is \<and> child_slot s mypid pid j
        then (ptable t j)\<lparr>p_priority := priority\<rparr> else ptable t j)\<rparr> =
      s\<lparr>ptable := (\<lambda>j. if j \<in> set (i # is) \<and> child_slot s mypid pid j
        then (ptable s j)\<lparr>p_priority := priority\<rparr> else ptable s j)\<rparr>" if "child_slot s mypid pid i"
    using that by (simp add: t_def upd_proc_def fun_eq_iff)
  show ?case
  proof (cases "child_slot s mypid pid i")
    case True
    then have "setpriority_loop (i # is) mypid pid priority flag s =
        setpriority_loop is mypid pid priority True t"
      by (auto simp: child_slot_def t_def split: option.splits)
    then show ?thesis
      unfolding Cons.IH [OF pre] inv upd [OF True] using True by simp
  next
    case False
    then have "setpriority_loop (i # is) mypid pid priority flag s =
        setpriority_loop is mypid pid priority flag s"
      using Cons.prems by (auto simp: child_slot_def split: option.splits)
    moreover have "(\<lambda>j. if j \<in> set (i # is) \<and> child_slot s mypid pid j
        then (ptable s j)\<lparr>p_priority := priority\<rparr> else ptable s j) =
      (\<lambda>j. if j \<in> set is \<and> child_slot s mypid pid j
        then (ptable s j)\<lparr>p_priority := priority\<rparr> else ptable s j)"
      using False by (auto simp: fun_eq_iff)
    ultimately show ?thesis
      using Cons False by simp
  qed
qed

section \<open>Properties\<close>

text \<open>
  C31: No wakeup is lost. A process that sleeps on a channel with lock \<open>lk\<close> reaches the
  scheduler with \<open>lk\<close> free again, marked \<open>SLEEPING\<close>, holding only the table lock, and no
  other slot changed; from then on a \<open>wakeup\<close> on that channel makes it \<open>RUNNABLE\<close>, and one
  on another channel leaves it asleep.
\<close>

theorem sleep_wakeup:
  assumes "in_proc s i" and "i < NPROC" and "lk \<noteq> PtableLock"
  shows "\<exists>t. sleep ch lk (with_locks [lk] s) = Swtch (with_locks [PtableLock] t) \<and>
    quiet t \<and> p_state (ptable t i) = SLEEPING \<and> (\<forall>j. j \<noteq> i \<longrightarrow> ptable t j = ptable s j) \<and>
    (\<exists>u. wakeup ch t = Ret () u \<and> p_state (ptable u i) = RUNNABLE) \<and>
    (\<forall>ch'. ch' \<noteq> ch \<longrightarrow> (\<exists>u. wakeup ch' t = Ret () u \<and> p_state (ptable u i) = SLEEPING))"
  using assms by (auto simp: sleep_with_locks wakeup1_ptable in_proc_def)

text \<open>
  \<open>setpriority\<close> rejects priorities outside 0..10 with -2, returns -1 when the process
  number names no child of the caller, and otherwise gives exactly the caller's children with
  that number the new priority and returns 0. The hypothesis is that the slots with that
  number have a parent, since the code follows \<open>p->parent\<close> without a check.
\<close>

theorem setpriority_spec:
  assumes "in_proc s me" and "\<forall>i<NPROC. p_pid (ptable s i) = pid \<longrightarrow> p_parent (ptable s i) \<noteq> None"
  shows "setpriority pid priority s =
    (if priority < 0 \<or> priority > 10 then Ret (-2) s
     else if \<exists>i<NPROC. child_slot s (p_pid (ptable s me)) pid i then
       Ret 0 (s\<lparr>ptable := (\<lambda>i. if i < NPROC \<and> child_slot s (p_pid (ptable s me)) pid i
         then (ptable s i)\<lparr>p_priority := priority\<rparr> else ptable s i)\<rparr>)
     else Ret (-1) s)"
proof -
  let ?c = "\<lambda>i. i < NPROC \<and> child_slot s (p_pid (ptable s me)) pid i"
  let ?t = "s\<lparr>ptable := (\<lambda>i. if ?c i then (ptable s i)\<lparr>p_priority := priority\<rparr> else ptable s i)\<rparr>"
  have cs: "child_slot (with_locks [PtableLock] s) = child_slot s"
    by (simp add: child_slot_def fun_eq_iff split: option.splits)
  have same: "?t = s" if "\<nexists>i. ?c i"
  proof -
    have "(\<lambda>i. if ?c i then (ptable s i)\<lparr>p_priority := priority\<rparr> else ptable s i) = ptable s"
      using that by (intro ext) auto
    then show ?thesis by simp
  qed
  have "setpriority_loop [0..<NPROC] (p_pid (ptable s me)) pid priority False (with_locks [PtableLock] s) =
      Ret (\<exists>i. ?c i) (with_locks [PtableLock] ?t)"
    using assms(2) by (subst setpriority_loop_eq) (auto simp: cs cong: if_cong)
  then show ?thesis
    using assms(1) same by (auto simp: setpriority_def MIN_PRIORITY_def MAX_PRIORITY_def)
qed

text \<open>
  \<open>setpriority\<close> on a process number whose slot has no parent (the first process, or 0,
  the number of a slot never used) follows a null pointer.
\<close>

theorem setpriority_null_parent:
  assumes "in_proc s me" and "0 \<le> priority" and "priority \<le> 10"
    and "p_pid (ptable s 0) = pid" and "p_parent (ptable s 0) = None"
  shows "setpriority pid priority s = Fault ''null pointer dereference''"
proof -
  have "[0..<NPROC] = 0 # [1..<NPROC]"
    unfolding NPROC_def by (subst upt_conv_Cons) auto
  then show ?thesis
    using assms by (simp add: setpriority_def MIN_PRIORITY_def MAX_PRIORITY_def)
qed

text \<open>
  Only the exact password makes the caller an administrator; \<open>getadmin\<close> changes nothing
  else, and a wrong password changes nothing at all.
\<close>

theorem getadmin_spec:
  assumes "in_proc s me" and "wf_cstr password"
  shows "getadmin password s =
    (if password = str ''2016024875'' then Ret 0 (upd_proc me (\<lambda>p. p\<lparr>p_mode := ADMINISTRATOR\<rparr>) s)
     else Ret (-1) s)"
proof -
  have "wf_cstr (str ''2016024875'')" by (simp add: wf_cstr_def str_simps)
  from strcmp_eq_0 [OF assms(2) this] assms(1) show ?thesis
    by (simp add: getadmin_def Let_def)
qed

text \<open>The slot \<open>setmemorylimit\<close> acts on.\<close>

definition limit_slot :: "'z proc_state_scheme \<Rightarrow> int \<Rightarrow> nat option" where
  "limit_slot s pid = first_idx NPROC (\<lambda>i. p_pid (ptable s i) = pid \<and> p_state (ptable s i) \<noteq> UNUSED)"

text \<open>
  \<open>setmemorylimit\<close> succeeds only for an administrator, a limit that is not negative, a
  process that exists, and a limit of 0 (none) or at least the memory the process has; it then
  changes that one limit. In every other case it returns -1 and the process table stays as it
  was.
\<close>

theorem setmemorylimit_spec:
  assumes "in_proc s me" and "limit < 2 ^ 31"
  shows "case limit_slot s pid of
      Some i \<Rightarrow>
        if 0 \<le> limit \<and> p_mode (ptable s me) = ADMINISTRATOR \<and>
           (limit = 0 \<or> uint (p_sz (ptable s i)) \<le> limit)
        then setmemorylimit pid limit s = Ret 0 (upd_proc i (\<lambda>p. p\<lparr>p_limit := word_of_int limit\<rparr>) s)
        else \<exists>t. setmemorylimit pid limit s = Ret (-1) t \<and> ptable t = ptable s
    | None \<Rightarrow> \<exists>t. setmemorylimit pid limit s = Ret (-1) t \<and> ptable t = ptable s"
proof -
  have q: "quiet s" using assms(1) by simp
  have w: "p_sz (ptable s i) > word_of_int limit \<longleftrightarrow> uint (p_sz (ptable s i)) > limit"
    if "0 \<le> limit" for i
    using that assms(2) by (simp add: word_less_def uint_word_of_int)
  show ?thesis
    using assms(1) q
    by (auto simp: setmemorylimit_def limit_slot_def w Let_def not_less cprintf_plain_quiet
        split: option.splits)
qed

text \<open>
  C39: \<open>isalive\<close> answers 1 exactly for the number of a process that was not killed, but in that
  case it returns with the table lock still held, and the next \<open>acquire\<close> of it on this CPU
  panics.
\<close>

theorem isalive_leaks_lock:
  assumes "quiet s"
  shows "if \<exists>i<NPROC. \<not> p_killed (ptable s i) \<and> p_pid (ptable s i) = pid
    then isalive pid s = Ret 1 (with_locks [PtableLock] s) \<and>
      acquire PtableLock (with_locks [PtableLock] s) = Panic ''acquire''
    else isalive pid s = Ret 0 s"
  using assms
  by (cases "first_idx NPROC (\<lambda>i. \<not> p_killed (ptable s i) \<and> p_pid (ptable s i) = pid)")
     (auto simp: isalive_def dest: first_idx_None [THEN iffD1] first_idx_SomeD)

section \<open>A concrete machine\<close>

text \<open>
  One CPU running slot 1 (an administrator, process 2), whose children 3 and 4 are runnable
  and asleep; slot 0 is the first process.
\<close>

definition zero_proc :: proc where
  "zero_proc = \<lparr>p_sz = 0, p_pgdir = 0, p_kstack = 0, p_state = UNUSED, p_pid = 0, p_parent = None,
     p_tf = 0, p_context = 0, p_chan = None, p_killed = False, p_ofile = (\<lambda>_. None), p_cwd = None,
     p_name = [], p_time_c = 0, p_priority = 0, p_level = 0, p_hold = 0, p_mode = USER,
     p_limit = 0, p_userid = []\<rparr>"

definition demo_table :: "nat \<Rightarrow> proc" where
  "demo_table =
     (\<lambda>_. zero_proc)
     (0 := zero_proc\<lparr>p_state := SLEEPING, p_pid := 1, p_chan := Some (ChanProc 0), p_sz := 4096\<rparr>,
      1 := zero_proc\<lparr>p_state := RUNNING, p_pid := 2, p_parent := Some 0, p_mode := ADMINISTRATOR,
             p_sz := 8192, p_pgdir := 0x80500000, p_kstack := 0x80501000\<rparr>,
      2 := zero_proc\<lparr>p_state := RUNNABLE, p_pid := 3, p_parent := Some 1, p_sz := 8192,
             p_pgdir := 0x80502000, p_kstack := 0x80503000\<rparr>,
      3 := zero_proc\<lparr>p_state := SLEEPING, p_pid := 4, p_parent := Some 1, p_chan := Some ChanTicks\<rparr>)"

definition demo_cpu :: cpu where
  "demo_cpu = \<lparr>apicid = 0, ncli = 0, intena = True, cpu_proc = Some 1, ts_esp0 = 0, cr3 = 0\<rparr>"

definition proc_demo :: proc_state where
  "proc_demo = \<lparr>lapicid = 0, eflags_IF = True, ncpu = 1, cpus = (\<lambda>_. demo_cpu),
     locks = (\<lambda>_. free_lock), use_lock = True, freelist = 0x80400000,
     ram = (\<lambda>_. 0), kend = 0x80400000,
     ptable = demo_table, initproc = Some 0, nextpid = 5, ticks = 100, cons_locking = True,
     console = [], kpgdir = 0x803FF000, forkret_addr = 0x80103000, trapret_addr = 0x80106000,
     mlfq = False\<rparr>"

lemma first_idx_one: "first_idx 1 (\<lambda>_. True) = Some 0" "first_idx (Suc 0) (\<lambda>_. True) = Some 0"
  by (simp_all add: first_idx_def)

lemma proc_demo_in: "in_proc proc_demo 1"
  by (simp add: in_proc_def quiet_def cpu_known_def this_cpu_def proc_demo_def demo_cpu_def first_idx_one)

lemma proc_demo_table [simp]: "ptable proc_demo = demo_table"
  by (simp add: proc_demo_def)

theorem sleep_wakeup_witness:
  "\<exists>t. sleep ChanLog LogLock (with_locks [LogLock] proc_demo) = Swtch (with_locks [PtableLock] t) \<and>
     p_state (ptable t 1) = SLEEPING"
  using sleep_wakeup [OF proc_demo_in, of LogLock ChanLog] by (auto simp: NPROC_def)

theorem setpriority_spec_witness:
  "ret_of (setpriority 3 7 proc_demo) \<noteq> None \<and> setpriority 3 11 proc_demo = Ret (-2) proc_demo"
proof -
  have "\<forall>i<NPROC. p_pid (ptable proc_demo i) = 3 \<longrightarrow> p_parent (ptable proc_demo i) \<noteq> None"
    by (auto simp: demo_table_def zero_proc_def)
  then show ?thesis
    using setpriority_spec [OF proc_demo_in, of 3 7] setpriority_spec [OF proc_demo_in, of 3 11]
    by simp
qed

theorem setpriority_null_parent_witness:
  "setpriority 1 5 proc_demo = Fault ''null pointer dereference''"
  by (rule setpriority_null_parent [OF proc_demo_in]) (simp_all add: demo_table_def zero_proc_def)

theorem getadmin_spec_witness:
  "getadmin (str ''1234'') proc_demo = Ret (-1) proc_demo"
  using getadmin_spec [OF proc_demo_in, of "str ''1234''"] by (simp add: wf_cstr_def str_simps)

theorem setmemorylimit_spec_witness:
  "\<exists>t. setmemorylimit 3 8192 proc_demo = Ret 0 t"
proof -
  have "limit_slot proc_demo 3 = Some 2"
    by (auto simp: limit_slot_def first_idx_Some NPROC_def demo_table_def zero_proc_def less_Suc_eq numeral_2_eq_2)
  moreover have "p_mode (ptable proc_demo 1) = ADMINISTRATOR" "p_sz (ptable proc_demo 2) = 8192"
    by (simp_all add: demo_table_def zero_proc_def)
  ultimately show ?thesis
    using setmemorylimit_spec [OF proc_demo_in, of 8192 3] by simp
qed

theorem isalive_leaks_lock_witness:
  "isalive 3 proc_demo = Ret 1 (with_locks [PtableLock] proc_demo)"
proof -
  have "\<exists>i<NPROC. \<not> p_killed (ptable proc_demo i) \<and> p_pid (ptable proc_demo i) = 3"
    by (rule exI [of _ 2]) (simp add: NPROC_def demo_table_def zero_proc_def)
  then show ?thesis
    using isalive_leaks_lock [of proc_demo 3] in_proc_quiet [OF proc_demo_in] by simp
qed

end
