(* ===== verification/Bio.thy ===== *)
theory Bio
  imports ProcTable
begin

text \<open>
  Sleep locks (\<open>sleeplock.c\<close>) and the buffer cache (\<open>bio.c\<close>) over a disk that completes
  each request at once, as the driver \<open>memide.c\<close> does. The disk holds a buffer of
  \<open>BSIZE\<close> bytes per block; the doubly linked list of \<open>bcache\<close> is the list of its slots, the
  most recently used first. \<open>writes\<close> records the blocks written to the disk, in order, for
  the reasoning about crashes.
\<close>

section \<open>Sleep locks\<close>

record sleeplock =
  sl_locked :: bool
  sl_pid :: int

record sleep_state = proc_state +
  sleeplks :: "sleeplock_id \<Rightarrow> sleeplock"

lemma sleep_this_cpu [simp]:
  "this_cpu (s\<lparr>sleeplks := x0\<rparr>) = this_cpu s"
  by (simp_all add: this_cpu_def)

lemma sleep_cpu_known [simp]:
  "cpu_known (s\<lparr>sleeplks := x0\<rparr>) = cpu_known s"
  by (simp_all add: cpu_known_def)

lemma sleep_quiet [simp]:
  "quiet (s\<lparr>sleeplks := x0\<rparr>) = quiet s"
  by (simp_all add: quiet_def)

lemma sleep_sel [simp]:
  "sleeplks (with_locks L s) = sleeplks s"
  by (simp_all add: with_locks_def)

lemma sleep_upd [simp]:
  "(with_locks L s)\<lparr>sleeplks := x0\<rparr> = with_locks L (s\<lparr>sleeplks := x0\<rparr>)"
  by (simp_all add: with_locks_def cong: if_cong)

definition initsleeplock :: "sleeplock_id \<Rightarrow> 'z sleep_state_scheme \<Rightarrow> (unit, 'z sleep_state_scheme) res" where
  "initsleeplock l s =
     kbind (initlock (SleepLk l) s) (\<lambda>_ s.
     Ret () (s\<lparr>sleeplks := (sleeplks s)(l := \<lparr>sl_locked = False, sl_pid = 0\<rparr>)\<rparr>))"

text \<open>
  The loop \<open>while (lk->locked) sleep(lk, &lk->lk)\<close>: a sleeper gives up the CPU, and goes on
  with \<open>acquiresleep_return\<close> when it is woken.
\<close>

definition acquiresleep_loop :: "sleeplock_id \<Rightarrow> 'z sleep_state_scheme \<Rightarrow> (unit, 'z sleep_state_scheme) res" where
  "acquiresleep_loop l s =
     (if sl_locked (sleeplks s l) then sleep (ChanSleep l) (SleepLk l) s
      else let s = s\<lparr>sleeplks := (sleeplks s)(l := (sleeplks s l)\<lparr>sl_locked := True\<rparr>)\<rparr>
           in kbind (curproc s) (\<lambda>i s.
              release (SleepLk l) (s\<lparr>sleeplks := (sleeplks s)(l := (sleeplks s l)\<lparr>sl_pid := p_pid (ptable s i)\<rparr>)\<rparr>)))"

definition acquiresleep :: "sleeplock_id \<Rightarrow> 'z sleep_state_scheme \<Rightarrow> (unit, 'z sleep_state_scheme) res" where
  "acquiresleep l s = kbind (acquire (SleepLk l) s) (\<lambda>_ s. acquiresleep_loop l s)"

definition acquiresleep_return ::
  "nat \<Rightarrow> sleeplock_id \<Rightarrow> bool \<Rightarrow> 'z sleep_state_scheme \<Rightarrow> (unit, 'z sleep_state_scheme) res" where
  "acquiresleep_return i l saved s =
     kbind (sleep_return i (SleepLk l) saved s) (\<lambda>_ s. acquiresleep_loop l s)"

definition releasesleep :: "sleeplock_id \<Rightarrow> 'z sleep_state_scheme \<Rightarrow> (unit, 'z sleep_state_scheme) res" where
  "releasesleep l s =
     kbind (acquire (SleepLk l) s) (\<lambda>_ s.
     let s = s\<lparr>sleeplks := (sleeplks s)(l := (sleeplks s l)\<lparr>sl_locked := False\<rparr>)\<rparr>;
         s = s\<lparr>sleeplks := (sleeplks s)(l := (sleeplks s l)\<lparr>sl_pid := 0\<rparr>)\<rparr>
     in kbind (wakeup (ChanSleep l) s) (\<lambda>_ s. release (SleepLk l) s))"

definition holdingsleep :: "sleeplock_id \<Rightarrow> 'z sleep_state_scheme \<Rightarrow> (bool, 'z sleep_state_scheme) res" where
  "holdingsleep l s =
     kbind (acquire (SleepLk l) s) (\<lambda>_ s.
     if sl_locked (sleeplks s l) then
       kbind (curproc s) (\<lambda>i s.
       let r = (sl_pid (sleeplks s l) = p_pid (ptable s i))
       in kbind (release (SleepLk l) s) (\<lambda>_ s. Ret r s))
     else kbind (release (SleepLk l) s) (\<lambda>_ s. Ret False s))"

definition sl_held :: "int \<Rightarrow> sleeplock" where "sl_held n = \<lparr>sl_locked = True, sl_pid = n\<rparr>"
definition sl_free :: sleeplock where "sl_free = \<lparr>sl_locked = False, sl_pid = 0\<rparr>"

lemma sl_shapes [simp]:
  "sl_locked (sl_held n)" "sl_pid (sl_held n) = n" "\<not> sl_locked sl_free" "sl_held n \<noteq> sl_free" "sl_free \<noteq> sl_held n"
  by (simp_all add: sl_held_def sl_free_def)

lemma sl_upds: "(l\<lparr>sl_locked := True, sl_pid := n\<rparr> :: sleeplock) = sl_held n"
    "(l\<lparr>sl_locked := False, sl_pid := 0\<rparr> :: sleeplock) = sl_free"
  by (simp_all add: sl_held_def sl_free_def)

lemma in_proc_sleeplks [simp]: "in_proc (s\<lparr>sleeplks := m\<rparr>) i = in_proc s i"
  by (simp add: in_proc_def)

lemma acquiresleep_free:
  "in_proc s i \<Longrightarrow> \<not> sl_locked (sleeplks s l) \<Longrightarrow>
     acquiresleep l s = Ret () (s\<lparr>sleeplks := (sleeplks s)(l := sl_held (p_pid (ptable s i)))\<rparr>)"
  by (simp add: acquiresleep_def acquiresleep_loop_def Let_def sl_upds)

lemma acquiresleep_busy:
  "in_proc s i \<Longrightarrow> sl_locked (sleeplks s l) \<Longrightarrow> acquiresleep l s =
     Swtch (with_locks [PtableLock] (upd_proc i (\<lambda>p. p\<lparr>p_chan := Some (ChanSleep l), p_state := SLEEPING\<rparr>) s))"
  by (simp add: acquiresleep_def acquiresleep_loop_def sleep_with_locks)

lemma releasesleep_quiet:
  "quiet s \<Longrightarrow> releasesleep l s = Ret () (wakeup1 (ChanSleep l) (s\<lparr>sleeplks := (sleeplks s)(l := sl_free)\<rparr>))"
  by (simp add: releasesleep_def Let_def sl_upds)

lemma holdingsleep_quiet:
  "in_proc s i \<Longrightarrow> holdingsleep l s =
     Ret (sl_locked (sleeplks s l) \<and> sl_pid (sleeplks s l) = p_pid (ptable s i)) s"
  by (simp add: holdingsleep_def Let_def)

section \<open>The buffer cache\<close>

definition NBUF :: nat where "NBUF = 30"
definition BSIZE :: nat where "BSIZE = 512"

record buf =
  b_valid :: bool
  b_dirty :: bool
  b_dev :: u32
  b_blockno :: u32
  b_refcnt :: u32
  b_data :: buffer

record bio_state = sleep_state +
  bufs :: "nat \<Rightarrow> buf"
  lru :: "nat list"
  disk :: "u32 \<Rightarrow> buffer"
  disksize :: u32
  writes :: "(u32 \<times> buffer) list"

lemma bio_this_cpu [simp]:
  "this_cpu (s\<lparr>bufs := x0\<rparr>) = this_cpu s"
  "this_cpu (s\<lparr>lru := x1\<rparr>) = this_cpu s"
  "this_cpu (s\<lparr>disk := x2\<rparr>) = this_cpu s"
  "this_cpu (s\<lparr>disksize := x3\<rparr>) = this_cpu s"
  "this_cpu (s\<lparr>writes := x4\<rparr>) = this_cpu s"
  by (simp_all add: this_cpu_def)

lemma bio_cpu_known [simp]:
  "cpu_known (s\<lparr>bufs := x0\<rparr>) = cpu_known s"
  "cpu_known (s\<lparr>lru := x1\<rparr>) = cpu_known s"
  "cpu_known (s\<lparr>disk := x2\<rparr>) = cpu_known s"
  "cpu_known (s\<lparr>disksize := x3\<rparr>) = cpu_known s"
  "cpu_known (s\<lparr>writes := x4\<rparr>) = cpu_known s"
  by (simp_all add: cpu_known_def)

lemma bio_quiet [simp]:
  "quiet (s\<lparr>bufs := x0\<rparr>) = quiet s"
  "quiet (s\<lparr>lru := x1\<rparr>) = quiet s"
  "quiet (s\<lparr>disk := x2\<rparr>) = quiet s"
  "quiet (s\<lparr>disksize := x3\<rparr>) = quiet s"
  "quiet (s\<lparr>writes := x4\<rparr>) = quiet s"
  by (simp_all add: quiet_def)

lemma bio_sel [simp]:
  "bufs (with_locks L s) = bufs s"
  "lru (with_locks L s) = lru s"
  "disk (with_locks L s) = disk s"
  "disksize (with_locks L s) = disksize s"
  "writes (with_locks L s) = writes s"
  by (simp_all add: with_locks_def)

lemma bio_upd [simp]:
  "(with_locks L s)\<lparr>bufs := x0\<rparr> = with_locks L (s\<lparr>bufs := x0\<rparr>)"
  "(with_locks L s)\<lparr>lru := x1\<rparr> = with_locks L (s\<lparr>lru := x1\<rparr>)"
  "(with_locks L s)\<lparr>disk := x2\<rparr> = with_locks L (s\<lparr>disk := x2\<rparr>)"
  "(with_locks L s)\<lparr>disksize := x3\<rparr> = with_locks L (s\<lparr>disksize := x3\<rparr>)"
  "(with_locks L s)\<lparr>writes := x4\<rparr> = with_locks L (s\<lparr>writes := x4\<rparr>)"
  by (simp_all add: with_locks_def cong: if_cong)

definition upd_buf :: "nat \<Rightarrow> (buf \<Rightarrow> buf) \<Rightarrow> 'z bio_state_scheme \<Rightarrow> 'z bio_state_scheme" where
  "upd_buf i f s = s\<lparr>bufs := (bufs s)(i := f (bufs s i))\<rparr>"

definition binit :: "'z bio_state_scheme \<Rightarrow> (unit, 'z bio_state_scheme) res" where
  "binit s =
     kbind (initlock BcacheLock s) (\<lambda>_ s.
     kfor [0..<NBUF] (\<lambda>i s.
       kbind (initsleeplock (BufLock i) s) (\<lambda>_ s. Ret () (s\<lparr>lru := i # lru s\<rparr>))) (s\<lparr>lru := []\<rparr>))"

definition bget :: "u32 \<Rightarrow> u32 \<Rightarrow> 'z bio_state_scheme \<Rightarrow> (nat, 'z bio_state_scheme) res" where
  "bget dev blockno s =
     kbind (acquire BcacheLock s) (\<lambda>_ s.
     case List.find (\<lambda>i. b_dev (bufs s i) = dev \<and> b_blockno (bufs s i) = blockno) (lru s) of
       Some i \<Rightarrow>
         kbind (release BcacheLock (upd_buf i (\<lambda>b. b\<lparr>b_refcnt := b_refcnt b + 1\<rparr>) s)) (\<lambda>_ s.
         kbind (acquiresleep (BufLock i) s) (\<lambda>_ s. Ret i s))
     | None \<Rightarrow>
         (case List.find (\<lambda>i. b_refcnt (bufs s i) = 0 \<and> \<not> b_dirty (bufs s i)) (rev (lru s)) of
            Some i \<Rightarrow>
              kbind (release BcacheLock (upd_buf i (\<lambda>b. b\<lparr>b_valid := False, b_dirty := False, b_dev := dev,
                b_blockno := blockno, b_refcnt := 1\<rparr>) s)) (\<lambda>_ s.
              kbind (acquiresleep (BufLock i) s) (\<lambda>_ s. Ret i s))
          | None \<Rightarrow> Panic ''bget: no buffers''))"

definition iderw :: "nat \<Rightarrow> 'z bio_state_scheme \<Rightarrow> (unit, 'z bio_state_scheme) res" where
  "iderw i s =
     kbind (holdingsleep (BufLock i) s) (\<lambda>h s.
     let b = bufs s i
     in if \<not> h then Panic ''iderw: buf not locked''
        else if b_valid b \<and> \<not> b_dirty b then Panic ''iderw: nothing to do''
        else if b_dev b \<noteq> 1 then Panic ''iderw: request not for disk 1''
        else if b_blockno b \<ge> disksize s then Panic ''iderw: block out of range''
        else if b_dirty b then
          Ret () (upd_buf i (\<lambda>b. b\<lparr>b_dirty := False, b_valid := True\<rparr>)
            (s\<lparr>disk := (disk s)(b_blockno b := b_data b), writes := writes s @ [(b_blockno b, b_data b)]\<rparr>))
        else Ret () (upd_buf i (\<lambda>b. b\<lparr>b_data := disk s (b_blockno b), b_valid := True\<rparr>) s))"

definition bread :: "u32 \<Rightarrow> u32 \<Rightarrow> 'z bio_state_scheme \<Rightarrow> (nat, 'z bio_state_scheme) res" where
  "bread dev blockno s =
     kbind (bget dev blockno s) (\<lambda>i s.
     kbind (if \<not> b_valid (bufs s i) then iderw i s else Ret () s) (\<lambda>_ s. Ret i s))"

definition bwrite :: "nat \<Rightarrow> 'z bio_state_scheme \<Rightarrow> (unit, 'z bio_state_scheme) res" where
  "bwrite i s =
     kbind (holdingsleep (BufLock i) s) (\<lambda>h s.
     if \<not> h then Panic ''bwrite'' else iderw i (upd_buf i (\<lambda>b. b\<lparr>b_dirty := True\<rparr>) s))"

definition brelse :: "nat \<Rightarrow> 'z bio_state_scheme \<Rightarrow> (unit, 'z bio_state_scheme) res" where
  "brelse i s =
     kbind (holdingsleep (BufLock i) s) (\<lambda>h s.
     if \<not> h then Panic ''brelse''
     else kbind (releasesleep (BufLock i) s) (\<lambda>_ s.
          kbind (acquire BcacheLock s) (\<lambda>_ s.
          let s = upd_buf i (\<lambda>b. b\<lparr>b_refcnt := b_refcnt b - 1\<rparr>) s;
              s = (if b_refcnt (bufs s i) = 0 then s\<lparr>lru := i # remove1 i (lru s)\<rparr> else s)
          in release BcacheLock s)))"

section \<open>Frame rules\<close>

lemma upd_buf_frame [simp]:
  "quiet (upd_buf i f s) = quiet s" "in_proc (upd_buf i f s) me = in_proc s me"
  "ptable (upd_buf i f s) = ptable s" "sleeplks (upd_buf i f s) = sleeplks s"
  "lru (upd_buf i f s) = lru s" "disk (upd_buf i f s) = disk s" "disksize (upd_buf i f s) = disksize s"
  "writes (upd_buf i f s) = writes s" "bufs (upd_buf i f s) = (bufs s)(i := f (bufs s i))"
  "upd_buf i f (with_locks L s) = with_locks L (upd_buf i f s)"
  by (simp_all add: upd_buf_def in_proc_def)

lemma in_proc_bio [simp]:
  "in_proc (s\<lparr>bufs := b\<rparr>) i = in_proc s i" "in_proc (s\<lparr>lru := l\<rparr>) i = in_proc s i"
  "in_proc (s\<lparr>disk := d\<rparr>) i = in_proc s i" "in_proc (s\<lparr>writes := w\<rparr>) i = in_proc s i"
  by (simp_all add: in_proc_def)

lemma wakeup1_bio [simp]:
  "bufs (wakeup1 ch s) = bufs s" "lru (wakeup1 ch s) = lru s" "disk (wakeup1 ch s) = disk s"
  "disksize (wakeup1 ch s) = disksize s" "writes (wakeup1 ch s) = writes s"
  "in_proc (wakeup1 ch s) i = in_proc s i"
  by (simp_all add: wakeup1_def)

lemma wakeup1_sleeplks [simp]: "sleeplks (wakeup1 ch s) = sleeplks s"
  by (simp add: wakeup1_def)

lemma wakeup1_pid [simp]: "p_pid (ptable (wakeup1 ch s) i) = p_pid (ptable s i)"
  by (simp add: wakeup1_ptable)

section \<open>The cache as a block store\<close>

text \<open>
  What the file system sees of disk 1: \<open>blk s b\<close>, the cached contents of block \<open>b\<close> if it is
  cached and the contents on disk otherwise.
\<close>

definition cached :: "'z bio_state_scheme \<Rightarrow> nat \<Rightarrow> u32 \<Rightarrow> bool" where
  "cached s i b \<longleftrightarrow> i < NBUF \<and> b_dev (bufs s i) = 1 \<and> b_blockno (bufs s i) = b \<and> b_valid (bufs s i)"

definition blk :: "'z bio_state_scheme \<Rightarrow> u32 \<Rightarrow> buffer" where
  "blk s b = (case first_idx NBUF (\<lambda>i. cached s i b) of Some i \<Rightarrow> b_data (bufs s i) | None \<Rightarrow> disk s b)"

text \<open>
  \<open>bio_ok me H s\<close>: the process in slot \<open>me\<close> runs and holds exactly the buffers \<open>H\<close>; every other
  buffer is free, and clean ones agree with the disk. No block is cached twice.
\<close>

definition slot_ok :: "nat \<Rightarrow> nat set \<Rightarrow> 'z bio_state_scheme \<Rightarrow> nat \<Rightarrow> bool" where
  "slot_ok me H s i \<longleftrightarrow>
     (if i \<in> H then sleeplks s (BufLock i) = sl_held (p_pid (ptable s me)) \<and> b_refcnt (bufs s i) = 1 \<and>
        b_valid (bufs s i) \<and> b_dev (bufs s i) = 1
      else \<not> sl_locked (sleeplks s (BufLock i)) \<and> b_refcnt (bufs s i) = 0 \<and>
        (b_valid (bufs s i) \<and> \<not> b_dirty (bufs s i) \<and> b_dev (bufs s i) = 1 \<longrightarrow>
           b_data (bufs s i) = disk s (b_blockno (bufs s i)))) \<and>
     (b_dirty (bufs s i) \<longrightarrow> b_valid (bufs s i) \<and> b_dev (bufs s i) = 1)"

definition one_copy :: "'z bio_state_scheme \<Rightarrow> bool" where
  "one_copy s \<longleftrightarrow> (\<forall>i<NBUF. \<forall>j<NBUF. b_dev (bufs s i) = 1 \<and> b_dev (bufs s j) = 1 \<and>
     b_blockno (bufs s i) = b_blockno (bufs s j) \<longrightarrow> i = j)"

definition bio_ok :: "nat \<Rightarrow> nat set \<Rightarrow> 'z bio_state_scheme \<Rightarrow> bool" where
  "bio_ok me H s \<longleftrightarrow> in_proc s me \<and> distinct (lru s) \<and> set (lru s) = {..<NBUF} \<and> H \<subseteq> {..<NBUF} \<and>
     one_copy s \<and> (\<forall>i<NBUF. slot_ok me H s i)"

text \<open>Everything the cache does not own: \<open>bio_rest\<close> blanks the rest.\<close>

definition bio_rest :: "'z bio_state_scheme \<Rightarrow> 'z bio_state_scheme" where
  "bio_rest s = (no_locks s)\<lparr>ptable := (\<lambda>i. (ptable s i)\<lparr>p_state := UNUSED\<rparr>),
     sleeplks := (\<lambda>l. case l of BufLock _ \<Rightarrow> sl_free | _ \<Rightarrow> sleeplks s l),
     bufs := (\<lambda>_. \<lparr>b_valid = False, b_dirty = False, b_dev = 0, b_blockno = 0, b_refcnt = 0, b_data = (\<lambda>_. 0)\<rparr>),
     lru := [], disk := (\<lambda>_ _. 0), writes := []\<rparr>"

lemma no_locks_commute:
  "no_locks (s\<lparr>ptable := x\<rparr>) = (no_locks s)\<lparr>ptable := x\<rparr>"
  "no_locks (s\<lparr>sleeplks := y\<rparr>) = (no_locks s)\<lparr>sleeplks := y\<rparr>"
  "no_locks (s\<lparr>bufs := z\<rparr>) = (no_locks s)\<lparr>bufs := z\<rparr>"
  "no_locks (s\<lparr>lru := u\<rparr>) = (no_locks s)\<lparr>lru := u\<rparr>"
  "no_locks (s\<lparr>disk := v\<rparr>) = (no_locks s)\<lparr>disk := v\<rparr>"
  "no_locks (s\<lparr>writes := w\<rparr>) = (no_locks s)\<lparr>writes := w\<rparr>"
  by (simp_all add: no_locks_def)

lemma bio_rest_upds [simp]:
  "bio_rest (s\<lparr>sleeplks := (sleeplks s)(BufLock i := x)\<rparr>) = bio_rest s"
  "bio_rest (upd_buf i f s) = bio_rest s" "bio_rest (s\<lparr>lru := l\<rparr>) = bio_rest s"
  "bio_rest (s\<lparr>disk := d\<rparr>) = bio_rest s" "bio_rest (s\<lparr>writes := w\<rparr>) = bio_rest s"
  by (simp_all add: bio_rest_def no_locks_commute upd_buf_def fun_upd_def cong: sleeplock_id.case_cong)

lemma bio_rest_wakeup [simp]: "bio_rest (wakeup1 ch s) = bio_rest s"
proof -
  have "(\<lambda>i. (ptable (wakeup1 ch s) i)\<lparr>p_state := UNUSED\<rparr>) = (\<lambda>i. (ptable s i)\<lparr>p_state := UNUSED\<rparr>)"
    by (rule ext) (simp add: wakeup1_ptable)
  then show ?thesis
    by (simp add: bio_rest_def cong: sleeplock_id.case_cong) (simp add: wakeup1_def no_locks_commute)
qed

lemma blk_eqI:
  assumes "\<And>i. cached s i b \<Longrightarrow> b_data (bufs s i) = v" and "(\<And>i. \<not> cached s i b) \<Longrightarrow> disk s b = v"
  shows "blk s b = v"
proof (cases "first_idx NBUF (\<lambda>i. cached s i b)")
  case None
  then have "\<not> cached s i b" for i by (auto simp: first_idx_None cached_def)
  with None assms(2) show ?thesis by (simp add: blk_def)
next
  case (Some i)
  with assms(1) [OF first_idx_SomeD(2) [OF Some]] show ?thesis by (simp add: blk_def)
qed

lemma cached_unique: "one_copy s \<Longrightarrow> cached s i b \<Longrightarrow> cached s j b \<Longrightarrow> i = j"
  by (auto simp: one_copy_def cached_def)

lemma blk_cached: "one_copy s \<Longrightarrow> cached s i b \<Longrightarrow> blk s b = b_data (bufs s i)"
  by (rule blk_eqI) (auto dest: cached_unique)

lemma blk_uncached: "(\<And>i. \<not> cached s i b) \<Longrightarrow> blk s b = disk s b"
  by (rule blk_eqI) auto

lemma bio_okD:
  assumes "bio_ok me H s"
  shows "in_proc s me" "quiet s" "distinct (lru s)" "set (lru s) = {..<NBUF}" "one_copy s" "H \<subseteq> {..<NBUF}"
    "i < NBUF \<Longrightarrow> slot_ok me H s i"
  using assms by (auto simp: bio_ok_def)

lemma bio_ok_upd:
  assumes "bio_ok me H s" and "in_proc t me" and "p_pid (ptable t me) = p_pid (ptable s me)"
    and "distinct (lru t)" and "set (lru t) = {..<NBUF}" and "one_copy t" and "K \<subseteq> {..<NBUF}"
    and "\<And>j. j < NBUF \<Longrightarrow> j \<noteq> i \<Longrightarrow> bufs t j = bufs s j \<and> sleeplks t (BufLock j) = sleeplks s (BufLock j) \<and>
      (j \<in> K \<longleftrightarrow> j \<in> H) \<and>
      (b_dev (bufs s j) = 1 \<longrightarrow> disk t (b_blockno (bufs s j)) = disk s (b_blockno (bufs s j)))"
    and "slot_ok me K t i"
  shows "bio_ok me K t"
proof -
  have "slot_ok me K t j" if "j < NBUF" for j
  proof (cases "j = i")
    case False
    have "slot_ok me H s j" using assms(1) that by (rule bio_okD)
    then show ?thesis using assms(8) [OF that False] assms(3) by (auto simp: slot_ok_def)
  qed (use assms(9) in simp)
  then show ?thesis using assms by (simp add: bio_ok_def)
qed

text \<open>A free buffer that is not pinned by the log.\<close>

definition bio_room :: "nat set \<Rightarrow> 'z bio_state_scheme \<Rightarrow> bool" where
  "bio_room H s \<longleftrightarrow> (\<exists>i<NBUF. i \<notin> H \<and> \<not> b_dirty (bufs s i))"

definition not_held :: "nat set \<Rightarrow> u32 \<Rightarrow> 'z bio_state_scheme \<Rightarrow> bool" where
  "not_held H b s \<longleftrightarrow> (\<forall>i\<in>H. b_blockno (bufs s i) \<noteq> b)"

text \<open>The blocks whose buffers are dirty: pinned by the log.\<close>

definition dirty_blks :: "'z bio_state_scheme \<Rightarrow> u32 set" where
  "dirty_blks s = {b. \<exists>j<NBUF. b_dirty (bufs s j) \<and> b_blockno (bufs s j) = b}"

definition synced :: "nat \<Rightarrow> 'z bio_state_scheme \<Rightarrow> bool" where
  "synced i s \<longleftrightarrow> b_dirty (bufs s i) \<or> b_data (bufs s i) = disk s (b_blockno (bufs s i))"

text \<open>What \<open>bread\<close> promises about the buffer it returns.\<close>

definition got_block ::
  "nat \<Rightarrow> nat set \<Rightarrow> u32 \<Rightarrow> 'z bio_state_scheme \<Rightarrow> nat \<Rightarrow> 'z bio_state_scheme \<Rightarrow> bool" where
  "got_block me H b s i t \<longleftrightarrow> bio_ok me (insert i H) t \<and> i < NBUF \<and> i \<notin> H \<and> cached t i b \<and> synced i t \<and>
     b_data (bufs t i) = blk s b \<and> blk t = blk s \<and> disk t = disk s \<and> writes t = writes s \<and>
     disksize t = disksize s \<and> bio_rest t = bio_rest s \<and> (\<forall>j\<in>H. bufs t j = bufs s j) \<and> dirty_blks t = dirty_blks s"

lemma find_None_all: "List.find P xs = None \<Longrightarrow> x \<in> set xs \<Longrightarrow> \<not> P x"
  by (simp add: find_None_iff)

lemma find_Some_in: "List.find P xs = Some x \<Longrightarrow> x \<in> set xs \<and> P x"
  by (metis find_Some_iff nth_mem)

text \<open>The state in which \<open>bget\<close> returns slot \<open>i\<close>, its record changed by \<open>f\<close>.\<close>

definition take_buf :: "nat \<Rightarrow> nat \<Rightarrow> (buf \<Rightarrow> buf) \<Rightarrow> 'z bio_state_scheme \<Rightarrow> 'z bio_state_scheme" where
  "take_buf me i f s = (upd_buf i f s)\<lparr>sleeplks := (sleeplks s)(BufLock i := sl_held (p_pid (ptable s me)))\<rparr>"

lemma take_buf_sel [simp]:
  "bufs (take_buf me i f s) = (bufs s)(i := f (bufs s i))" "lru (take_buf me i f s) = lru s"
  "disk (take_buf me i f s) = disk s" "writes (take_buf me i f s) = writes s"
  "disksize (take_buf me i f s) = disksize s" "ptable (take_buf me i f s) = ptable s"
  "sleeplks (take_buf me i f s) = (sleeplks s)(BufLock i := sl_held (p_pid (ptable s me)))"
  "in_proc (take_buf me i f s) m = in_proc s m"
  by (simp_all add: take_buf_def)

lemma bio_rest_take [simp]: "bio_rest (take_buf me i f s) = bio_rest s"
  using bio_rest_upds(1) [of "upd_buf i f s" i] by (simp add: take_buf_def)

lemma upd_take_buf: "upd_buf i g (take_buf me i f s) = take_buf me i (\<lambda>b. g (f b)) s"
  by (simp add: take_buf_def upd_buf_def)

lemma upd_buf_same: "upd_buf i f s = upd_buf i (\<lambda>_. f (bufs s i)) s"
  by (simp add: upd_buf_def)

lemma take_buf_same: "take_buf me i f s = take_buf me i (\<lambda>_. f (bufs s i)) s"
  by (simp add: take_buf_def upd_buf_def)

lemma got_block_take:
  assumes ok: "bio_ok me H s" and i: "i < NBUF" "i \<notin> H"
    and r: "b_valid r" "b_dev r = 1" "b_blockno r = b" "b_refcnt r = 1" "b_data r = blk s b"
      "b_dirty r = b_dirty (bufs s i)"
    and old: "b_dev (bufs s i) = 1 \<and> b_blockno (bufs s i) = b \<or>
      \<not> b_dirty (bufs s i) \<and> (\<forall>j<NBUF. \<not> (b_dev (bufs s j) = 1 \<and> b_blockno (bufs s j) = b))"
  shows "got_block me H b s i (take_buf me i (\<lambda>_. r) s)"
proof -
  let ?t = "take_buf me i (\<lambda>_. r) s"
  have so: "slot_ok me H s i" using ok i(1) by (rule bio_okD)
  have one: "one_copy ?t"
    using bio_okD(5) [OF ok] old i(1) r(2,3) unfolding one_copy_def by (auto split: if_splits)
  have ok': "bio_ok me (insert i H) ?t"
    by (rule bio_ok_upd [OF ok, where i = i])
       (use bio_okD [OF ok] one i r in \<open>auto simp: slot_ok_def\<close>)
  have c: "cached ?t i b" using i r by (simp add: cached_def)
  have other: "cached ?t j x \<longleftrightarrow> cached s j x" if "j \<noteq> i" for j x
    using that by (simp add: cached_def)
  have "blk ?t x = blk s x" for x
  proof (cases "x = b")
    case True
    then show ?thesis using blk_cached [OF one c] r(5) by simp
  next
    case False
    then have nc: "\<not> cached ?t i x" using r by (simp add: cached_def)
    have clean: "b_data (bufs s i) = disk s x" if "cached s i x"
      using that so i False old by (auto simp: slot_ok_def cached_def)
    show ?thesis
    proof (rule blk_eqI)
      fix j assume "cached ?t j x"
      then have "j \<noteq> i" using nc by auto
      with \<open>cached ?t j x\<close> other have "cached s j x" by simp
      then show "b_data (bufs ?t j) = blk s x"
        using blk_cached [OF bio_okD(5) [OF ok]] \<open>j \<noteq> i\<close> by simp
    next
      assume "\<And>j. \<not> cached ?t j x"
      then have "cached s j x \<Longrightarrow> j = i" for j using other by blast
      then show "disk ?t x = blk s x"
        by (intro blk_eqI [symmetric]) (use clean in auto)
    qed
  qed
  then have "blk ?t = blk s" by blast
  moreover have "dirty_blks ?t = dirty_blks s"
    unfolding dirty_blks_def set_eq_iff mem_Collect_eq
    using r(3,6) old by (metis fun_upd_apply take_buf_sel(1))
  moreover have "synced i ?t"
  proof (cases "b_dirty r")
    case False
    have "blk s b = disk s b"
    proof (rule blk_eqI)
      fix j assume j: "cached s j b"
      with old i bio_okD(5) [OF ok] have "j = i" by (auto simp: cached_def one_copy_def)
      with j so False r(6) i(2) show "b_data (bufs s j) = disk s b" by (auto simp: slot_ok_def cached_def)
    qed simp
    then show ?thesis using r by (simp add: synced_def)
  qed (simp add: synced_def)
  ultimately show ?thesis
    using ok' c i r(5) by (auto simp: got_block_def)
qed

lemma acquire_take:
  assumes "in_proc s me" and "\<not> sl_locked (sleeplks s (BufLock i))"
  shows "acquiresleep (BufLock i) (upd_buf i f s) = Ret () (take_buf me i f s)"
  using assms by (subst acquiresleep_free) (simp_all add: take_buf_def)

lemma iderw_load:
  assumes "in_proc s me" and "sleeplks s (BufLock i) = sl_held (p_pid (ptable s me))"
    and "\<not> b_valid (bufs s i)" "\<not> b_dirty (bufs s i)" "b_dev (bufs s i) = 1" "b_blockno (bufs s i) < disksize s"
  shows "iderw i s = Ret () (upd_buf i (\<lambda>b. b\<lparr>b_data := disk s (b_blockno b), b_valid := True\<rparr>) s)"
  using assms by (simp add: iderw_def holdingsleep_quiet Let_def)

lemma bread_got:
  assumes ok: "bio_ok me H s" and nh: "not_held H b s"
    and room: "bio_room H s \<or> (\<exists>i<NBUF. b_dev (bufs s i) = 1 \<and> b_blockno (bufs s i) = b)"
    and b: "b < disksize s"
  shows "\<exists>i t. bread 1 b s = Ret i t \<and> got_block me H b s i t"
proof -
  let ?P = "\<lambda>i. b_dev (bufs s i) = 1 \<and> b_blockno (bufs s i) = b"
  let ?Q = "\<lambda>i. b_refcnt (bufs s i) = 0 \<and> \<not> b_dirty (bufs s i)"
  note ip = bio_okD(1) [OF ok] and lru = bio_okD(4) [OF ok]
  have free: "\<not> sl_locked (sleeplks s (BufLock i)) \<and> b_refcnt (bufs s i) = 0" if "i < NBUF" "i \<notin> H" for i
    using bio_okD(7) [OF ok that(1)] that by (simp add: slot_ok_def)
  have load: "\<exists>t. kbind (if \<not> b_valid r then iderw i (take_buf me i (\<lambda>_. r) s) else Ret () (take_buf me i (\<lambda>_. r) s))
      (\<lambda>_ s. Ret i s) = Ret i t \<and> got_block me H b s i t"
    if i: "i < NBUF" "i \<notin> H" and r: "b_dev r = 1" "b_blockno r = b" "b_refcnt r = 1" "b_dirty r = b_dirty (bufs s i)"
      and v: "b_valid r \<Longrightarrow> b_data r = blk s b" and nv: "\<not> b_valid r \<Longrightarrow> \<not> b_dirty r \<and> blk s b = disk s b"
      and old: "?P i \<or> \<not> b_dirty (bufs s i) \<and> (\<forall>j<NBUF. \<not> ?P j)" for i r
  proof (cases "b_valid r")
    case True
    then show ?thesis using got_block_take [OF ok i True r(1-3) v [OF True] r(4) old] by simp
  next
    case False
    let ?r = "r\<lparr>b_data := disk s b, b_valid := True\<rparr>"
    have "iderw i (take_buf me i (\<lambda>_. r) s) = Ret () (take_buf me i (\<lambda>_. ?r) s)"
      using False nv r b ip by (subst iderw_load [where me = me]) (auto simp: upd_take_buf)
    moreover have "got_block me H b s i (take_buf me i (\<lambda>_. ?r) s)"
      by (rule got_block_take [OF ok i]) (use r nv [OF False] old in auto)
    ultimately show ?thesis using False by simp
  qed
  show ?thesis
  proof (cases "List.find ?P (lru s)")
    case (Some i)
    then have i: "i < NBUF" "?P i" using find_Some_in lru by fastforce+
    then have iH: "i \<notin> H" using nh by (auto simp: not_held_def)
    let ?r = "(bufs s i)\<lparr>b_refcnt := b_refcnt (bufs s i) + 1\<rparr>"
    have nl: "\<not> sl_locked (sleeplks s (BufLock i))" using free [OF i(1) iH] by simp
    have "take_buf me i (\<lambda>x. x\<lparr>b_refcnt := b_refcnt x + 1\<rparr>) s = take_buf me i (\<lambda>_. ?r) s"
      by (subst take_buf_same) simp
    then have bg: "bget 1 b s = Ret i (take_buf me i (\<lambda>_. ?r) s)"
      using Some ip by (simp add: bget_def acquire_take [OF ip nl])
    have vd: "b_data ?r = blk s b" if "b_valid ?r"
      using blk_cached [OF bio_okD(5) [OF ok], of i b] i that by (simp add: cached_def)
    have nv: "\<not> b_dirty ?r \<and> blk s b = disk s b" if "\<not> b_valid ?r"
    proof -
      have "\<not> cached s j b" for j
        using that i bio_okD(5) [OF ok] by (auto simp: cached_def one_copy_def)
      then show ?thesis using blk_uncached bio_okD(7) [OF ok i(1)] that by (auto simp: slot_ok_def)
    qed
    from load [OF i(1) iH _ _ _ _ vd nv] i free [OF i(1) iH] bg show ?thesis by (auto simp: bread_def)
  next
    case None
    from room None lru obtain k where "k < NBUF" "k \<notin> H" "\<not> b_dirty (bufs s k)"
      by (auto simp: bio_room_def find_None_iff)
    then have "\<exists>i. List.find ?Q (rev (lru s)) = Some i"
      using free lru find_None_all [of ?Q "rev (lru s)" k] by (cases "List.find ?Q (rev (lru s))") auto
    then obtain i where fi: "List.find ?Q (rev (lru s)) = Some i" by blast
    then have i: "i < NBUF" "?Q i" using find_Some_in lru by fastforce+
    then have iH: "i \<notin> H" using bio_okD(7) [OF ok i(1)] by (auto simp: slot_ok_def)
    have none: "\<forall>j<NBUF. \<not> ?P j" using None lru by (auto simp: find_None_iff)
    then have "blk s b = disk s b" by (intro blk_uncached) (auto simp: cached_def)
    let ?r = "(bufs s i)\<lparr>b_valid := False, b_dirty := False, b_dev := 1, b_blockno := b, b_refcnt := 1\<rparr>"
    have "take_buf me i (\<lambda>x. x\<lparr>b_valid := False, b_dirty := False, b_dev := 1, b_blockno := b, b_refcnt := 1\<rparr>) s =
        take_buf me i (\<lambda>_. ?r) s"
      by (subst take_buf_same) (rule refl)
    then have bg: "bget 1 b s = Ret i (take_buf me i (\<lambda>_. ?r) s)"
      using None fi ip free [OF i(1) iH] by (simp add: bget_def acquire_take)
    from load [OF i(1) iH, of ?r] \<open>blk s b = disk s b\<close> none i(2) bg show ?thesis by (auto simp: bread_def)
  qed
qed

text \<open>Changing the data of a held buffer changes the block.\<close>

definition set_data :: "nat \<Rightarrow> buffer \<Rightarrow> 'z bio_state_scheme \<Rightarrow> 'z bio_state_scheme" where
  "set_data i d s = upd_buf i (\<lambda>b. b\<lparr>b_data := d\<rparr>) s"

lemma set_data_sel [simp]:
  "bufs (set_data i d s) = (bufs s)(i := (bufs s i)\<lparr>b_data := d\<rparr>)" "disk (set_data i d s) = disk s"
  "writes (set_data i d s) = writes s" "bio_rest (set_data i d s) = bio_rest s"
  "disksize (set_data i d s) = disksize s"
  by (simp_all add: set_data_def)

lemma one_copy_same:
  "one_copy s \<Longrightarrow> (\<And>j. b_dev (bufs t j) = b_dev (bufs s j) \<and> b_blockno (bufs t j) = b_blockno (bufs s j)) \<Longrightarrow> one_copy t"
  by (simp add: one_copy_def)

lemma bio_ok_set_data:
  assumes "bio_ok me H s" and "i \<in> H"
  shows "bio_ok me H (set_data i d s)"
proof (rule bio_ok_upd [OF assms(1), where i = i])
  show "one_copy (set_data i d s)" by (rule one_copy_same [OF bio_okD(5) [OF assms(1)]]) simp
  show "slot_ok me H (set_data i d s) i"
    using bio_okD(7) [OF assms(1), of i] bio_okD(6) [OF assms(1)] assms(2)
    by (auto simp: slot_ok_def set_data_def)
qed (use bio_okD(1-4,6) [OF assms(1)] in \<open>simp_all add: set_data_def\<close>)

lemma cached_upd_data [simp]:
  "cached (set_data i d s) j b = cached s j b"
  by (simp add: cached_def)

lemma blk_set_data:
  assumes "bio_ok me H s" and "cached s i b"
  shows "blk (set_data i d s) = (blk s)(b := d)"
proof
  fix x
  show "blk (set_data i d s) x = ((blk s)(b := d)) x"
  proof (rule blk_eqI)
    fix j assume "cached (set_data i d s) j x"
    then have j: "cached s j x" by simp
    show "b_data (bufs (set_data i d s) j) = ((blk s)(b := d)) x"
    proof (cases "j = i")
      case True
      with j assms(2) show ?thesis by (simp add: cached_def)
    next
      case False
      with j assms cached_unique [OF bio_okD(5) [OF assms(1)]] have "x \<noteq> b" by blast
      then show ?thesis using blk_cached [OF bio_okD(5) [OF assms(1)] j] False by simp
    qed
  next
    assume n: "\<And>j. \<not> cached (set_data i d s) j x"
    then have "x \<noteq> b" using assms(2) by auto
    then show "disk (set_data i d s) x = ((blk s)(b := d)) x"
      using blk_uncached [of s x] n by simp
  qed
qed

text \<open>The state after \<open>bwrite\<close>.\<close>

definition flushed :: "nat \<Rightarrow> 'z bio_state_scheme \<Rightarrow> 'z bio_state_scheme" where
  "flushed i s = upd_buf i (\<lambda>b. b\<lparr>b_dirty := False, b_valid := True\<rparr>)
     (s\<lparr>disk := (disk s)(b_blockno (bufs s i) := b_data (bufs s i)),
        writes := writes s @ [(b_blockno (bufs s i), b_data (bufs s i))]\<rparr>)"

lemma flushed_sel [simp]:
  "disk (flushed i s) = (disk s)(b_blockno (bufs s i) := b_data (bufs s i))"
  "writes (flushed i s) = writes s @ [(b_blockno (bufs s i), b_data (bufs s i))]"
  "bufs (flushed i s) = (bufs s)(i := (bufs s i)\<lparr>b_dirty := False, b_valid := True\<rparr>)"
  "disksize (flushed i s) = disksize s" "lru (flushed i s) = lru s" "ptable (flushed i s) = ptable s"
  "sleeplks (flushed i s) = sleeplks s" "in_proc (flushed i s) me = in_proc s me" "bio_rest (flushed i s) = bio_rest s"
  by (simp_all add: flushed_def)

lemma held_slot:
  assumes "bio_ok me H s" and "i \<in> H"
  shows "i < NBUF" "sleeplks s (BufLock i) = sl_held (p_pid (ptable s me))" "b_valid (bufs s i)"
    "b_dev (bufs s i) = 1" "b_refcnt (bufs s i) = 1" "cached s i (b_blockno (bufs s i))"
proof -
  show i: "i < NBUF" using assms by (auto simp: bio_ok_def)
  from bio_okD(7) [OF assms(1) i] assms(2)
  show "sleeplks s (BufLock i) = sl_held (p_pid (ptable s me))" "b_valid (bufs s i)"
    "b_dev (bufs s i) = 1" "b_refcnt (bufs s i) = 1" "cached s i (b_blockno (bufs s i))"
    using i by (auto simp: slot_ok_def cached_def)
qed

lemma bwrite_eq:
  assumes "bio_ok me H s" and "i \<in> H" and "b_blockno (bufs s i) < disksize s"
  shows "bwrite i s = Ret () (flushed i s)"
  using held_slot [OF assms(1,2)] bio_okD(1) [OF assms(1)] assms(3)
  by (simp add: bwrite_def iderw_def holdingsleep_quiet Let_def flushed_def upd_buf_def)

lemma bio_ok_flushed:
  assumes "bio_ok me H s" and "i \<in> H"
  shows "bio_ok me H (flushed i s)"
proof (rule bio_ok_upd [OF assms(1), where i = i])
  show "one_copy (flushed i s)" by (rule one_copy_same [OF bio_okD(5) [OF assms(1)]]) simp
  show "bufs (flushed i s) j = bufs s j \<and> sleeplks (flushed i s) (BufLock j) = sleeplks s (BufLock j) \<and>
      (j \<in> H \<longleftrightarrow> j \<in> H) \<and>
      (b_dev (bufs s j) = 1 \<longrightarrow> disk (flushed i s) (b_blockno (bufs s j)) = disk s (b_blockno (bufs s j)))"
    if "j < NBUF" "j \<noteq> i" for j
    using bio_okD(5) [OF assms(1)] that held_slot(1,4) [OF assms] by (auto simp: one_copy_def)
qed (use bio_okD(1-4,6) [OF assms(1)] held_slot [OF assms] assms(2) in \<open>simp_all add: slot_ok_def\<close>)

lemma cached_flushed: "bio_ok me H s \<Longrightarrow> i \<in> H \<Longrightarrow> cached (flushed i s) j b = cached s j b"
  using held_slot(3) by (auto simp: cached_def)

lemma blk_flushed:
  assumes "bio_ok me H s" and "i \<in> H"
  shows "blk (flushed i s) = blk s"
proof
  fix x
  show "blk (flushed i s) x = blk s x"
  proof (rule blk_eqI)
    fix j assume "cached (flushed i s) j x"
    then have j: "cached s j x" using cached_flushed [OF assms] by simp
    then show "b_data (bufs (flushed i s) j) = blk s x"
      using blk_cached [OF bio_okD(5) [OF assms(1)] j] by simp
  next
    assume n: "\<And>j. \<not> cached (flushed i s) j x"
    then have "\<not> cached s j x" for j using cached_flushed [OF assms] by simp
    moreover from this [of i] held_slot(6) [OF assms] have "x \<noteq> b_blockno (bufs s i)" by auto
    ultimately show "disk (flushed i s) x = blk s x" by (simp add: blk_uncached)
  qed
qed

text \<open>The state after \<open>brelse\<close>.\<close>

definition released :: "nat \<Rightarrow> 'z bio_state_scheme \<Rightarrow> 'z bio_state_scheme" where
  "released i s =
     (upd_buf i (\<lambda>b. b\<lparr>b_refcnt := 0\<rparr>)
       (wakeup1 (ChanSleep (BufLock i)) (s\<lparr>sleeplks := (sleeplks s)(BufLock i := sl_free)\<rparr>)))
     \<lparr>lru := i # remove1 i (lru s)\<rparr>"

lemma released_sel [simp]:
  "disk (released i s) = disk s" "writes (released i s) = writes s" "disksize (released i s) = disksize s"
  "bufs (released i s) = (bufs s)(i := (bufs s i)\<lparr>b_refcnt := 0\<rparr>)" "lru (released i s) = i # remove1 i (lru s)"
  "sleeplks (released i s) = (sleeplks s)(BufLock i := sl_free)" "in_proc (released i s) me = in_proc s me"
  "p_pid (ptable (released i s) j) = p_pid (ptable s j)" "bio_rest (released i s) = bio_rest s"
  by (simp_all add: released_def)

lemma brelse_eq:
  assumes "bio_ok me H s" and "i \<in> H"
  shows "brelse i s = Ret () (released i s)"
  using held_slot [OF assms] bio_okD(1,2) [OF assms(1)]
  by (simp add: brelse_def holdingsleep_quiet releasesleep_quiet Let_def released_def upd_buf_def)

lemma bio_ok_released:
  assumes "bio_ok me H s" and "i \<in> H"
    and "b_dirty (bufs s i) \<or> b_data (bufs s i) = disk s (b_blockno (bufs s i))"
  shows "bio_ok me (H - {i}) (released i s)"
proof (rule bio_ok_upd [OF assms(1), where i = i])
  show "one_copy (released i s)" by (rule one_copy_same [OF bio_okD(5) [OF assms(1)]]) simp
  show "set (lru (released i s)) = {..<NBUF}"
    using bio_okD(3,4) [OF assms(1)] held_slot(1) [OF assms(1,2)] by auto
  show "slot_ok me (H - {i}) (released i s) i"
    using held_slot [OF assms(1,2)] assms(3) by (auto simp: slot_ok_def)
qed (use bio_okD(1-4,6) [OF assms(1)] in auto)

lemma cached_released [simp]: "cached (released i s) j b = cached s j b"
  by (simp add: cached_def)

lemma blk_released [simp]: "blk (released i s) = blk s"
  by (rule ext) (simp add: blk_def split: option.splits)

section \<open>Copying a block through the cache\<close>

lemma dirty_room:
  assumes "bio_ok me H s" and "finite H" and "card (dirty_blks s) + card H < NBUF"
  shows "bio_room H s"
proof (rule ccontr)
  assume "\<not> bio_room H s"
  then have all: "\<forall>i<NBUF. i \<notin> H \<longrightarrow> b_dirty (bufs s i)" by (auto simp: bio_room_def)
  let ?S = "{..<NBUF} - H"
  have "inj_on (\<lambda>i. b_blockno (bufs s i)) ?S"
  proof (rule inj_onI)
    fix i j assume "i \<in> ?S" "j \<in> ?S" and e: "b_blockno (bufs s i) = b_blockno (bufs s j)"
    then show "i = j"
      using all bio_okD(5) [OF assms(1)] bio_okD(7) [OF assms(1), of i] bio_okD(7) [OF assms(1), of j]
      by (auto simp: one_copy_def slot_ok_def)
  qed
  then have "card ?S = card ((\<lambda>i. b_blockno (bufs s i)) ` ?S)" by (simp add: card_image)
  also have "\<dots> \<le> card (dirty_blks s)"
  proof (rule card_mono)
    have "dirty_blks s \<subseteq> (\<lambda>i. b_blockno (bufs s i)) ` {..<NBUF}" by (auto simp: dirty_blks_def)
    then show "finite (dirty_blks s)" by (rule finite_subset) simp
  qed (use all in \<open>auto simp: dirty_blks_def\<close>)
  finally have "card ?S \<le> card (dirty_blks s)" .
  moreover have "card ?S = NBUF - card H"
    using bio_okD(6) [OF assms(1)] assms(2) by (subst card_Diff_subset) auto
  ultimately show False using assms(3) by simp
qed

lemma dirty_cached:
  assumes "bio_ok me H s" and "b \<in> dirty_blks s"
  shows "\<exists>i<NBUF. b_dev (bufs s i) = 1 \<and> b_blockno (bufs s i) = b"
  using assms bio_okD(7) [OF assms(1)] by (auto simp: dirty_blks_def slot_ok_def)

text \<open>
  The tail the log's copy loops share: buffer \<open>i\<close> holds block \<open>x\<close>, buffer \<open>j\<close> block \<open>y\<close>; copy
  \<open>j\<close> to \<open>i\<close>, write \<open>i\<close> and release both.
\<close>

lemma copy_tail:
  assumes ok: "bio_ok me {i, j} s" and ij: "i \<noteq> j" and x: "cached s i x" and y: "cached s j y"
    and sy: "synced j s" and lt: "x < disksize s"
  shows "\<exists>u. kbind (bwrite i (set_data i (b_data (bufs s j)) s)) (\<lambda>_ t. kbind (brelse j t) (\<lambda>_ t. brelse i t)) = Ret () u \<and>
    bio_ok me {} u \<and> blk u = (blk s)(x := blk s y) \<and> disk u = (disk s)(x := blk s y) \<and>
    writes u = writes s @ [(x, blk s y)] \<and> disksize u = disksize s \<and> bio_rest u = bio_rest s \<and>
    dirty_blks u = dirty_blks s - {x}"
proof -
  let ?d = "b_data (bufs s j)"
  let ?a = "set_data i ?d s"
  let ?b = "flushed i ?a"
  let ?c = "released j ?b"
  let ?u = "released i ?c"
  have d: "?d = blk s y" using blk_cached [OF bio_okD(5) [OF ok] y] by simp
  have bx: "b_blockno (bufs s i) = x" "b_blockno (bufs s j) = y" using x y by (auto simp: cached_def)
  have xy: "x \<noteq> y" using cached_unique [OF bio_okD(5) [OF ok]] x y ij by blast
  have a: "bio_ok me {i, j} ?a" using ok by (rule bio_ok_set_data) simp
  have b: "bio_ok me {i, j} ?b" using a by (rule bio_ok_flushed) simp
  have c: "bio_ok me {i} ?c"
    using bio_ok_released [OF b, of j] sy ij xy bx by (auto simp: synced_def insert_Diff_if)
  have u: "bio_ok me {} ?u"
    using bio_ok_released [OF c, of i] ij bx by simp
  have "bwrite i ?a = Ret () ?b" using a lt bx by (intro bwrite_eq) auto
  moreover have "brelse j ?b = Ret () ?c" using b by (rule brelse_eq) simp
  moreover have "brelse i ?c = Ret () ?u" using c by (rule brelse_eq) simp
  moreover have "blk ?u = (blk s)(x := blk s y)"
    using blk_flushed [OF a, of i] blk_set_data [OF ok x] d by simp
  moreover have "dirty_blks ?u = dirty_blks s - {x}"
  proof -
    have i: "i < NBUF" using x by (simp add: cached_def)
    have "b \<noteq> i \<Longrightarrow> b < NBUF \<Longrightarrow> b_dirty (bufs s b) \<Longrightarrow> b_blockno (bufs s b) \<noteq> x" for b
      using bio_okD(5) [OF ok] bio_okD(7) [OF ok, of b] x by (auto simp: one_copy_def slot_ok_def cached_def)
    moreover have e: "b_dirty (bufs ?u k) \<longleftrightarrow> k \<noteq> i \<and> b_dirty (bufs s k)"
        "b_blockno (bufs ?u k) = b_blockno (bufs s k)" for k
      using ij by auto
    ultimately show ?thesis unfolding dirty_blks_def e using i bx by auto
  qed
  ultimately show ?thesis using u d bx ij by auto
qed

end
