(* ===== verification/Logging.thy ===== *)
theory Logging
  imports Bio
begin

text \<open>
  The write-ahead log \<open>log.c\<close>, and \<open>readsb\<close> of \<open>fs.c\<close>. A transaction collects the block
  numbers it changes in \<open>lh_block\<close>, whose buffers stay dirty in the cache; \<open>commit\<close> copies them
  to the log, writes the header, installs them and clears the header. The main result is that
  a crash at any point of a commit, followed by \<open>recover_from_log\<close>, leaves either all or none of
  the transaction's blocks on disk.
\<close>

section \<open>State\<close>

definition LOGSIZE :: int where "LOGSIZE = 30"
definition MAXOPBLOCKS :: int where "MAXOPBLOCKS = 10"

record superblock =
  sb_size :: u32
  sb_nblocks :: u32
  sb_ninodes :: u32
  sb_nlog :: u32
  sb_logstart :: u32
  sb_inodestart :: u32
  sb_bmapstart :: u32

record log_state = bio_state +
  log_start :: u32
  log_size :: int
  log_outstanding :: int
  log_committing :: bool
  log_dev :: u32
  lh_n :: int
  lh_block :: "nat \<Rightarrow> u32"
  sb :: superblock

lemma log_this_cpu [simp]:
  "this_cpu (s\<lparr>log_start := x0\<rparr>) = this_cpu s"
  "this_cpu (s\<lparr>log_size := x1\<rparr>) = this_cpu s"
  "this_cpu (s\<lparr>log_outstanding := x2\<rparr>) = this_cpu s"
  "this_cpu (s\<lparr>log_committing := x3\<rparr>) = this_cpu s"
  "this_cpu (s\<lparr>log_dev := x4\<rparr>) = this_cpu s"
  "this_cpu (s\<lparr>lh_n := x5\<rparr>) = this_cpu s"
  "this_cpu (s\<lparr>lh_block := x6\<rparr>) = this_cpu s"
  "this_cpu (s\<lparr>sb := x7\<rparr>) = this_cpu s"
  by (simp_all add: this_cpu_def)

lemma log_cpu_known [simp]:
  "cpu_known (s\<lparr>log_start := x0\<rparr>) = cpu_known s"
  "cpu_known (s\<lparr>log_size := x1\<rparr>) = cpu_known s"
  "cpu_known (s\<lparr>log_outstanding := x2\<rparr>) = cpu_known s"
  "cpu_known (s\<lparr>log_committing := x3\<rparr>) = cpu_known s"
  "cpu_known (s\<lparr>log_dev := x4\<rparr>) = cpu_known s"
  "cpu_known (s\<lparr>lh_n := x5\<rparr>) = cpu_known s"
  "cpu_known (s\<lparr>lh_block := x6\<rparr>) = cpu_known s"
  "cpu_known (s\<lparr>sb := x7\<rparr>) = cpu_known s"
  by (simp_all add: cpu_known_def)

lemma log_quiet [simp]:
  "quiet (s\<lparr>log_start := x0\<rparr>) = quiet s"
  "quiet (s\<lparr>log_size := x1\<rparr>) = quiet s"
  "quiet (s\<lparr>log_outstanding := x2\<rparr>) = quiet s"
  "quiet (s\<lparr>log_committing := x3\<rparr>) = quiet s"
  "quiet (s\<lparr>log_dev := x4\<rparr>) = quiet s"
  "quiet (s\<lparr>lh_n := x5\<rparr>) = quiet s"
  "quiet (s\<lparr>lh_block := x6\<rparr>) = quiet s"
  "quiet (s\<lparr>sb := x7\<rparr>) = quiet s"
  by (simp_all add: quiet_def)

lemma log_sel [simp]:
  "log_start (with_locks L s) = log_start s"
  "log_size (with_locks L s) = log_size s"
  "log_outstanding (with_locks L s) = log_outstanding s"
  "log_committing (with_locks L s) = log_committing s"
  "log_dev (with_locks L s) = log_dev s"
  "lh_n (with_locks L s) = lh_n s"
  "lh_block (with_locks L s) = lh_block s"
  "sb (with_locks L s) = sb s"
  by (simp_all add: with_locks_def)

lemma log_upd [simp]:
  "(with_locks L s)\<lparr>log_start := x0\<rparr> = with_locks L (s\<lparr>log_start := x0\<rparr>)"
  "(with_locks L s)\<lparr>log_size := x1\<rparr> = with_locks L (s\<lparr>log_size := x1\<rparr>)"
  "(with_locks L s)\<lparr>log_outstanding := x2\<rparr> = with_locks L (s\<lparr>log_outstanding := x2\<rparr>)"
  "(with_locks L s)\<lparr>log_committing := x3\<rparr> = with_locks L (s\<lparr>log_committing := x3\<rparr>)"
  "(with_locks L s)\<lparr>log_dev := x4\<rparr> = with_locks L (s\<lparr>log_dev := x4\<rparr>)"
  "(with_locks L s)\<lparr>lh_n := x5\<rparr> = with_locks L (s\<lparr>lh_n := x5\<rparr>)"
  "(with_locks L s)\<lparr>lh_block := x6\<rparr> = with_locks L (s\<lparr>lh_block := x6\<rparr>)"
  "(with_locks L s)\<lparr>sb := x7\<rparr> = with_locks L (s\<lparr>sb := x7\<rparr>)"
  by (simp_all add: with_locks_def cong: if_cong)

section \<open>Operations\<close>

definition readsb :: "u32 \<Rightarrow> 'z log_state_scheme \<Rightarrow> (superblock, 'z log_state_scheme) res" where
  "readsb dev s =
     kbind (bread dev 1 s) (\<lambda>i s.
     let d = b_data (bufs s i);
         r = \<lparr>sb_size = load32 d 0, sb_nblocks = load32 d 4, sb_ninodes = load32 d 8, sb_nlog = load32 d 12,
              sb_logstart = load32 d 16, sb_inodestart = load32 d 20, sb_bmapstart = load32 d 24\<rparr>
     in kbind (brelse i s) (\<lambda>_ s. Ret r s))"

definition install_body :: "nat \<Rightarrow> 'z log_state_scheme \<Rightarrow> (unit, 'z log_state_scheme) res" where
  "install_body tail s =
     kbind (bread (log_dev s) (log_start s + of_nat tail + 1) s) (\<lambda>lbuf s.
     kbind (bread (log_dev s) (lh_block s tail) s) (\<lambda>dbuf s.
     let s = set_data dbuf (b_data (bufs s lbuf)) s
     in kbind (bwrite dbuf s) (\<lambda>_ s.
        kbind (brelse lbuf s) (\<lambda>_ s. brelse dbuf s))))"

definition install_trans :: "'z log_state_scheme \<Rightarrow> (unit, 'z log_state_scheme) res" where
  "install_trans s = kfor [0..<nat (lh_n s)] install_body s"

text \<open>
  The header block: the count at offset 0 and the block numbers from offset 4 on. Reading a
  count above \<open>LOGSIZE\<close> would overrun \<open>lh.block\<close>.
\<close>

definition read_head :: "'z log_state_scheme \<Rightarrow> (unit, 'z log_state_scheme) res" where
  "read_head s =
     kbind (bread (log_dev s) (log_start s) s) (\<lambda>i s.
     let d = b_data (bufs s i);
         s = s\<lparr>lh_n := sint (load32 d 0)\<rparr>
     in if lh_n s > LOGSIZE then Fault ''read_head: past the end of lh.block''
        else let s = s\<lparr>lh_block := (\<lambda>k. if k < nat (lh_n s) then load32 d (4 + 4 * k) else lh_block s k)\<rparr>
             in brelse i s)"

definition head_block :: "buffer \<Rightarrow> int \<Rightarrow> (nat \<Rightarrow> u32) \<Rightarrow> buffer" where
  "head_block d n bl = fold (\<lambda>k d. store32 d (4 + 4 * k) (bl k)) [0..<nat n] (store32 d 0 (word_of_int n))"

definition write_head :: "'z log_state_scheme \<Rightarrow> (unit, 'z log_state_scheme) res" where
  "write_head s =
     kbind (bread (log_dev s) (log_start s) s) (\<lambda>i s.
     let s = set_data i (head_block (b_data (bufs s i)) (lh_n s) (lh_block s)) s
     in kbind (bwrite i s) (\<lambda>_ s. brelse i s))"

definition recover_from_log :: "'z log_state_scheme \<Rightarrow> (unit, 'z log_state_scheme) res" where
  "recover_from_log s =
     kbind (read_head s) (\<lambda>_ s.
     kbind (install_trans s) (\<lambda>_ s.
     write_head (s\<lparr>lh_n := 0\<rparr>)))"

definition initlog :: "u32 \<Rightarrow> 'z log_state_scheme \<Rightarrow> (unit, 'z log_state_scheme) res" where
  "initlog dev s =
     kbind (initlock LogLock s) (\<lambda>_ s.
     kbind (readsb dev s) (\<lambda>r s.
     recover_from_log (s\<lparr>log_start := sb_logstart r, log_size := sint (sb_nlog r), log_dev := dev\<rparr>)))"

text \<open>One iteration of the loop of \<open>begin_op\<close>; a sleeper goes on with \<open>begin_op_return\<close>.\<close>

definition begin_op_loop :: "'z log_state_scheme \<Rightarrow> (unit, 'z log_state_scheme) res" where
  "begin_op_loop s =
     (if log_committing s then sleep ChanLog LogLock s
      else if lh_n s + (log_outstanding s + 1) * MAXOPBLOCKS > LOGSIZE then sleep ChanLog LogLock s
      else release LogLock (s\<lparr>log_outstanding := log_outstanding s + 1\<rparr>))"

definition begin_op :: "'z log_state_scheme \<Rightarrow> (unit, 'z log_state_scheme) res" where
  "begin_op s = kbind (acquire LogLock s) (\<lambda>_ s. begin_op_loop s)"

definition begin_op_return :: "nat \<Rightarrow> bool \<Rightarrow> 'z log_state_scheme \<Rightarrow> (unit, 'z log_state_scheme) res" where
  "begin_op_return i saved s = kbind (sleep_return i LogLock saved s) (\<lambda>_ s. begin_op_loop s)"

definition write_log_body :: "nat \<Rightarrow> 'z log_state_scheme \<Rightarrow> (unit, 'z log_state_scheme) res" where
  "write_log_body tail s =
     kbind (bread (log_dev s) (log_start s + of_nat tail + 1) s) (\<lambda>to s.
     kbind (bread (log_dev s) (lh_block s tail) s) (\<lambda>from s.
     let s = set_data to (b_data (bufs s from)) s
     in kbind (bwrite to s) (\<lambda>_ s.
        kbind (brelse from s) (\<lambda>_ s. brelse to s))))"

definition write_log :: "'z log_state_scheme \<Rightarrow> (unit, 'z log_state_scheme) res" where
  "write_log s = kfor [0..<nat (lh_n s)] write_log_body s"

definition commit :: "'z log_state_scheme \<Rightarrow> (unit, 'z log_state_scheme) res" where
  "commit s =
     (if lh_n s > 0 then
        kbind (write_log s) (\<lambda>_ s.
        kbind (write_head s) (\<lambda>_ s.
        kbind (install_trans s) (\<lambda>_ s.
        write_head (s\<lparr>lh_n := 0\<rparr>))))
      else Ret () s)"

definition end_op :: "'z log_state_scheme \<Rightarrow> (unit, 'z log_state_scheme) res" where
  "end_op s =
     kbind (acquire LogLock s) (\<lambda>_ s.
     let s = s\<lparr>log_outstanding := log_outstanding s - 1\<rparr>
     in if log_committing s then Panic ''log.committing''
        else if log_outstanding s = 0 then
          kbind (release LogLock (s\<lparr>log_committing := True\<rparr>)) (\<lambda>_ s.
          kbind (commit s) (\<lambda>_ s.
          kbind (acquire LogLock s) (\<lambda>_ s.
          kbind (wakeup ChanLog (s\<lparr>log_committing := False\<rparr>)) (\<lambda>_ s.
          release LogLock s))))
        else kbind (wakeup ChanLog s) (\<lambda>_ s. release LogLock s))"

definition log_write :: "nat \<Rightarrow> 'z log_state_scheme \<Rightarrow> (unit, 'z log_state_scheme) res" where
  "log_write i s =
     (if lh_n s \<ge> LOGSIZE \<or> lh_n s \<ge> log_size s - 1 then Panic ''too big a transaction''
      else if log_outstanding s < 1 then Panic ''log_write outside of trans''
      else kbind (acquire LogLock s) (\<lambda>_ s.
        let b = b_blockno (bufs s i);
            k = (case first_idx (nat (lh_n s)) (\<lambda>k. lh_block s k = b) of Some k \<Rightarrow> k | None \<Rightarrow> nat (lh_n s));
            s = s\<lparr>lh_block := (lh_block s)(k := b)\<rparr>;
            s = (if int k = lh_n s then s\<lparr>lh_n := lh_n s + 1\<rparr> else s)
        in release LogLock (upd_buf i (\<lambda>b. b\<lparr>b_dirty := True\<rparr>) s)))"

section \<open>Copy loops\<close>

lemma bio_rest_log:
  fixes s t :: "'z log_state_scheme"
  assumes "bio_rest t = bio_rest s"
  shows "log_start t = log_start s" "log_dev t = log_dev s" "lh_n t = lh_n s" "lh_block t = lh_block s"
    "log_size t = log_size s" "log_outstanding t = log_outstanding s" "log_committing t = log_committing s"
    "sb t = sb s"
  using arg_cong [OF assms, of log_start] arg_cong [OF assms, of log_dev] arg_cong [OF assms, of lh_n]
    arg_cong [OF assms, of lh_block] arg_cong [OF assms, of log_size] arg_cong [OF assms, of log_outstanding]
    arg_cong [OF assms, of log_committing] arg_cong [OF assms, of sb]
  by (simp_all add: bio_rest_def no_locks_def)

lemma bio_ok_log_upd [simp]:
  "bio_ok me H (s\<lparr>lh_n := n\<rparr>) = bio_ok me H s" "bio_ok me H (s\<lparr>lh_block := f\<rparr>) = bio_ok me H s"
  "blk (s\<lparr>lh_n := n\<rparr>) = blk s" "blk (s\<lparr>lh_block := f\<rparr>) = blk s"
  "dirty_blks (s\<lparr>lh_n := n\<rparr>) = dirty_blks s" "dirty_blks (s\<lparr>lh_block := f\<rparr>) = dirty_blks s"
  by (simp_all add: bio_ok_def slot_ok_def one_copy_def in_proc_def blk_def cached_def fun_eq_iff dirty_blks_def
      cong: option.case_cong)

text \<open>Block \<open>x\<close> overwritten with block \<open>y\<close>, in the cache and on disk.\<close>

definition copied :: "nat \<Rightarrow> u32 \<Rightarrow> u32 \<Rightarrow> 'z bio_state_scheme \<Rightarrow> 'z bio_state_scheme \<Rightarrow> bool" where
  "copied me x y s u \<longleftrightarrow> bio_ok me {} u \<and> blk u = (blk s)(x := blk s y) \<and> disk u = (disk s)(x := blk s y) \<and>
    writes u = writes s @ [(x, blk s y)] \<and> disksize u = disksize s \<and> bio_rest u = bio_rest s \<and>
    dirty_blks u = dirty_blks s - {x}"

text \<open>Two blocks read one after the other.\<close>

lemma bread_two:
  assumes ok: "bio_ok me {} s" and xy: "x \<noteq> y" and lt: "x < disksize s" "y < disksize s"
    and room: "card (dirty_blks s) < NBUF" "y \<in> dirty_blks s \<or> card (dirty_blks s) + 1 < NBUF"
    and next2: "\<And>i t. bio_rest t = bio_rest s \<Longrightarrow> m2 i t = bread 1 y t"
    and fin: "\<And>i j t. bio_ok me {i, j} t \<Longrightarrow> i \<noteq> j \<Longrightarrow> cached t i x \<Longrightarrow> cached t j y \<Longrightarrow> synced i t \<Longrightarrow> synced j t \<Longrightarrow>
      blk t = blk s \<Longrightarrow> disk t = disk s \<Longrightarrow> writes t = writes s \<Longrightarrow> disksize t = disksize s \<Longrightarrow>
      bio_rest t = bio_rest s \<Longrightarrow> dirty_blks t = dirty_blks s \<Longrightarrow> wp (f i j t) P"
  shows "wp (kbind (bread 1 x s) (\<lambda>i t. kbind (m2 i t) (\<lambda>j t. f i j t))) P"
proof -
  have "bio_room {} s" using dirty_room [OF ok] room by simp
  with bread_got [OF ok _ _ lt(1)] obtain i t where i: "bread 1 x s = Ret i t" "got_block me {} x s i t"
    by (auto simp: not_held_def)
  then have t: "bio_ok me {i} t" "cached t i x" "synced i t" "blk t = blk s" "disk t = disk s" "writes t = writes s"
      "disksize t = disksize s" "bio_rest t = bio_rest s" "dirty_blks t = dirty_blks s"
    by (simp_all add: got_block_def)
  have nh: "not_held {i} y t" using t(2) xy by (auto simp: not_held_def cached_def)
  have "bio_room {i} t \<or> (\<exists>i<NBUF. b_dev (bufs t i) = 1 \<and> b_blockno (bufs t i) = y)"
    using room(2) dirty_room [OF t(1)] dirty_cached [OF t(1)] t(9) by auto
  with bread_got [OF t(1) nh] lt(2) t(7) obtain j u where j: "bread 1 y t = Ret j u" "got_block me {i} y t j u"
    by auto
  then have u: "bio_ok me {i, j} u" "i \<noteq> j" "cached u j y" "synced j u" "bufs u i = bufs t i" "disk u = disk t"
      "blk u = blk t" "writes u = writes t" "disksize u = disksize t" "bio_rest u = bio_rest t" "dirty_blks u = dirty_blks t"
    by (auto simp: got_block_def insert_commute)
  have "wp (f i j u) P"
    by (rule fin) (use u t in \<open>simp_all add: cached_def synced_def\<close>)
  then show ?thesis using i(1) j(1) next2 [OF t(8), of i] by simp
qed

lemma copy_tail_wp:
  assumes "bio_ok me {i, j} s" "i \<noteq> j" "cached s i x" "cached s j y" "synced j s" "x < disksize s"
    and "\<And>u. copied me x y s u \<Longrightarrow> P () u"
  shows "wp (bwrite i (set_data i (b_data (bufs s j)) s)) (\<lambda>_ t. wp (brelse j t) (\<lambda>_ t. wp (brelse i t) P))"
proof -
  obtain u where u: "kbind (bwrite i (set_data i (b_data (bufs s j)) s))
      (\<lambda>_ t. kbind (brelse j t) (\<lambda>_ t. brelse i t)) = Ret () u" "copied me x y s u"
    using copy_tail [OF assms(1-6)] by (auto simp: copied_def)
  have "wp (kbind (bwrite i (set_data i (b_data (bufs s j)) s)) (\<lambda>_ t. kbind (brelse j t) (\<lambda>_ t. brelse i t))) P"
    unfolding u(1) using assms(7) u(2) by simp
  then show ?thesis by simp
qed

lemma copied_same:
  "copied me x y t u \<Longrightarrow> blk t = blk s \<Longrightarrow> disk t = disk s \<Longrightarrow> writes t = writes s \<Longrightarrow> disksize t = disksize s \<Longrightarrow>
     bio_rest t = bio_rest s \<Longrightarrow> dirty_blks t = dirty_blks s \<Longrightarrow> copied me x y s u"
  by (simp add: copied_def)

text \<open>The bodies of the loops of \<open>write_log\<close> and \<open>install_trans\<close>.\<close>

lemma copy_to_first:
  assumes ok: "bio_ok me {} s" "x \<noteq> y" "x < disksize s" "y < disksize s"
    and room: "card (dirty_blks s) < NBUF" "y \<in> dirty_blks s \<or> card (dirty_blks s) + 1 < NBUF"
    and args: "dv s = 1" "xa s = x" "\<And>t. bio_rest t = bio_rest s \<Longrightarrow> dv t = 1 \<and> ya t = y"
    and P: "\<And>u. copied me x y s u \<Longrightarrow> P () u"
  shows "wp (kbind (bread (dv s) (xa s) s) (\<lambda>to s. kbind (bread (dv s) (ya s) s) (\<lambda>from s.
      let s = set_data to (b_data (bufs s from)) s
      in kbind (bwrite to s) (\<lambda>_ s. kbind (brelse from s) (\<lambda>_ s. brelse to s))))) P"
  unfolding args(1,2) Let_def
  by (rule bread_two [OF ok room])
     (use args(3) ok(3) P in \<open>auto intro!: copy_tail_wp dest: copied_same\<close>)

lemma copy_from_first:
  assumes ok: "bio_ok me {} s" "y \<noteq> x" "y < disksize s" "x < disksize s"
    and room: "card (dirty_blks s) < NBUF" "x \<in> dirty_blks s \<or> card (dirty_blks s) + 1 < NBUF"
    and args: "dv s = 1" "ya s = y" "\<And>t. bio_rest t = bio_rest s \<Longrightarrow> dv t = 1 \<and> xa t = x"
    and P: "\<And>u. copied me x y s u \<Longrightarrow> P () u"
  shows "wp (kbind (bread (dv s) (ya s) s) (\<lambda>from s. kbind (bread (dv s) (xa s) s) (\<lambda>to s.
      let s = set_data to (b_data (bufs s from)) s
      in kbind (bwrite to s) (\<lambda>_ s. kbind (brelse from s) (\<lambda>_ s. brelse to s))))) P"
  unfolding args(1,2) Let_def
  by (rule bread_two [OF ok room])
     (use args(3) ok(4) P in \<open>auto intro!: copy_tail_wp simp: insert_commute dest: copied_same\<close>)

section \<open>Sequences of disk writes\<close>

definition apply_writes :: "(u32 \<times> buffer) list \<Rightarrow> (u32 \<Rightarrow> buffer) \<Rightarrow> u32 \<Rightarrow> buffer" where
  "apply_writes ws m = fold (\<lambda>(b, d) m. m(b := d)) ws m"

lemma apply_writes_Nil [simp]: "apply_writes [] m = m"
  by (simp add: apply_writes_def)

lemma apply_writes_Cons [simp]: "apply_writes ((b, d) # ws) m = apply_writes ws (m(b := d))"
  by (simp add: apply_writes_def)

lemma apply_writes_append: "apply_writes (xs @ ys) m = apply_writes ys (apply_writes xs m)"
  by (simp add: apply_writes_def)

lemma apply_writes_snoc: "apply_writes (xs @ [(b, d)]) m = (apply_writes xs m)(b := d)"
  by (simp add: apply_writes_append)

lemma apply_writes_other: "b \<notin> fst ` set ws \<Longrightarrow> apply_writes ws m b = m b"
proof (induction ws rule: rev_induct)
  case (snoc w ws)
  then show ?case by (cases w) (auto simp: apply_writes_snoc)
qed simp

lemma apply_writes_map:
  assumes "inj_on f {..<n}" and "k < n"
  shows "apply_writes (map (\<lambda>j. (f j, g j)) [0..<n]) m (f k) = g k"
  using assms
proof (induction n)
  case (Suc n)
  have upt: "map (\<lambda>j. (f j, g j)) [0..<Suc n] = map (\<lambda>j. (f j, g j)) [0..<n] @ [(f n, g n)]" by simp
  show ?case
  proof (cases "k = n")
    case False
    with Suc.prems have "f k \<noteq> f n" by (auto simp: inj_on_def)
    with Suc False show ?thesis unfolding upt apply_writes_snoc by (simp add: inj_on_def)
  qed (simp add: upt apply_writes_snoc)
qed simp

section \<open>The log area\<close>

definition log_blk :: "u32 \<Rightarrow> nat \<Rightarrow> u32" where
  "log_blk st k = st + of_nat k + 1"

definition log_area :: "u32 \<Rightarrow> u32 set" where
  "log_area st = {x. unat st \<le> unat x \<and> unat x \<le> unat st + 30}"

lemma unat_log_blk:
  assumes "k < 30" and "unat st + 30 < 2 ^ 32"
  shows "unat (log_blk st k) = unat st + k + 1"
proof -
  have "log_blk st k = st + of_nat (Suc k)" by (simp add: log_blk_def)
  then show ?thesis using assms by (simp add: unat_word_ariths unat_of_nat)
qed

lemma log_blk_facts:
  assumes "unat st + 30 < unat ds" and "k < 30"
  shows "log_blk st k < (ds :: u32)" "log_blk st k \<in> log_area st" "log_blk st k \<noteq> st" "st < ds" "st \<in> log_area st"
    "j < 30 \<Longrightarrow> log_blk st k = log_blk st j \<longleftrightarrow> k = j"
proof -
  have lt: "unat st + 30 < 2 ^ 32" using assms(1) unsigned_less [of ds, where 'a = nat] by simp
  note u = unat_log_blk [OF _ lt]
  show "log_blk st k < ds" "log_blk st k \<in> log_area st" "log_blk st k \<noteq> st" "st < ds" "st \<in> log_area st"
    using u [OF assms(2)] assms by (auto simp: word_less_nat_alt log_area_def word_unat_eq_iff)
  show "log_blk st k = log_blk st j \<longleftrightarrow> k = j" if "j < 30"
    using u [OF assms(2)] u [OF that] by (auto simp: word_unat_eq_iff)
qed

text \<open>A transaction ready to commit: the blocks of \<open>bs\<close> are recorded and pinned, nothing else is.\<close>

definition txn :: "'z log_state_scheme \<Rightarrow> u32 list \<Rightarrow> bool" where
  "txn s bs \<longleftrightarrow> log_dev s = 1 \<and> lh_n s = int (length bs) \<and> (\<forall>k<length bs. lh_block s k = bs ! k) \<and>
     distinct bs \<and> set bs \<inter> log_area (log_start s) = {} \<and> (\<forall>b\<in>set bs. b < disksize s) \<and>
     unat (log_start s) + 30 < unat (disksize s) \<and> length bs \<le> 29"

definition log_writes :: "'z log_state_scheme \<Rightarrow> u32 list \<Rightarrow> nat \<Rightarrow> (u32 \<times> buffer) list" where
  "log_writes s bs k = map (\<lambda>j. (log_blk (log_start s) j, blk s (bs ! j))) [0..<k]"

definition home_writes :: "'z log_state_scheme \<Rightarrow> u32 list \<Rightarrow> nat \<Rightarrow> (u32 \<times> buffer) list" where
  "home_writes s bs k = map (\<lambda>j. (bs ! j, blk s (log_blk (log_start s) j))) [0..<k]"

text \<open>The state after a stretch of writes \<open>ws\<close> that also unpins the blocks \<open>D\<close>.\<close>

definition wrote :: "nat \<Rightarrow> (u32 \<times> buffer) list \<Rightarrow> u32 set \<Rightarrow> 'z log_state_scheme \<Rightarrow> 'z log_state_scheme \<Rightarrow> bool" where
  "wrote me ws D s t \<longleftrightarrow> bio_ok me {} t \<and> blk t = apply_writes ws (blk s) \<and> disk t = apply_writes ws (disk s) \<and>
     writes t = writes s @ ws \<and> disksize t = disksize s \<and> bio_rest t = bio_rest s \<and> dirty_blks t = dirty_blks s - D"

lemma wrote_Nil: "bio_ok me {} s \<Longrightarrow> wrote me [] {} s s"
  by (simp add: wrote_def)

lemma wrote_copied:
  "wrote me ws D s t \<Longrightarrow> copied me x y t u \<Longrightarrow> blk t y = d \<Longrightarrow> wrote me (ws @ [(x, d)]) (insert x D) s u"
  by (auto simp: wrote_def copied_def apply_writes_snoc)

lemma wrote_trans:
  "wrote me ws D s t \<Longrightarrow> wrote me ws' D' t u \<Longrightarrow> wrote me (ws @ ws') (D \<union> D') s u"
  by (auto simp: wrote_def apply_writes_append)

lemma finite_dirty: "finite (dirty_blks s)"
proof -
  have "dirty_blks s \<subseteq> (\<lambda>i. b_blockno (bufs s i)) ` {..<NBUF}" by (auto simp: dirty_blks_def)
  then show ?thesis by (rule finite_subset) simp
qed

lemma txn_facts:
  assumes "txn s bs" and "k < length bs"
  shows "log_dev s = 1" "lh_block s k = bs ! k" "bs ! k < disksize s" "bs ! k \<notin> log_area (log_start s)"
    "log_blk (log_start s) k < disksize s" "log_blk (log_start s) k \<in> log_area (log_start s)"
    "log_blk (log_start s) k \<noteq> bs ! k" "k < 30" "j < length bs \<Longrightarrow> log_blk (log_start s) j \<noteq> bs ! k"
    "j < length bs \<Longrightarrow> bs ! j = bs ! k \<longleftrightarrow> j = k"
proof -
  from assms show 1: "log_dev s = 1" "lh_block s k = bs ! k" "bs ! k < disksize s" "k < 30"
    by (auto simp: txn_def)
  from assms nth_mem [OF assms(2)] show 2: "bs ! k \<notin> log_area (log_start s)"
    unfolding txn_def by blast
  note lf = log_blk_facts [of "log_start s" "disksize s"]
  from lf(1,2) [of k] 1(4) assms(1) show 3: "log_blk (log_start s) k < disksize s"
    "log_blk (log_start s) k \<in> log_area (log_start s)" by (auto simp: txn_def)
  show "log_blk (log_start s) j \<noteq> bs ! k" if "j < length bs" for j
    using lf(2) [of j] that 2 assms(1) by (auto simp: txn_def)
  from this [OF assms(2)] show "log_blk (log_start s) k \<noteq> bs ! k" .
  show "j < length bs \<Longrightarrow> bs ! j = bs ! k \<longleftrightarrow> j = k"
    using assms by (auto simp: txn_def nth_eq_iff_index_eq)
qed

lemma write_log_step:
  assumes tx: "txn s bs" and dirty: "dirty_blks s = set bs" and k: "k < length bs"
    and w: "wrote me (log_writes s bs k) {} s t"
  shows "wp (write_log_body k t) (\<lambda>_ u. wrote me (log_writes s bs (Suc k)) {} s u)"
proof -
  note f = txn_facts [OF tx k]
  from w have ok: "bio_ok me {} t" and r: "bio_rest t = bio_rest s" and ds: "disksize t = disksize s"
    and d: "dirty_blks t = set bs"
    using dirty by (auto simp: wrote_def)
  have "bs ! k \<notin> fst ` set (log_writes s bs k)"
    using f(9) k by (auto simp: log_writes_def) (metis less_trans)
  then have data: "blk t (bs ! k) = blk s (bs ! k)"
    using w by (simp add: wrote_def apply_writes_other)
  have c: "card (set bs) < NBUF"
    using card_length [of bs] tx by (simp add: txn_def NBUF_def)
  have x: "log_blk (log_start s) k \<notin> set bs" using f(6) tx by (auto simp: txn_def)
  show ?thesis
    unfolding write_log_body_def
  proof (rule copy_to_first [where x = "log_blk (log_start s) k" and y = "bs ! k"])
    fix u assume "copied me (log_blk (log_start s) k) (bs ! k) t u"
    from wrote_copied [OF w this data] x d dirty show "wrote me (log_writes s bs (Suc k)) {} s u"
      by (simp add: log_writes_def wrote_def)
  next
    show "log_dev u = 1 \<and> lh_block u k = bs ! k" if "bio_rest u = bio_rest t" for u
      using bio_rest_log [of u s] that r f(1,2) by simp
  qed (use ok f c k d ds bio_rest_log [OF r] in \<open>simp_all add: log_blk_def\<close>)
qed

lemma write_log_wrote:
  assumes ok: "bio_ok me {} s" and tx: "txn s bs" and dirty: "dirty_blks s = set bs"
    and P: "\<And>t. wrote me (log_writes s bs (length bs)) {} s t \<Longrightarrow> P () t"
  shows "wp (write_log s) P"
  unfolding write_log_def
proof (rule wp_kfor [where I = "\<lambda>k t. wrote me (log_writes s bs k) {} s t"])
  show "wrote me (log_writes s bs 0) {} s s" using wrote_Nil [OF ok] by (simp add: log_writes_def)
  show "wp (write_log_body ([0..<nat (lh_n s)] ! k) t) (\<lambda>_ u. wrote me (log_writes s bs (Suc k)) {} s u)"
    if "k < length [0..<nat (lh_n s)]" "wrote me (log_writes s bs k) {} s t" for k t
    using write_log_step [OF tx dirty _ that(2)] that(1) tx by (simp add: txn_def)
  show "P () t" if "wrote me (log_writes s bs (length [0..<nat (lh_n s)])) {} s t" for t
    using P that tx by (simp add: txn_def)
qed

text \<open>\<open>install_trans\<close>, in a commit and in a recovery.\<close>

lemma install_step:
  assumes tx: "txn s bs" and k: "k < length bs" and room: "dirty_blks s = set bs \<or> dirty_blks s = {}"
    and w: "wrote me (home_writes s bs k) (set (take k bs)) s t"
  shows "wp (install_body k t) (\<lambda>_ u. wrote me (home_writes s bs (Suc k)) (set (take (Suc k) bs)) s u)"
proof -
  note f = txn_facts [OF tx k]
  from w have ok: "bio_ok me {} t" and r: "bio_rest t = bio_rest s" and ds: "disksize t = disksize s"
    and d: "dirty_blks t = dirty_blks s - set (take k bs)"
    by (auto simp: wrote_def)
  have "log_blk (log_start s) k \<notin> fst ` set (home_writes s bs k)"
  proof
    assume "log_blk (log_start s) k \<in> fst ` set (home_writes s bs k)"
    then obtain j where j: "j < k" "log_blk (log_start s) k = bs ! j" by (auto simp: home_writes_def)
    with txn_facts(9) [OF tx, of j k] k show False by simp
  qed
  then have data: "blk t (log_blk (log_start s) k) = blk s (log_blk (log_start s) k)"
    using w by (simp add: wrote_def apply_writes_other)
  have len: "length bs < NBUF" using tx by (simp add: txn_def NBUF_def)
  have "card (dirty_blks t) \<le> card (set bs)"
    unfolding d using room by (auto intro: card_mono)
  then have c: "card (dirty_blks t) < NBUF" using card_length [of bs] len by simp
  have fresh: "bs ! k \<notin> set (take k bs)"
  proof
    assume "bs ! k \<in> set (take k bs)"
    then obtain j where j: "j < k" "bs ! j = bs ! k" using k by (auto simp: in_set_conv_nth)
    with f(10) [of j] k show False by simp
  qed
  have room': "bs ! k \<in> dirty_blks t \<or> card (dirty_blks t) + 1 < NBUF"
  proof (cases "dirty_blks s = {}")
    case False
    with room have "dirty_blks s = set bs" by blast
    then show ?thesis using fresh k unfolding d by simp
  qed (simp add: d NBUF_def)
  have tk: "set (take (Suc k) bs) = insert (bs ! k) (set (take k bs))"
    using k by (simp add: take_Suc_conv_app_nth)
  show ?thesis
    unfolding install_body_def
  proof (rule copy_from_first [where x = "bs ! k" and y = "log_blk (log_start s) k"])
    fix u assume "copied me (bs ! k) (log_blk (log_start s) k) t u"
    from wrote_copied [OF w this data]
    show "wrote me (home_writes s bs (Suc k)) (set (take (Suc k) bs)) s u"
      unfolding tk by (simp add: home_writes_def)
  next
    show "log_dev u = 1 \<and> lh_block u k = bs ! k" if "bio_rest u = bio_rest t" for u
      using bio_rest_log [of u s] that r f(1,2) by simp
  qed (use ok f(1-8) c room' ds bio_rest_log [OF r] in \<open>simp_all add: log_blk_def\<close>)
qed

lemma install_wrote:
  assumes ok: "bio_ok me {} s" and tx: "txn s bs" and room: "dirty_blks s = set bs \<or> dirty_blks s = {}"
    and P: "\<And>t. wrote me (home_writes s bs (length bs)) (set bs) s t \<Longrightarrow> P () t"
  shows "wp (install_trans s) P"
  unfolding install_trans_def
proof (rule wp_kfor [where I = "\<lambda>k t. wrote me (home_writes s bs k) (set (take k bs)) s t"])
  show "wrote me (home_writes s bs 0) (set (take 0 bs)) s s"
    using wrote_Nil [OF ok] by (simp add: home_writes_def)
  show "wp (install_body ([0..<nat (lh_n s)] ! k) t)
      (\<lambda>_ u. wrote me (home_writes s bs (Suc k)) (set (take (Suc k) bs)) s u)"
    if "k < length [0..<nat (lh_n s)]" "wrote me (home_writes s bs k) (set (take k bs)) s t" for k t
    using install_step [OF tx _ room that(2)] that(1) tx by (simp add: txn_def)
  show "P () t" if "wrote me (home_writes s bs (length [0..<nat (lh_n s)]))
      (set (take (length [0..<nat (lh_n s)]) bs)) s t" for t
    using P that tx by (simp add: txn_def)
qed

section \<open>The header\<close>

lemma fold_store_other:
  "off + 4 \<le> 4 \<Longrightarrow> load32 (fold (\<lambda>k d. store32 d (4 + 4 * k) (bl k)) [0..<n] d) off = load32 d off"
proof (induction n)
  case (Suc n)
  then show ?case by (simp add: store32_def load32_put_other)
qed simp

lemma fold_store_at:
  "k < n \<Longrightarrow> load32 (fold (\<lambda>k d. store32 d (4 + 4 * k) (bl k)) [0..<n] d) (4 + 4 * k) = bl k"
proof (induction n)
  case (Suc n)
  show ?case
  proof (cases "k = n")
    case False
    with Suc have "load32 (fold (\<lambda>k d. store32 d (4 + 4 * k) (bl k)) [0..<n] d) (4 + 4 * k) = bl k" by simp
    then show ?thesis using False Suc.prems by (simp add: store32_def load32_put_other)
  qed simp
qed simp

lemma head_block_n: "load32 (head_block d n bl) 0 = word_of_int n"
  by (simp add: head_block_def fold_store_other)

lemma head_block_nth: "k < nat n \<Longrightarrow> load32 (head_block d n bl) (4 + 4 * k) = bl k"
  by (simp add: head_block_def fold_store_at)

lemma write_head_wrote:
  assumes ok: "bio_ok me {} s" and dev: "log_dev s = 1" and lt: "log_start s < disksize s"
    and c: "card (dirty_blks s) < NBUF" and nd: "log_start s \<notin> dirty_blks s"
    and P: "\<And>t. wrote me [(log_start s, head_block (blk s (log_start s)) (lh_n s) (lh_block s))] {} s t \<Longrightarrow> P () t"
  shows "wp (write_head s) P"
proof -
  let ?st = "log_start s"
  have "bio_room {} s" using dirty_room [OF ok] c by simp
  with bread_got [OF ok _ _ lt] obtain i t where i: "bread 1 ?st s = Ret i t" "got_block me {} ?st s i t"
    by (auto simp: not_held_def)
  then have t: "bio_ok me {i} t" "cached t i ?st" "b_data (bufs t i) = blk s ?st" "blk t = blk s" "disk t = disk s"
      "writes t = writes s" "disksize t = disksize s" "bio_rest t = bio_rest s" "dirty_blks t = dirty_blks s"
    by (simp_all add: got_block_def)
  note lg = bio_rest_log [OF t(8)]
  let ?h = "head_block (blk s ?st) (lh_n s) (lh_block s)"
  let ?a = "set_data i ?h t" let ?b = "flushed i ?a" let ?u = "released i ?b"
  have a: "bio_ok me {i} ?a" using bio_ok_set_data [OF t(1)] by simp
  have b: "bio_ok me {i} ?b" using bio_ok_flushed [OF a] by simp
  have bn: "b_blockno (bufs t i) = ?st" using t(2) by (simp add: cached_def)
  have "bio_ok me {} ?u" using bio_ok_released [OF b, of i] bn by simp
  moreover have "dirty_blks ?u = dirty_blks s"
  proof -
    have "\<not> b_dirty (bufs t i)" using nd t(2,9) by (auto simp: dirty_blks_def cached_def)
    then have "b_dirty (bufs ?u k) = b_dirty (bufs t k)" "b_blockno (bufs ?u k) = b_blockno (bufs t k)" for k
      by simp_all
    then show ?thesis using t(9) by (simp only: dirty_blks_def)
  qed
  moreover have "blk ?u = (blk s)(?st := ?h)"
    using blk_flushed [OF a, of i] blk_set_data [OF t(1,2)] t(4) by simp
  ultimately have "wrote me [(?st, ?h)] {} s ?u"
    using t bn by (simp add: wrote_def apply_writes_def)
  then have "P () ?u" by (rule P)
  moreover have "bwrite i ?a = Ret () ?b" using bwrite_eq [OF a, of i] bn lt t(7) by simp
  moreover have "brelse i ?b = Ret () ?u" using brelse_eq [OF b, of i] by simp
  ultimately show ?thesis
    using i(1) t(3) lg dev by (simp add: write_head_def Let_def)
qed

section \<open>Commit\<close>

text \<open>Everything but the cache, the disk and the list of logged blocks.\<close>

definition fs_rest :: "'z log_state_scheme \<Rightarrow> 'z log_state_scheme" where
  "fs_rest s = (bio_rest s)\<lparr>lh_n := 0, lh_block := (\<lambda>_. 0)\<rparr>"

lemma fs_rest_bio: "bio_rest t = bio_rest s \<Longrightarrow> fs_rest t = fs_rest s"
  by (simp add: fs_rest_def)

lemma fs_rest_lh_n [simp]: "fs_rest (s\<lparr>lh_n := n\<rparr>) = fs_rest s"
  by (simp add: fs_rest_def bio_rest_def no_locks_def cong: sleeplock_id.case_cong)

definition home_seq :: "'z log_state_scheme \<Rightarrow> u32 list \<Rightarrow> (u32 \<times> buffer) list" where
  "home_seq s bs = map (\<lambda>j. (bs ! j, blk s (bs ! j))) [0..<length bs]"

definition commit_head :: "'z log_state_scheme \<Rightarrow> buffer" where
  "commit_head s = head_block (blk s (log_start s)) (lh_n s) (lh_block s)"

text \<open>The disk writes of a commit, in order.\<close>

definition commit_writes :: "'z log_state_scheme \<Rightarrow> u32 list \<Rightarrow> (u32 \<times> buffer) list" where
  "commit_writes s bs =
     log_writes s bs (length bs) @ [(log_start s, commit_head s)] @ home_seq s bs @
     [(log_start s, head_block (commit_head s) 0 (lh_block s))]"

lemma txn_start:
  assumes "txn s bs"
  shows "log_start s < disksize s" "log_start s \<notin> set bs" "log_start s \<notin> fst ` set (log_writes s bs (length bs))"
    "log_dev s = 1" "card (set bs) < NBUF"
proof -
  have lt: "unat (log_start s) + 30 < unat (disksize s)" using assms by (simp add: txn_def)
  note lf = log_blk_facts [OF lt, of 0]
  show "log_start s < disksize s" using lf(4) by simp
  show "log_start s \<notin> set bs" using lf(5) assms by (auto simp: txn_def)
  show "log_start s \<notin> fst ` set (log_writes s bs (length bs))"
  proof -
    have "log_blk (log_start s) j \<noteq> log_start s" if "j < length bs" for j
      using log_blk_facts(3) [OF lt, of j] that assms by (simp add: txn_def)
    then show ?thesis by (fastforce simp: log_writes_def)
  qed
  show "log_dev s = 1" using assms by (simp add: txn_def)
  show "card (set bs) < NBUF" using card_length [of bs] assms by (simp add: txn_def NBUF_def)
qed

lemma txn_rest: "txn s bs \<Longrightarrow> bio_rest t = bio_rest s \<Longrightarrow> disksize t = disksize s \<Longrightarrow> txn t bs"
  using bio_rest_log [of t s] by (simp add: txn_def)

lemma commit_spec:
  assumes ok: "bio_ok me {} s" and tx: "txn s bs" and dirty: "dirty_blks s = set bs" and ne: "bs \<noteq> []"
  shows "\<exists>u. commit s = Ret () u \<and> bio_ok me {} u \<and> writes u = writes s @ commit_writes s bs \<and>
    disk u = apply_writes (commit_writes s bs) (disk s) \<and> blk u = apply_writes (commit_writes s bs) (blk s) \<and>
    dirty_blks u = {} \<and> lh_n u = 0 \<and> fs_rest u = fs_rest s"
proof -
  let ?st = "log_start s"
  note st = txn_start [OF tx]
  have "wp (commit s) (\<lambda>_ u. bio_ok me {} u \<and> writes u = writes s @ commit_writes s bs \<and>
      disk u = apply_writes (commit_writes s bs) (disk s) \<and> blk u = apply_writes (commit_writes s bs) (blk s) \<and>
      dirty_blks u = {} \<and> lh_n u = 0 \<and> fs_rest u = fs_rest s)" (is "wp _ ?P")
  proof -
    have "wp (write_log s) (\<lambda>_ s. wp (write_head s) (\<lambda>_ s. wp (install_trans s) (\<lambda>_ s. wp (write_head (s\<lparr>lh_n := 0\<rparr>)) ?P)))"
    proof (rule write_log_wrote [OF ok tx dirty])
      fix t1 assume w1: "wrote me (log_writes s bs (length bs)) {} s t1"
      then have r1: "bio_rest t1 = bio_rest s" "disksize t1 = disksize s" "bio_ok me {} t1" "dirty_blks t1 = set bs"
        using dirty by (auto simp: wrote_def)
      note l1 = bio_rest_log [OF r1(1)]
      have h1: "blk t1 ?st = blk s ?st"
        using w1 st(3) by (simp add: wrote_def apply_writes_other)
      show "wp (write_head t1) (\<lambda>_ s. wp (install_trans s) (\<lambda>_ s. wp (write_head (s\<lparr>lh_n := 0\<rparr>)) ?P))"
      proof (rule write_head_wrote [OF r1(3)])
        fix t2
        assume "wrote me [(log_start t1, head_block (blk t1 (log_start t1)) (lh_n t1) (lh_block t1))] {} t1 t2"
        then have "wrote me [(?st, commit_head s)] {} t1 t2" using l1 h1 by (simp add: commit_head_def)
        from wrote_trans [OF w1 this]
        have w2: "wrote me (log_writes s bs (length bs) @ [(?st, commit_head s)]) {} s t2" by simp
        then have r2: "bio_rest t2 = bio_rest s" "disksize t2 = disksize s" "bio_ok me {} t2" "dirty_blks t2 = set bs"
          using dirty by (auto simp: wrote_def)
        note l2 = bio_rest_log [OF r2(1)]
        have "blk t2 (log_blk ?st j) = blk s (bs ! j)" if j: "j < length bs" for j
        proof -
          have ne: "log_blk ?st j \<noteq> ?st" and inj: "inj_on (log_blk ?st) {..<length bs}"
            using log_blk_facts(3,6) [of ?st "disksize s"] tx j by (auto simp: txn_def inj_on_def)
          then show ?thesis
            using w2 apply_writes_map [OF inj j, of "\<lambda>j. blk s (bs ! j)" "blk s"]
            by (simp add: wrote_def apply_writes_snoc log_writes_def)
        qed
        then have hs: "home_writes t2 bs (length bs) = home_seq s bs"
          using l2 by (simp add: home_writes_def home_seq_def)
        show "wp (install_trans t2) (\<lambda>_ s. wp (write_head (s\<lparr>lh_n := 0\<rparr>)) ?P)"
        proof (rule install_wrote [OF r2(3) txn_rest [OF tx r2(1,2)]])
          fix t3 assume w3': "wrote me (home_writes t2 bs (length bs)) (set bs) t2 t3"
          have w3: "wrote me (log_writes s bs (length bs) @ [(?st, commit_head s)] @ home_seq s bs) (set bs) s t3"
            using wrote_trans [OF w2 w3'] hs by simp
          then have r3: "bio_rest t3 = bio_rest s" "disksize t3 = disksize s" "bio_ok me {} t3" "dirty_blks t3 = {}"
            using dirty by (auto simp: wrote_def)
          note l3 = bio_rest_log [OF r3(1)]
          have "?st \<notin> fst ` set (home_seq s bs)" using st(2) by (auto simp: home_seq_def)
          then have h3: "blk t3 ?st = commit_head s"
            using w3 by (simp add: wrote_def apply_writes_append apply_writes_other)
          show "wp (write_head (t3\<lparr>lh_n := 0\<rparr>)) ?P"
          proof (rule write_head_wrote)
            fix t4 assume "wrote me [(log_start (t3\<lparr>lh_n := 0\<rparr>), head_block (blk (t3\<lparr>lh_n := 0\<rparr>) (log_start (t3\<lparr>lh_n := 0\<rparr>)))
                (lh_n (t3\<lparr>lh_n := 0\<rparr>)) (lh_block (t3\<lparr>lh_n := 0\<rparr>)))] {} (t3\<lparr>lh_n := 0\<rparr>) t4"
            then have w4: "wrote me [(?st, head_block (commit_head s) 0 (lh_block s))] {} (t3\<lparr>lh_n := 0\<rparr>) t4"
              using l3 h3 by simp
            from bio_rest_log(3) [of t4 "t3\<lparr>lh_n := 0\<rparr>"] w4 have "lh_n t4 = 0" by (simp add: wrote_def)
            moreover have "fs_rest t4 = fs_rest s"
              using fs_rest_bio [of t4 "t3\<lparr>lh_n := 0\<rparr>"] fs_rest_bio [OF r3(1)] w4 by (simp add: wrote_def)
            ultimately show "?P () t4"
              using w4 w3 r3 by (simp add: wrote_def commit_writes_def apply_writes_append)
          qed (use r3 l3 st in \<open>simp_all add: NBUF_def\<close>)
        qed (simp add: r2(4))
      qed (use r1 l1 st in simp_all)
    qed
    then show ?thesis using tx ne by (simp add: commit_def txn_def)
  qed
  then show ?thesis by (auto simp: wp_Ret_ex)
qed

section \<open>Recovery\<close>

text \<open>A log header on disk \<open>d\<close> that lists the blocks \<open>bs\<close>.\<close>

definition head_lists :: "u32 \<Rightarrow> u32 \<Rightarrow> (u32 \<Rightarrow> buffer) \<Rightarrow> u32 list \<Rightarrow> bool" where
  "head_lists st ds d bs \<longleftrightarrow> load32 (d st) 0 = word_of_int (int (length bs)) \<and>
     (\<forall>k<length bs. load32 (d st) (4 + 4 * k) = bs ! k) \<and> distinct bs \<and> set bs \<inter> log_area st = {} \<and>
     (\<forall>b\<in>set bs. b < ds) \<and> unat st + 30 < unat ds \<and> length bs \<le> 29"

lemma blk_clean:
  assumes "bio_ok me {} s" and "b \<notin> dirty_blks s"
  shows "blk s b = disk s b"
proof (rule blk_eqI)
  fix i assume "cached s i b"
  then show "b_data (bufs s i) = disk s b"
    using bio_okD(7) [OF assms(1), of i] assms(2) by (auto simp: cached_def slot_ok_def dirty_blks_def)
qed simp

lemma sint_small:
  assumes "n \<le> 29"
  shows "sint (word_of_int (int n) :: u32) = int n"
  by (subst sint_sbintrunc') (rule signed_take_bit_int_eq_self, use assms in simp_all)

lemma read_head_spec:
  assumes ok: "bio_ok me {} s" and dev: "log_dev s = 1" and clean: "dirty_blks s = {}"
    and h: "head_lists (log_start s) (disksize s) (disk s) bs"
    and P: "\<And>t. bio_ok me {} t \<Longrightarrow> txn t bs \<Longrightarrow> disk t = disk s \<Longrightarrow> blk t = blk s \<Longrightarrow> dirty_blks t = {} \<Longrightarrow>
      log_start t = log_start s \<Longrightarrow> disksize t = disksize s \<Longrightarrow> P () t"
  shows "wp (read_head s) P"
proof -
  let ?st = "log_start s"
  have lt: "?st < disksize s"
    using log_blk_facts(4) [of ?st "disksize s" 0] h by (simp add: head_lists_def)
  have "bio_room {} s" using dirty_room [OF ok] clean by (simp add: NBUF_def)
  with bread_got [OF ok _ _ lt] obtain i t where i: "bread 1 ?st s = Ret i t" "got_block me {} ?st s i t"
    by (auto simp: not_held_def)
  then have t: "bio_ok me {i} t" "cached t i ?st" "b_data (bufs t i) = blk s ?st" "blk t = blk s" "disk t = disk s"
      "disksize t = disksize s" "bio_rest t = bio_rest s" "dirty_blks t = {}" "synced i t"
    using clean by (simp_all add: got_block_def)
  note lg = bio_rest_log [OF t(7)]
  have data: "blk s ?st = disk s ?st" using blk_clean [OF ok] clean by simp
  let ?d = "disk s ?st"
  have n: "sint (load32 ?d 0) = int (length bs)" "length bs \<le> 29"
    using h sint_small [of "length bs"] by (auto simp only: head_lists_def)
  let ?a = "t\<lparr>lh_n := int (length bs)\<rparr>
    \<lparr>lh_block := (\<lambda>k. if k < length bs then load32 ?d (4 + 4 * k) else lh_block t k)\<rparr>"
  have a: "bio_ok me {i} ?a" using t(1) by simp
  let ?u = "released i ?a"
  have u: "bio_ok me {} ?u"
    using bio_ok_released [OF a, of i] t(9) by (simp add: synced_def)
  have lgu: "log_start ?u = ?st" "log_dev ?u = 1" "lh_n ?u = int (length bs)"
      "lh_block ?u = (\<lambda>k. if k < length bs then load32 ?d (4 + 4 * k) else lh_block t k)"
    using bio_rest_log [of ?u ?a] lg dev by simp_all
  have "txn ?u bs" using h lgu t(6) by (simp add: txn_def head_lists_def)
  moreover have "dirty_blks ?u = {}"
    using t(8) by (auto simp: dirty_blks_def split: if_splits)
  ultimately have "P () ?u" by (intro P) (use u t lgu in simp_all)
  moreover have "brelse i ?a = Ret () ?u" using brelse_eq [OF a, of i] by simp
  ultimately show ?thesis
    using i(1) t(3) data n lg dev by (simp add: read_head_def Let_def LOGSIZE_def cong: if_cong)
qed

text \<open>What \<open>recover_from_log\<close> leaves on disk: the logged blocks copied home, the log empty.\<close>

definition redo :: "u32 \<Rightarrow> u32 list \<Rightarrow> (u32 \<Rightarrow> buffer) \<Rightarrow> u32 \<Rightarrow> buffer" where
  "redo st bs d = apply_writes (map (\<lambda>j. (bs ! j, d (log_blk st j))) [0..<length bs]) d"

lemma recover_spec:
  assumes ok: "bio_ok me {} s" and dev: "log_dev s = 1" and clean: "dirty_blks s = {}"
    and h: "head_lists (log_start s) (disksize s) (disk s) bs"
  shows "\<exists>u. recover_from_log s = Ret () u \<and> bio_ok me {} u \<and>
    (\<forall>x. x \<noteq> log_start s \<longrightarrow> disk u x = redo (log_start s) bs (disk s) x) \<and>
    load32 (disk u (log_start s)) 0 = 0 \<and> dirty_blks u = {} \<and> lh_n u = 0"
proof -
  let ?st = "log_start s"
  let ?P = "\<lambda>_ u. bio_ok me {} u \<and> (\<forall>x. x \<noteq> ?st \<longrightarrow> disk u x = redo ?st bs (disk s) x) \<and>
    load32 (disk u ?st) 0 = 0 \<and> dirty_blks u = {} \<and> lh_n u = 0"
  have "wp (read_head s) (\<lambda>_ s. wp (install_trans s) (\<lambda>_ s. wp (write_head (s\<lparr>lh_n := 0\<rparr>)) ?P))"
  proof (rule read_head_spec [OF ok dev clean h])
    fix t assume t: "bio_ok me {} t" "txn t bs" "disk t = disk s" "blk t = blk s" "dirty_blks t = {}"
      "log_start t = ?st" "disksize t = disksize s"
    note st = txn_start [OF t(2)]
    have bd: "blk t = disk s" using blk_clean [OF t(1)] t(3,5) by auto
    show "wp (install_trans t) (\<lambda>_ s. wp (write_head (s\<lparr>lh_n := 0\<rparr>)) ?P)"
    proof (rule install_wrote [OF t(1,2)])
      fix v assume w: "wrote me (home_writes t bs (length bs)) (set bs) t v"
      then have v: "bio_ok me {} v" "dirty_blks v = {}" "disk v = redo ?st bs (disk s)" "disksize v = disksize s"
          "bio_rest v = bio_rest t"
        using t bd by (auto simp: wrote_def home_writes_def redo_def)
      note lv = bio_rest_log [OF v(5)]
      show "wp (write_head (v\<lparr>lh_n := 0\<rparr>)) ?P"
      proof (rule write_head_wrote)
        fix u assume w: "wrote me [(log_start (v\<lparr>lh_n := 0\<rparr>), head_block (blk (v\<lparr>lh_n := 0\<rparr>) (log_start (v\<lparr>lh_n := 0\<rparr>)))
            (lh_n (v\<lparr>lh_n := 0\<rparr>)) (lh_block (v\<lparr>lh_n := 0\<rparr>)))] {} (v\<lparr>lh_n := 0\<rparr>) u"
        from bio_rest_log(3) [of u "v\<lparr>lh_n := 0\<rparr>"] w have "lh_n u = 0" by (simp add: wrote_def)
        with w v lv t(6) show "?P () u" by (simp add: wrote_def head_block_n)
      qed (use v lv st t in \<open>simp_all add: NBUF_def\<close>)
    qed (simp add: t(5))
  qed
  then have "wp (recover_from_log s) ?P" by (simp add: recover_from_log_def)
  then show ?thesis by (auto simp: wp_Ret_ex)
qed

section \<open>Crashes during a commit\<close>

lemma take_commit:
  fixes A B :: "'a list"
  assumes "length A = n" and "length B = n"
  obtains "m \<le> n" "take m (A @ [x] @ B @ [y]) = take m A"
  | k where "take m (A @ [x] @ B @ [y]) = A @ [x] @ take k B"
  | "take m (A @ [x] @ B @ [y]) = A @ [x] @ B @ [y]"
proof -
  consider "m \<le> n" | "n < m" "m \<le> 2 * n + 1" | "2 * n + 1 < m" by linarith
  then show thesis
  proof cases
    case 1
    then show ?thesis using assms that(1) by simp
  next
    case 2
    then obtain k where "m = n + 1 + k" "k \<le> n" by (metis Suc_eq_plus1 add_Suc_right add_le_cancel_left less_iff_Suc_add mult_2 add.assoc add.commute)
    then show ?thesis using assms by (intro that(2) [of k]) simp
  next
    case 3
    then show ?thesis using assms by (intro that(3)) simp
  qed
qed

lemma crash_before:
  assumes tx: "txn s bs" and empty: "load32 (disk s (log_start s)) 0 = 0"
    and d: "d = apply_writes (take m (log_writes s bs (length bs))) (disk s)"
  shows "head_lists (log_start s) (disksize s) d []" and "x \<notin> log_area (log_start s) \<Longrightarrow> redo (log_start s) [] d x = disk s x"
proof -
  let ?A = "take m (log_writes s bs (length bs))"
  have sub: "fst ` set ?A \<subseteq> fst ` set (log_writes s bs (length bs))" by (meson image_mono set_take_subset)
  have "log_start s \<notin> fst ` set ?A" using txn_start(3) [OF tx] sub by blast
  then show "head_lists (log_start s) (disksize s) d []"
    using tx empty by (simp add: head_lists_def d apply_writes_other txn_def)
  have "fst ` set (log_writes s bs (length bs)) \<subseteq> log_area (log_start s)"
    using txn_facts(6) [OF tx] by (auto simp: log_writes_def)
  then show "redo (log_start s) [] d x = disk s x" if "x \<notin> log_area (log_start s)"
  proof -
    have "x \<notin> fst ` set ?A" using that sub \<open>_ \<subseteq> log_area _\<close> by blast
    then show ?thesis by (simp add: redo_def d apply_writes_other)
  qed
qed

lemma apply_home_seq:
  assumes "txn s bs" and "x \<in> set bs"
  shows "apply_writes (home_seq s bs) m x = blk s x"
proof -
  from assms(2) obtain j where j: "j < length bs" "x = bs ! j" by (auto simp: in_set_conv_nth)
  have "inj_on ((!) bs) {..<length bs}" using assms(1) by (auto simp: txn_def inj_on_nth)
  from apply_writes_map [OF this j(1), of "\<lambda>j. blk s (bs ! j)"] show ?thesis by (simp add: home_seq_def j(2))
qed

lemma commit_head_lists:
  assumes "txn s bs"
  shows "load32 (commit_head s) 0 = word_of_int (int (length bs))"
    "k < length bs \<Longrightarrow> load32 (commit_head s) (4 + 4 * k) = bs ! k"
  using assms head_block_n head_block_nth [of k "lh_n s"] by (auto simp: commit_head_def txn_def)

lemma crash_after:
  assumes tx: "txn s bs"
    and d: "d = apply_writes (log_writes s bs (length bs) @ [(log_start s, commit_head s)] @ take k (home_seq s bs)) (disk s)"
  shows "head_lists (log_start s) (disksize s) d bs"
    and "x \<notin> log_area (log_start s) \<Longrightarrow> redo (log_start s) bs d x = (if x \<in> set bs then blk s x else disk s x)"
proof -
  let ?B = "take k (home_seq s bs)"
  let ?m = "(apply_writes (log_writes s bs (length bs)) (disk s))(log_start s := commit_head s)"
  have d': "d = apply_writes ?B ?m" by (simp add: d apply_writes_append)
  have B: "fst ` set ?B \<subseteq> set bs" by (auto simp: home_seq_def dest!: in_set_takeD)
  have "log_start s \<notin> fst ` set ?B" using B txn_start(2) [OF tx] by blast
  then have "d (log_start s) = commit_head s" by (simp add: d' apply_writes_other)
  then show "head_lists (log_start s) (disksize s) d bs"
    using tx commit_head_lists [OF tx] by (simp add: head_lists_def txn_def)
  have lb: "d (log_blk (log_start s) j) = blk s (bs ! j)" if j: "j < length bs" for j
  proof -
    have inj: "inj_on (log_blk (log_start s)) {..<length bs}" and ne: "log_blk (log_start s) j \<noteq> log_start s"
      using log_blk_facts(3,6) [of "log_start s" "disksize s"] tx j by (auto simp: txn_def inj_on_def)
    have "log_blk (log_start s) j \<notin> fst ` set ?B"
      using B txn_facts(6) [OF tx j] tx by (auto simp: txn_def)
    then show ?thesis
      using ne apply_writes_map [OF inj j, of "\<lambda>j. blk s (bs ! j)"] by (simp add: d' apply_writes_other log_writes_def)
  qed
  assume x: "x \<notin> log_area (log_start s)"
  have "map (\<lambda>j. (bs ! j, d (log_blk (log_start s) j))) [0..<length bs] = home_seq s bs"
    using lb by (simp add: home_seq_def)
  then have r: "redo (log_start s) bs d x = apply_writes (home_seq s bs) d x" by (simp add: redo_def)
  show "redo (log_start s) bs d x = (if x \<in> set bs then blk s x else disk s x)"
  proof (cases "x \<in> set bs")
    case False
    have "x \<notin> fst ` set (log_writes s bs (length bs))"
      using x txn_facts(6) [OF tx] by (auto simp: log_writes_def)
    moreover have "x \<noteq> log_start s" using x by (auto simp: log_area_def)
    moreover have "x \<notin> fst ` set (home_seq s bs)" using False by (auto simp: home_seq_def)
    moreover have "x \<notin> fst ` set ?B" using False B by blast
    ultimately have "apply_writes (home_seq s bs) d x = disk s x" unfolding d' by (simp add: apply_writes_other)
    then show ?thesis using False r by simp
  qed (simp add: r apply_home_seq [OF tx])
qed

lemma crash_done:
  assumes tx: "txn s bs" and d: "d = apply_writes (commit_writes s bs) (disk s)"
  shows "head_lists (log_start s) (disksize s) d []"
    and "x \<notin> log_area (log_start s) \<Longrightarrow> redo (log_start s) [] d x = (if x \<in> set bs then blk s x else disk s x)"
proof -
  have d': "d = (apply_writes (home_seq s bs) ((apply_writes (log_writes s bs (length bs)) (disk s))
      (log_start s := commit_head s)))(log_start s := head_block (commit_head s) 0 (lh_block s))"
    by (simp add: d commit_writes_def apply_writes_append)
  show "head_lists (log_start s) (disksize s) d []"
    using tx by (simp add: d' head_lists_def head_block_n txn_def)
  assume x: "x \<notin> log_area (log_start s)"
  have "x \<noteq> log_start s" using x by (auto simp: log_area_def)
  moreover have "x \<notin> fst ` set (log_writes s bs (length bs))"
    using x txn_facts(6) [OF tx] by (auto simp: log_writes_def)
  moreover have "x \<notin> fst ` set (home_seq s bs)" if "x \<notin> set bs" using that by (auto simp: home_seq_def)
  ultimately show "redo (log_start s) [] d x = (if x \<in> set bs then blk s x else disk s x)"
    by (auto simp: redo_def d' apply_home_seq [OF tx] apply_writes_other)
qed

text \<open>A machine that has just booted on the disk \<open>d\<close>: the cache is empty of unwritten data, and
  \<open>initlog\<close> has read the log's position from the superblock.\<close>

definition booted :: "nat \<Rightarrow> u32 \<Rightarrow> u32 \<Rightarrow> (u32 \<Rightarrow> buffer) \<Rightarrow> 'z log_state_scheme \<Rightarrow> bool" where
  "booted me st ds d u \<longleftrightarrow> bio_ok me {} u \<and> log_dev u = 1 \<and> dirty_blks u = {} \<and> log_start u = st \<and> disksize u = ds \<and> disk u = d"

lemma recover_booted:
  assumes "booted me st ds d u" and "head_lists st ds d bs"
    and "\<And>x. x \<notin> log_area st \<Longrightarrow> redo st bs d x = f x"
  shows "\<exists>v. recover_from_log u = Ret () v \<and> (\<forall>x. x \<notin> log_area st \<longrightarrow> disk v x = f x)"
proof -
  have "x \<noteq> st" if "x \<notin> log_area st" for x using that by (auto simp: log_area_def)
  moreover from recover_spec [of me u bs] assms(1,2) obtain v
    where "recover_from_log u = Ret () v" "\<forall>x. x \<noteq> st \<longrightarrow> disk v x = redo st bs d x"
    by (auto simp: booted_def)
  ultimately show ?thesis using assms(3) by (intro exI [of _ v]) simp
qed

lemma commit_prefix:
  assumes "txn s bs" and "load32 (disk s (log_start s)) 0 = 0"
    and d: "d = apply_writes (take m (commit_writes s bs)) (disk s)"
  shows "\<exists>hs f. head_lists (log_start s) (disksize s) d hs \<and> (\<forall>x. x \<notin> log_area (log_start s) \<longrightarrow> redo (log_start s) hs d x = f x) \<and>
    (f = disk s \<or> f = (\<lambda>x. if x \<in> set bs then blk s x else disk s x))"
proof -
  let ?A = "log_writes s bs (length bs)" and ?B = "home_seq s bs"
  have len: "length ?A = length bs" "length ?B = length bs" by (simp_all add: log_writes_def home_seq_def)
  let ?w1 = "(log_start s, commit_head s)" and ?w2 = "(log_start s, head_block (commit_head s) 0 (lh_block s))"
  have cw: "commit_writes s bs = ?A @ [?w1] @ ?B @ [?w2]" by (simp add: commit_writes_def)
  show ?thesis
  proof (rule take_commit [OF len, of m ?w1 ?w2], goal_cases)
    case 1
    note c = crash_before [OF assms(1,2) d [unfolded cw 1(2)]]
    show ?case by (intro exI [of _ "[]"] exI [of _ "disk s"]) (simp add: c)
  next
    case (2 k)
    note c = crash_after [OF assms(1) d [unfolded cw 2]]
    show ?case by (intro exI [of _ bs] exI [of _ "\<lambda>x. if x \<in> set bs then blk s x else disk s x"]) (simp add: c)
  next
    case 3
    note c = crash_done [OF assms(1) d [unfolded cw 3, folded cw]]
    show ?case by (intro exI [of _ "[]"] exI [of _ "\<lambda>x. if x \<in> set bs then blk s x else disk s x"]) (simp add: c)
  qed
qed

text \<open>C1: Commits are atomic under crashes. \<open>commit\<close> of a transaction over the blocks \<open>bs\<close> returns, having issued a
  sequence \<open>ws\<close> of block writes; and if the machine stops after any prefix of \<open>ws\<close> has reached the disk, the
  \<open>recover_from_log\<close> of the next boot returns with a disk on which, outside the log area, either every block is as it was
  before the transaction or every block of the transaction, and no other, has its new contents.\<close>

theorem commit_crash_atomic:
  assumes "bio_ok me {} s" and "txn s bs" and "dirty_blks s = set bs" and "bs \<noteq> []"
    and "load32 (disk s (log_start s)) 0 = 0"
  shows "\<exists>t ws. commit s = Ret () t \<and> writes t = writes s @ ws \<and>
    (\<forall>m u. booted me' (log_start s) (disksize s) (apply_writes (take m ws) (disk s)) (u :: 'y log_state_scheme) \<longrightarrow>
      (\<exists>v f. recover_from_log u = Ret () v \<and> (\<forall>x. x \<notin> log_area (log_start s) \<longrightarrow> disk v x = f x) \<and>
        (f = disk s \<or> f = (\<lambda>x. if x \<in> set bs then blk s x else disk s x))))"
proof -
  from commit_spec [OF assms(1-4)] obtain t
    where "commit s = Ret () t" "writes t = writes s @ commit_writes s bs" by blast
  moreover have "\<exists>v f. recover_from_log u = Ret () v \<and> (\<forall>x. x \<notin> log_area (log_start s) \<longrightarrow> disk v x = f x) \<and>
      (f = disk s \<or> f = (\<lambda>x. if x \<in> set bs then blk s x else disk s x))"
    if b: "booted me' (log_start s) (disksize s) (apply_writes (take m (commit_writes s bs)) (disk s)) (u :: 'y log_state_scheme)" for m u
  proof -
    from commit_prefix [OF assms(2,5) refl, of m] obtain hs f
      where f: "head_lists (log_start s) (disksize s) (apply_writes (take m (commit_writes s bs)) (disk s)) hs"
        "\<forall>x. x \<notin> log_area (log_start s) \<longrightarrow> redo (log_start s) hs (apply_writes (take m (commit_writes s bs)) (disk s)) x = f x"
        "f = disk s \<or> f = (\<lambda>x. if x \<in> set bs then blk s x else disk s x)" by (elim exE conjE)
    from recover_booted [OF b f(1)] f(2) obtain v
      where "recover_from_log u = Ret () v" "\<forall>x. x \<notin> log_area (log_start s) \<longrightarrow> disk v x = f x" by (metis (no_types))
    with f(3) show ?thesis by (intro exI conjI)
  qed
  ultimately show ?thesis by (intro exI [of _ t] exI [of _ "commit_writes s bs"]) simp
qed

text \<open>A commit that is not interrupted installs exactly the transaction: every block of \<open>bs\<close> has its new contents
  on disk, every other block outside the log area is unchanged, the log header on disk and in memory is empty again and no
  buffer is left dirty.\<close>

theorem commit_installs:
  assumes "bio_ok me {} s" and "txn s bs" and "dirty_blks s = set bs" and "bs \<noteq> []"
  shows "\<exists>t. commit s = Ret () t \<and> bio_ok me {} t \<and> lh_n t = 0 \<and> dirty_blks t = {} \<and>
    load32 (disk t (log_start s)) 0 = 0 \<and>
    (\<forall>x. x \<notin> log_area (log_start s) \<longrightarrow> disk t x = (if x \<in> set bs then blk s x else disk s x))"
proof -
  from commit_spec [OF assms] obtain t where t: "commit s = Ret () t" "bio_ok me {} t" "lh_n t = 0" "dirty_blks t = {}"
    "disk t = apply_writes (commit_writes s bs) (disk s)" by blast
  from crash_done [OF assms(2) t(5)] t show ?thesis
    by (intro exI [of _ t]) (simp add: head_lists_def redo_def)
qed

section \<open>Joining a transaction\<close>

definition logged :: "'z log_state_scheme \<Rightarrow> u32 list" where
  "logged s = map (lh_block s) [0..<nat (lh_n s)]"

lemma set_logged: "set (logged s) = lh_block s ` {..<nat (lh_n s)}"
  by (auto simp: logged_def)

lemma first_logged:
  "first_idx (nat (lh_n s)) (\<lambda>k. lh_block s k = b) = None \<longleftrightarrow> b \<notin> set (logged s)"
  by (auto simp: first_idx_None set_logged)

text \<open>\<open>log_write\<close> records a block once per transaction. Inside an operation and below the log's capacity of
  \<open>log_size - 1\<close> blocks it returns; a block the transaction already lists is absorbed, any other is appended; the list stays
  free of duplicates, and the buffer is left dirty, so that the cache cannot recycle it before the commit.\<close>

theorem log_write_absorbs:
  assumes "quiet s" and "0 \<le> lh_n s" and "lh_n s < LOGSIZE" and "lh_n s < log_size s - 1" and "1 \<le> log_outstanding s"
    and "distinct (logged s)"
  shows "\<exists>t. log_write i s = Ret () t \<and> distinct (logged t) \<and> b_dirty (bufs t i) \<and>
    logged t = (if b_blockno (bufs s i) \<in> set (logged s) then logged s else logged s @ [b_blockno (bufs s i)]) \<and>
    bufs t = (bufs s)(i := (bufs s i)\<lparr>b_dirty := True\<rparr>) \<and> disk t = disk s \<and> quiet t"
proof (cases "first_idx (nat (lh_n s)) (\<lambda>k. lh_block s k = b_blockno (bufs s i))")
  case None
  then have new: "b_blockno (bufs s i) \<notin> set (logged s)" using first_logged [of s] by simp
  let ?t = "upd_buf i (\<lambda>b. b\<lparr>b_dirty := True\<rparr>)
    (s\<lparr>lh_block := (lh_block s)(nat (lh_n s) := b_blockno (bufs s i)), lh_n := lh_n s + 1\<rparr>)"
  have "nat (lh_n s + 1) = Suc (nat (lh_n s))" using assms(2) by simp
  then have "logged ?t = logged s @ [b_blockno (bufs s i)]" by (simp add: logged_def upd_buf_def)
  moreover have "log_write i s = Ret () ?t" using assms None by (simp add: log_write_def Let_def)
  ultimately show ?thesis using new assms by simp
next
  case (Some k)
  then have k: "k < nat (lh_n s)" "lh_block s k = b_blockno (bufs s i)" by (auto dest: first_idx_SomeD)
  then have old: "b_blockno (bufs s i) \<in> set (logged s)" by (metis set_logged lessThan_iff imageI)
  let ?t = "upd_buf i (\<lambda>b. b\<lparr>b_dirty := True\<rparr>) (s\<lparr>lh_block := (lh_block s)(k := b_blockno (bufs s i))\<rparr>)"
  have "logged ?t = logged s" using k(2) by (simp add: logged_def upd_buf_def fun_upd_idem)
  moreover have "log_write i s = Ret () ?t" using assms Some k(1) by (auto simp: log_write_def Let_def)
  ultimately show ?thesis using old assms by simp
qed

text \<open>\<open>begin_op\<close> admits an operation only when the log has room for ten blocks of it and of every operation already
  running, and no commit is under way; otherwise the caller sleeps on the log, whose counters are unchanged.\<close>

theorem begin_op_reserves:
  assumes "in_proc s i"
  shows "if log_committing s \<or> lh_n s + (log_outstanding s + 1) * 10 > 30
    then \<exists>t. begin_op s = Swtch (with_locks [PtableLock] t) \<and> p_state (ptable t i) = SLEEPING \<and>
      p_chan (ptable t i) = Some ChanLog \<and> log_outstanding t = log_outstanding s \<and> lh_n t = lh_n s
    else begin_op s = Ret () (s\<lparr>log_outstanding := log_outstanding s + 1\<rparr>)"
proof -
  have q: "quiet s" using assms by simp
  have sl: "sleep ChanLog LogLock (with_locks [LogLock] s) = Swtch (with_locks [PtableLock]
      (upd_proc i (\<lambda>p. p\<lparr>p_chan := Some ChanLog, p_state := SLEEPING\<rparr>) s))" (is "_ = Swtch (with_locks _ ?t)")
    by (rule sleep_with_locks [OF assms]) simp
  have t: "log_outstanding ?t = log_outstanding s" "lh_n ?t = lh_n s" by (simp_all add: upd_proc_def)
  show ?thesis using q sl t by (auto simp: begin_op_def begin_op_loop_def LOGSIZE_def MAXOPBLOCKS_def)
qed


section \<open>A concrete log\<close>

text \<open>Block 70 is logged and dirty in slot 0; the log starts at block 2 of a disk of 1000 blocks.\<close>

definition empty_buf :: buf where
  "empty_buf = \<lparr>b_valid = False, b_dirty = False, b_dev = 0, b_blockno = 0, b_refcnt = 0, b_data = (\<lambda>_. 0)\<rparr>"

definition log_demo :: log_state where
  "log_demo = \<lparr>lapicid = 0, eflags_IF = True, ncpu = 1, cpus = (\<lambda>_. demo_cpu),
     locks = (\<lambda>_. free_lock), use_lock = True, freelist = 0x80400000, ram = (\<lambda>_. 0), kend = 0x80400000,
     ptable = demo_table, initproc = Some 0, nextpid = 5, ticks = 100, cons_locking = True,
     console = [], kpgdir = 0x803FF000, forkret_addr = 0x80103000, trapret_addr = 0x80106000, mlfq = False,
     sleeplks = (\<lambda>_. sl_free),
     bufs = (\<lambda>_. empty_buf)(0 := \<lparr>b_valid = True, b_dirty = True, b_dev = 1, b_blockno = 70, b_refcnt = 0, b_data = (\<lambda>_. 7)\<rparr>),
     lru = [0..<30], disk = (\<lambda>_ _. 0), disksize = 1000, writes = [],
     log_start = 2, log_size = 30, log_outstanding = 1, log_committing = False, log_dev = 1,
     lh_n = 1, lh_block = (\<lambda>_. 70),
     sb = \<lparr>sb_size = 1000, sb_nblocks = 941, sb_ninodes = 200, sb_nlog = 30, sb_logstart = 2, sb_inodestart = 32, sb_bmapstart = 58\<rparr>\<rparr>"

text \<open>The same machine booted again on the disk \<open>d\<close>.\<close>

definition log_reboot :: "(u32 \<Rightarrow> buffer) \<Rightarrow> log_state" where
  "log_reboot d = log_demo\<lparr>bufs := (\<lambda>_. empty_buf), disk := d, lh_n := 0\<rparr>"

lemma log_demo_in: "in_proc log_demo 1"
  by (simp add: in_proc_def quiet_def cpu_known_def this_cpu_def log_demo_def demo_cpu_def first_idx_one)

lemma log_demo_ok: "bio_ok 1 {} log_demo"
proof -
  have "slot_ok 1 {} log_demo i" if "i < NBUF" for i
    by (auto simp: slot_ok_def log_demo_def empty_buf_def)
  moreover have "one_copy log_demo" "distinct (lru log_demo)" "set (lru log_demo) = {..<NBUF}"
    by (auto simp: one_copy_def log_demo_def empty_buf_def NBUF_def split: if_splits)
  ultimately show ?thesis using log_demo_in by (simp add: bio_ok_def)
qed

lemma log_demo_facts:
  "txn log_demo [70]" "dirty_blks log_demo = set [70]" "load32 (disk log_demo (log_start log_demo)) 0 = 0"
  "log_start log_demo = 2" "writes log_demo = []" "disksize log_demo = 1000" "blk log_demo 70 = (\<lambda>_. 7)"
proof -
  show "txn log_demo [70]" by (simp add: txn_def log_demo_def log_area_def)
  show "dirty_blks log_demo = set [70]"
    by (auto simp: dirty_blks_def log_demo_def empty_buf_def NBUF_def split: if_splits)
  show "load32 (disk log_demo (log_start log_demo)) 0 = 0" by (simp add: log_demo_def load32_def)
  show "log_start log_demo = 2" "writes log_demo = []" "disksize log_demo = 1000" by (simp_all add: log_demo_def)
  have "cached log_demo 0 70" by (simp add: cached_def log_demo_def NBUF_def)
  from blk_cached [OF bio_okD(5) [OF log_demo_ok] this] show "blk log_demo 70 = (\<lambda>_. 7)" by (simp add: log_demo_def)
qed

lemma log_reboot_booted: "booted 1 2 1000 d (log_reboot d)"
proof -
  have "slot_ok 1 {} (log_reboot d) i" for i
    by (simp add: slot_ok_def log_reboot_def log_demo_def empty_buf_def)
  moreover have "one_copy (log_reboot d)" "distinct (lru (log_reboot d))" "set (lru (log_reboot d)) = {..<NBUF}"
    by (auto simp: one_copy_def log_reboot_def log_demo_def empty_buf_def NBUF_def)
  moreover have "in_proc (log_reboot d) 1" using log_demo_in by (simp add: log_reboot_def in_proc_def)
  moreover have "dirty_blks (log_reboot d) = {}" by (simp add: dirty_blks_def log_reboot_def empty_buf_def)
  ultimately show ?thesis by (simp add: booted_def bio_ok_def) (simp add: log_reboot_def log_demo_def)
qed

theorem commit_crash_atomic_witness:
  "\<exists>t v. commit log_demo = Ret () t \<and>
     recover_from_log (log_reboot (apply_writes (take 2 (writes t)) (disk log_demo))) = Ret () v \<and>
     (disk v 70 = disk log_demo 70 \<or> disk v 70 = (\<lambda>_. 7))"
proof -
  have "70 \<notin> log_area (log_start log_demo)" by (simp add: log_demo_facts log_area_def)
  with commit_crash_atomic [OF log_demo_ok log_demo_facts(1,2) _ log_demo_facts(3), of 1]
  obtain t ws where t: "commit log_demo = Ret () t" "writes t = ws"
    "\<And>m u. booted 1 2 1000 (apply_writes (take m ws) (disk log_demo)) (u :: log_state) \<Longrightarrow>
      (\<exists>v f. recover_from_log u = Ret () v \<and> disk v 70 = f 70 \<and>
        (f = disk log_demo \<or> f = (\<lambda>x. if x \<in> set [70] then blk log_demo x else disk log_demo x)))"
    unfolding log_demo_facts(4-6) by fastforce
  from t(3) [OF log_reboot_booted, of 2] show ?thesis using t(1,2) log_demo_facts(7) by auto
qed

theorem commit_installs_witness: "\<exists>t. commit log_demo = Ret () t \<and> disk t 70 = (\<lambda>_. 7)"
proof -
  have "70 \<notin> log_area (log_start log_demo)" by (simp add: log_demo_facts log_area_def)
  then show ?thesis using commit_installs [OF log_demo_ok log_demo_facts(1,2)] log_demo_facts(7) by fastforce
qed

theorem log_write_absorbs_witness: "\<exists>t. log_write 1 log_demo = Ret () t \<and> logged t = [70, 0]"
  using log_write_absorbs [of log_demo 1] in_proc_quiet [OF log_demo_in]
  by (auto simp: log_demo_def logged_def LOGSIZE_def empty_buf_def)

theorem begin_op_reserves_witness: "begin_op log_demo = Ret () (log_demo\<lparr>log_outstanding := 2\<rparr>)"
proof -
  have "\<not> log_committing log_demo" "lh_n log_demo = 1" "log_outstanding log_demo = 1" by (simp_all add: log_demo_def)
  then show ?thesis using begin_op_reserves [OF log_demo_in] by simp
qed


end
