(* ===== verification/Inodes.thy ===== *)
theory Inodes
  imports Logging
begin

text \<open>
  The file system proper, \<open>fs.c\<close>: the free-block bitmap, on-disk and cached inodes with their
  owner and permission bits, file contents, directories and path lookup; and the console device of
  \<open>console.c\<close>, which \<open>readi\<close> and \<open>writei\<close> reach through \<open>devsw\<close>.

  A \<open>struct inode *\<close> is an index into \<open>icache\<close>. \<open>readi\<close> returns its result together with the
  bytes it copies to \<open>dst\<close>; \<open>writei\<close> is given the bytes at \<open>src\<close>. The functions that \<open>devsw\<close> can
  point to are named by the constructors of \<open>dev_read\<close> and \<open>dev_write\<close>.
\<close>

section \<open>Data\<close>

definition NINODE :: nat where "NINODE = 50"
definition NDEV :: int where "NDEV = 10"
definition ROOTDEV :: u32 where "ROOTDEV = 1"
definition ROOTINO :: u32 where "ROOTINO = 1"
definition NDIRECT :: nat where "NDIRECT = 7"
definition NINDIRECT :: nat where "NINDIRECT = 128"
definition MAXFILE :: nat where "MAXFILE = NDIRECT + NINDIRECT"
definition IPB :: u32 where "IPB = 8"
definition BPB :: u32 where "BPB = 4096"
definition DIRSIZ :: nat where "DIRSIZ = 14"
definition CONSOLE :: int where "CONSOLE = 1"
definition INPUT_BUF :: u32 where "INPUT_BUF = 128"

definition T_DIR :: u16 where "T_DIR = 1"
definition T_FILE :: u16 where "T_FILE = 2"
definition T_DEV :: u16 where "T_DEV = 3"

definition MODE_RUSR :: u32 where "MODE_RUSR = 32"
definition MODE_WUSR :: u32 where "MODE_WUSR = 16"
definition MODE_XUSR :: u32 where "MODE_XUSR = 8"
definition MODE_ROTH :: u32 where "MODE_ROTH = 4"
definition MODE_WOTH :: u32 where "MODE_WOTH = 2"
definition MODE_XOTH :: u32 where "MODE_XOTH = 1"

record inode =
  i_dev :: u32
  i_inum :: u32
  i_ref :: int
  i_valid :: bool
  i_type :: u16
  i_major :: u16
  i_minor :: u16
  i_nlink :: u16
  i_size :: u32
  i_addrs :: "nat \<Rightarrow> u32"
  i_userid :: cstring
  i_mode :: u32

datatype dev_read = Consoleread
datatype dev_write = Consolewrite

record fs_state = log_state +
  icache :: "nat \<Rightarrow> inode"
  devsw_read :: "int \<Rightarrow> dev_read option"
  devsw_write :: "int \<Rightarrow> dev_write option"
  input_buf :: "nat \<Rightarrow> u8"
  input_r :: u32
  input_w :: u32
  input_e :: u32

lemma fs_this_cpu [simp]:
  "this_cpu (s\<lparr>icache := x0\<rparr>) = this_cpu s"
  "this_cpu (s\<lparr>devsw_read := x1\<rparr>) = this_cpu s"
  "this_cpu (s\<lparr>devsw_write := x2\<rparr>) = this_cpu s"
  "this_cpu (s\<lparr>input_buf := x3\<rparr>) = this_cpu s"
  "this_cpu (s\<lparr>input_r := x4\<rparr>) = this_cpu s"
  "this_cpu (s\<lparr>input_w := x5\<rparr>) = this_cpu s"
  "this_cpu (s\<lparr>input_e := x6\<rparr>) = this_cpu s"
  by (simp_all add: this_cpu_def)

lemma fs_cpu_known [simp]:
  "cpu_known (s\<lparr>icache := x0\<rparr>) = cpu_known s"
  "cpu_known (s\<lparr>devsw_read := x1\<rparr>) = cpu_known s"
  "cpu_known (s\<lparr>devsw_write := x2\<rparr>) = cpu_known s"
  "cpu_known (s\<lparr>input_buf := x3\<rparr>) = cpu_known s"
  "cpu_known (s\<lparr>input_r := x4\<rparr>) = cpu_known s"
  "cpu_known (s\<lparr>input_w := x5\<rparr>) = cpu_known s"
  "cpu_known (s\<lparr>input_e := x6\<rparr>) = cpu_known s"
  by (simp_all add: cpu_known_def)

lemma fs_quiet [simp]:
  "quiet (s\<lparr>icache := x0\<rparr>) = quiet s"
  "quiet (s\<lparr>devsw_read := x1\<rparr>) = quiet s"
  "quiet (s\<lparr>devsw_write := x2\<rparr>) = quiet s"
  "quiet (s\<lparr>input_buf := x3\<rparr>) = quiet s"
  "quiet (s\<lparr>input_r := x4\<rparr>) = quiet s"
  "quiet (s\<lparr>input_w := x5\<rparr>) = quiet s"
  "quiet (s\<lparr>input_e := x6\<rparr>) = quiet s"
  by (simp_all add: quiet_def)

lemma fs_sel [simp]:
  "icache (with_locks L s) = icache s"
  "devsw_read (with_locks L s) = devsw_read s"
  "devsw_write (with_locks L s) = devsw_write s"
  "input_buf (with_locks L s) = input_buf s"
  "input_r (with_locks L s) = input_r s"
  "input_w (with_locks L s) = input_w s"
  "input_e (with_locks L s) = input_e s"
  by (simp_all add: with_locks_def)

lemma fs_upd [simp]:
  "(with_locks L s)\<lparr>icache := x0\<rparr> = with_locks L (s\<lparr>icache := x0\<rparr>)"
  "(with_locks L s)\<lparr>devsw_read := x1\<rparr> = with_locks L (s\<lparr>devsw_read := x1\<rparr>)"
  "(with_locks L s)\<lparr>devsw_write := x2\<rparr> = with_locks L (s\<lparr>devsw_write := x2\<rparr>)"
  "(with_locks L s)\<lparr>input_buf := x3\<rparr> = with_locks L (s\<lparr>input_buf := x3\<rparr>)"
  "(with_locks L s)\<lparr>input_r := x4\<rparr> = with_locks L (s\<lparr>input_r := x4\<rparr>)"
  "(with_locks L s)\<lparr>input_w := x5\<rparr> = with_locks L (s\<lparr>input_w := x5\<rparr>)"
  "(with_locks L s)\<lparr>input_e := x6\<rparr> = with_locks L (s\<lparr>input_e := x6\<rparr>)"
  by (simp_all add: with_locks_def cong: if_cong)

definition upd_inode :: "nat \<Rightarrow> (inode \<Rightarrow> inode) \<Rightarrow> 'z fs_state_scheme \<Rightarrow> 'z fs_state_scheme" where
  "upd_inode i f s = s\<lparr>icache := (icache s)(i := f (icache s i))\<rparr>"

definition IBLOCK :: "u32 \<Rightarrow> superblock \<Rightarrow> u32" where
  "IBLOCK i b = i div IPB + sb_inodestart b"

definition BBLOCK :: "u32 \<Rightarrow> superblock \<Rightarrow> u32" where
  "BBLOCK b q = b div BPB + sb_bmapstart q"

section \<open>Blocks\<close>

definition bzero :: "u32 \<Rightarrow> u32 \<Rightarrow> 'z fs_state_scheme \<Rightarrow> (unit, 'z fs_state_scheme) res" where
  "bzero dev bno s =
     kbind (bread dev bno s) (\<lambda>i s.
     let s = set_data i (memset (b_data (bufs s i)) 0 0 BSIZE) s
     in kbind (log_write i s) (\<lambda>_ s. brelse i s))"

text \<open>\<open>bp->data[bi/8] & (1 << (bi % 8))\<close>, and the byte with that bit set or cleared.\<close>

definition bm_used :: "buffer \<Rightarrow> nat \<Rightarrow> bool" where
  "bm_used d bi \<longleftrightarrow> and (d (bi div 8)) (push_bit (bi mod 8) 1) \<noteq> 0"

definition bm_set :: "buffer \<Rightarrow> nat \<Rightarrow> buffer" where
  "bm_set d bi = d(bi div 8 := or (d (bi div 8)) (push_bit (bi mod 8) 1))"

definition bm_clear :: "buffer \<Rightarrow> nat \<Rightarrow> buffer" where
  "bm_clear d bi = d(bi div 8 := and (d (bi div 8)) (not (push_bit (bi mod 8) 1)))"

text \<open>The outer loop of \<open>balloc\<close> visits the blocks of the bitmap; its body is one iteration.\<close>

definition balloc_body :: "u32 \<Rightarrow> nat \<Rightarrow> 'z fs_state_scheme \<Rightarrow> (u32 option, 'z fs_state_scheme) res" where
  "balloc_body dev k s =
     (let b = of_nat k * BPB
      in kbind (bread dev (BBLOCK b (sb s)) s) (\<lambda>i s.
         case first_idx (unat BPB) (\<lambda>bi. b + of_nat bi < sb_size (sb s) \<and> \<not> bm_used (b_data (bufs s i)) bi) of
           Some bi \<Rightarrow>
             let s = set_data i (bm_set (b_data (bufs s i)) bi) s
             in kbind (log_write i s) (\<lambda>_ s.
                kbind (brelse i s) (\<lambda>_ s.
                kbind (bzero dev (b + of_nat bi) s) (\<lambda>_ s.
                Ret (Some (b + of_nat bi)) s)))
         | None \<Rightarrow> kbind (brelse i s) (\<lambda>_ s. Ret None s)))"

definition balloc :: "u32 \<Rightarrow> 'z fs_state_scheme \<Rightarrow> (u32, 'z fs_state_scheme) res" where
  "balloc dev s =
     kbind (kscan [0..<(unat (sb_size (sb s)) + 4095) div 4096] (balloc_body dev) s) (\<lambda>r s.
     case r of Some b \<Rightarrow> Ret b s | None \<Rightarrow> Panic ''balloc: out of blocks'')"

definition bfree :: "u32 \<Rightarrow> u32 \<Rightarrow> 'z fs_state_scheme \<Rightarrow> (unit, 'z fs_state_scheme) res" where
  "bfree dev b s =
     kbind (bread dev (BBLOCK b (sb s)) s) (\<lambda>i s.
     let bi = unat (b mod BPB)
     in if \<not> bm_used (b_data (bufs s i)) bi then Panic ''freeing free block''
        else let s = set_data i (bm_clear (b_data (bufs s i)) bi) s
             in kbind (log_write i s) (\<lambda>_ s. brelse i s))"

section \<open>Inodes\<close>

definition iinit :: "u32 \<Rightarrow> 'z fs_state_scheme \<Rightarrow> (unit, 'z fs_state_scheme) res" where
  "iinit dev s =
     kbind (initlock IcacheLock s) (\<lambda>_ s.
     kbind (kfor [0..<NINODE] (\<lambda>i s. initsleeplock (InodeLock i) s) s) (\<lambda>_ s.
     kbind (readsb dev s) (\<lambda>r s.
     let s = s\<lparr>sb := r\<rparr>
     in cprintf ''sb: size %d nblocks %d ninodes %d nlog %d logstart %d inodestart %d bmap start %d\<newline>''
          [AInt (sb_size r), AInt (sb_nblocks r), AInt (sb_ninodes r), AInt (sb_nlog r), AInt (sb_logstart r),
           AInt (sb_inodestart r), AInt (sb_bmapstart r)] s)))"

text \<open>
  \<open>iget\<close> visits the cache once, looking for the inode and remembering the first empty entry; an
  entry that holds the inode wins.
\<close>

definition iget :: "u32 \<Rightarrow> u32 \<Rightarrow> 'z fs_state_scheme \<Rightarrow> (nat, 'z fs_state_scheme) res" where
  "iget dev inum s =
     kbind (acquire IcacheLock s) (\<lambda>_ s.
     case first_idx NINODE (\<lambda>i. i_ref (icache s i) > 0 \<and> i_dev (icache s i) = dev \<and> i_inum (icache s i) = inum) of
       Some i \<Rightarrow>
         kbind (release IcacheLock (upd_inode i (\<lambda>p. p\<lparr>i_ref := i_ref p + 1\<rparr>) s)) (\<lambda>_ s. Ret i s)
     | None \<Rightarrow>
         (case first_idx NINODE (\<lambda>i. i_ref (icache s i) = 0) of
            None \<Rightarrow> Panic ''iget: no inodes''
          | Some i \<Rightarrow>
              kbind (release IcacheLock (upd_inode i (\<lambda>p. p\<lparr>i_dev := dev, i_inum := inum, i_ref := 1, i_valid := False\<rparr>) s))
                (\<lambda>_ s. Ret i s)))"

text \<open>Where inode \<open>inum\<close> lies in its block: \<open>(struct dinode * )bp->data + inum % IPB\<close>.\<close>

definition dino :: "u32 \<Rightarrow> nat" where
  "dino inum = 64 * unat (inum mod IPB)"

text \<open>A fresh inode of the given type as \<open>ialloc\<close> writes it.\<close>

definition init_dinode :: "u16 \<Rightarrow> nat \<Rightarrow> buffer \<Rightarrow> buffer" where
  "init_dinode ty o' d =
     (let d = memset d o' 0 64;
          d = store16 d o' ty;
          d = strcpy d (o' + 44) (str ''SYSTEM'')
      in if ty = T_FILE then store32 d (o' + 60) (or (or MODE_RUSR MODE_WUSR) MODE_ROTH)
         else if ty = T_DIR then store32 d (o' + 60) (or (or (or (or MODE_RUSR MODE_WUSR) MODE_XUSR) MODE_ROTH) MODE_XOTH)
         else if ty = T_DEV then
           store32 d (o' + 60) (or (or (or (or (or MODE_RUSR MODE_WUSR) MODE_XUSR) MODE_ROTH) MODE_WOTH) MODE_XOTH)
         else d)"

definition ialloc_body :: "u32 \<Rightarrow> u16 \<Rightarrow> nat \<Rightarrow> 'z fs_state_scheme \<Rightarrow> (nat option, 'z fs_state_scheme) res" where
  "ialloc_body dev ty n s =
     (let inum = of_nat n
      in kbind (bread dev (IBLOCK inum (sb s)) s) (\<lambda>i s.
         let d = b_data (bufs s i)
         in if load16 d (dino inum) = 0 then
              let s = set_data i (init_dinode ty (dino inum) d) s
              in kbind (log_write i s) (\<lambda>_ s.
                 kbind (brelse i s) (\<lambda>_ s.
                 kbind (iget dev inum s) (\<lambda>ip s. Ret (Some ip) s)))
            else kbind (brelse i s) (\<lambda>_ s. Ret None s)))"

definition ialloc :: "u32 \<Rightarrow> u16 \<Rightarrow> 'z fs_state_scheme \<Rightarrow> (nat, 'z fs_state_scheme) res" where
  "ialloc dev ty s =
     kbind (kscan [1..<unat (sb_ninodes (sb s))] (ialloc_body dev ty) s) (\<lambda>r s.
     case r of Some ip \<Rightarrow> Ret ip s | None \<Rightarrow> Panic ''ialloc: no inodes'')"

text \<open>The on-disk copy of an inode as \<open>iupdate\<close> writes it at offset \<open>o'\<close>.\<close>

definition put_addrs :: "buffer \<Rightarrow> nat \<Rightarrow> (nat \<Rightarrow> u32) \<Rightarrow> buffer" where
  "put_addrs d o' a = fold (\<lambda>k d. store32 d (o' + 4 * k) (a k)) [0..<NDIRECT + 1] d"

definition put_dinode :: "inode \<Rightarrow> nat \<Rightarrow> buffer \<Rightarrow> buffer" where
  "put_dinode ip o' d =
     (let d = store16 d o' (i_type ip);
          d = store16 d (o' + 2) (i_major ip);
          d = store16 d (o' + 4) (i_minor ip);
          d = store16 d (o' + 6) (i_nlink ip);
          d = store32 d (o' + 8) (i_size ip);
          d = strcpy d (o' + 44) (i_userid ip);
          d = store32 d (o' + 60) (i_mode ip)
      in put_addrs d (o' + 12) (i_addrs ip))"

definition iupdate :: "nat \<Rightarrow> 'z fs_state_scheme \<Rightarrow> (unit, 'z fs_state_scheme) res" where
  "iupdate ip s =
     kbind (bread (i_dev (icache s ip)) (IBLOCK (i_inum (icache s ip)) (sb s)) s) (\<lambda>i s.
     let s = set_data i (put_dinode (icache s ip) (dino (i_inum (icache s ip))) (b_data (bufs s i))) s
     in kbind (log_write i s) (\<lambda>_ s. brelse i s))"

definition idup :: "nat \<Rightarrow> 'z fs_state_scheme \<Rightarrow> (nat, 'z fs_state_scheme) res" where
  "idup ip s =
     kbind (acquire IcacheLock s) (\<lambda>_ s.
     kbind (release IcacheLock (upd_inode ip (\<lambda>p. p\<lparr>i_ref := i_ref p + 1\<rparr>) s)) (\<lambda>_ s. Ret ip s))"

text \<open>The cached copy of the on-disk inode at offset \<open>o'\<close>; an owner name of 16 bytes or more overruns \<open>ip->userid\<close>.\<close>

definition get_dinode :: "buffer \<Rightarrow> nat \<Rightarrow> inode \<Rightarrow> inode" where
  "get_dinode d o' ip = ip\<lparr>i_type := load16 d o', i_major := load16 d (o' + 2), i_minor := load16 d (o' + 4),
     i_nlink := load16 d (o' + 6), i_size := load32 d (o' + 8), i_userid := cstr_at d (o' + 44) BSIZE,
     i_mode := load32 d (o' + 60),
     i_addrs := (\<lambda>k. if k < NDIRECT + 1 then load32 d (o' + 12 + 4 * k) else i_addrs ip k)\<rparr>"

text \<open>\<open>ilock\<close> once the sleep lock is held; it is also where a sleeper goes on.\<close>

definition ilock_locked :: "nat \<Rightarrow> 'z fs_state_scheme \<Rightarrow> (unit, 'z fs_state_scheme) res" where
  "ilock_locked ip s =
     (if \<not> i_valid (icache s ip) then
        kbind (bread (i_dev (icache s ip)) (IBLOCK (i_inum (icache s ip)) (sb s)) s) (\<lambda>i s.
        let d = b_data (bufs s i); o' = dino (i_inum (icache s ip))
        in kbind (strcpy_field 16 (cstr_at d (o' + 44) BSIZE) s) (\<lambda>_ s.
           let s = upd_inode ip (get_dinode d o') s
           in kbind (brelse i s) (\<lambda>_ s.
              let s = upd_inode ip (\<lambda>p. p\<lparr>i_valid := True\<rparr>) s
              in if i_type (icache s ip) = 0 then Panic ''ilock: no type'' else Ret () s)))
      else Ret () s)"

definition ilock :: "nat option \<Rightarrow> 'z fs_state_scheme \<Rightarrow> (unit, 'z fs_state_scheme) res" where
  "ilock p s =
     (case p of None \<Rightarrow> Panic ''ilock''
      | Some ip \<Rightarrow>
          if i_ref (icache s ip) < 1 then Panic ''ilock''
          else kbind (acquiresleep (InodeLock ip) s) (\<lambda>_ s. ilock_locked ip s))"

definition iunlock :: "nat option \<Rightarrow> 'z fs_state_scheme \<Rightarrow> (unit, 'z fs_state_scheme) res" where
  "iunlock p s =
     (case p of None \<Rightarrow> Panic ''iunlock''
      | Some ip \<Rightarrow>
          kbind (holdingsleep (InodeLock ip) s) (\<lambda>h s.
          if \<not> h \<or> i_ref (icache s ip) < 1 then Panic ''iunlock''
          else releasesleep (InodeLock ip) s))"

section \<open>Inode contents\<close>

definition bmap :: "nat \<Rightarrow> u32 \<Rightarrow> 'z fs_state_scheme \<Rightarrow> (u32, 'z fs_state_scheme) res" where
  "bmap ip bn s =
     (if bn < of_nat NDIRECT then
        let addr = i_addrs (icache s ip) (unat bn)
        in if addr = 0 then
             kbind (balloc (i_dev (icache s ip)) s) (\<lambda>addr s.
             Ret addr (upd_inode ip (\<lambda>p. p\<lparr>i_addrs := (i_addrs p)(unat bn := addr)\<rparr>) s))
           else Ret addr s
      else
        let bn = bn - of_nat NDIRECT
        in if bn < of_nat NINDIRECT then
             kbind (let addr = i_addrs (icache s ip) NDIRECT
                    in if addr = 0 then
                         kbind (balloc (i_dev (icache s ip)) s) (\<lambda>addr s.
                         Ret addr (upd_inode ip (\<lambda>p. p\<lparr>i_addrs := (i_addrs p)(NDIRECT := addr)\<rparr>) s))
                       else Ret addr s) (\<lambda>addr s.
             kbind (bread (i_dev (icache s ip)) addr s) (\<lambda>i s.
             let addr = load32 (b_data (bufs s i)) (4 * unat bn)
             in kbind (if addr = 0 then
                         kbind (balloc (i_dev (icache s ip)) s) (\<lambda>addr s.
                         let s = set_data i (store32 (b_data (bufs s i)) (4 * unat bn) addr) s
                         in kbind (log_write i s) (\<lambda>_ s. Ret addr s))
                       else Ret addr s) (\<lambda>addr s.
                kbind (brelse i s) (\<lambda>_ s. Ret addr s))))
           else Panic ''bmap: out of range'')"

definition itrunc :: "nat \<Rightarrow> 'z fs_state_scheme \<Rightarrow> (unit, 'z fs_state_scheme) res" where
  "itrunc ip s =
     kbind (kfor [0..<NDIRECT] (\<lambda>k s.
       if i_addrs (icache s ip) k \<noteq> 0 then
         kbind (bfree (i_dev (icache s ip)) (i_addrs (icache s ip) k) s) (\<lambda>_ s.
         Ret () (upd_inode ip (\<lambda>p. p\<lparr>i_addrs := (i_addrs p)(k := 0)\<rparr>) s))
       else Ret () s) s) (\<lambda>_ s.
     kbind (if i_addrs (icache s ip) NDIRECT \<noteq> 0 then
         kbind (bread (i_dev (icache s ip)) (i_addrs (icache s ip) NDIRECT) s) (\<lambda>i s.
         kbind (kfor [0..<NINDIRECT] (\<lambda>j s.
           let a = load32 (b_data (bufs s i)) (4 * j)
           in if a \<noteq> 0 then bfree (i_dev (icache s ip)) a s else Ret () s) s) (\<lambda>_ s.
         kbind (brelse i s) (\<lambda>_ s.
         kbind (bfree (i_dev (icache s ip)) (i_addrs (icache s ip) NDIRECT) s) (\<lambda>_ s.
         Ret () (upd_inode ip (\<lambda>p. p\<lparr>i_addrs := (i_addrs p)(NDIRECT := 0)\<rparr>) s)))))
       else Ret () s) (\<lambda>_ s.
     iupdate ip (upd_inode ip (\<lambda>p. p\<lparr>i_size := 0\<rparr>) s)))"

definition iput :: "nat \<Rightarrow> 'z fs_state_scheme \<Rightarrow> (unit, 'z fs_state_scheme) res" where
  "iput ip s =
     kbind (acquiresleep (InodeLock ip) s) (\<lambda>_ s.
     kbind (if i_valid (icache s ip) \<and> i_nlink (icache s ip) = 0 then
         kbind (acquire IcacheLock s) (\<lambda>_ s.
         let r = i_ref (icache s ip)
         in kbind (release IcacheLock s) (\<lambda>_ s.
            if r = 1 then
              kbind (itrunc ip s) (\<lambda>_ s.
              kbind (iupdate ip (upd_inode ip (\<lambda>p. p\<lparr>i_type := 0\<rparr>) s)) (\<lambda>_ s.
              Ret () (upd_inode ip (\<lambda>p. p\<lparr>i_valid := False\<rparr>) s)))
            else Ret () s))
       else Ret () s) (\<lambda>_ s.
     kbind (releasesleep (InodeLock ip) s) (\<lambda>_ s.
     kbind (acquire IcacheLock s) (\<lambda>_ s.
     release IcacheLock (upd_inode ip (\<lambda>p. p\<lparr>i_ref := i_ref p - 1\<rparr>) s)))))"

definition iunlockput :: "nat \<Rightarrow> 'z fs_state_scheme \<Rightarrow> (unit, 'z fs_state_scheme) res" where
  "iunlockput ip s = kbind (iunlock (Some ip) s) (\<lambda>_ s. iput ip s)"

text \<open>
  \<open>stati\<close> fills in the \<open>struct stat\<close> at offset 0 of \<open>st\<close>: \<open>type\<close> at 0, \<open>dev\<close> at 4, \<open>ino\<close> at 8,
  \<open>nlink\<close> at 12, \<open>size\<close> at 16, \<open>userid\<close> at 20 and \<open>mode\<close> at 36.
\<close>

definition stati :: "inode \<Rightarrow> buffer \<Rightarrow> buffer" where
  "stati ip st =
     (let st = store32 st 4 (i_dev ip);
          st = store32 st 8 (i_inum ip);
          st = store16 st 0 (i_type ip);
          st = store16 st 12 (i_nlink ip);
          st = store32 st 16 (i_size ip);
          st = strcpy st 20 (i_userid ip)
      in store32 st 36 (i_mode ip))"

section \<open>The console device\<close>

text \<open>\<open>consputc\<close> sends a character to the serial port; the screen memory of \<open>cgaputc\<close> is not modelled.\<close>

definition BACKSPACE :: int where "BACKSPACE = 0x100"

definition consputc :: "int \<Rightarrow> 'z fs_state_scheme \<Rightarrow> 'z fs_state_scheme" where
  "consputc c s =
     (if c = BACKSPACE then s\<lparr>console := console s @ [8, 32, 8]\<rparr> else s\<lparr>console := console s @ [word_of_int c]\<rparr>)"

text \<open>\<open>case C('U')\<close>: the inner loop takes the edit index back to the start of the line; it ends since at most
  \<open>input.e - input.w\<close> characters are there to kill.\<close>

fun kill_line :: "nat \<Rightarrow> 'z fs_state_scheme \<Rightarrow> 'z fs_state_scheme" where
  "kill_line 0 s = s"
| "kill_line (Suc n) s =
     (if input_e s \<noteq> input_w s \<and> input_buf s (unat ((input_e s - 1) mod INPUT_BUF)) \<noteq> 10
      then kill_line n (consputc BACKSPACE (s\<lparr>input_e := input_e s - 1\<rparr>))
      else s)"

text \<open>One character \<open>c\<close> from \<open>getc\<close>; the flag tells whether the process listing was asked for.\<close>

definition consoleintr_char :: "int \<Rightarrow> 'z fs_state_scheme \<Rightarrow> (bool, 'z fs_state_scheme) res" where
  "consoleintr_char c s =
     (if c = 16 then Ret True s
      else if c = 21 then Ret False (kill_line (unat (input_e s - input_w s)) s)
      else if c = 8 \<or> c = 127 then
        Ret False (if input_e s \<noteq> input_w s then consputc BACKSPACE (s\<lparr>input_e := input_e s - 1\<rparr>) else s)
      else if c \<noteq> 0 \<and> input_e s - input_r s < INPUT_BUF then
        let c = (if c = 13 then 10 else c);
            s = s\<lparr>input_buf := (input_buf s)(unat (input_e s mod INPUT_BUF) := word_of_int c)\<rparr>;
            s = consputc c (s\<lparr>input_e := input_e s + 1\<rparr>)
        in if c = 10 \<or> c = 4 \<or> input_e s = input_r s + INPUT_BUF
           then kbind (wakeup ChanInput (s\<lparr>input_w := input_e s\<rparr>)) (\<lambda>_ s. Ret False s)
           else Ret False s
      else Ret False s)"

text \<open>The characters \<open>getc\<close> delivers, up to its first negative answer, as a list. \<open>procdump\<close> only prints.\<close>

fun consoleintr_loop :: "int list \<Rightarrow> bool \<Rightarrow> 'z fs_state_scheme \<Rightarrow> (bool, 'z fs_state_scheme) res" where
  "consoleintr_loop [] dump s = Ret dump s"
| "consoleintr_loop (c # cs) dump s =
     kbind (consoleintr_char c s) (\<lambda>d s. consoleintr_loop cs (dump \<or> d) s)"

definition consoleintr :: "int list \<Rightarrow> 'z fs_state_scheme \<Rightarrow> (bool, 'z fs_state_scheme) res" where
  "consoleintr cs s =
     kbind (acquire ConsLock s) (\<lambda>_ s.
     kbind (consoleintr_loop cs False s) (\<lambda>d s.
     kbind (release ConsLock s) (\<lambda>_ s. Ret d s)))"

lemma sched_not_Ret [simp]: "sched s \<noteq> Ret u t"
  by (auto simp: sched_def kret deref_def split: if_splits option.splits)

lemma sleep_not_Ret [simp]: "sleep ch lk s \<noteq> Ret u t"
  by (auto simp: sleep_def kret Let_def split: option.splits)

text \<open>
  The loop of \<open>consoleread\<close> with \<open>n\<close> characters still wanted of \<open>target\<close>. It gives up the CPU in
  \<open>sleep\<close>, and goes on at its head when it runs again (\<open>consoleread_return\<close>); the bytes returned are those copied
  from there on.
\<close>

function consoleread_loop :: "nat \<Rightarrow> nat \<Rightarrow> nat \<Rightarrow> 'z fs_state_scheme \<Rightarrow> (int \<times> u8 list, 'z fs_state_scheme) res" where
  "consoleread_loop ip target n s =
     (if n > 0 then
        if input_r s = input_w s then
          kbind (curproc s) (\<lambda>me s.
          if p_killed (ptable s me) then
            kbind (release ConsLock s) (\<lambda>_ s. kbind (ilock (Some ip) s) (\<lambda>_ s. Ret (-1, []) s))
          else kbind (sleep ChanInput ConsLock s) (\<lambda>_ s. consoleread_loop ip target n s))
        else
          let c = input_buf s (unat (input_r s mod INPUT_BUF));
              s = s\<lparr>input_r := input_r s + 1\<rparr>
          in if c = 4 then
               let s = (if n < target then s\<lparr>input_r := input_r s - 1\<rparr> else s)
               in kbind (release ConsLock s) (\<lambda>_ s. kbind (ilock (Some ip) s) (\<lambda>_ s. Ret (int target - int n, []) s))
             else if c = 10 then
               kbind (release ConsLock s) (\<lambda>_ s. kbind (ilock (Some ip) s) (\<lambda>_ s. Ret (int target - int (n - 1), [c]) s))
             else kbind (consoleread_loop ip target (n - 1) s) (\<lambda>(r, bs) s. Ret (r, c # bs) s)
      else kbind (release ConsLock s) (\<lambda>_ s. kbind (ilock (Some ip) s) (\<lambda>_ s. Ret (int target - int n, []) s)))"
  by pat_completeness auto
termination by (relation "measure (\<lambda>(_, _, n, _). n)") auto

definition consoleread :: "nat \<Rightarrow> int \<Rightarrow> 'z fs_state_scheme \<Rightarrow> (int \<times> u8 list, 'z fs_state_scheme) res" where
  "consoleread ip n s =
     kbind (iunlock (Some ip) s) (\<lambda>_ s.
     kbind (acquire ConsLock s) (\<lambda>_ s. consoleread_loop ip (nat n) (nat n) s))"

definition consoleread_return :: "nat \<Rightarrow> bool \<Rightarrow> nat \<Rightarrow> nat \<Rightarrow> nat \<Rightarrow> 'z fs_state_scheme \<Rightarrow> (int \<times> u8 list, 'z fs_state_scheme) res" where
  "consoleread_return me saved ip target n s =
     kbind (sleep_return me ConsLock saved s) (\<lambda>_ s. consoleread_loop ip target n s)"

definition consolewrite :: "nat \<Rightarrow> u8 list \<Rightarrow> int \<Rightarrow> 'z fs_state_scheme \<Rightarrow> (int, 'z fs_state_scheme) res" where
  "consolewrite ip bs n s =
     kbind (iunlock (Some ip) s) (\<lambda>_ s.
     kbind (acquire ConsLock s) (\<lambda>_ s.
     let s = fold (\<lambda>c s. consputc (uint c) s) (take (nat n) bs) s
     in kbind (release ConsLock s) (\<lambda>_ s.
        kbind (ilock (Some ip) s) (\<lambda>_ s. Ret n s))))"

text \<open>\<open>consoleinit\<close>, up to the interrupt controller.\<close>

definition consoleinit :: "'z fs_state_scheme \<Rightarrow> (unit, 'z fs_state_scheme) res" where
  "consoleinit s =
     kbind (initlock ConsLock s) (\<lambda>_ s.
     Ret () (s\<lparr>devsw_write := (devsw_write s)(CONSOLE := Some Consolewrite),
               devsw_read := (devsw_read s)(CONSOLE := Some Consoleread), cons_locking := True\<rparr>))"

section \<open>Reading and writing\<close>

text \<open>
  The loop of \<open>readi\<close> with \<open>n\<close> bytes still to copy from offset \<open>off\<close>, and that of \<open>writei\<close> with the bytes
  \<open>src\<close> still to copy, which returns the final offset.
\<close>

definition chunk :: "u32 \<Rightarrow> nat \<Rightarrow> nat" where
  "chunk off n = min n (BSIZE - unat (off mod of_nat BSIZE))"

lemma chunk_pos [simp]: "0 < chunk off n \<longleftrightarrow> 0 < n"
proof -
  have "off mod 512 < 512" by (rule word_mod_less_divisor) simp
  then have "unat (off mod 512) < 512" by (simp add: word_less_nat_alt)
  then show ?thesis by (auto simp: chunk_def BSIZE_def)
qed

function readi_loop :: "nat \<Rightarrow> u32 \<Rightarrow> nat \<Rightarrow> 'z fs_state_scheme \<Rightarrow> (u8 list, 'z fs_state_scheme) res" where
  "readi_loop ip off n s =
     (if n > 0 then
        kbind (bmap ip (off div of_nat BSIZE) s) (\<lambda>b s.
        kbind (bread (i_dev (icache s ip)) b s) (\<lambda>i s.
        let m = chunk off n;
            bs = get_bytes (b_data (bufs s i)) (unat (off mod of_nat BSIZE)) m
        in kbind (brelse i s) (\<lambda>_ s.
           kbind (readi_loop ip (off + of_nat m) (n - m) s) (\<lambda>r s. Ret (bs @ r) s))))
      else Ret [] s)"
  by pat_completeness auto
termination by (relation "measure (\<lambda>(_, _, n, _). n)") auto

definition readi :: "nat \<Rightarrow> u32 \<Rightarrow> u32 \<Rightarrow> 'z fs_state_scheme \<Rightarrow> (int \<times> u8 list, 'z fs_state_scheme) res" where
  "readi ip off n s =
     (let p = icache s ip
      in if i_type p = T_DEV then
           (if sint (i_major p) < 0 \<or> sint (i_major p) \<ge> NDEV then Ret (-1, []) s
            else case devsw_read s (sint (i_major p)) of
                   None \<Rightarrow> Ret (-1, []) s
                 | Some Consoleread \<Rightarrow> consoleread ip (sint n) s)
         else if off > i_size p \<or> off + n < off then Ret (-1, []) s
         else let n = (if off + n > i_size p then i_size p - off else n)
              in kbind (readi_loop ip off (unat n) s) (\<lambda>bs s. Ret (sint n, bs) s))"

function writei_loop :: "nat \<Rightarrow> u32 \<Rightarrow> u8 list \<Rightarrow> 'z fs_state_scheme \<Rightarrow> (u32, 'z fs_state_scheme) res" where
  "writei_loop ip off src s =
     (if src \<noteq> [] then
        kbind (bmap ip (off div of_nat BSIZE) s) (\<lambda>b s.
        kbind (bread (i_dev (icache s ip)) b s) (\<lambda>i s.
        let m = chunk off (length src);
            s = set_data i (put_bytes (b_data (bufs s i)) (unat (off mod of_nat BSIZE)) (take m src)) s
        in kbind (log_write i s) (\<lambda>_ s.
           kbind (brelse i s) (\<lambda>_ s. writei_loop ip (off + of_nat m) (drop m src) s))))
      else Ret off s)"
  by pat_completeness auto
termination by (relation "measure (\<lambda>(_, _, src, _). length src)") auto

definition writei :: "nat \<Rightarrow> u8 list \<Rightarrow> u32 \<Rightarrow> u32 \<Rightarrow> 'z fs_state_scheme \<Rightarrow> (int, 'z fs_state_scheme) res" where
  "writei ip src off n s =
     (let p = icache s ip
      in if i_type p = T_DEV then
           (if sint (i_major p) < 0 \<or> sint (i_major p) \<ge> NDEV then Ret (-1) s
            else case devsw_write s (sint (i_major p)) of
                   None \<Rightarrow> Ret (-1) s
                 | Some Consolewrite \<Rightarrow> consolewrite ip src (sint n) s)
         else if off > i_size p \<or> off + n < off then Ret (-1) s
         else if off + n > of_nat (MAXFILE * BSIZE) then Ret (-1) s
         else kbind (writei_loop ip off (take (unat n) src) s) (\<lambda>off s.
              if n > 0 \<and> off > i_size (icache s ip) then
                kbind (iupdate ip (upd_inode ip (\<lambda>p. p\<lparr>i_size := off\<rparr>) s)) (\<lambda>_ s. Ret (sint n) s)
              else Ret (sint n) s))"

section \<open>Directories\<close>

definition namecmp :: "cstring \<Rightarrow> cstring \<Rightarrow> int" where
  "namecmp s t = strncmp s t DIRSIZ"

text \<open>The fields of the \<open>struct dirent\<close> in 16 bytes.\<close>

definition de_inum :: "u8 list \<Rightarrow> u16" where
  "de_inum de = load16 (\<lambda>i. de ! i) 0"

definition de_name :: "u8 list \<Rightarrow> cstring" where
  "de_name de = takeWhile (\<lambda>b. b \<noteq> 0) (take DIRSIZ (drop 2 de))"

text \<open>The loops over a directory of the given size visit \<open>off = 0, 16, ...\<close> below it.\<close>

definition entries :: "u32 \<Rightarrow> nat list" where
  "entries sz = [0..<(unat sz + 15) div 16]"

definition dirlookup_body :: "nat \<Rightarrow> cstring \<Rightarrow> nat \<Rightarrow> 'z fs_state_scheme \<Rightarrow> ((nat \<times> u32) option, 'z fs_state_scheme) res" where
  "dirlookup_body dp name k s =
     (let off = of_nat (16 * k)
      in kbind (readi dp off 16 s) (\<lambda>(r, de) s.
         if r \<noteq> 16 then Panic ''dirlookup read''
         else if de_inum de = 0 then Ret None s
         else if namecmp name (de_name de) = 0 then
           kbind (iget (i_dev (icache s dp)) (ucast (de_inum de)) s) (\<lambda>ip s. Ret (Some (ip, off)) s)
         else Ret None s))"

definition dirlookup :: "nat \<Rightarrow> cstring \<Rightarrow> 'z fs_state_scheme \<Rightarrow> ((nat \<times> u32) option, 'z fs_state_scheme) res" where
  "dirlookup dp name s =
     (if i_type (icache s dp) \<noteq> T_DIR then Panic ''dirlookup not DIR''
      else kscan (entries (i_size (icache s dp))) (dirlookup_body dp name) s)"

definition free_entry_body :: "nat \<Rightarrow> nat \<Rightarrow> 'z fs_state_scheme \<Rightarrow> (u32 option, 'z fs_state_scheme) res" where
  "free_entry_body dp k s =
     (let off = of_nat (16 * k)
      in kbind (readi dp off 16 s) (\<lambda>(r, de) s.
         if r \<noteq> 16 then Panic ''dirlink read''
         else if de_inum de = 0 then Ret (Some off) s
         else Ret None s))"

definition dirent :: "u32 \<Rightarrow> cstring \<Rightarrow> u8 list" where
  "dirent inum name = le16 (ucast inum) @ strncpy name DIRSIZ"

definition dirlink :: "nat \<Rightarrow> cstring \<Rightarrow> u32 \<Rightarrow> 'z fs_state_scheme \<Rightarrow> (int, 'z fs_state_scheme) res" where
  "dirlink dp name inum s =
     kbind (dirlookup dp name s) (\<lambda>r s.
     case r of
       Some (ip, _) \<Rightarrow> kbind (iput ip s) (\<lambda>_ s. Ret (-1) s)
     | None \<Rightarrow>
         let es = entries (i_size (icache s dp))
         in kbind (kscan es (free_entry_body dp) s) (\<lambda>e s.
            let off = (case e of Some off \<Rightarrow> off | None \<Rightarrow> of_nat (16 * length es))
            in kbind (writei dp (dirent inum name) off 16 s) (\<lambda>r s.
               if r \<noteq> 16 then Panic ''dirlink'' else Ret 0 s)))"

section \<open>Paths\<close>

definition slash :: u8 where "slash = 47"

definition skipelem :: "cstring \<Rightarrow> (cstring \<times> cstring) option" where
  "skipelem path =
     (let path = dropWhile (\<lambda>c. c = slash) path
      in if path = [] then None
         else let e = takeWhile (\<lambda>c. c \<noteq> slash) path;
                  rest = dropWhile (\<lambda>c. c \<noteq> slash) path
              in Some (dropWhile (\<lambda>c. c = slash) rest, if length e \<ge> DIRSIZ then take DIRSIZ e else e))"

lemma skipelem_shorter: "skipelem path = Some (rest, name) \<Longrightarrow> length rest < length path"
proof -
  assume a: "skipelem path = Some (rest, name)"
  let ?p = "dropWhile (\<lambda>c. c = slash) path"
  from a have p: "?p \<noteq> []" and rest: "rest = dropWhile (\<lambda>c. c = slash) (dropWhile (\<lambda>c. c \<noteq> slash) ?p)"
    by (auto simp: skipelem_def Let_def split: if_splits)
  from p have "hd ?p \<noteq> slash" using hd_dropWhile by blast
  with p have "length (dropWhile (\<lambda>c. c \<noteq> slash) ?p) < length ?p"
    by (cases ?p) (auto simp: le_imp_less_Suc length_dropWhile_le)
  moreover have "length rest \<le> length (dropWhile (\<lambda>c. c \<noteq> slash) ?p)" unfolding rest by (rule length_dropWhile_le)
  moreover have "length ?p \<le> length path" by (rule length_dropWhile_le)
  ultimately show ?thesis by linarith
qed

text \<open>
  \<open>!strcmp(myproc()->userid, "root") || !strcmp(myproc()->userid, ip->userid)\<close>, and the permission test that
  picks the owner's or the others' bit by it.
\<close>

definition is_owner :: "nat \<Rightarrow> 'z fs_state_scheme \<Rightarrow> (bool, 'z fs_state_scheme) res" where
  "is_owner ip s =
     kbind (curproc s) (\<lambda>me s.
     if strcmp (p_userid (ptable s me)) (str ''root'') = 0 then Ret True s
     else kbind (curproc s) (\<lambda>me s. Ret (strcmp (p_userid (ptable s me)) (i_userid (icache s ip)) = 0) s))"

definition permitted :: "nat \<Rightarrow> u32 \<Rightarrow> u32 \<Rightarrow> 'z fs_state_scheme \<Rightarrow> (bool, 'z fs_state_scheme) res" where
  "permitted ip usr oth s =
     kbind (is_owner ip s) (\<lambda>o' s. Ret (and (i_mode (icache s ip)) (if o' then usr else oth) \<noteq> 0) s)"

function namex_loop :: "bool \<Rightarrow> cstring \<Rightarrow> nat \<Rightarrow> cstring \<Rightarrow> 'z fs_state_scheme \<Rightarrow> (nat option \<times> cstring, 'z fs_state_scheme) res" where
  "namex_loop parent path ip name s =
     (case skipelem path of
        None \<Rightarrow> if parent then kbind (iput ip s) (\<lambda>_ s. Ret (None, name) s) else Ret (Some ip, name) s
      | Some (path, name) \<Rightarrow>
          kbind (ilock (Some ip) s) (\<lambda>_ s.
          if i_type (icache s ip) \<noteq> T_DIR then kbind (iunlockput ip s) (\<lambda>_ s. Ret (None, name) s)
          else kbind (permitted ip MODE_XUSR MODE_XOTH s) (\<lambda>x s.
            if \<not> x then kbind (iunlockput ip s) (\<lambda>_ s. Ret (None, name) s)
            else if parent \<and> path = [] then kbind (iunlock (Some ip) s) (\<lambda>_ s. Ret (Some ip, name) s)
            else kbind (dirlookup ip name s) (\<lambda>r s.
              case r of
                None \<Rightarrow> kbind (iunlockput ip s) (\<lambda>_ s. Ret (None, name) s)
              | Some (nxt, _) \<Rightarrow>
                  kbind (iunlockput ip s) (\<lambda>_ s. namex_loop parent path nxt name s)))))"
  by pat_completeness auto
termination by (relation "measure (\<lambda>(_, path, _). length path)") (auto dest: skipelem_shorter)

definition namex :: "cstring \<Rightarrow> bool \<Rightarrow> 'z fs_state_scheme \<Rightarrow> (nat option \<times> cstring, 'z fs_state_scheme) res" where
  "namex path parent s =
     kbind (if path \<noteq> [] \<and> hd path = slash then iget ROOTDEV ROOTINO s
            else kbind (curproc s) (\<lambda>me s. kbind (deref (p_cwd (ptable s me)) s) (\<lambda>ip s. idup ip s))) (\<lambda>ip s.
     namex_loop parent path ip [] s)"

definition namei :: "cstring \<Rightarrow> 'z fs_state_scheme \<Rightarrow> (nat option, 'z fs_state_scheme) res" where
  "namei path s = kbind (namex path False s) (\<lambda>(ip, _) s. Ret ip s)"

definition nameiparent :: "cstring \<Rightarrow> 'z fs_state_scheme \<Rightarrow> (nat option \<times> cstring, 'z fs_state_scheme) res" where
  "nameiparent path s = namex path True s"

section \<open>The elements of a path\<close>

text \<open>The names that \<open>namex\<close> goes through, one call of \<open>skipelem\<close> after the other.\<close>

function path_elems :: "cstring \<Rightarrow> cstring list" where
  "path_elems path = (case skipelem path of None \<Rightarrow> [] | Some (rest, name) \<Rightarrow> name # path_elems rest)"
  by pat_completeness auto
termination by (relation "measure length") (auto dest: skipelem_shorter)

declare path_elems.simps [simp del]

fun split_on :: "'a \<Rightarrow> 'a list \<Rightarrow> 'a list list" where
  "split_on c [] = [[]]"
| "split_on c (x # xs) = (if x = c then [] # split_on c xs else (x # hd (split_on c xs)) # tl (split_on c xs))"

lemma split_on_first:
  "split_on c xs = takeWhile (\<lambda>x. x \<noteq> c) xs # (case dropWhile (\<lambda>x. x \<noteq> c) xs of [] \<Rightarrow> [] | _ # r \<Rightarrow> split_on c r)"
  by (induction xs) auto

definition nonempty_parts :: "'a \<Rightarrow> 'a list \<Rightarrow> 'a list list" where
  "nonempty_parts c xs = filter (\<lambda>p. p \<noteq> []) (split_on c xs)"

lemma nonempty_parts_skip: "nonempty_parts c (dropWhile (\<lambda>x. x = c) xs) = nonempty_parts c xs"
  by (induction xs) (auto simp: nonempty_parts_def)

lemma nonempty_parts_step:
  assumes "xs \<noteq> []" and "hd xs \<noteq> c"
  shows "nonempty_parts c xs = takeWhile (\<lambda>x. x \<noteq> c) xs # nonempty_parts c (dropWhile (\<lambda>x. x \<noteq> c) xs)"
proof -
  have "takeWhile (\<lambda>x. x \<noteq> c) xs \<noteq> []" using assms by (cases xs) auto
  moreover have "filter (\<lambda>p. p \<noteq> []) (case dropWhile (\<lambda>x. x \<noteq> c) xs of [] \<Rightarrow> [] | _ # r \<Rightarrow> split_on c r) =
      nonempty_parts c (dropWhile (\<lambda>x. x \<noteq> c) xs)"
  proof (cases "dropWhile (\<lambda>x. x \<noteq> c) xs")
    case (Cons y r)
    then have "y = c" using hd_dropWhile [of "\<lambda>x. x \<noteq> c" xs] by auto
    then show ?thesis by (simp add: Cons nonempty_parts_def)
  next
    case Nil
    show ?thesis unfolding Nil by (simp add: nonempty_parts_def)
  qed
  ultimately show ?thesis by (simp add: nonempty_parts_def split_on_first [of c xs])
qed

text \<open>the path scanner is the splitting of the path at its slashes. Repeated slashes, leading and trailing ones included, count
  as one, and every name is cut at 14 bytes; so the names \<open>namex\<close> looks up are the non-empty parts of the path.\<close>

theorem skipelem_splits_path:
  "path_elems path = map (take DIRSIZ) (nonempty_parts slash path)"
proof (induction path rule: path_elems.induct)
  case (1 path)
  let ?p = "dropWhile (\<lambda>c. c = slash) path"
  show ?case
  proof (cases "?p = []")
    case True
    then have "nonempty_parts slash path = []"
      using nonempty_parts_skip [of slash path] unfolding True by (simp add: nonempty_parts_def)
    then show ?thesis using True by (simp add: path_elems.simps [of path] skipelem_def)
  next
    case False
    let ?e = "takeWhile (\<lambda>c. c \<noteq> slash) ?p"
    let ?r = "dropWhile (\<lambda>c. c = slash) (dropWhile (\<lambda>c. c \<noteq> slash) ?p)"
    have sk: "skipelem path = Some (?r, take DIRSIZ ?e)" using False by (simp add: skipelem_def Let_def)
    have "hd ?p \<noteq> slash" using False hd_dropWhile by blast
    then have "nonempty_parts slash path = ?e # nonempty_parts slash ?r"
      using nonempty_parts_step [OF False] nonempty_parts_skip by metis
    then show ?thesis using 1 sk by (simp add: path_elems.simps [of path])
  qed
qed

end
