(* ===== verification/Files.thy ===== *)
theory Files
  imports Inodes
begin

text \<open>
  The table of open files (\<open>file.c\<close>) and pipes (\<open>pipe.c\<close>). A \<open>struct file *\<close> is an index into \<open>ftable\<close>.
  A pipe is the page that \<open>kalloc\<close> returned for it, with the fields of \<open>struct pipe\<close> at their offsets
  in \<open>ram\<close>: the buffer at 52, after the lock, then \<open>nread\<close>, \<open>nwrite\<close>, \<open>readopen\<close> and \<open>writeopen\<close>. The functions
  that copy to or from a user's buffer return or are given its bytes.
\<close>

section \<open>Data\<close>

definition NFILE :: nat where "NFILE = 100"
definition PIPESIZE :: u32 where "PIPESIZE = 512"

datatype file_type = FD_NONE | FD_PIPE | FD_INODE

record file_struct =
  f_type :: file_type
  f_ref :: int
  f_readable :: bool
  f_writable :: bool
  f_pipe :: u32
  f_ip :: "nat option"
  f_off :: u32

record file_state = fs_state +
  ftable :: "nat \<Rightarrow> file_struct"

lemma file_this_cpu [simp]:
  "this_cpu (s\<lparr>ftable := x0\<rparr>) = this_cpu s"
  by (simp_all add: this_cpu_def)

lemma file_cpu_known [simp]:
  "cpu_known (s\<lparr>ftable := x0\<rparr>) = cpu_known s"
  by (simp_all add: cpu_known_def)

lemma file_quiet [simp]:
  "quiet (s\<lparr>ftable := x0\<rparr>) = quiet s"
  by (simp_all add: quiet_def)

lemma file_sel [simp]:
  "ftable (with_locks L s) = ftable s"
  by (simp_all add: with_locks_def)

lemma file_upd [simp]:
  "(with_locks L s)\<lparr>ftable := x0\<rparr> = with_locks L (s\<lparr>ftable := x0\<rparr>)"
  by (simp_all add: with_locks_def cong: if_cong)

definition upd_file :: "nat \<Rightarrow> (file_struct \<Rightarrow> file_struct) \<Rightarrow> 'z file_state_scheme \<Rightarrow> 'z file_state_scheme" where
  "upd_file f g s = s\<lparr>ftable := (ftable s)(f := g (ftable s f))\<rparr>"

definition nread :: "u32 \<Rightarrow> 'z mem_state_scheme \<Rightarrow> u32" where
  "nread p s = load32 (ram s) (unat p + 564)"

definition nwrite :: "u32 \<Rightarrow> 'z mem_state_scheme \<Rightarrow> u32" where
  "nwrite p s = load32 (ram s) (unat p + 568)"

definition readopen :: "u32 \<Rightarrow> 'z mem_state_scheme \<Rightarrow> u32" where
  "readopen p s = load32 (ram s) (unat p + 572)"

definition writeopen :: "u32 \<Rightarrow> 'z mem_state_scheme \<Rightarrow> u32" where
  "writeopen p s = load32 (ram s) (unat p + 576)"

definition pipe_slot :: "u32 \<Rightarrow> u32 \<Rightarrow> nat" where
  "pipe_slot p n = unat p + 52 + unat (n mod PIPESIZE)"

definition poke32 :: "nat \<Rightarrow> u32 \<Rightarrow> 'z mem_state_scheme \<Rightarrow> 'z mem_state_scheme" where
  "poke32 a w s = s\<lparr>ram := store32 (ram s) a w\<rparr>"

section \<open>Pipes\<close>

definition pipeclose :: "u32 \<Rightarrow> bool \<Rightarrow> 'z file_state_scheme \<Rightarrow> (unit, 'z file_state_scheme) res" where
  "pipeclose p writable s =
     kbind (acquire (PipeLock p) s) (\<lambda>_ s.
     kbind (if writable then wakeup (ChanPipeRead p) (poke32 (unat p + 576) 0 s)
            else wakeup (ChanPipeWrite p) (poke32 (unat p + 572) 0 s)) (\<lambda>_ s.
     if readopen p s = 0 \<and> writeopen p s = 0
     then kbind (release (PipeLock p) s) (\<lambda>_ s. kfree p s)
     else release (PipeLock p) s))"

text \<open>
  The loop of \<open>pipewrite\<close> over the bytes still to write. With the buffer full it gives up the CPU and, when it
  runs again, tests the buffer once more.
\<close>

function pipewrite_loop :: "u32 \<Rightarrow> u8 list \<Rightarrow> 'z file_state_scheme \<Rightarrow> (bool, 'z file_state_scheme) res" where
  "pipewrite_loop p bs s =
     (case bs of [] \<Rightarrow> Ret True s
      | b # bs' \<Rightarrow>
          if nwrite p s = nread p s + PIPESIZE then
            kbind (if readopen p s = 0 then Ret True s
                   else kbind (curproc s) (\<lambda>me s. Ret (p_killed (ptable s me)) s)) (\<lambda>stop s.
            if stop then kbind (release (PipeLock p) s) (\<lambda>_ s. Ret False s)
            else kbind (wakeup (ChanPipeRead p) s) (\<lambda>_ s.
                 kbind (sleep (ChanPipeWrite p) (PipeLock p) s) (\<lambda>_ s. pipewrite_loop p bs s)))
          else
            let n = nwrite p s;
                s = poke32 (unat p + 568) (n + 1) s
            in pipewrite_loop p bs' (s\<lparr>ram := (ram s)(pipe_slot p n := b)\<rparr>))"
  by pat_completeness auto
termination by (relation "measure (\<lambda>(_, bs, _). length bs)") auto

definition pipewrite_end :: "u32 \<Rightarrow> int \<Rightarrow> bool \<Rightarrow> 'z file_state_scheme \<Rightarrow> (int, 'z file_state_scheme) res" where
  "pipewrite_end p n ok s =
     (if ok then kbind (wakeup (ChanPipeRead p) s) (\<lambda>_ s. kbind (release (PipeLock p) s) (\<lambda>_ s. Ret n s))
      else Ret (-1) s)"

definition pipewrite :: "u32 \<Rightarrow> u8 list \<Rightarrow> int \<Rightarrow> 'z file_state_scheme \<Rightarrow> (int, 'z file_state_scheme) res" where
  "pipewrite p bs n s =
     kbind (acquire (PipeLock p) s) (\<lambda>_ s.
     kbind (pipewrite_loop p (take (nat n) bs) s) (pipewrite_end p n))"

definition pipewrite_return :: "nat \<Rightarrow> bool \<Rightarrow> u32 \<Rightarrow> u8 list \<Rightarrow> int \<Rightarrow> 'z file_state_scheme \<Rightarrow> (int, 'z file_state_scheme) res" where
  "pipewrite_return me saved p bs n s =
     kbind (sleep_return me (PipeLock p) saved s) (\<lambda>_ s.
     kbind (pipewrite_loop p bs s) (pipewrite_end p n))"

fun piperead_copy :: "u32 \<Rightarrow> nat \<Rightarrow> 'z file_state_scheme \<Rightarrow> u8 list \<times> 'z file_state_scheme" where
  "piperead_copy p 0 s = ([], s)"
| "piperead_copy p (Suc n) s =
     (if nread p s = nwrite p s then ([], s)
      else let r = nread p s;
               b = ram s (pipe_slot p r);
               s = poke32 (unat p + 564) (r + 1) s;
               (bs, s) = piperead_copy p n s
           in (b # bs, s))"

text \<open>\<open>piperead\<close> from its first loop on, which is also where a sleeper goes on.\<close>

function piperead_loop :: "u32 \<Rightarrow> int \<Rightarrow> 'z file_state_scheme \<Rightarrow> (int \<times> u8 list, 'z file_state_scheme) res" where
  "piperead_loop p n s =
     (if nread p s = nwrite p s \<and> writeopen p s \<noteq> 0 then
        kbind (curproc s) (\<lambda>me s.
        if p_killed (ptable s me) then kbind (release (PipeLock p) s) (\<lambda>_ s. Ret (-1, []) s)
        else kbind (sleep (ChanPipeRead p) (PipeLock p) s) (\<lambda>_ s. piperead_loop p n s))
      else
        let (bs, s) = piperead_copy p (nat n) s
        in kbind (wakeup (ChanPipeWrite p) s) (\<lambda>_ s.
           kbind (release (PipeLock p) s) (\<lambda>_ s. Ret (int (length bs), bs) s)))"
  by pat_completeness auto
termination by (relation "{}") auto

definition piperead :: "u32 \<Rightarrow> int \<Rightarrow> 'z file_state_scheme \<Rightarrow> (int \<times> u8 list, 'z file_state_scheme) res" where
  "piperead p n s = kbind (acquire (PipeLock p) s) (\<lambda>_ s. piperead_loop p n s)"

definition piperead_return :: "nat \<Rightarrow> bool \<Rightarrow> u32 \<Rightarrow> int \<Rightarrow> 'z file_state_scheme \<Rightarrow> (int \<times> u8 list, 'z file_state_scheme) res" where
  "piperead_return me saved p n s =
     kbind (sleep_return me (PipeLock p) saved s) (\<lambda>_ s. piperead_loop p n s)"

section \<open>Open files\<close>

definition fileinit :: "'z file_state_scheme \<Rightarrow> (unit, 'z file_state_scheme) res" where
  "fileinit s = initlock FtableLock s"

definition filealloc :: "'z file_state_scheme \<Rightarrow> (nat option, 'z file_state_scheme) res" where
  "filealloc s =
     kbind (acquire FtableLock s) (\<lambda>_ s.
     case first_idx NFILE (\<lambda>f. f_ref (ftable s f) = 0) of
       Some f \<Rightarrow> kbind (release FtableLock (upd_file f (\<lambda>x. x\<lparr>f_ref := 1\<rparr>) s)) (\<lambda>_ s. Ret (Some f) s)
     | None \<Rightarrow> kbind (release FtableLock s) (\<lambda>_ s. Ret None s))"

definition filedup :: "nat \<Rightarrow> 'z file_state_scheme \<Rightarrow> (nat, 'z file_state_scheme) res" where
  "filedup f s =
     kbind (acquire FtableLock s) (\<lambda>_ s.
     if f_ref (ftable s f) < 1 then Panic ''filedup''
     else kbind (release FtableLock (upd_file f (\<lambda>x. x\<lparr>f_ref := f_ref x + 1\<rparr>) s)) (\<lambda>_ s. Ret f s))"

definition fileclose :: "nat \<Rightarrow> 'z file_state_scheme \<Rightarrow> (unit, 'z file_state_scheme) res" where
  "fileclose f s =
     kbind (acquire FtableLock s) (\<lambda>_ s.
     if f_ref (ftable s f) < 1 then Panic ''fileclose''
     else let s = upd_file f (\<lambda>x. x\<lparr>f_ref := f_ref x - 1\<rparr>) s
          in if f_ref (ftable s f) > 0 then release FtableLock s
             else let ff = ftable s f;
                      s = upd_file f (\<lambda>x. x\<lparr>f_ref := 0, f_type := FD_NONE\<rparr>) s
                  in kbind (release FtableLock s) (\<lambda>_ s.
                     case f_type ff of
                       FD_PIPE \<Rightarrow> pipeclose (f_pipe ff) (f_writable ff) s
                     | FD_INODE \<Rightarrow>
                         kbind (begin_op s) (\<lambda>_ s.
                         kbind (deref (f_ip ff) s) (\<lambda>ip s.
                         kbind (iput ip s) (\<lambda>_ s. end_op s)))
                     | FD_NONE \<Rightarrow> Ret () s))"

definition pipealloc :: "'z file_state_scheme \<Rightarrow> ((nat \<times> nat) option, 'z file_state_scheme) res" where
  "pipealloc s =
     kbind (filealloc s) (\<lambda>f0 s.
     case f0 of None \<Rightarrow> Ret None s
     | Some f0 \<Rightarrow>
         kbind (filealloc s) (\<lambda>f1 s.
         case f1 of None \<Rightarrow> kbind (fileclose f0 s) (\<lambda>_ s. Ret None s)
         | Some f1 \<Rightarrow>
             kbind (kalloc s) (\<lambda>p s.
             if p = 0 then kbind (fileclose f0 s) (\<lambda>_ s. kbind (fileclose f1 s) (\<lambda>_ s. Ret None s))
             else
               let s = poke32 (unat p + 572) 1 s;
                   s = poke32 (unat p + 576) 1 s;
                   s = poke32 (unat p + 568) 0 s;
                   s = poke32 (unat p + 564) 0 s
               in kbind (initlock (PipeLock p) s) (\<lambda>_ s.
                  let s = upd_file f0 (\<lambda>x. x\<lparr>f_type := FD_PIPE, f_readable := True, f_writable := False, f_pipe := p\<rparr>) s;
                      s = upd_file f1 (\<lambda>x. x\<lparr>f_type := FD_PIPE, f_readable := False, f_writable := True, f_pipe := p\<rparr>) s
                  in Ret (Some (f0, f1)) s))))"

text \<open>\<open>st\<close> holds the bytes at the user's \<open>struct stat\<close>; the new ones are returned.\<close>

definition filestat :: "nat \<Rightarrow> buffer \<Rightarrow> 'z file_state_scheme \<Rightarrow> (int \<times> buffer, 'z file_state_scheme) res" where
  "filestat f st s =
     (if f_type (ftable s f) = FD_INODE then
        kbind (ilock (f_ip (ftable s f)) s) (\<lambda>_ s.
        kbind (deref (f_ip (ftable s f)) s) (\<lambda>ip s.
        let st = stati (icache s ip) st
        in kbind (iunlock (f_ip (ftable s f)) s) (\<lambda>_ s. Ret (0, st) s)))
      else Ret (-1, st) s)"

definition fileread :: "nat \<Rightarrow> int \<Rightarrow> 'z file_state_scheme \<Rightarrow> (int \<times> u8 list, 'z file_state_scheme) res" where
  "fileread f n s =
     (if \<not> f_readable (ftable s f) then Ret (-1, []) s
      else case f_type (ftable s f) of
        FD_PIPE \<Rightarrow> piperead (f_pipe (ftable s f)) n s
      | FD_INODE \<Rightarrow>
          kbind (ilock (f_ip (ftable s f)) s) (\<lambda>_ s.
          kbind (deref (f_ip (ftable s f)) s) (\<lambda>ip s.
          kbind (readi ip (f_off (ftable s f)) (word_of_int n) s) (\<lambda>(r, bs) s.
          let s = (if r > 0 then upd_file f (\<lambda>x. x\<lparr>f_off := f_off x + word_of_int r\<rparr>) s else s)
          in kbind (iunlock (f_ip (ftable s f)) s) (\<lambda>_ s. Ret (r, bs) s))))
      | FD_NONE \<Rightarrow> Panic ''fileread'')"

text \<open>\<open>((MAXOPBLOCKS-1-1-2) / 2) * 512\<close>.\<close>

definition write_max :: nat where "write_max = nat ((MAXOPBLOCKS - 1 - 1 - 2) div 2 * 512)"

lemma write_max_eq [simp]: "write_max = 1536"
  by (simp add: write_max_def MAXOPBLOCKS_def)

function filewrite_loop :: "nat \<Rightarrow> u8 list \<Rightarrow> 'z file_state_scheme \<Rightarrow> (bool, 'z file_state_scheme) res" where
  "filewrite_loop f src s =
     (if src \<noteq> [] then
        let n1 = min (length src) write_max
        in kbind (begin_op s) (\<lambda>_ s.
           kbind (ilock (f_ip (ftable s f)) s) (\<lambda>_ s.
           kbind (deref (f_ip (ftable s f)) s) (\<lambda>ip s.
           kbind (writei ip (take n1 src) (f_off (ftable s f)) (of_nat n1) s) (\<lambda>r s.
           let s = (if r > 0 then upd_file f (\<lambda>x. x\<lparr>f_off := f_off x + word_of_int r\<rparr>) s else s)
           in kbind (iunlock (f_ip (ftable s f)) s) (\<lambda>_ s.
              kbind (end_op s) (\<lambda>_ s.
              if r < 0 then Ret False s
              else if r \<noteq> int n1 then Panic ''short filewrite''
              else filewrite_loop f (drop n1 src) s))))))
      else Ret True s)"
  by pat_completeness auto
termination by (relation "measure (\<lambda>(_, src, _). length src)") auto

definition filewrite :: "nat \<Rightarrow> u8 list \<Rightarrow> int \<Rightarrow> 'z file_state_scheme \<Rightarrow> (int, 'z file_state_scheme) res" where
  "filewrite f src n s =
     (if \<not> f_writable (ftable s f) then Ret (-1) s
      else case f_type (ftable s f) of
        FD_PIPE \<Rightarrow> pipewrite (f_pipe (ftable s f)) src n s
      | FD_INODE \<Rightarrow>
          kbind (filewrite_loop f (take (nat n) src) s) (\<lambda>ok s. Ret (if ok \<and> 0 \<le> n then n else -1) s)
      | FD_NONE \<Rightarrow> Panic ''filewrite'')"

section \<open>A pipe is a bounded queue of bytes\<close>

text \<open>The bytes written and not yet read, oldest first, and the invariant that there is room for them.\<close>

definition pipe_bytes :: "u32 \<Rightarrow> 'z mem_state_scheme \<Rightarrow> u8 list" where
  "pipe_bytes p s = map (\<lambda>k. ram s (pipe_slot p (nread p s + of_nat k))) [0..<unat (nwrite p s - nread p s)]"

definition pipe_wf :: "u32 \<Rightarrow> 'z mem_state_scheme \<Rightarrow> bool" where
  "pipe_wf p s \<longleftrightarrow> nwrite p s - nread p s \<le> PIPESIZE"

lemma mod_PIPESIZE: "unat ((n :: u32) mod PIPESIZE) = unat n mod 512"
  by (simp add: PIPESIZE_def unat_mod)

lemma pipe_slot_range: "unat p + 52 \<le> pipe_slot p n" "pipe_slot p n < unat p + 564"
  by (simp_all add: pipe_slot_def mod_PIPESIZE)

lemma pipe_slot_add:
  assumes "k < 512"
  shows "pipe_slot p (n + of_nat k) = unat p + 52 + (unat n + k) mod 512"
proof -
  have "unat (n + of_nat k) = (unat n + k) mod 2 ^ 32"
    using assms by (simp add: unat_word_ariths unat_of_nat)
  then show ?thesis by (simp add: pipe_slot_def mod_PIPESIZE mod_mod_cancel)
qed

lemma pipe_slot_neq:
  "j \<noteq> k \<Longrightarrow> j < 512 \<Longrightarrow> k < 512 \<Longrightarrow> pipe_slot p (n + of_nat j) \<noteq> pipe_slot p (n + of_nat k)"
  by (auto simp: pipe_slot_add dest: mod_add_inj)

lemma load32_upd_byte: "a < off \<or> off + 4 \<le> a \<Longrightarrow> load32 (m(a := b)) off = load32 m off"
  by (auto simp: load32_def)

text \<open>One byte written and one byte read.\<close>

definition pipe_put1 :: "u32 \<Rightarrow> u8 \<Rightarrow> 'z mem_state_scheme \<Rightarrow> 'z mem_state_scheme" where
  "pipe_put1 p b s = (let n = nwrite p s; s = poke32 (unat p + 568) (n + 1) s in s\<lparr>ram := (ram s)(pipe_slot p n := b)\<rparr>)"

definition pipe_get1 :: "u32 \<Rightarrow> 'z mem_state_scheme \<Rightarrow> 'z mem_state_scheme" where
  "pipe_get1 p s = poke32 (unat p + 564) (nread p s + 1) s"

lemma poke32_ram [simp]: "ram (poke32 a w s) = store32 (ram s) a w"
  by (simp add: poke32_def)

lemma pipe_put1_fields [simp]:
  "nread p (pipe_put1 p b s) = nread p s" "nwrite p (pipe_put1 p b s) = nwrite p s + 1"
  "readopen p (pipe_put1 p b s) = readopen p s" "writeopen p (pipe_put1 p b s) = writeopen p s"
  using pipe_slot_range [of p "nwrite p s"]
  by (simp_all add: pipe_put1_def nread_def nwrite_def readopen_def writeopen_def load32_upd_byte Let_def)
     (simp_all add: store32_def load32_put_other)

lemma pipe_get1_fields [simp]:
  "nread p (pipe_get1 p s) = nread p s + 1" "nwrite p (pipe_get1 p s) = nwrite p s"
  "readopen p (pipe_get1 p s) = readopen p s" "writeopen p (pipe_get1 p s) = writeopen p s"
  by (simp_all add: pipe_get1_def nread_def nwrite_def readopen_def writeopen_def)
     (simp_all add: store32_def load32_put_other)

lemma pipe_put1_byte: "ram (pipe_put1 p b s) (pipe_slot p n) =
    (if pipe_slot p n = pipe_slot p (nwrite p s) then b else ram s (pipe_slot p n))"
  using pipe_slot_range [of p n] by (simp add: pipe_put1_def Let_def store32_def)

lemma pipe_get1_byte: "ram (pipe_get1 p s) (pipe_slot p n) = ram s (pipe_slot p n)"
  using pipe_slot_range [of p n] by (simp add: pipe_get1_def store32_def)

lemma pipe_len [simp]: "length (pipe_bytes p s) = unat (nwrite p s - nread p s)"
  by (simp add: pipe_bytes_def)

lemma pipe_put1_bytes:
  assumes "pipe_wf p s" and "nwrite p s \<noteq> nread p s + PIPESIZE"
  shows "pipe_bytes p (pipe_put1 p b s) = pipe_bytes p s @ [b]" and "pipe_wf p (pipe_put1 p b s)"
proof -
  let ?n = "unat (nwrite p s - nread p s)"
  have "nwrite p s - nread p s \<noteq> PIPESIZE" using assms(2) by (auto simp: algebra_simps)
  then have lt: "nwrite p s - nread p s < PIPESIZE" using assms(1) by (simp add: pipe_wf_def)
  then have n: "?n < 512" by (simp add: PIPESIZE_def word_less_nat_alt)
  have d: "nwrite p s + 1 - nread p s = nwrite p s - nread p s + 1" by simp
  have sz: "unat (nwrite p s + 1 - nread p s) = Suc ?n"
    using n unfolding d by (simp add: unat_word_ariths)
  have last: "nread p s + of_nat ?n = nwrite p s" by simp
  show "pipe_bytes p (pipe_put1 p b s) = pipe_bytes p s @ [b]"
  proof (rule nth_equalityI)
    show "length (pipe_bytes p (pipe_put1 p b s)) = length (pipe_bytes p s @ [b])" using sz by simp
    fix k assume "k < length (pipe_bytes p (pipe_put1 p b s))"
    then have k: "k < Suc ?n" using sz by simp
    show "pipe_bytes p (pipe_put1 p b s) ! k = (pipe_bytes p s @ [b]) ! k"
    proof (cases "k = ?n")
      case True
      then show ?thesis using sz last by (simp add: pipe_bytes_def nth_append pipe_put1_byte del: of_nat_unat)
    next
      case False
      then have "pipe_slot p (nread p s + of_nat k) \<noteq> pipe_slot p (nread p s + of_nat ?n)"
        using k n by (intro pipe_slot_neq) auto
      then show ?thesis using False k sz last by (simp add: pipe_bytes_def nth_append pipe_put1_byte)
    qed
  qed
  show "pipe_wf p (pipe_put1 p b s)"
    using sz n by (simp add: pipe_wf_def PIPESIZE_def word_le_nat_alt)
qed

lemma pipe_get1_bytes:
  assumes "nread p s \<noteq> nwrite p s"
  shows "pipe_bytes p s = ram s (pipe_slot p (nread p s)) # pipe_bytes p (pipe_get1 p s)"
    and "pipe_wf p s \<Longrightarrow> pipe_wf p (pipe_get1 p s)"
proof -
  let ?m = "nwrite p s - (nread p s + 1)"
  have "nwrite p s - nread p s \<noteq> 0" using assms by simp
  then have sz: "unat (nwrite p s - nread p s) = Suc (unat ?m)"
    by (metis diff_diff_eq unat_minus_one Suc_pred' unat_gt_0 add.commute diff_diff_add)
  have idx: "nread p s + of_nat (Suc k) = nread p s + 1 + of_nat k" for k by simp
  show "pipe_bytes p s = ram s (pipe_slot p (nread p s)) # pipe_bytes p (pipe_get1 p s)"
  proof -
    have "[0..<Suc m] = 0 # map Suc [0..<m]" for m by (simp add: upt_conv_Cons map_Suc_upt del: upt_Suc)
    then show ?thesis unfolding pipe_bytes_def sz by (simp add: pipe_get1_byte idx del: upt_Suc of_nat_Suc)
  qed
  show "pipe_wf p (pipe_get1 p s)" if "pipe_wf p s"
    using that sz by (simp add: pipe_wf_def word_le_nat_alt)
qed

lemma pipe_with_locks [simp]:
  "nread p (with_locks L s) = nread p s" "nwrite p (with_locks L s) = nwrite p s"
  "readopen p (with_locks L s) = readopen p s" "writeopen p (with_locks L s) = writeopen p s"
  "pipe_bytes p (with_locks L s) = pipe_bytes p s" "pipe_wf p (with_locks L s) = pipe_wf p s"
  "poke32 a w (with_locks L s) = with_locks L (poke32 a w s)"
  "pipe_put1 p b (with_locks L s) = with_locks L (pipe_put1 p b s)"
  "pipe_get1 p (with_locks L s) = with_locks L (pipe_get1 p s)"
  by (simp_all add: nread_def nwrite_def readopen_def writeopen_def pipe_bytes_def pipe_wf_def poke32_def
      pipe_put1_def pipe_get1_def Let_def)

lemma poke32_frame [simp]:
  "cpus (poke32 a w s) = cpus s" "this_cpu (poke32 a w s) = this_cpu s"
  "quiet (poke32 a w s) = quiet s" "in_proc (poke32 a w t) i = in_proc t i"
  "ptable (poke32 a w t) = ptable t"
  by (simp_all add: poke32_def in_proc_def)

lemma pipe_put1_frame [simp]:
  "cpus (pipe_put1 p b s) = cpus s" "this_cpu (pipe_put1 p b s) = this_cpu s"
  "quiet (pipe_put1 p b s) = quiet s" "in_proc (pipe_put1 p b t) i = in_proc t i"
  "ptable (pipe_put1 p b t) = ptable t"
  by (simp_all add: pipe_put1_def Let_def in_proc_def)

lemma pipe_get1_frame [simp]:
  "cpus (pipe_get1 p s) = cpus s" "this_cpu (pipe_get1 p s) = this_cpu s"
  "quiet (pipe_get1 p s) = quiet s" "in_proc (pipe_get1 p t) i = in_proc t i"
  "ptable (pipe_get1 p t) = ptable t"
  by (simp_all add: pipe_get1_def)

text \<open>Several bytes.\<close>

definition pipe_put :: "u32 \<Rightarrow> u8 list \<Rightarrow> 'z mem_state_scheme \<Rightarrow> 'z mem_state_scheme" where
  "pipe_put p bs s = fold (pipe_put1 p) bs s"

definition pipe_get :: "u32 \<Rightarrow> nat \<Rightarrow> 'z mem_state_scheme \<Rightarrow> 'z mem_state_scheme" where
  "pipe_get p n s = (pipe_get1 p ^^ n) s"

lemma pipe_put_simps [simp]: "pipe_put p [] s = s" "pipe_put p (b # bs) s = pipe_put p bs (pipe_put1 p b s)"
  by (simp_all add: pipe_put_def)

lemma pipe_get_simps [simp]: "pipe_get p 0 s = s" "pipe_get p (Suc n) s = pipe_get p n (pipe_get1 p s)"
  by (simp_all add: pipe_get_def funpow_swap1)

lemma pipe_put_frame [simp]:
  "cpus (pipe_put p bs s) = cpus s" "this_cpu (pipe_put p bs s) = this_cpu s"
  "quiet (pipe_put p bs s) = quiet s" "in_proc (pipe_put p bs t) i = in_proc t i" "ptable (pipe_put p bs t) = ptable t"
  "readopen p (pipe_put p bs s) = readopen p s" "writeopen p (pipe_put p bs s) = writeopen p s"
  "pipe_put p bs (with_locks L s) = with_locks L (pipe_put p bs s)"
  by (induction bs arbitrary: s t) simp_all

lemma pipe_get_frame [simp]:
  "cpus (pipe_get p n s) = cpus s" "this_cpu (pipe_get p n s) = this_cpu s"
  "quiet (pipe_get p n s) = quiet s" "in_proc (pipe_get p n t) i = in_proc t i" "ptable (pipe_get p n t) = ptable t"
  "readopen p (pipe_get p n s) = readopen p s" "writeopen p (pipe_get p n s) = writeopen p s"
  "pipe_get p n (with_locks L s) = with_locks L (pipe_get p n s)"
  by (induction n arbitrary: s t) simp_all

lemma pipe_not_full:
  assumes "length (pipe_bytes p s) < 512"
  shows "nwrite p s \<noteq> nread p s + PIPESIZE"
  using assms by (auto simp: PIPESIZE_def)

lemma pipe_full:
  assumes "pipe_wf p s" and "\<not> length (pipe_bytes p s) < 512"
  shows "nwrite p s = nread p s + PIPESIZE"
proof -
  have "unat (nwrite p s - nread p s) = unat PIPESIZE"
    using assms by (simp add: pipe_wf_def PIPESIZE_def word_le_nat_alt)
  then have "nwrite p s - nread p s = PIPESIZE" by (simp only: unsigned_word_eqI)
  then show ?thesis by (simp add: algebra_simps)
qed

lemma pipe_put_bytes:
  assumes "pipe_wf p s" and "length (pipe_bytes p s) + length bs \<le> 512"
  shows "pipe_bytes p (pipe_put p bs s) = pipe_bytes p s @ bs \<and> pipe_wf p (pipe_put p bs s)"
  using assms
proof (induction bs arbitrary: s)
  case (Cons b bs)
  then have "nwrite p s \<noteq> nread p s + PIPESIZE" by (intro pipe_not_full) simp
  note one = pipe_put1_bytes [OF Cons.prems(1) this, of b]
  have "length (pipe_bytes p (pipe_put1 p b s)) + length bs \<le> 512" using one(1) Cons.prems(2) by simp
  from Cons.IH [OF one(2) this] one(1) show ?case by simp
qed simp

declare pipewrite_loop.simps [simp del]

lemma pipewrite_loop_nil [simp]: "pipewrite_loop p [] s = Ret True s"
  by (simp add: pipewrite_loop.simps)

lemma pipewrite_loop_step:
  assumes "nwrite p s \<noteq> nread p s + PIPESIZE"
  shows "pipewrite_loop p (b # bs) s = pipewrite_loop p bs (pipe_put1 p b s)"
  using assms by (subst pipewrite_loop.simps) (simp add: pipe_put1_def Let_def)

lemma pipewrite_loop_append:
  assumes "pipe_wf p s" and "length (pipe_bytes p s) + length xs \<le> 512"
  shows "pipewrite_loop p (xs @ ys) s = pipewrite_loop p ys (pipe_put p xs s)"
  using assms
proof (induction xs arbitrary: s)
  case (Cons b xs)
  then have nf: "nwrite p s \<noteq> nread p s + PIPESIZE" by (intro pipe_not_full) simp
  note one = pipe_put1_bytes [OF Cons.prems(1) this, of b]
  have "length (pipe_bytes p (pipe_put1 p b s)) + length xs \<le> 512" using one(1) Cons.prems(2) by simp
  from Cons.IH [OF one(2) this] show ?case by (simp add: pipewrite_loop_step [OF nf])
qed simp

lemma piperead_copy_eq:
  "piperead_copy p n s = (take n (pipe_bytes p s), pipe_get p (min n (length (pipe_bytes p s))) s)"
proof (induction n arbitrary: s)
  case (Suc n)
  show ?case
  proof (cases "nread p s = nwrite p s")
    case False
    note one = pipe_get1_bytes(1) [OF False]
    have len: "length (pipe_bytes p s) = Suc (length (pipe_bytes p (pipe_get1 p s)))" using one by (metis length_Cons)
    show ?thesis using Suc.IH [of "pipe_get1 p s"] False one
      unfolding piperead_copy.simps len by (simp add: Let_def pipe_get1_def del: pipe_len)
  qed (simp add: pipe_bytes_def)
qed simp

lemma pipe_get_bytes:
  assumes "pipe_wf p s" and "n \<le> length (pipe_bytes p s)"
  shows "pipe_bytes p (pipe_get p n s) = drop n (pipe_bytes p s) \<and> pipe_wf p (pipe_get p n s)"
  using assms
proof (induction n arbitrary: s)
  case (Suc n)
  then have ne: "nread p s \<noteq> nwrite p s" by auto
  note one = pipe_get1_bytes(1) [OF ne]
  have "length (pipe_bytes p s) = Suc (length (pipe_bytes p (pipe_get1 p s)))" using one by (metis length_Cons)
  then have "n \<le> length (pipe_bytes p (pipe_get1 p s))" using Suc.prems(2) by simp
  from Suc.IH [OF pipe_get1_bytes(2) [OF ne Suc.prems(1)] this] show ?case using one by (metis drop_Suc_Cons pipe_get_simps(2))
qed simp

section \<open>The contract of a pipe\<close>

text \<open>
  A bounded queue as a writer and a reader use it: a batch that fits is appended whole, a read of a queue that holds
  something takes a prefix.
\<close>

datatype 'a fifo_op = Put "'a list" | Get nat

fun fifo_spec :: "nat \<Rightarrow> 'a fifo_op list \<Rightarrow> 'a list \<Rightarrow> ('a list \<times> 'a list) option" where
  "fifo_spec cap [] q = Some ([], q)"
| "fifo_spec cap (Put xs # ops) q =
     (if length q + length xs \<le> cap then fifo_spec cap ops (q @ xs) else None)"
| "fifo_spec cap (Get n # ops) q =
     (if q = [] then None
      else map_option (\<lambda>(out, q'). (take n q @ out, q')) (fifo_spec cap ops (drop n q)))"

fun fifo_run :: "('a list \<Rightarrow> 's \<Rightarrow> 's option) \<Rightarrow> (nat \<Rightarrow> 's \<Rightarrow> ('a list \<times> 's) option) \<Rightarrow> 'a fifo_op list \<Rightarrow> 's \<Rightarrow>
    ('a list \<times> 's) option" where
  "fifo_run enq deq [] s = Some ([], s)"
| "fifo_run enq deq (Put xs # ops) s = (case enq xs s of None \<Rightarrow> None | Some t \<Rightarrow> fifo_run enq deq ops t)"
| "fifo_run enq deq (Get n # ops) s =
     (case deq n s of None \<Rightarrow> None
      | Some (xs, t) \<Rightarrow> map_option (\<lambda>(out, u). (xs @ out, u)) (fifo_run enq deq ops t))"

fun fifo_written :: "'a fifo_op list \<Rightarrow> 'a list" where
  "fifo_written [] = []"
| "fifo_written (Put xs # ops) = xs @ fifo_written ops"
| "fifo_written (Get n # ops) = fifo_written ops"

lemma fifo_spec_conserves:
  "fifo_spec cap ops q = Some (out, q') \<Longrightarrow> out @ q' = q @ fifo_written ops"
  by (induction cap ops q arbitrary: out rule: fifo_spec.induct) (force split: if_splits)+

locale fifo =
  fixes cap :: nat
    and ok :: "'s \<Rightarrow> bool"
    and queued :: "'s \<Rightarrow> 'a list"
    and enq :: "'a list \<Rightarrow> 's \<Rightarrow> 's option"
    and deq :: "nat \<Rightarrow> 's \<Rightarrow> ('a list \<times> 's) option"
  assumes enq_fits: "ok s \<Longrightarrow> length (queued s) + length xs \<le> cap \<Longrightarrow>
      \<exists>t. enq xs s = Some t \<and> ok t \<and> queued t = queued s @ xs"
    and deq_some: "ok s \<Longrightarrow> queued s \<noteq> [] \<Longrightarrow>
      \<exists>t. deq n s = Some (take n (queued s), t) \<and> ok t \<and> queued t = drop n (queued s)"
begin

lemma run_refines:
  "ok s \<Longrightarrow> fifo_spec cap ops (queued s) = Some (out, q) \<Longrightarrow>
     \<exists>t. fifo_run enq deq ops s = Some (out, t) \<and> ok t \<and> queued t = q"
proof (induction ops arbitrary: s out)
  case (Cons op ops)
  show ?case
  proof (cases op)
    case (Put xs)
    with Cons.prems(2) have fits: "length (queued s) + length xs \<le> cap" by (auto split: if_splits)
    from enq_fits [OF Cons.prems(1) this] obtain t
      where t: "enq xs s = Some t" "ok t" "queued t = queued s @ xs" by auto
    from Cons.IH [OF t(2), of out] show ?thesis using Cons.prems(2) fits t Put by simp
  next
    case (Get n)
    with Cons.prems(2) obtain out' where sp: "queued s \<noteq> []" "out = take n (queued s) @ out'"
        "fifo_spec cap ops (drop n (queued s)) = Some (out', q)" by (auto split: if_splits)
    from deq_some [OF Cons.prems(1) sp(1), of n] obtain t
      where t: "deq n s = Some (take n (queued s), t)" "ok t" "queued t = drop n (queued s)" by auto
    from Cons.IH [OF t(2), of out'] show ?thesis using sp t Get by auto
  qed
qed simp

end

lemma wakeup1_pipe [simp]:
  "pipe_bytes p (wakeup1 ch s) = pipe_bytes p s" "pipe_wf p (wakeup1 ch s) = pipe_wf p s"
  by (simp_all add: pipe_bytes_def pipe_wf_def nread_def nwrite_def wakeup1_def)

lemma upd_proc_pipe [simp]:
  "pipe_bytes p (upd_proc i f s) = pipe_bytes p s" "pipe_wf p (upd_proc i f s) = pipe_wf p s"
  by (simp_all add: pipe_bytes_def pipe_wf_def nread_def nwrite_def upd_proc_def)

lemma pipewrite_fits:
  assumes "quiet s" and "pipe_wf p s" and "length (pipe_bytes p s) + length bs \<le> 512"
  shows "pipewrite p bs (int (length bs)) s = Ret (int (length bs)) (wakeup1 (ChanPipeRead p) (pipe_put p bs s))"
  using pipewrite_loop_append [of p "with_locks [PipeLock p] s" bs "[]"] assms
  by (simp add: pipewrite_def pipewrite_end_def)

declare piperead_loop.simps [simp del]

lemma piperead_some:
  assumes "quiet s" and "pipe_bytes p s \<noteq> [] \<or> writeopen p s = 0"
  shows "piperead p (int n) s =
    (let k = min n (length (pipe_bytes p s))
     in Ret (int k, take n (pipe_bytes p s)) (wakeup1 (ChanPipeWrite p) (pipe_get p k s)))"
proof -
  have ne: "\<not> (nread p s = nwrite p s \<and> writeopen p s \<noteq> 0)" using assms(2) by (auto simp: pipe_bytes_def)
  have "piperead_loop p (int n) (with_locks [PipeLock p] s) =
      (let (bs, s) = piperead_copy p n (with_locks [PipeLock p] s)
       in kbind (wakeup (ChanPipeWrite p) s) (\<lambda>_ s.
          kbind (release (PipeLock p) s) (\<lambda>_ s. Ret (int (length bs), bs) s)))"
    using ne by (subst piperead_loop.simps) auto
  with assms(1) show ?thesis by (simp add: piperead_def piperead_copy_eq Let_def min.commute)
qed

definition pipe_enq :: "u32 \<Rightarrow> u8 list \<Rightarrow> 'z file_state_scheme \<Rightarrow> 'z file_state_scheme option" where
  "pipe_enq p bs s = (case pipewrite p bs (int (length bs)) s of Ret r t \<Rightarrow> Some t | _ \<Rightarrow> None)"

definition pipe_deq :: "u32 \<Rightarrow> nat \<Rightarrow> 'z file_state_scheme \<Rightarrow> (u8 list \<times> 'z file_state_scheme) option" where
  "pipe_deq p n s = (case piperead p (int n) s of Ret (r, bs) t \<Rightarrow> Some (bs, t) | _ \<Rightarrow> None)"

definition pipe_ready :: "u32 \<Rightarrow> 'z mem_state_scheme \<Rightarrow> bool" where
  "pipe_ready p s \<longleftrightarrow> quiet s \<and> pipe_wf p s"

interpretation pipe_fifo: fifo 512 "pipe_ready p" "pipe_bytes p" "pipe_enq p" "pipe_deq p" for p
proof
  fix s :: "'z file_state_scheme" and xs :: "u8 list"
  assume a: "pipe_ready p s" "length (pipe_bytes p s) + length xs \<le> 512"
  then show "\<exists>t. pipe_enq p xs s = Some t \<and> pipe_ready p t \<and> pipe_bytes p t = pipe_bytes p s @ xs"
    using pipe_put_bytes [of p s xs] by (simp add: pipe_ready_def pipe_enq_def pipewrite_fits)
next
  fix s :: "'z file_state_scheme" and n
  assume a: "pipe_ready p s" "pipe_bytes p s \<noteq> []"
  have "drop (min n (length (pipe_bytes p s))) (pipe_bytes p s) = drop n (pipe_bytes p s)" by (simp add: min_def del: pipe_len)
  then show "\<exists>t. pipe_deq p n s = Some (take n (pipe_bytes p s), t) \<and> pipe_ready p t \<and>
      pipe_bytes p t = drop n (pipe_bytes p s)"
    using a pipe_get_bytes [of p s "min n (length (pipe_bytes p s))"]
    by (simp add: pipe_ready_def pipe_deq_def piperead_some Let_def del: pipe_len)
qed

lemma pipewrite_full:
  assumes me: "in_proc s me" and wf: "pipe_wf p s"
    and full: "length (pipe_bytes p s) + length bs > 512"
    and ok: "readopen p s \<noteq> 0" "\<not> p_killed (ptable s me)"
  shows "pipewrite p bs (int (length bs)) s =
    Swtch (with_locks [PtableLock] (upd_proc me (\<lambda>q. q\<lparr>p_chan := Some (ChanPipeWrite p), p_state := SLEEPING\<rparr>)
      (wakeup1 (ChanPipeRead p) (pipe_put p (take (512 - length (pipe_bytes p s)) bs) s))))"
proof -
  define xs where "xs = take (512 - length (pipe_bytes p s)) bs"
  define t where "t = pipe_put p xs s"
  have le: "length (pipe_bytes p s) \<le> 512" using wf by (simp add: pipe_wf_def word_le_nat_alt PIPESIZE_def)
  then have xs: "length (pipe_bytes p s) + length xs = 512" using full by (simp add: xs_def min_def del: pipe_len)
  have "bs = xs @ drop (512 - length (pipe_bytes p s)) bs" by (simp add: xs_def)
  moreover have "drop (512 - length (pipe_bytes p s)) bs \<noteq> []" using full le by (auto simp del: pipe_len)
  ultimately obtain b ys where ys: "bs = xs @ b # ys" by (metis list.exhaust)
  have put: "pipe_bytes p t = pipe_bytes p s @ xs" "pipe_wf p t"
    using pipe_put_bytes [OF wf, of xs] xs by (simp_all add: t_def)
  have "nwrite p t = nread p t + PIPESIZE"
    using put xs by (intro pipe_full) (simp_all del: pipe_len)
  moreover have "in_proc (wakeup1 ch t) me" for ch using me by (simp add: t_def in_proc_def)
  moreover have "in_proc t me" using me by (simp add: t_def)
  moreover have "pipewrite_loop p bs (with_locks [PipeLock p] s) = pipewrite_loop p (b # ys) (with_locks [PipeLock p] t)"
    using wf xs unfolding ys t_def by (subst pipewrite_loop_append) (simp_all del: pipe_len)
  moreover have "quiet s" "quiet t" using me by (simp_all add: t_def)
  moreover have "readopen p t \<noteq> 0" "\<not> p_killed (ptable t me)" using ok by (simp_all add: t_def)
  ultimately show ?thesis
    unfolding xs_def [symmetric] t_def [symmetric]
    by (simp add: pipewrite_def) (subst pipewrite_loop.simps, simp add: sleep_with_locks)
qed

text \<open>C6: over any sequence of writes that fit and reads of a pipe that holds something, the reader gets the written
  bytes in the order they were written, none lost and none twice; \<open>nread\<close> and \<open>nwrite\<close> may wrap around.\<close>

theorem pipe_delivers_in_order:
  assumes "quiet s" and "nwrite p s - nread p s \<le> PIPESIZE"
    and "fifo_spec 512 ops (pipe_bytes p s) = Some (out, q)"
  shows "\<exists>t. fifo_run (pipe_enq p) (pipe_deq p) ops s = Some (out, t) \<and> pipe_bytes p t = q \<and>
      out @ pipe_bytes p t = pipe_bytes p s @ fifo_written ops"
proof -
  have "pipe_ready p s" using assms(1,2) by (simp add: pipe_ready_def pipe_wf_def)
  from pipe_fifo.run_refines [OF this assms(3)] fifo_spec_conserves [OF assms(3)] show ?thesis by auto
qed

text \<open>a write that does not fit stores the bytes the pipe has room for, makes the sleeping readers runnable and
  puts the writer to sleep on the pipe; the next read makes that writer runnable again.\<close>

theorem pipewrite_blocks_until_read:
  assumes "in_proc s me" and "me < NPROC" and "nwrite p s - nread p s \<le> PIPESIZE"
    and "length (pipe_bytes p s) + length bs > 512"
    and "readopen p s \<noteq> 0" and "\<not> p_killed (ptable s me)"
  shows "\<exists>t. pipewrite p bs (int (length bs)) s = Swtch (with_locks [PtableLock] t) \<and>
      pipe_bytes p t = pipe_bytes p s @ take (512 - length (pipe_bytes p s)) bs \<and>
      p_state (ptable t me) = SLEEPING \<and>
      (\<forall>n. \<exists>u. piperead p (int n) t = Ret (int (min n 512), take n (pipe_bytes p t)) u \<and>
               p_state (ptable u me) = RUNNABLE)"
proof -
  define xs where "xs = take (512 - length (pipe_bytes p s)) bs"
  define t where "t = upd_proc me (\<lambda>q. q\<lparr>p_chan := Some (ChanPipeWrite p), p_state := SLEEPING\<rparr>)
      (wakeup1 (ChanPipeRead p) (pipe_put p xs s))"
  have wf: "pipe_wf p s" using assms(3) by (simp add: pipe_wf_def)
  then have len: "length (pipe_bytes p s) + length xs = 512"
    using assms(4) by (auto simp: xs_def min_def pipe_wf_def word_le_nat_alt PIPESIZE_def)
  from pipe_put_bytes [OF wf, of xs] len
  have bytes: "pipe_bytes p t = pipe_bytes p s @ xs" by (simp add: t_def del: pipe_len)
  have "quiet t" using assms(1) by (simp add: t_def)
  moreover have "length (pipe_bytes p t) = 512" using bytes len by (simp del: pipe_len)
  moreover from this have "pipe_bytes p t \<noteq> []" by (auto simp del: pipe_len)
  ultimately have "piperead p (int n) t = Ret (int (min n 512), take n (pipe_bytes p t))
      (wakeup1 (ChanPipeWrite p) (pipe_get p (min n 512) t))" for n
    using piperead_some [of t p n] by (simp add: Let_def del: pipe_len)
  moreover have "p_state (ptable (wakeup1 (ChanPipeWrite p) (pipe_get p k t)) me) = RUNNABLE" for k
    using assms(2) by (simp add: wakeup1_ptable) (simp add: t_def)
  moreover have "pipewrite p bs (int (length bs)) s = Swtch (with_locks [PtableLock] t)"
    using pipewrite_full [OF assms(1) wf assms(4-6)] by (simp only: t_def xs_def)
  moreover have "p_state (ptable t me) = SLEEPING" by (simp add: t_def)
  ultimately show ?thesis
    using bytes unfolding xs_def [symmetric] by (intro exI [of _ t]) (simp del: pipe_len)
qed

section \<open>The table of open files\<close>

definition file_take :: "'z file_state_scheme \<Rightarrow> (nat \<times> 'z file_state_scheme) option" where
  "file_take s = (case filealloc s of Ret (Some f) t \<Rightarrow> Some (f, t) | _ \<Rightarrow> None)"

lemma filealloc_quiet:
  "quiet s \<Longrightarrow> filealloc s = (case first_idx NFILE (\<lambda>f. f_ref (ftable s f) = 0) of
     Some f \<Rightarrow> Ret (Some f) (upd_file f (\<lambda>x. x\<lparr>f_ref := 1\<rparr>) s) | None \<Rightarrow> Ret None s)"
  by (simp add: filealloc_def upd_file_def split: option.splits)

interpretation open_files: slot_table NFILE "\<lambda>s f. f_ref (ftable s f) \<noteq> 0" quiet file_take
proof
  fix s t :: "'z file_state_scheme" and f j :: nat
  assume q: "quiet s"
  show "file_take s = None \<longleftrightarrow> (\<forall>f<NFILE. f_ref (ftable s f) \<noteq> 0)"
    using q by (auto simp: file_take_def filealloc_quiet first_idx_None split: option.splits dest: first_idx_SomeD)
  assume a: "file_take s = Some (f, t)"
  then have f: "first_idx NFILE (\<lambda>f. f_ref (ftable s f) = 0) = Some f" and t: "t = upd_file f (\<lambda>x. x\<lparr>f_ref := 1\<rparr>) s"
    using q by (auto simp: file_take_def filealloc_quiet split: option.splits)
  show "f < NFILE \<and> \<not> f_ref (ftable s f) \<noteq> 0 \<and> (\<forall>j<f. f_ref (ftable s j) \<noteq> 0)"
    using f by (auto simp: first_idx_Some)
  show "f_ref (ftable t j) \<noteq> 0 \<longleftrightarrow> j = f \<or> f_ref (ftable s j) \<noteq> 0" "quiet t"
    using q by (auto simp: t upd_file_def)
qed

text \<open>\<open>filealloc\<close> twice in a row, as \<open>pipealloc\<close> calls it, takes the two lowest free entries of the table, different ones,
  each with one reference; it returns null exactly when all 100 entries are in use.\<close>

theorem filealloc_two_free:
  assumes "quiet s"
  shows "if \<exists>f<NFILE. f_ref (ftable s f) = 0
    then \<exists>f t. filealloc s = Ret (Some f) t \<and> f_ref (ftable s f) = 0 \<and> (\<forall>j<f. f_ref (ftable s j) \<noteq> 0) \<and>
      f_ref (ftable t f) = 1 \<and> (\<forall>j. j \<noteq> f \<longrightarrow> ftable t j = ftable s j) \<and>
      (\<forall>g u. filealloc t = Ret (Some g) u \<longrightarrow> f < g \<and> g < NFILE)
    else filealloc s = Ret None s"
proof (cases "first_idx NFILE (\<lambda>f. f_ref (ftable s f) = 0)")
  case None
  then have "\<not> (\<exists>f<NFILE. f_ref (ftable s f) = 0)" by (simp add: first_idx_None)
  then show ?thesis using assms None by (simp only: filealloc_quiet if_False option.case)
next
  case (Some f)
  let ?t = "upd_file f (\<lambda>x. x\<lparr>f_ref := 1\<rparr>) s"
  have s: "file_take s = Some (f, ?t)" using assms Some by (simp add: file_take_def filealloc_quiet)
  note fr = open_files.alloc_fresh [OF assms s]
  have "f < g \<and> g < NFILE" if "filealloc ?t = Ret (Some g) u" for g u
  proof -
    have g: "file_take ?t = Some (g, u)" using that by (simp add: file_take_def)
    note ok = open_files.alloc_ok [OF assms s]
    have "g < NFILE" "f_ref (ftable ?t g) = 0" using open_files.alloc_fresh [OF ok g] by auto
    moreover have "g \<noteq> f" using open_files.alloc_twice_distinct [OF assms s g] by simp
    ultimately show ?thesis using fr open_files.alloc_used [OF assms s, of g] by (metis linorder_neqE_nat)
  qed
  moreover have "\<exists>f<NFILE. f_ref (ftable s f) = 0" using fr by blast
  ultimately show ?thesis
    using assms Some fr by (auto simp: filealloc_quiet upd_file_def)
qed

section \<open>A concrete state\<close>

definition demo_file :: file_struct where
  "demo_file = \<lparr>f_type = FD_NONE, f_ref = 0, f_readable = False, f_writable = False, f_pipe = 0, f_ip = None, f_off = 0\<rparr>"

definition demo_inode :: inode where
  "demo_inode = \<lparr>i_dev = 0, i_inum = 0, i_ref = 0, i_valid = False, i_type = 0, i_major = 0, i_minor = 0, i_nlink = 0,
     i_size = 0, i_addrs = (\<lambda>_. 0), i_userid = [], i_mode = 0\<rparr>"

text \<open>A process with an empty pipe at 0x80100000, both ends open and the counters about to wrap around.\<close>

definition pipe_demo :: file_state where
  "pipe_demo = \<lparr>lapicid = 0, eflags_IF = True, ncpu = 1, cpus = (\<lambda>_. demo_cpu),
     locks = (\<lambda>_. free_lock), use_lock = True, freelist = 0x80400000,
     ram = store32 (store32 (store32 (\<lambda>_. 0) (0x80100000 + 564) 0xFFFFFFFE) (0x80100000 + 568) 0xFFFFFFFE)
             (0x80100000 + 572) 1,
     kend = 0x80400000,
     ptable = demo_table, initproc = Some 0, nextpid = 5, ticks = 100, cons_locking = True,
     console = [], kpgdir = 0x803FF000, forkret_addr = 0x80103000, trapret_addr = 0x80106000, mlfq = False,
     sleeplks = (\<lambda>_. sl_free), bufs = (\<lambda>_. empty_buf), lru = [0..<30], disk = (\<lambda>_ _. 0), disksize = 1000, writes = [],
     log_start = 2, log_size = 30, log_outstanding = 0, log_committing = False, log_dev = 1, lh_n = 0, lh_block = (\<lambda>_. 0),
     sb = \<lparr>sb_size = 1000, sb_nblocks = 941, sb_ninodes = 200, sb_nlog = 30, sb_logstart = 2, sb_inodestart = 32, sb_bmapstart = 58\<rparr>,
     icache = (\<lambda>_. demo_inode), devsw_read = (\<lambda>_. None), devsw_write = (\<lambda>_. None),
     input_buf = (\<lambda>_. 0), input_r = 0, input_w = 0, input_e = 0, ftable = (\<lambda>_. demo_file)\<rparr>"

lemma pipe_demo_in: "in_proc pipe_demo 1"
  by (simp add: in_proc_def quiet_def cpu_known_def this_cpu_def pipe_demo_def demo_cpu_def first_idx_one)

lemma pipe_demo_fields:
  "nread 0x80100000 pipe_demo = 0xFFFFFFFE" "nwrite 0x80100000 pipe_demo = 0xFFFFFFFE"
  "readopen 0x80100000 pipe_demo = 1" "pipe_bytes 0x80100000 pipe_demo = []" "ptable pipe_demo = demo_table"
proof -
  show nr: "nread 0x80100000 pipe_demo = 0xFFFFFFFE" and nw: "nwrite 0x80100000 pipe_demo = 0xFFFFFFFE"
    by (simp_all add: nread_def nwrite_def pipe_demo_def store32_def load32_put_other) (simp_all add: store32_def [symmetric])
  show "readopen 0x80100000 pipe_demo = 1" by (simp add: readopen_def pipe_demo_def)
  show "pipe_bytes 0x80100000 pipe_demo = []" by (simp add: pipe_bytes_def nr nw)
  show "ptable pipe_demo = demo_table" by (simp add: pipe_demo_def)
qed

theorem pipe_delivers_in_order_witness:
  "\<exists>t. fifo_run (pipe_enq 0x80100000) (pipe_deq 0x80100000)
       [Put [1, 2, 3], Get 2, Put [4], Get 5] pipe_demo = Some ([1, 2, 3, 4], t) \<and> pipe_bytes 0x80100000 t = []"
  using pipe_delivers_in_order [of pipe_demo "0x80100000" "[Put [1, 2, 3], Get 2, Put [4], Get 5]" "[1, 2, 3, 4]" "[]"]
    in_proc_quiet [OF pipe_demo_in]
  by (simp add: pipe_demo_fields)

theorem pipewrite_blocks_until_read_witness:
  "\<exists>t u. pipewrite 0x80100000 (replicate 600 7) 600 pipe_demo = Swtch (with_locks [PtableLock] t) \<and>
     p_state (ptable t 1) = SLEEPING \<and>
     piperead 0x80100000 3 t = Ret (3, [7, 7, 7]) u \<and> p_state (ptable u 1) = RUNNABLE"
proof -
  have "\<not> p_killed (ptable pipe_demo 1)" by (simp add: pipe_demo_fields demo_table_def zero_proc_def)
  from pipewrite_blocks_until_read [OF pipe_demo_in _ _ _ _ this, of "0x80100000" "replicate 600 7"]
  obtain t where t: "pipewrite 0x80100000 (replicate 600 7) 600 pipe_demo = Swtch (with_locks [PtableLock] t)"
    "pipe_bytes 0x80100000 t = replicate 512 7" "p_state (ptable t 1) = SLEEPING"
    and rd: "\<forall>n. \<exists>u. piperead 0x80100000 (int n) t = Ret (int (min n 512), take n (pipe_bytes 0x80100000 t)) u \<and>
               p_state (ptable u 1) = RUNNABLE"
    by (auto simp: pipe_demo_fields NPROC_def)
  from rd [rule_format, of 3] t show ?thesis by (simp add: numeral_3_eq_3) blast
qed

theorem filealloc_two_free_witness: "\<exists>f t. filealloc pipe_demo = Ret (Some f) t \<and> f_ref (ftable t f) = 1"
proof -
  have "f_ref (ftable pipe_demo 0) = 0" by (simp add: pipe_demo_def demo_file_def)
  then have "\<exists>f<NFILE. f_ref (ftable pipe_demo f) = 0" by (intro exI [of _ 0]) (simp add: NFILE_def)
  then show ?thesis using filealloc_two_free [OF in_proc_quiet [OF pipe_demo_in]] by auto
qed

end
