(* ===== verification/Vm.thy ===== *)
theory Vm
  imports Files
begin

text \<open>
  Page tables (\<open>vm.c\<close>). A page directory is the address of its page; its entries and those of the page tables
  are 32-bit words in \<open>ram\<close>. \<open>kdata\<close> is the linker symbol \<open>data\<close>. \<open>user_get\<close> and \<open>user_put\<close> are the kernel's
  accesses through a user's pointer, which the hardware translates by the page table of the running process: an
  access to an address that is not mapped is a fault.
\<close>

section \<open>Data\<close>

record vm_state = file_state +
  kdata :: u32

lemma vm_this_cpu [simp]:
  "this_cpu (s\<lparr>kdata := x0\<rparr>) = this_cpu s"
  by (simp_all add: this_cpu_def)

lemma vm_cpu_known [simp]:
  "cpu_known (s\<lparr>kdata := x0\<rparr>) = cpu_known s"
  by (simp_all add: cpu_known_def)

lemma vm_quiet [simp]:
  "quiet (s\<lparr>kdata := x0\<rparr>) = quiet s"
  by (simp_all add: quiet_def)

lemma vm_sel [simp]:
  "kdata (with_locks L s) = kdata s"
  by (simp_all add: with_locks_def)

lemma vm_upd [simp]:
  "(with_locks L s)\<lparr>kdata := x0\<rparr> = with_locks L (s\<lparr>kdata := x0\<rparr>)"
  by (simp_all add: with_locks_def cong: if_cong)

definition PTE_P :: u32 where "PTE_P = 1"
definition PTE_W :: u32 where "PTE_W = 2"
definition PTE_U :: u32 where "PTE_U = 4"
definition EXTMEM :: u32 where "EXTMEM = 0x100000"
definition DEVSPACE :: u32 where "DEVSPACE = 0xFE000000"
definition KERNLINK :: u32 where "KERNLINK = KERNBASE + EXTMEM"
definition NPDENTRIES :: nat where "NPDENTRIES = 1024"

definition PDX :: "u32 \<Rightarrow> u32" where "PDX va = and (drop_bit 22 va) 0x3FF"
definition PTX :: "u32 \<Rightarrow> u32" where "PTX va = and (drop_bit 12 va) 0x3FF"
definition PGADDR :: "u32 \<Rightarrow> u32 \<Rightarrow> u32 \<Rightarrow> u32" where "PGADDR d t o' = or (or (push_bit 22 d) (push_bit 12 t)) o'"
definition PTE_ADDR :: "u32 \<Rightarrow> u32" where "PTE_ADDR e = and e (not 0xFFF)"
definition PTE_FLAGS :: "u32 \<Rightarrow> u32" where "PTE_FLAGS e = and e 0xFFF"

definition peek32 :: "u32 \<Rightarrow> 'z mem_state_scheme \<Rightarrow> u32" where
  "peek32 a s = load32 (ram s) (unat a)"

section \<open>Page tables\<close>

text \<open>The address of the page table entry for \<open>va\<close>, or the null pointer.\<close>

definition walkpgdir :: "u32 \<Rightarrow> u32 \<Rightarrow> bool \<Rightarrow> 'z vm_state_scheme \<Rightarrow> (u32 option, 'z vm_state_scheme) res" where
  "walkpgdir pgdir va alloc s =
     (let pde = pgdir + 4 * PDX va
      in if and (peek32 pde s) PTE_P \<noteq> 0 then Ret (Some (P2V (PTE_ADDR (peek32 pde s)) + 4 * PTX va)) s
         else if \<not> alloc then Ret None s
         else kbind (kalloc s) (\<lambda>pgtab s.
              if pgtab = 0 then Ret None s
              else let s = s\<lparr>ram := memset (ram s) (unat pgtab) 0 (unat PGSIZE)\<rparr>;
                       s = poke32 (unat pde) (or (or (or (V2P pgtab) PTE_P) PTE_W) PTE_U) s
                   in Ret (Some (pgtab + 4 * PTX va)) s))"

text \<open>The loop of \<open>mappages\<close> from \<open>a\<close> on, with \<open>n\<close> pages to map after the one at \<open>a\<close>.\<close>

fun mappages_loop :: "u32 \<Rightarrow> u32 \<Rightarrow> nat \<Rightarrow> u32 \<Rightarrow> u32 \<Rightarrow> 'z vm_state_scheme \<Rightarrow> (int, 'z vm_state_scheme) res" where
  "mappages_loop pgdir a n pa perm s =
     kbind (walkpgdir pgdir a True s) (\<lambda>pte s.
     case pte of None \<Rightarrow> Ret (-1) s
     | Some pte \<Rightarrow>
         if and (peek32 pte s) PTE_P \<noteq> 0 then Panic ''remap''
         else let s = poke32 (unat pte) (or (or pa perm) PTE_P) s
              in case n of 0 \<Rightarrow> Ret 0 s
                 | Suc n \<Rightarrow> mappages_loop pgdir (a + PGSIZE) n (pa + PGSIZE) perm s)"

definition mappages :: "u32 \<Rightarrow> u32 \<Rightarrow> u32 \<Rightarrow> u32 \<Rightarrow> u32 \<Rightarrow> 'z vm_state_scheme \<Rightarrow> (int, 'z vm_state_scheme) res" where
  "mappages pgdir va sz pa perm s =
     (let a = PGROUNDDOWN va;
          last = PGROUNDDOWN (va + sz - 1)
      in mappages_loop pgdir a (unat ((last - a) div PGSIZE)) pa perm s)"

text \<open>
  \<open>deallocuvm\<close>: the loop from \<open>a\<close> on. A missing page table skips to the next one. For \<open>oldsz\<close> above the last
  page table's range the address would wrap around and the loop not end, which is the outcome \<open>Fault\<close>.
\<close>

function deallocuvm_loop :: "u32 \<Rightarrow> u32 \<Rightarrow> u32 \<Rightarrow> 'z vm_state_scheme \<Rightarrow> (unit, 'z vm_state_scheme) res" where
  "deallocuvm_loop pgdir a oldsz s =
     (if a < oldsz then
        kbind (walkpgdir pgdir a False s) (\<lambda>pte s.
        kbind (case pte of
                 None \<Rightarrow> Ret (PGADDR (PDX a + 1) 0 0 - PGSIZE + PGSIZE) s
               | Some pte \<Rightarrow>
                   if and (peek32 pte s) PTE_P \<noteq> 0 then
                     let pa = PTE_ADDR (peek32 pte s)
                     in if pa = 0 then Panic ''kfree''
                        else kbind (kfree (P2V pa) s) (\<lambda>_ s. Ret (a + PGSIZE) (poke32 (unat pte) 0 s))
                   else Ret (a + PGSIZE) s) (\<lambda>a' s.
        if a' > a then deallocuvm_loop pgdir a' oldsz s else Fault ''deallocuvm: endless loop''))
      else Ret () s)"
  by pat_completeness auto
termination
  by (relation "measure (\<lambda>(_, a, oldsz, _). unat oldsz - unat a)") (auto simp: word_less_nat_alt)

definition deallocuvm :: "u32 \<Rightarrow> u32 \<Rightarrow> u32 \<Rightarrow> 'z vm_state_scheme \<Rightarrow> (u32, 'z vm_state_scheme) res" where
  "deallocuvm pgdir oldsz newsz s =
     (if newsz \<ge> oldsz then Ret oldsz s
      else kbind (deallocuvm_loop pgdir (PGROUNDUP newsz) oldsz s) (\<lambda>_ s. Ret newsz s))"

definition freevm_table :: "u32 \<Rightarrow> nat \<Rightarrow> 'z vm_state_scheme \<Rightarrow> (unit, 'z vm_state_scheme) res" where
  "freevm_table pgdir i s =
     (let e = peek32 (pgdir + of_nat (4 * i)) s
      in if and e PTE_P \<noteq> 0 then kfree (P2V (PTE_ADDR e)) s else Ret () s)"

definition freevm :: "u32 \<Rightarrow> 'z vm_state_scheme \<Rightarrow> (unit, 'z vm_state_scheme) res" where
  "freevm pgdir s =
     (if pgdir = 0 then Panic ''freevm: no pgdir''
      else kbind (deallocuvm pgdir KERNBASE 0 s) (\<lambda>_ s.
           kbind (kfor [0..<NPDENTRIES] (freevm_table pgdir) s) (\<lambda>_ s.
           kfree pgdir s)))"

text \<open>The table \<open>kmap\<close>: virtual address, physical start and end, permissions.\<close>

definition kmap :: "u32 \<Rightarrow> (u32 \<times> u32 \<times> u32 \<times> u32) list" where
  "kmap data = [(KERNBASE, 0, EXTMEM, PTE_W), (KERNLINK, V2P KERNLINK, V2P data, 0),
     (data, V2P data, PHYSTOP, PTE_W), (DEVSPACE, DEVSPACE, 0, PTE_W)]"

definition setupkvm_round :: "u32 \<Rightarrow> u32 \<times> u32 \<times> u32 \<times> u32 \<Rightarrow> 'z vm_state_scheme \<Rightarrow> (unit option, 'z vm_state_scheme) res" where
  "setupkvm_round pgdir = (\<lambda>(virt, phys_start, phys_end, perm) s.
     kbind (mappages pgdir virt (phys_end - phys_start) phys_start perm s) (\<lambda>r s.
     if r < 0 then kbind (freevm pgdir s) (\<lambda>_ s. Ret (Some ()) s) else Ret None s))"

definition setupkvm :: "'z vm_state_scheme \<Rightarrow> (u32, 'z vm_state_scheme) res" where
  "setupkvm s =
     kbind (kalloc s) (\<lambda>pgdir s.
     if pgdir = 0 then Ret 0 s
     else let s = s\<lparr>ram := memset (ram s) (unat pgdir) 0 (unat PGSIZE)\<rparr>
          in if P2V PHYSTOP > DEVSPACE then Panic ''PHYSTOP too high''
             else kbind (kscan (kmap (kdata s)) (setupkvm_round pgdir) s) (\<lambda>bad s.
                  Ret (case bad of Some _ \<Rightarrow> 0 | None \<Rightarrow> pgdir) s))"

definition kvmalloc :: "'z vm_state_scheme \<Rightarrow> (unit, 'z vm_state_scheme) res" where
  "kvmalloc s = kbind (setupkvm s) (\<lambda>d s. switchkvm (s\<lparr>kpgdir := d\<rparr>))"

definition inituvm :: "u32 \<Rightarrow> u8 list \<Rightarrow> u32 \<Rightarrow> 'z vm_state_scheme \<Rightarrow> (unit, 'z vm_state_scheme) res" where
  "inituvm pgdir init sz s =
     (if sz \<ge> PGSIZE then Panic ''inituvm: more than a page''
      else kbind (kalloc s) (\<lambda>mem s.
           let s = s\<lparr>ram := memset (ram s) (unat mem) 0 (unat PGSIZE)\<rparr>
           in kbind (mappages pgdir 0 PGSIZE (V2P mem) (or PTE_W PTE_U) s) (\<lambda>_ s.
              Ret () (s\<lparr>ram := put_bytes (ram s) (unat mem) (take (unat sz) init)\<rparr>))))"

text \<open>The page addresses \<open>a, a + PGSIZE, ...\<close> below \<open>lim\<close>.\<close>

definition page_steps :: "u32 \<Rightarrow> u32 \<Rightarrow> u32 list" where
  "page_steps a lim = map (\<lambda>k. a + of_nat (4096 * k)) [0..<(unat lim - unat a + 4095) div 4096]"

definition loaduvm :: "u32 \<Rightarrow> u32 \<Rightarrow> nat \<Rightarrow> u32 \<Rightarrow> u32 \<Rightarrow> 'z vm_state_scheme \<Rightarrow> (int, 'z vm_state_scheme) res" where
  "loaduvm pgdir addr ip offset sz s =
     (if addr mod PGSIZE \<noteq> 0 then Panic ''loaduvm: addr must be page aligned''
      else kbind (kscan (page_steps 0 sz) (\<lambda>i s.
             kbind (walkpgdir pgdir (addr + i) False s) (\<lambda>pte s.
             case pte of None \<Rightarrow> Panic ''loaduvm: address should exist''
             | Some pte \<Rightarrow>
                 let pa = PTE_ADDR (peek32 pte s);
                     n = (if sz - i < PGSIZE then sz - i else PGSIZE)
                 in kbind (readi ip (offset + i) n s) (\<lambda>(r, bs) s.
                    let s = s\<lparr>ram := put_bytes (ram s) (unat (P2V pa)) bs\<rparr>
                    in if word_of_int r \<noteq> n then Ret (Some (-1)) s else Ret None s))) s) (\<lambda>r s.
           Ret (case r of Some e \<Rightarrow> e | None \<Rightarrow> 0) s))"

text \<open>One round of the loop of \<open>allocuvm\<close>; \<open>Some\<close> is the return in the middle of it.\<close>

definition allocuvm_round :: "u32 \<Rightarrow> u32 \<Rightarrow> u32 \<Rightarrow> u32 \<Rightarrow> 'z vm_state_scheme \<Rightarrow> (unit option, 'z vm_state_scheme) res" where
  "allocuvm_round pgdir oldsz newsz a s =
     kbind (kalloc s) (\<lambda>mem s.
     if mem = 0 then
       kbind (cprintf ''allocuvm out of memory\<newline>'' [] s) (\<lambda>_ s.
       kbind (deallocuvm pgdir newsz oldsz s) (\<lambda>_ s. Ret (Some ()) s))
     else let s = s\<lparr>ram := memset (ram s) (unat mem) 0 (unat PGSIZE)\<rparr>
          in kbind (mappages pgdir a PGSIZE (V2P mem) (or PTE_W PTE_U) s) (\<lambda>r s.
             if r < 0 then
               kbind (cprintf ''allocuvm out of memory (2)\<newline>'' [] s) (\<lambda>_ s.
               kbind (deallocuvm pgdir newsz oldsz s) (\<lambda>_ s.
               kbind (kfree mem s) (\<lambda>_ s. Ret (Some ()) s)))
             else Ret None s))"

definition allocuvm :: "u32 \<Rightarrow> u32 \<Rightarrow> u32 \<Rightarrow> 'z vm_state_scheme \<Rightarrow> (u32, 'z vm_state_scheme) res" where
  "allocuvm pgdir oldsz newsz s =
     (if newsz \<ge> KERNBASE then Ret 0 s
      else if newsz < oldsz then Ret oldsz s
      else kbind (kscan (page_steps (PGROUNDUP oldsz) newsz) (allocuvm_round pgdir oldsz newsz) s) (\<lambda>bad s.
           Ret (case bad of Some _ \<Rightarrow> 0 | None \<Rightarrow> newsz) s))"

definition clearpteu :: "u32 \<Rightarrow> u32 \<Rightarrow> 'z vm_state_scheme \<Rightarrow> (unit, 'z vm_state_scheme) res" where
  "clearpteu pgdir uva s =
     kbind (walkpgdir pgdir uva False s) (\<lambda>pte s.
     case pte of None \<Rightarrow> Panic ''clearpteu''
     | Some pte \<Rightarrow> Ret () (poke32 (unat pte) (and (peek32 pte s) (not PTE_U)) s))"

text \<open>One round of the loop of \<open>copyuvm\<close>; \<open>Some\<close> is the jump to \<open>bad\<close>.\<close>

definition copyuvm_round :: "u32 \<Rightarrow> u32 \<Rightarrow> u32 \<Rightarrow> 'z vm_state_scheme \<Rightarrow> (unit option, 'z vm_state_scheme) res" where
  "copyuvm_round pgdir d i s =
     kbind (walkpgdir pgdir i False s) (\<lambda>pte s.
     case pte of None \<Rightarrow> Panic ''copyuvm: pte should exist''
     | Some pte \<Rightarrow>
         if and (peek32 pte s) PTE_P = 0 then Panic ''copyuvm: page not present''
         else let pa = PTE_ADDR (peek32 pte s);
                  flags = PTE_FLAGS (peek32 pte s)
              in kbind (kalloc s) (\<lambda>mem s.
                 if mem = 0 then Ret (Some ()) s
                 else let s = s\<lparr>ram := memmove (ram s) (unat mem) (unat (P2V pa)) (unat PGSIZE)\<rparr>
                      in kbind (mappages d i PGSIZE (V2P mem) flags s) (\<lambda>r s.
                         if r < 0 then kbind (kfree mem s) (\<lambda>_ s. Ret (Some ()) s) else Ret None s)))"

definition copyuvm :: "u32 \<Rightarrow> u32 \<Rightarrow> 'z vm_state_scheme \<Rightarrow> (u32, 'z vm_state_scheme) res" where
  "copyuvm pgdir sz s =
     kbind (setupkvm s) (\<lambda>d s.
     if d = 0 then Ret 0 s
     else kbind (kscan (page_steps 0 sz) (copyuvm_round pgdir d) s) (\<lambda>bad s.
          case bad of None \<Rightarrow> Ret d s | Some _ \<Rightarrow> kbind (freevm d s) (\<lambda>_ s. Ret 0 s)))"

section \<open>User memory\<close>

text \<open>\<open>uva2ka\<close> reads the entry without testing the pointer \<open>walkpgdir\<close> returned.\<close>

definition uva2ka :: "u32 \<Rightarrow> u32 \<Rightarrow> 'z vm_state_scheme \<Rightarrow> (u32, 'z vm_state_scheme) res" where
  "uva2ka pgdir uva s =
     kbind (walkpgdir pgdir uva False s) (\<lambda>pte s.
     kbind (deref pte s) (\<lambda>pte s.
     if and (peek32 pte s) PTE_P = 0 then Ret 0 s
     else if and (peek32 pte s) PTE_U = 0 then Ret 0 s
     else Ret (P2V (PTE_ADDR (peek32 pte s))) s))"

lemma page_offset: "unat (va - PGROUNDDOWN va) < 4096"
proof -
  have "va - PGROUNDDOWN va = and va 0xFFF"
  proof -
    have "PGSIZE - 1 = mask 12" by (simp add: PGSIZE_def mask_eq_exp_minus_1)
    then have "PGROUNDDOWN va + and va (mask 12) = va"
      unfolding PGROUNDDOWN_def by (subst disjunctive_add) (auto simp: bit_simps intro!: bit_word_eqI)
    then have "va - PGROUNDDOWN va = and va (mask 12)" by (metis add_diff_cancel_left')
    then show ?thesis by (simp add: mask_eq_exp_minus_1)
  qed
  moreover have "and va 0xFFF < 0x1000" using and_mask_less' [of 12 va] by (simp add: mask_eq_exp_minus_1)
  ultimately show ?thesis by (simp add: word_less_nat_alt)
qed

function copyout :: "u32 \<Rightarrow> u32 \<Rightarrow> u8 list \<Rightarrow> 'z vm_state_scheme \<Rightarrow> (int, 'z vm_state_scheme) res" where
  "copyout pgdir va buf s =
     (if buf \<noteq> [] then
        let va0 = PGROUNDDOWN va
        in kbind (uva2ka pgdir va0 s) (\<lambda>pa0 s.
           if pa0 = 0 then Ret (-1) s
           else let n = min (length buf) (4096 - unat (va - va0));
                    s = s\<lparr>ram := put_bytes (ram s) (unat (pa0 + (va - va0))) (take n buf)\<rparr>
                in copyout pgdir (va0 + PGSIZE) (drop n buf) s)
      else Ret 0 s)"
  by pat_completeness auto
termination by (relation "measure (\<lambda>(_, _, buf, _). length buf)") (auto simp: page_offset)

definition translate :: "u32 \<Rightarrow> u32 \<Rightarrow> u32 \<Rightarrow> 'z mem_state_scheme \<Rightarrow> u32 option" where
  "translate pgdir need va s =
     (let pde = peek32 (pgdir + 4 * PDX va) s
      in if and pde PTE_P = 0 then None
         else let pte = peek32 (P2V (PTE_ADDR pde) + 4 * PTX va) s
              in if and pte need \<noteq> need then None else Some (P2V (PTE_ADDR pte) + and va 0xFFF))"

definition user_get :: "u32 \<Rightarrow> nat \<Rightarrow> 'z vm_state_scheme \<Rightarrow> (u8 list, 'z vm_state_scheme) res" where
  "user_get va n s =
     kbind (curproc s) (\<lambda>me s.
     let as = map (\<lambda>k. translate (p_pgdir (ptable s me)) PTE_P (va + of_nat k) s) [0..<n]
     in if list_all (\<lambda>a. a \<noteq> None) as then Ret (map (\<lambda>a. ram s (unat (the a))) as) s
        else Fault ''page fault in the kernel'')"

definition user_put_at :: "u32 \<Rightarrow> u32 \<Rightarrow> u8 list \<Rightarrow> 'z vm_state_scheme \<Rightarrow> (unit, 'z vm_state_scheme) res" where
  "user_put_at pgdir va bs s =
     kfor [0..<length bs] (\<lambda>k s.
       case translate pgdir (or PTE_P PTE_W) (va + of_nat k) s of
         None \<Rightarrow> Fault ''page fault in the kernel''
       | Some a \<Rightarrow> Ret () (s\<lparr>ram := (ram s)(unat a := bs ! k)\<rparr>)) s"

definition user_put :: "u32 \<Rightarrow> u8 list \<Rightarrow> 'z vm_state_scheme \<Rightarrow> (unit, 'z vm_state_scheme) res" where
  "user_put va bs s = kbind (curproc s) (\<lambda>me s. user_put_at (p_pgdir (ptable s me)) va bs s)"

end
