(* ===== verification/Args.thy ===== *)
theory Args
  imports Vm
begin

text \<open>
  Fetching system call arguments (\<open>syscall.c\<close>): the arguments lie above the saved \<open>esp\<close> on the user's stack, and
  pointers are checked against the size of the process. \<open>None\<close> stands for the result -1. A string argument is
  returned with the address it was found at.
\<close>

definition tf_eax :: nat where "tf_eax = 28"
definition tf_trapno :: nat where "tf_trapno = 48"
definition tf_err :: nat where "tf_err = 52"
definition tf_eip :: nat where "tf_eip = 56"
definition tf_cs :: nat where "tf_cs = 60"
definition tf_esp :: nat where "tf_esp = 68"

definition tf_get :: "nat \<Rightarrow> nat \<Rightarrow> 'z proc_state_scheme \<Rightarrow> u32" where
  "tf_get i fld s = load32 (ram s) (unat (p_tf (ptable s i)) + fld)"

definition tf_set :: "nat \<Rightarrow> nat \<Rightarrow> u32 \<Rightarrow> 'z proc_state_scheme \<Rightarrow> 'z proc_state_scheme" where
  "tf_set i fld v s = poke32 (unat (p_tf (ptable s i)) + fld) v s"

definition fetchint :: "u32 \<Rightarrow> 'z vm_state_scheme \<Rightarrow> (u32 option, 'z vm_state_scheme) res" where
  "fetchint addr s =
     kbind (curproc s) (\<lambda>me s.
     if addr \<ge> p_sz (ptable s me) \<or> addr + 4 > p_sz (ptable s me) then Ret None s
     else kbind (user_get addr 4 s) (\<lambda>bs s. Ret (Some (load32 (\<lambda>i. bs ! i) 0)) s))"

function fetchstr_loop :: "u32 \<Rightarrow> u32 \<Rightarrow> 'z vm_state_scheme \<Rightarrow> (cstring option, 'z vm_state_scheme) res" where
  "fetchstr_loop a ep s =
     (if a < ep then
        kbind (user_get a 1 s) (\<lambda>bs s.
        if hd bs = 0 then Ret (Some []) s
        else kbind (fetchstr_loop (a + 1) ep s) (\<lambda>r s. Ret (map_option (Cons (hd bs)) r) s))
      else Ret None s)"
  by pat_completeness auto
termination
proof (relation "measure (\<lambda>(a, ep, _). unat ep - unat a)")
  fix a ep :: u32 and s aa and t :: "'z vm_state_scheme"
  assume "a < ep"
  then have "unat a < unat ep" by (simp add: word_less_nat_alt)
  moreover from this have "unat (a + 1) = unat a + 1"
    using unsigned_less [of ep, where 'a = nat] by (simp add: unat_word_ariths)
  ultimately show "((a + 1, ep, t), a, ep, s) \<in> measure (\<lambda>(a, ep, _). unat ep - unat a)" by simp
qed simp

definition fetchstr :: "u32 \<Rightarrow> 'z vm_state_scheme \<Rightarrow> (cstring option, 'z vm_state_scheme) res" where
  "fetchstr addr s =
     kbind (curproc s) (\<lambda>me s.
     if addr \<ge> p_sz (ptable s me) then Ret None s
     else fetchstr_loop addr (p_sz (ptable s me)) s)"

definition argint :: "nat \<Rightarrow> 'z vm_state_scheme \<Rightarrow> (u32 option, 'z vm_state_scheme) res" where
  "argint n s = kbind (curproc s) (\<lambda>me s. fetchint (tf_get me tf_esp s + 4 + of_nat (4 * n)) s)"

definition argptr :: "nat \<Rightarrow> int \<Rightarrow> 'z vm_state_scheme \<Rightarrow> (u32 option, 'z vm_state_scheme) res" where
  "argptr n sz s =
     kbind (curproc s) (\<lambda>me s.
     kbind (argint n s) (\<lambda>i s.
     case i of None \<Rightarrow> Ret None s
     | Some i \<Rightarrow>
         if sz < 0 \<or> i \<ge> p_sz (ptable s me) \<or> i + word_of_int sz > p_sz (ptable s me) then Ret None s
         else Ret (Some i) s))"

definition argstr :: "nat \<Rightarrow> 'z vm_state_scheme \<Rightarrow> ((cstring \<times> u32) option, 'z vm_state_scheme) res" where
  "argstr n s =
     kbind (argint n s) (\<lambda>i s.
     case i of None \<Rightarrow> Ret None s
     | Some addr \<Rightarrow> kbind (fetchstr addr s) (\<lambda>r s. Ret (map_option (\<lambda>t. (t, addr)) r) s))"

text \<open>A failing argument ends the call with -1.\<close>

definition kopt :: "('a option, 's) res \<Rightarrow> ('a \<Rightarrow> 's \<Rightarrow> (int, 's) res) \<Rightarrow> (int, 's) res" where
  "kopt m f = kbind m (\<lambda>r s. case r of None \<Rightarrow> Ret (-1) s | Some x \<Rightarrow> f x s)"

definition argfd :: "nat \<Rightarrow> 'z vm_state_scheme \<Rightarrow> ((nat \<times> nat) option, 'z vm_state_scheme) res" where
  "argfd n s =
     kbind (argint n s) (\<lambda>r s.
     case r of None \<Rightarrow> Ret None s
     | Some w \<Rightarrow>
         let fd = sint w
         in if fd < 0 \<or> fd \<ge> int NOFILE then Ret None s
            else kbind (curproc s) (\<lambda>me s.
                 case p_ofile (ptable s me) (nat fd) of None \<Rightarrow> Ret None s
                 | Some f \<Rightarrow> Ret (Some (nat fd, f)) s))"

definition fdalloc :: "nat \<Rightarrow> 'z vm_state_scheme \<Rightarrow> (int, 'z vm_state_scheme) res" where
  "fdalloc f s =
     kbind (curproc s) (\<lambda>me s.
     case first_idx NOFILE (\<lambda>fd. p_ofile (ptable s me) fd = None) of
       Some fd \<Rightarrow> Ret (int fd) (upd_proc me (\<lambda>p. p\<lparr>p_ofile := (p_ofile p)(fd := Some f)\<rparr>) s)
     | None \<Rightarrow> Ret (-1) s)"

section \<open>What a checked pointer guarantees\<close>

lemma user_get_state: "in_proc s me \<Longrightarrow> user_get va n s = Ret bs t \<Longrightarrow> t = s"
  by (auto simp: user_get_def Let_def split: if_splits)

lemma fetchint_Some:
  assumes "in_proc s me" and "p_sz (ptable s me) \<le> KERNBASE" and "fetchint addr s = Ret (Some v) t"
  shows "t = s" "unat addr + 4 \<le> unat (p_sz (ptable s me))"
proof -
  have lt: "addr < p_sz (ptable s me)" "addr + 4 \<le> p_sz (ptable s me)" and "t = s"
    using assms by (auto simp: fetchint_def kret dest: user_get_state split: if_splits)
  then show "t = s" by simp
  have "unat (p_sz (ptable s me)) \<le> 2 ^ 31" using assms(2) by (simp add: word_le_nat_alt KERNBASE_def)
  moreover from this lt(1) have "unat (addr + 4) = unat addr + 4"
    by (simp add: unat_word_ariths word_less_nat_alt)
  ultimately show "unat addr + 4 \<le> unat (p_sz (ptable s me))" using lt(2) by (simp add: word_le_nat_alt)
qed

text \<open>C23: a pointer that \<open>argptr\<close> hands to a system call, with the size the call asked for, lies within the memory of the process,
  and so does the argument word it was read from; neither sum wraps around, since processes end below \<open>KERNBASE\<close>. The check
  changes nothing.\<close>

theorem argptr_within_process:
  assumes "in_proc s me" and "p_sz (ptable s me) \<le> KERNBASE" and "sz < 2 ^ 31" and "argptr n sz s = Ret (Some a) t"
  shows "t = s \<and> 0 \<le> sz \<and> unat a + nat sz \<le> unat (p_sz (ptable s me)) \<and>
    unat (tf_get me tf_esp s + 4 + of_nat (4 * n)) + 4 \<le> unat (p_sz (ptable s me))"
proof -
  let ?q = "p_sz (ptable s me)"
  let ?w = "tf_get me tf_esp s + 4 + of_nat (4 * n)"
  have ai: "argint n s = fetchint ?w s" using assms(1) by (simp add: argint_def)
  from assms(1,4) obtain v u where v: "fetchint ?w s = Ret (Some v) u"
    by (auto simp: argptr_def ai kret split: option.splits)
  note f = fetchint_Some [OF assms(1,2) v]
  have a: "t = s" "0 \<le> sz" "a < ?q" "a + word_of_int sz \<le> ?q"
    using assms(1,4) v f(1) by (auto simp: argptr_def ai split: if_splits)
  have "unat (word_of_int sz :: u32) = nat sz"
    using a(2) assms(3) by (simp add: unat_eq_nat_uint uint_word_of_int)
  moreover have "unat ?q \<le> 2 ^ 31" using assms(2) by (simp add: word_le_nat_alt KERNBASE_def)
  ultimately have "unat (a + word_of_int sz) = unat a + nat sz"
    using a(3) assms(3) by (simp add: unat_word_ariths word_less_nat_alt)
  then show ?thesis using a f(2) by (simp add: word_le_nat_alt)
qed

section \<open>A concrete process\<close>

text \<open>
  One page of memory: the page directory at 0x80100000, its only page table at 0x80101000, the page at 0x80102000, the trap
  frame at 0x80103000. The user stack pointer is 0xFE0 and the first argument, at 0xFE4, is 0x10.
\<close>

definition args_ram :: buffer where
  "args_ram = store32 (store32 (store32 (store32 (\<lambda>_. 0) 0x80100000 0x00101007) 0x80101000 0x00102007)
     0x80102FE4 0x10) (0x80103000 + 68) 0xFE0"

definition args_demo :: vm_state where
  "args_demo = file_state.extend (pipe_demo\<lparr>ram := args_ram,
     ptable := demo_table(1 := (demo_table 1)\<lparr>p_sz := 4096, p_pgdir := 0x80100000, p_tf := 0x80103000\<rparr>)\<rparr>) (vm_state.fields 0x8010A000)"

lemma args_demo_sel:
  "ram args_demo = args_ram" "p_sz (ptable args_demo 1) = 4096" "p_pgdir (ptable args_demo 1) = 0x80100000"
  "p_tf (ptable args_demo 1) = 0x80103000"
  by (simp_all add: args_demo_def file_state.defs vm_state.defs)

lemma args_demo_in: "in_proc args_demo 1"
  by (simp add: in_proc_def quiet_def cpu_known_def this_cpu_def args_demo_def pipe_demo_def demo_cpu_def first_idx_one
      vm_state.defs file_state.defs)

lemma args_demo_words:
  "load32 args_ram 0x80100000 = 0x00101007" "load32 args_ram 0x80101000 = 0x00102007"
  "load32 args_ram 0x80102FE4 = 0x10" "load32 args_ram (0x80103000 + 68) = 0xFE0"
  by (simp_all add: args_ram_def store32_def load32_put_other) (simp_all add: store32_def [symmetric])

lemma args_demo_translate:
  "a \<in> {0xFE4, 0xFE5, 0xFE6, 0xFE7} \<Longrightarrow> translate 0x80100000 PTE_P a args_demo = Some (0x80102000 + a)"
  by (auto simp: translate_def peek32_def args_demo_sel args_demo_words PDX_def PTX_def PTE_P_def PTE_ADDR_def P2V_def KERNBASE_def Let_def)

lemma args_demo_argptr: "argptr 0 16 args_demo = Ret (Some 0x10) args_demo"
proof -
  have esp: "tf_get 1 tf_esp args_demo = 0xFE0"
    using args_demo_words(4) by (simp add: tf_get_def args_demo_sel [unfolded One_nat_def] tf_esp_def)
  have "[0..<4] = [0, 1, 2, 3 :: nat]" by (simp add: upt_rec)
  then have "user_get 0xFE4 4 args_demo = Ret (map (\<lambda>k. args_ram (0x80102FE4 + k)) [0, 1, 2, 3]) args_demo"
    using args_demo_in by (simp add: user_get_def args_demo_sel [unfolded One_nat_def] args_demo_translate)
  moreover have "load32 (\<lambda>i. map (\<lambda>k. args_ram (0x80102FE4 + k)) [0, 1, 2, 3] ! i) 0 = 0x10"
    using args_demo_words(3) by (simp add: load32_def numeral_2_eq_2 numeral_3_eq_3)
  ultimately have "fetchint 0xFE4 args_demo = Ret (Some 0x10) args_demo"
    using args_demo_in by (simp add: fetchint_def args_demo_sel [unfolded One_nat_def])
  then show ?thesis using args_demo_in esp by (simp add: argptr_def argint_def args_demo_sel [unfolded One_nat_def])
qed

theorem argptr_within_process_witness:
  "argptr 0 16 args_demo = Ret (Some 0x10) args_demo \<and> unat (0x10 :: u32) + nat 16 \<le> unat (p_sz (ptable args_demo 1))"
  using argptr_within_process [OF args_demo_in _ _ args_demo_argptr] args_demo_argptr
  by (simp add: args_demo_sel [unfolded One_nat_def] KERNBASE_def)

end
