(* ===== verification/SysFile.thy ===== *)
theory SysFile
  imports Args
begin

text \<open>
  The file-system calls of \<open>sysfile.c\<close>, with the permission checks of Project 3. A label \<open>bad\<close> of the code is a
  definition of its own. \<open>sys_exec\<close> is in the theory of \<open>exec\<close>.
\<close>

definition O_RDONLY :: u32 where "O_RDONLY = 0"
definition O_WRONLY :: u32 where "O_WRONLY = 1"
definition O_RDWR :: u32 where "O_RDWR = 2"
definition O_CREATE :: u32 where "O_CREATE = 0x200"

section \<open>Calls on descriptors\<close>

definition sys_dup :: "'z vm_state_scheme \<Rightarrow> (int, 'z vm_state_scheme) res" where
  "sys_dup s =
     kopt (argfd 0 s) (\<lambda>(_, f) s.
     kbind (fdalloc f s) (\<lambda>fd s.
     if fd < 0 then Ret (-1) s else kbind (filedup f s) (\<lambda>_ s. Ret fd s)))"

definition sys_read :: "'z vm_state_scheme \<Rightarrow> (int, 'z vm_state_scheme) res" where
  "sys_read s =
     kopt (argfd 0 s) (\<lambda>(_, f) s.
     kopt (argint 2 s) (\<lambda>n s.
     kopt (argptr 1 (sint n) s) (\<lambda>p s.
     kbind (fileread f (sint n) s) (\<lambda>(r, bs) s.
     kbind (user_put p bs s) (\<lambda>_ s. Ret r s)))))"

definition sys_write :: "'z vm_state_scheme \<Rightarrow> (int, 'z vm_state_scheme) res" where
  "sys_write s =
     kopt (argfd 0 s) (\<lambda>(_, f) s.
     kopt (argint 2 s) (\<lambda>n s.
     kopt (argptr 1 (sint n) s) (\<lambda>p s.
     kbind (user_get p (nat (sint n)) s) (\<lambda>bs s. filewrite f bs (sint n) s))))"

definition sys_close :: "'z vm_state_scheme \<Rightarrow> (int, 'z vm_state_scheme) res" where
  "sys_close s =
     kopt (argfd 0 s) (\<lambda>(fd, f) s.
     kbind (curproc s) (\<lambda>me s.
     let s = upd_proc me (\<lambda>p. p\<lparr>p_ofile := (p_ofile p)(fd := None)\<rparr>) s
     in kbind (fileclose f s) (\<lambda>_ s. Ret 0 s)))"

definition sys_fstat :: "'z vm_state_scheme \<Rightarrow> (int, 'z vm_state_scheme) res" where
  "sys_fstat s =
     kopt (argfd 0 s) (\<lambda>(_, f) s.
     kopt (argptr 1 40 s) (\<lambda>st s.
     kbind (user_get st 40 s) (\<lambda>old s.
     kbind (filestat f (\<lambda>i. old ! i) s) (\<lambda>(r, new) s.
     kbind (user_put st (get_bytes new 0 40) s) (\<lambda>_ s. Ret r s)))))"

section \<open>Links\<close>

definition link_bad :: "nat \<Rightarrow> 'z vm_state_scheme \<Rightarrow> (int, 'z vm_state_scheme) res" where
  "link_bad ip s =
     kbind (ilock (Some ip) s) (\<lambda>_ s.
     kbind (iupdate ip (upd_inode ip (\<lambda>p. p\<lparr>i_nlink := i_nlink p - 1\<rparr>) s)) (\<lambda>_ s.
     kbind (iunlockput ip s) (\<lambda>_ s.
     kbind (end_op s) (\<lambda>_ s. Ret (-1) s))))"

definition sys_link :: "'z vm_state_scheme \<Rightarrow> (int, 'z vm_state_scheme) res" where
  "sys_link s =
     kopt (argstr 0 s) (\<lambda>(old, _) s.
     kopt (argstr 1 s) (\<lambda>(new, _) s.
     kbind (begin_op s) (\<lambda>_ s.
     kbind (namei old s) (\<lambda>ip s.
     case ip of None \<Rightarrow> kbind (end_op s) (\<lambda>_ s. Ret (-1) s)
     | Some ip \<Rightarrow>
         kbind (ilock (Some ip) s) (\<lambda>_ s.
         if i_type (icache s ip) = T_DIR then
           kbind (iunlockput ip s) (\<lambda>_ s. kbind (end_op s) (\<lambda>_ s. Ret (-1) s))
         else
           kbind (iupdate ip (upd_inode ip (\<lambda>p. p\<lparr>i_nlink := i_nlink p + 1\<rparr>) s)) (\<lambda>_ s.
           kbind (iunlock (Some ip) s) (\<lambda>_ s.
           kbind (nameiparent new s) (\<lambda>(dp, name) s.
           case dp of None \<Rightarrow> link_bad ip s
           | Some dp \<Rightarrow>
               kbind (ilock (Some dp) s) (\<lambda>_ s.
               kbind (if i_dev (icache s dp) \<noteq> i_dev (icache s ip) then Ret True s
                      else kbind (dirlink dp name (i_inum (icache s ip)) s) (\<lambda>r s. Ret (r < 0) s)) (\<lambda>bad s.
               kbind (iunlockput dp s) (\<lambda>_ s.
               if bad then link_bad ip s
               else kbind (iput ip s) (\<lambda>_ s. kbind (end_op s) (\<lambda>_ s. Ret 0 s)))))))))))))"

definition isdirempty :: "nat \<Rightarrow> 'z vm_state_scheme \<Rightarrow> (bool, 'z vm_state_scheme) res" where
  "isdirempty dp s =
     kbind (kscan (drop 2 (entries (i_size (icache s dp)))) (\<lambda>k s.
       kbind (readi dp (of_nat (16 * k)) 16 s) (\<lambda>(r, de) s.
       if r \<noteq> 16 then Panic ''isdirempty: readi''
       else if de_inum de \<noteq> 0 then Ret (Some ()) s
       else Ret None s)) s) (\<lambda>r s. Ret (r = None) s)"

definition unlink_bad :: "nat \<Rightarrow> 'z vm_state_scheme \<Rightarrow> (int, 'z vm_state_scheme) res" where
  "unlink_bad dp s = kbind (iunlockput dp s) (\<lambda>_ s. kbind (end_op s) (\<lambda>_ s. Ret (-1) s))"

text \<open>\<open>sys_unlink\<close> once the entry at \<open>off\<close> of \<open>dp\<close> was found to be that of \<open>ip\<close>.\<close>

definition unlink_entry :: "nat \<Rightarrow> nat \<Rightarrow> u32 \<Rightarrow> 'z vm_state_scheme \<Rightarrow> (int, 'z vm_state_scheme) res" where
  "unlink_entry dp ip off s =
     kbind (ilock (Some ip) s) (\<lambda>_ s.
     if sint (i_nlink (icache s ip)) < 1 then Panic ''unlink: nlink < 1''
     else kbind (if i_type (icache s ip) = T_DIR then isdirempty ip s else Ret True s) (\<lambda>empty s.
       if \<not> empty then kbind (iunlockput ip s) (\<lambda>_ s. unlink_bad dp s)
       else
         kbind (writei dp (replicate 16 0) off 16 s) (\<lambda>r s.
         if r \<noteq> 16 then Panic ''unlink: writei''
         else
           kbind (if i_type (icache s ip) = T_DIR
                  then iupdate dp (upd_inode dp (\<lambda>p. p\<lparr>i_nlink := i_nlink p - 1\<rparr>) s) else Ret () s) (\<lambda>_ s.
           kbind (iunlockput dp s) (\<lambda>_ s.
           kbind (iupdate ip (upd_inode ip (\<lambda>p. p\<lparr>i_nlink := i_nlink p - 1\<rparr>) s)) (\<lambda>_ s.
           kbind (iunlockput ip s) (\<lambda>_ s.
           kbind (end_op s) (\<lambda>_ s. Ret 0 s))))))))"

definition sys_unlink :: "'z vm_state_scheme \<Rightarrow> (int, 'z vm_state_scheme) res" where
  "sys_unlink s =
     kopt (argstr 0 s) (\<lambda>(path, _) s.
     kbind (begin_op s) (\<lambda>_ s.
     kbind (nameiparent path s) (\<lambda>(dp, name) s.
     case dp of None \<Rightarrow> kbind (end_op s) (\<lambda>_ s. Ret (-1) s)
     | Some dp \<Rightarrow>
         kbind (ilock (Some dp) s) (\<lambda>_ s.
         kbind (permitted dp MODE_WUSR MODE_WOTH s) (\<lambda>w s.
         if \<not> w then unlink_bad dp s
         else if namecmp name (str ''.'') = 0 \<or> namecmp name (str ''..'') = 0 then unlink_bad dp s
         else kbind (dirlookup dp name s) (\<lambda>r s.
           case r of None \<Rightarrow> unlink_bad dp s
           | Some (ip, off) \<Rightarrow> unlink_entry dp ip off s))))))"

section \<open>Creating and opening\<close>

text \<open>
  \<open>create\<close>: a failed permission check ends the caller's transaction before returning null. The new inode's fields are
  set by \<open>create_new\<close>.
\<close>

definition create_new :: "cstring \<Rightarrow> nat \<Rightarrow> u16 \<Rightarrow> u16 \<Rightarrow> u16 \<Rightarrow> 'z vm_state_scheme \<Rightarrow> (nat option, 'z vm_state_scheme) res" where
  "create_new name dp ty major minor s =
     kbind (ialloc (i_dev (icache s dp)) ty s) (\<lambda>ip s.
     kbind (ilock (Some ip) s) (\<lambda>_ s.
     let s = upd_inode ip (\<lambda>p. p\<lparr>i_major := major, i_minor := minor, i_nlink := 1\<rparr>) s
     in kbind (curproc s) (\<lambda>me s.
        kbind (strcpy_field 16 (p_userid (ptable s me)) s) (\<lambda>u s.
        kbind (iupdate ip (upd_inode ip (\<lambda>p. p\<lparr>i_userid := u\<rparr>) s)) (\<lambda>_ s.
        kbind (if ty = T_DIR then
                 kbind (iupdate dp (upd_inode dp (\<lambda>p. p\<lparr>i_nlink := i_nlink p + 1\<rparr>) s)) (\<lambda>_ s.
                 kbind (dirlink ip (str ''.'') (i_inum (icache s ip)) s) (\<lambda>r s.
                 if r < 0 then Panic ''create dots''
                 else kbind (dirlink ip (str ''..'') (i_inum (icache s dp)) s) (\<lambda>r s.
                      if r < 0 then Panic ''create dots'' else Ret () s)))
               else Ret () s) (\<lambda>_ s.
        kbind (dirlink dp name (i_inum (icache s ip)) s) (\<lambda>r s.
        if r < 0 then Panic ''create: dirlink''
        else kbind (iunlockput dp s) (\<lambda>_ s. Ret (Some ip) s))))))))"

definition create :: "cstring \<Rightarrow> u16 \<Rightarrow> u16 \<Rightarrow> u16 \<Rightarrow> 'z vm_state_scheme \<Rightarrow> (nat option, 'z vm_state_scheme) res" where
  "create path ty major minor s =
     kbind (nameiparent path s) (\<lambda>(dp, name) s.
     case dp of None \<Rightarrow> Ret None s
     | Some dp \<Rightarrow>
         kbind (ilock (Some dp) s) (\<lambda>_ s.
         kbind (dirlookup dp name s) (\<lambda>r s.
         case r of
           Some (ip, _) \<Rightarrow>
             kbind (iunlockput dp s) (\<lambda>_ s.
             kbind (ilock (Some ip) s) (\<lambda>_ s.
             kbind (permitted ip MODE_WUSR MODE_WOTH s) (\<lambda>w s.
             if \<not> w then kbind (iunlockput ip s) (\<lambda>_ s. kbind (end_op s) (\<lambda>_ s. Ret None s))
             else if ty = T_FILE \<and> i_type (icache s ip) = T_FILE then Ret (Some ip) s
             else kbind (iunlockput ip s) (\<lambda>_ s. Ret None s))))
         | None \<Rightarrow>
             kbind (permitted dp MODE_WUSR MODE_WOTH s) (\<lambda>w s.
             if \<not> w then kbind (iunlockput dp s) (\<lambda>_ s. kbind (end_op s) (\<lambda>_ s. Ret None s))
             else create_new name dp ty major minor s))))"

text \<open>The permission \<open>sys_open\<close> asks for when it does not create the file: by the exact value of \<open>omode\<close>.\<close>

definition open_permitted :: "nat \<Rightarrow> u32 \<Rightarrow> 'z vm_state_scheme \<Rightarrow> (bool, 'z vm_state_scheme) res" where
  "open_permitted ip omode s =
     (if omode = O_RDONLY then permitted ip MODE_RUSR MODE_ROTH s
      else if omode = O_WRONLY then permitted ip MODE_WUSR MODE_WOTH s
      else if omode = O_RDWR then
        kbind (is_owner ip s) (\<lambda>o' s.
        let mode = i_mode (icache s ip)
        in Ret (if o' then and mode MODE_WUSR \<noteq> 0 \<and> and mode MODE_RUSR \<noteq> 0
                else and mode MODE_WOTH \<noteq> 0 \<and> and mode MODE_ROTH \<noteq> 0) s)
      else Ret True s)"

definition open_end :: "nat \<Rightarrow> u32 \<Rightarrow> 'z vm_state_scheme \<Rightarrow> (int, 'z vm_state_scheme) res" where
  "open_end ip omode s =
     kbind (filealloc s) (\<lambda>f s.
     case f of None \<Rightarrow> kbind (iunlockput ip s) (\<lambda>_ s. kbind (end_op s) (\<lambda>_ s. Ret (-1) s))
     | Some f \<Rightarrow>
         kbind (fdalloc f s) (\<lambda>fd s.
         if fd < 0 then
           kbind (fileclose f s) (\<lambda>_ s. kbind (iunlockput ip s) (\<lambda>_ s. kbind (end_op s) (\<lambda>_ s. Ret (-1) s)))
         else
           kbind (iunlock (Some ip) s) (\<lambda>_ s.
           kbind (end_op s) (\<lambda>_ s.
           Ret fd (upd_file f (\<lambda>x. x\<lparr>f_type := FD_INODE, f_ip := Some ip, f_off := 0,
             f_readable := (and omode O_WRONLY = 0),
             f_writable := (and omode O_WRONLY \<noteq> 0 \<or> and omode O_RDWR \<noteq> 0)\<rparr>) s)))))"

definition sys_open :: "'z vm_state_scheme \<Rightarrow> (int, 'z vm_state_scheme) res" where
  "sys_open s =
     kopt (argstr 0 s) (\<lambda>(path, _) s.
     kopt (argint 1 s) (\<lambda>omode s.
     kbind (begin_op s) (\<lambda>_ s.
     if and omode O_CREATE \<noteq> 0 then
       kbind (create path T_FILE 0 0 s) (\<lambda>ip s.
       case ip of None \<Rightarrow> kbind (end_op s) (\<lambda>_ s. Ret (-1) s) | Some ip \<Rightarrow> open_end ip omode s)
     else
       kbind (namei path s) (\<lambda>ip s.
       case ip of None \<Rightarrow> kbind (end_op s) (\<lambda>_ s. Ret (-1) s)
       | Some ip \<Rightarrow>
           kbind (ilock (Some ip) s) (\<lambda>_ s.
           kbind (open_permitted ip omode s) (\<lambda>ok s.
           if \<not> ok \<or> (i_type (icache s ip) = T_DIR \<and> omode \<noteq> O_RDONLY)
           then kbind (iunlockput ip s) (\<lambda>_ s. kbind (end_op s) (\<lambda>_ s. Ret (-1) s))
           else open_end ip omode s))))))"

text \<open>\<open>sys_mkdir\<close> and \<open>sys_mknod\<close> begin the transaction before they look at their arguments.\<close>

definition create_call :: "cstring \<Rightarrow> u16 \<Rightarrow> u16 \<Rightarrow> u16 \<Rightarrow> 'z vm_state_scheme \<Rightarrow> (int, 'z vm_state_scheme) res" where
  "create_call path ty major minor s =
     kbind (create path ty major minor s) (\<lambda>ip s.
     case ip of None \<Rightarrow> kbind (end_op s) (\<lambda>_ s. Ret (-1) s)
     | Some ip \<Rightarrow> kbind (iunlockput ip s) (\<lambda>_ s. kbind (end_op s) (\<lambda>_ s. Ret 0 s)))"

definition sys_mkdir :: "'z vm_state_scheme \<Rightarrow> (int, 'z vm_state_scheme) res" where
  "sys_mkdir s =
     kbind (begin_op s) (\<lambda>_ s.
     kbind (argstr 0 s) (\<lambda>path s.
     case path of None \<Rightarrow> kbind (end_op s) (\<lambda>_ s. Ret (-1) s)
     | Some (path, _) \<Rightarrow> create_call path T_DIR 0 0 s))"

definition sys_mknod :: "'z vm_state_scheme \<Rightarrow> (int, 'z vm_state_scheme) res" where
  "sys_mknod s =
     kbind (begin_op s) (\<lambda>_ s.
     kbind (argstr 0 s) (\<lambda>path s.
     case path of None \<Rightarrow> kbind (end_op s) (\<lambda>_ s. Ret (-1) s)
     | Some (path, _) \<Rightarrow>
         kbind (argint 1 s) (\<lambda>major s.
         case major of None \<Rightarrow> kbind (end_op s) (\<lambda>_ s. Ret (-1) s)
         | Some major \<Rightarrow>
             kbind (argint 2 s) (\<lambda>minor s.
             case minor of None \<Rightarrow> kbind (end_op s) (\<lambda>_ s. Ret (-1) s)
             | Some minor \<Rightarrow> create_call path T_DEV (ucast major) (ucast minor) s))))"

definition sys_chdir :: "'z vm_state_scheme \<Rightarrow> (int, 'z vm_state_scheme) res" where
  "sys_chdir s =
     kbind (curproc s) (\<lambda>me s.
     kbind (begin_op s) (\<lambda>_ s.
     kbind (argstr 0 s) (\<lambda>path s.
     case path of None \<Rightarrow> kbind (end_op s) (\<lambda>_ s. Ret (-1) s)
     | Some (path, _) \<Rightarrow>
         kbind (namei path s) (\<lambda>ip s.
         case ip of None \<Rightarrow> kbind (end_op s) (\<lambda>_ s. Ret (-1) s)
         | Some ip \<Rightarrow>
             kbind (ilock (Some ip) s) (\<lambda>_ s.
             kbind (permitted ip MODE_XUSR MODE_XOTH s) (\<lambda>x s.
             if \<not> x \<or> i_type (icache s ip) \<noteq> T_DIR then
               kbind (iunlockput ip s) (\<lambda>_ s. kbind (end_op s) (\<lambda>_ s. Ret (-1) s))
             else
               kbind (iunlock (Some ip) s) (\<lambda>_ s.
               kbind (deref (p_cwd (ptable s me)) s) (\<lambda>old s.
               kbind (iput old s) (\<lambda>_ s.
               kbind (end_op s) (\<lambda>_ s.
               Ret 0 (upd_proc me (\<lambda>p. p\<lparr>p_cwd := Some ip\<rparr>) s)))))))))))"

definition sys_pipe :: "'z vm_state_scheme \<Rightarrow> (int, 'z vm_state_scheme) res" where
  "sys_pipe s =
     kopt (argptr 0 8 s) (\<lambda>fd s.
     kopt (pipealloc s) (\<lambda>(rf, wf) s.
     kbind (fdalloc rf s) (\<lambda>fd0 s.
     kbind (if fd0 < 0 then Ret (-1) s else fdalloc wf s) (\<lambda>fd1 s.
     if fd0 < 0 \<or> fd1 < 0 then
       kbind (curproc s) (\<lambda>me s.
       let s = (if fd0 \<ge> 0 then upd_proc me (\<lambda>p. p\<lparr>p_ofile := (p_ofile p)(nat fd0 := None)\<rparr>) s else s)
       in kbind (fileclose rf s) (\<lambda>_ s. kbind (fileclose wf s) (\<lambda>_ s. Ret (-1) s)))
     else
       kbind (user_put fd (le32 (word_of_int fd0)) s) (\<lambda>_ s.
       kbind (user_put (fd + 4) (le32 (word_of_int fd1)) s) (\<lambda>_ s. Ret 0 s))))))"

end
