(* ===== verification/Exec.thy ===== *)
theory Exec
  imports Args
begin

text \<open>
  Loading programs: \<open>exec\<close> (\<open>exec.c\<close>), \<open>exec2\<close> (\<open>PRJ02_syscall.c\<close>), which repeats its code for an administrator and
  with a stack of a chosen number of pages, and their system calls. The parts the two functions have in common are
  definitions of their own; \<open>None\<close> stands for a jump to the label \<open>bad\<close>. The headers of an ELF file are read as the
  bytes of \<open>struct elfhdr\<close> (52) and \<open>struct proghdr\<close> (32).
\<close>

definition MAXARG :: nat where "MAXARG = 32"
definition ELF_MAGIC :: u32 where "ELF_MAGIC = 0x464C457F"
definition ELF_PROG_LOAD :: u32 where "ELF_PROG_LOAD = 1"

definition fld32 :: "u8 list \<Rightarrow> nat \<Rightarrow> u32" where "fld32 bs o' = load32 (\<lambda>i. bs ! i) o'"
definition fld16 :: "u8 list \<Rightarrow> nat \<Rightarrow> u16" where "fld16 bs o' = load16 (\<lambda>i. bs ! i) o'"

section \<open>Loading the image\<close>

text \<open>The loop over the program headers, \<open>n\<close> of them from file offset \<open>off\<close> on; the result is the new size.\<close>

fun exec_segments :: "nat \<Rightarrow> u32 \<Rightarrow> nat \<Rightarrow> u32 \<Rightarrow> u32 \<Rightarrow> 'z vm_state_scheme \<Rightarrow> (u32 option, 'z vm_state_scheme) res" where
  "exec_segments ip pgdir 0 off sz s = Ret (Some sz) s"
| "exec_segments ip pgdir (Suc n) off sz s =
     kbind (readi ip off 32 s) (\<lambda>(r, ph) s.
     if r \<noteq> 32 then Ret None s
     else if fld32 ph 0 \<noteq> ELF_PROG_LOAD then exec_segments ip pgdir n (off + 32) sz s
     else
       let p_off = fld32 ph 4; vaddr = fld32 ph 8; filesz = fld32 ph 16; memsz = fld32 ph 20
       in if memsz < filesz then Ret None s
          else if vaddr + memsz < vaddr then Ret None s
          else kbind (allocuvm pgdir sz (vaddr + memsz) s) (\<lambda>sz s.
            if sz = 0 then Ret None s
            else if vaddr mod PGSIZE \<noteq> 0 then Ret None s
            else kbind (loaduvm pgdir vaddr ip p_off filesz s) (\<lambda>r s.
              if r < 0 then Ret None s
              else exec_segments ip pgdir n (off + 32) sz s)))"

definition exec_bad :: "u32 \<Rightarrow> nat option \<Rightarrow> 'z vm_state_scheme \<Rightarrow> (int, 'z vm_state_scheme) res" where
  "exec_bad pgdir ip s =
     kbind (if pgdir \<noteq> 0 then freevm pgdir s else Ret () s) (\<lambda>_ s.
     case ip of None \<Rightarrow> Ret (-1) s
     | Some ip \<Rightarrow> kbind (iunlockput ip s) (\<lambda>_ s. kbind (end_op s) (\<lambda>_ s. Ret (-1) s)))"

section \<open>The user stack\<close>

text \<open>Pushing the argument strings from \<open>sp\<close> down, \<open>argc\<close> of them pushed before; the result is the final \<open>sp\<close> and the
  addresses in order.\<close>

fun push_args :: "u32 \<Rightarrow> cstring list \<Rightarrow> nat \<Rightarrow> u32 \<Rightarrow> 'z vm_state_scheme \<Rightarrow> ((u32 \<times> u32 list) option, 'z vm_state_scheme) res" where
  "push_args pgdir [] argc sp s = Ret (Some (sp, [])) s"
| "push_args pgdir (a # as) argc sp s =
     (if argc \<ge> MAXARG then Ret None s
      else
        let sp = and (sp - of_nat (strlen a + 1)) (not 3)
        in kbind (copyout pgdir sp (a @ [0]) s) (\<lambda>r s.
           if r < 0 then Ret None s
           else kbind (push_args pgdir as (argc + 1) sp s) (\<lambda>r s.
                Ret (map_option (\<lambda>(e, ps). (e, sp # ps)) r) s)))"

text \<open>The words of \<open>ustack\<close>: a fake return address, \<open>argc\<close>, the \<open>argv\<close> pointer, the argument pointers and a null.\<close>

definition ustack_words :: "u32 \<Rightarrow> u32 list \<Rightarrow> u32 list" where
  "ustack_words sp ps =
     [0xFFFFFFFF, of_nat (length ps), sp - (of_nat (length ps) + 1) * 4] @ ps @ [0]"

text \<open>The part of the path after its last slash.\<close>

definition exec_name :: "cstring \<Rightarrow> cstring" where
  "exec_name path = rev (takeWhile (\<lambda>c. c \<noteq> slash) (rev path))"

text \<open>From the image of size \<open>sz\<close> in \<open>pgdir\<close> to the end: \<open>pages\<close> pages of stack, the first of them a guard.\<close>

definition exec_finish ::
  "cstring \<Rightarrow> cstring list \<Rightarrow> u32 \<Rightarrow> u32 \<Rightarrow> u32 \<Rightarrow> u32 \<Rightarrow> 'z vm_state_scheme \<Rightarrow> (int, 'z vm_state_scheme) res" where
  "exec_finish path argv pages entry pgdir sz s =
     (let sz = PGROUNDUP sz
      in kbind (allocuvm pgdir sz (sz + pages * PGSIZE) s) (\<lambda>sz s.
         if sz = 0 then exec_bad pgdir None s
         else kbind (clearpteu pgdir (sz - pages * PGSIZE) s) (\<lambda>_ s.
           kbind (push_args pgdir argv 0 sz s) (\<lambda>r s.
           case r of None \<Rightarrow> exec_bad pgdir None s
           | Some (sp, ps) \<Rightarrow>
               let us = ustack_words sp ps;
                   sp = sp - of_nat (4 * length us)
               in kbind (copyout pgdir sp (concat (map le32 us)) s) (\<lambda>r s.
                  if r < 0 then exec_bad pgdir None s
                  else kbind (curproc s) (\<lambda>me s.
                    let oldpgdir = p_pgdir (ptable s me);
                        s = upd_proc me (\<lambda>p. p\<lparr>p_name := safestrcpy_str (exec_name path) 16, p_pgdir := pgdir, p_sz := sz\<rparr>) s;
                        s = tf_set me tf_eip entry s;
                        s = tf_set me tf_esp sp s
                    in kbind (switchuvm (Some me) s) (\<lambda>_ s.
                       kbind (freevm oldpgdir s) (\<lambda>_ s. Ret 0 s))))))))"

text \<open>From the locked inode on.\<close>

definition exec_image :: "cstring \<Rightarrow> cstring list \<Rightarrow> u32 \<Rightarrow> nat \<Rightarrow> 'z vm_state_scheme \<Rightarrow> (int, 'z vm_state_scheme) res" where
  "exec_image path argv pages ip s =
     kbind (readi ip 0 52 s) (\<lambda>(r, elf) s.
     if r \<noteq> 52 then exec_bad 0 (Some ip) s
     else if fld32 elf 0 \<noteq> ELF_MAGIC then exec_bad 0 (Some ip) s
     else kbind (setupkvm s) (\<lambda>pgdir s.
       if pgdir = 0 then exec_bad 0 (Some ip) s
       else kbind (exec_segments ip pgdir (unat (fld16 elf 44)) (fld32 elf 28) 0 s) (\<lambda>r s.
         case r of None \<Rightarrow> exec_bad pgdir (Some ip) s
         | Some sz \<Rightarrow>
             kbind (iunlockput ip s) (\<lambda>_ s.
             kbind (end_op s) (\<lambda>_ s.
             exec_finish path argv pages (fld32 elf 24) pgdir sz s)))))"

section \<open>The two calls\<close>

definition exec :: "cstring \<Rightarrow> cstring list \<Rightarrow> 'z vm_state_scheme \<Rightarrow> (int, 'z vm_state_scheme) res" where
  "exec path argv s =
     kbind (curproc s) (\<lambda>me s.
     kbind (begin_op s) (\<lambda>_ s.
     kbind (namei path s) (\<lambda>ip s.
     case ip of
       None \<Rightarrow> kbind (end_op s) (\<lambda>_ s. kbind (cprintf ''exec: fail\<newline>'' [] s) (\<lambda>_ s. Ret (-1) s))
     | Some ip \<Rightarrow>
         kbind (ilock (Some ip) s) (\<lambda>_ s.
         let u = p_userid (ptable s me);
             owner = (strcmp u (str ''root'') = 0 \<or> strcmp u (i_userid (icache s ip)) = 0)
         in if and (i_mode (icache s ip)) (if owner then MODE_XUSR else MODE_XOTH) = 0
            then kbind (iunlockput ip s) (\<lambda>_ s. kbind (end_op s) (\<lambda>_ s. Ret (-1) s))
            else exec_image path argv 2 ip s))))"

definition exec2 :: "cstring \<Rightarrow> cstring list \<Rightarrow> int \<Rightarrow> 'z vm_state_scheme \<Rightarrow> (int, 'z vm_state_scheme) res" where
  "exec2 path argv stacksize s =
     kbind (curproc s) (\<lambda>me s.
     kbind (begin_op s) (\<lambda>_ s.
     if p_mode (ptable s me) \<noteq> ADMINISTRATOR then
       kbind (end_op s) (\<lambda>_ s. kbind (cprintf ''exec2: fail (privilege error)\<newline>'' [] s) (\<lambda>_ s. Ret (-1) s))
     else if stacksize < 1 \<or> stacksize > 100 then
       kbind (end_op s) (\<lambda>_ s. kbind (cprintf ''exec2: fail (stacksize out of boundary)\<newline>'' [] s) (\<lambda>_ s. Ret (-1) s))
     else kbind (namei path s) (\<lambda>ip s.
       case ip of
         None \<Rightarrow> kbind (end_op s) (\<lambda>_ s. kbind (cprintf ''exec2: fail\<newline>'' [] s) (\<lambda>_ s. Ret (-1) s))
       | Some ip \<Rightarrow>
           kbind (ilock (Some ip) s) (\<lambda>_ s. exec_image path argv (word_of_int (1 + stacksize)) ip s))))"

text \<open>The loop that collects \<open>argv\<close>, with room for \<open>n\<close> more pointers; \<open>None\<close> is the result -1.\<close>

fun fetch_argv :: "u32 \<Rightarrow> nat \<Rightarrow> 'z vm_state_scheme \<Rightarrow> (cstring list option, 'z vm_state_scheme) res" where
  "fetch_argv uargv 0 s = Ret None s"
| "fetch_argv uargv (Suc n) s =
     kbind (fetchint uargv s) (\<lambda>uarg s.
     case uarg of None \<Rightarrow> Ret None s
     | Some uarg \<Rightarrow>
         if uarg = 0 then Ret (Some []) s
         else kbind (fetchstr uarg s) (\<lambda>a s.
           case a of None \<Rightarrow> Ret None s
           | Some a \<Rightarrow>
               kbind (fetch_argv (uargv + 4) n s) (\<lambda>r s. Ret (map_option (Cons a) r) s)))"

definition sys_exec :: "'z vm_state_scheme \<Rightarrow> (int, 'z vm_state_scheme) res" where
  "sys_exec s =
     kopt (argstr 0 s) (\<lambda>(path, _) s.
     kopt (argint 1 s) (\<lambda>uargv s.
     kopt (fetch_argv uargv MAXARG s) (\<lambda>argv s. exec path argv s)))"

definition sys_exec2 :: "'z vm_state_scheme \<Rightarrow> (int, 'z vm_state_scheme) res" where
  "sys_exec2 s =
     kopt (argstr 0 s) (\<lambda>(path, _) s.
     kopt (argint 1 s) (\<lambda>uargv s.
     kopt (argint 2 s) (\<lambda>stacksize s.
     kopt (fetch_argv uargv MAXARG s) (\<lambda>argv s. exec2 path argv (sint stacksize) s))))"

end
