(* ===== verification/Users.thy ===== *)
theory Users
  imports Args
begin

text \<open>
  The user accounts of Project 3 (\<open>PRJ03_syscall.c\<close>). The table lies in one buffer: the ten rows
  \<open>u[i]\<close> of 32 bytes, a name at the start of the row and a password at its middle, from offset 0 on, and
  \<open>status[i]\<close> after them at \<open>320 + 4 * i\<close>, so that writing past the end of a field or of a row changes what
  follows it, as it does in the C struct.
\<close>

definition NUM_USER :: nat where "NUM_USER = 10"
definition USER_FIELD :: nat where "USER_FIELD = 32"

record user_state = vm_state +
  utable :: buffer
  utable_ptr :: "nat option"

lemma user_this_cpu [simp]:
  "this_cpu (s\<lparr>utable := x0\<rparr>) = this_cpu s"
  "this_cpu (s\<lparr>utable_ptr := x1\<rparr>) = this_cpu s"
  by (simp_all add: this_cpu_def)

lemma user_cpu_known [simp]:
  "cpu_known (s\<lparr>utable := x0\<rparr>) = cpu_known s"
  "cpu_known (s\<lparr>utable_ptr := x1\<rparr>) = cpu_known s"
  by (simp_all add: cpu_known_def)

lemma user_quiet [simp]:
  "quiet (s\<lparr>utable := x0\<rparr>) = quiet s"
  "quiet (s\<lparr>utable_ptr := x1\<rparr>) = quiet s"
  by (simp_all add: quiet_def)

lemma user_sel [simp]:
  "utable (with_locks L s) = utable s"
  "utable_ptr (with_locks L s) = utable_ptr s"
  by (simp_all add: with_locks_def)

lemma user_upd [simp]:
  "(with_locks L s)\<lparr>utable := x0\<rparr> = with_locks L (s\<lparr>utable := x0\<rparr>)"
  "(with_locks L s)\<lparr>utable_ptr := x1\<rparr> = with_locks L (s\<lparr>utable_ptr := x1\<rparr>)"
  by (simp_all add: with_locks_def cong: if_cong)

definition urow :: "nat \<Rightarrow> nat" where "urow i = USER_FIELD * i"
definition ustatus_off :: "nat \<Rightarrow> nat" where "ustatus_off i = NUM_USER * USER_FIELD + 4 * i"
definition utable_end :: nat where "utable_end = NUM_USER * USER_FIELD + 4 * NUM_USER"

text \<open>The strings at \<open>utable.u[i]\<close> and \<open>utable.u[i] + USER_FIELD/2\<close>, and \<open>utable.status[i]\<close>.\<close>

definition uname :: "buffer \<Rightarrow> nat \<Rightarrow> cstring" where
  "uname m i = cstr_at m (urow i) utable_end"

definition upass :: "buffer \<Rightarrow> nat \<Rightarrow> cstring" where
  "upass m i = cstr_at m (urow i + USER_FIELD div 2) utable_end"

definition ustatus :: "buffer \<Rightarrow> nat \<Rightarrow> u32" where
  "ustatus m i = load32 m (ustatus_off i)"

text \<open>The three assignments that enter an account in row \<open>i\<close>.\<close>

definition add_row :: "nat \<Rightarrow> cstring \<Rightarrow> cstring \<Rightarrow> buffer \<Rightarrow> buffer" where
  "add_row i username password m =
     (let m = strcpy m (urow i) username;
          m = strcpy m (urow i + USER_FIELD div 2) password
      in store32 m (ustatus_off i) 1)"

definition clear_row :: "nat \<Rightarrow> buffer \<Rightarrow> buffer" where
  "clear_row i m = fold (\<lambda>j m. m(urow i + j := 0)) [0..<USER_FIELD] m"

definition init_utable :: "'z user_state_scheme \<Rightarrow> (unit, 'z user_state_scheme) res" where
  "init_utable s =
     kbind (initlock UtableLock s) (\<lambda>_ s.
     kbind (acquire UtableLock s) (\<lambda>_ s.
     release UtableLock (s\<lparr>utable := fold (\<lambda>i m. store32 (clear_row i m) (ustatus_off i) 0) [0..<NUM_USER] (utable s)\<rparr>)))"

section \<open>The shadow file\<close>

text \<open>\<open>load_shadow\<close> when \<open>/shadow\<close> does not exist: the account \<open>root\<close> and a new file that holds the table.\<close>

definition create_shadow :: "nat \<Rightarrow> cstring \<Rightarrow> 'z user_state_scheme \<Rightarrow> (nat option, 'z user_state_scheme) res" where
  "create_shadow dp name s =
     kbind (acquire UtableLock s) (\<lambda>_ s.
     let m = add_row 0 (str ''root'') (str ''1234'') (utable s)
     in kbind (release UtableLock (s\<lparr>utable := m\<rparr>)) (\<lambda>_ s.
        kbind (ialloc (i_dev (icache s dp)) T_FILE s) (\<lambda>ip s.
        kbind (ilock (Some ip) s) (\<lambda>_ s.
        let s = upd_inode ip (\<lambda>p. p\<lparr>i_major := 0, i_minor := 0, i_nlink := 1, i_userid := str ''root''\<rparr>) s
        in kbind (iupdate ip s) (\<lambda>_ s.
           kbind (dirlink dp name (i_inum (icache s ip)) s) (\<lambda>_ s.
           kbind (iunlockput dp s) (\<lambda>_ s.
           kbind (writei ip (get_bytes (utable s) 0 (NUM_USER * USER_FIELD)) 0 (of_nat (NUM_USER * USER_FIELD)) s) (\<lambda>r s.
           kbind (iunlock (Some ip) s) (\<lambda>_ s.
           if r < 0 then kbind (end_op s) (\<lambda>_ s. Ret None s) else Ret (Some ip) s)))))))))"

definition load_shadow :: "'z user_state_scheme \<Rightarrow> (int, 'z user_state_scheme) res" where
  "load_shadow s =
     kbind (begin_op s) (\<lambda>_ s.
     kbind (nameiparent (str ''/shadow'') s) (\<lambda>(dp, name) s.
     case dp of None \<Rightarrow> Ret (-1) s
     | Some dp \<Rightarrow>
         kbind (ilock (Some dp) s) (\<lambda>_ s.
         kbind (dirlookup dp name s) (\<lambda>r s.
         kbind (case r of
                  None \<Rightarrow> create_shadow dp name s
                | Some _ \<Rightarrow>
                    kbind (iunlockput dp s) (\<lambda>_ s.
                    kbind (namei (str ''/shadow'') s) (\<lambda>ip s.
                    case ip of None \<Rightarrow> kbind (end_op s) (\<lambda>_ s. Ret None s) | Some ip \<Rightarrow> Ret (Some ip) s))) (\<lambda>ip s.
         case ip of None \<Rightarrow> Ret (-1) s
         | Some ip \<Rightarrow>
             kbind (acquire UtableLock s) (\<lambda>_ s.
             kbind (release UtableLock (s\<lparr>utable_ptr := Some ip\<rparr>)) (\<lambda>_ s.
             kbind (ilock (Some ip) s) (\<lambda>_ s.
             kbind (readi ip 0 (of_nat (NUM_USER * USER_FIELD)) s) (\<lambda>(r, bs) s.
             let s = s\<lparr>utable := put_bytes (utable s) 0 bs\<rparr>
             in if r < 0 then kbind (end_op s) (\<lambda>_ s. Ret (-1) s)
                else kbind (iunlock (Some ip) s) (\<lambda>_ s.
                     kbind (end_op s) (\<lambda>_ s. Ret 0 s)))))))))))"

definition inituser :: "'z user_state_scheme \<Rightarrow> (int, 'z user_state_scheme) res" where
  "inituser s = kbind (init_utable s) (\<lambda>_ s. load_shadow s)"

definition sys_inituser :: "'z user_state_scheme \<Rightarrow> (int, 'z user_state_scheme) res" where
  "sys_inituser s = inituser s"

section \<open>Accounts\<close>

definition usercheck :: "cstring \<Rightarrow> cstring \<Rightarrow> 'z user_state_scheme \<Rightarrow> int" where
  "usercheck username password s =
     (case first_idx NUM_USER (\<lambda>i. strcmp (uname (utable s) i) username = 0 \<and> strcmp (upass (utable s) i) password = 0) of
        Some _ \<Rightarrow> 1
      | None \<Rightarrow> 0)"

text \<open>Writing the table to the shadow file, in the transaction the caller has begun; \<open>unlock\<close> tells whether a failed
  write unlocks the file.\<close>

definition write_shadow :: "bool \<Rightarrow> u8 list \<Rightarrow> 'z user_state_scheme \<Rightarrow> (bool, 'z user_state_scheme) res" where
  "write_shadow unlock utemp s =
     kbind (ilock (utable_ptr s) s) (\<lambda>_ s.
     kbind (deref (utable_ptr s) s) (\<lambda>ip s.
     kbind (writei ip utemp 0 (of_nat (NUM_USER * USER_FIELD)) s) (\<lambda>r s.
     if r < 0 then
       kbind (if unlock then iunlock (utable_ptr s) s else Ret () s) (\<lambda>_ s. kbind (end_op s) (\<lambda>_ s. Ret False s))
     else kbind (iunlock (utable_ptr s) s) (\<lambda>_ s. Ret True s))))"

text \<open>The home directory of a new user.\<close>

definition make_home :: "cstring \<Rightarrow> nat \<Rightarrow> 'z user_state_scheme \<Rightarrow> (unit, 'z user_state_scheme) res" where
  "make_home username dp s =
     kbind (ialloc (i_dev (icache s dp)) T_DIR s) (\<lambda>fp s.
     kbind (ilock (Some dp) s) (\<lambda>_ s.
     kbind (ilock (Some fp) s) (\<lambda>_ s.
     let s = upd_inode fp (\<lambda>p. p\<lparr>i_major := 0, i_minor := 0, i_nlink := 1\<rparr>) s
     in kbind (strcpy_field 16 username s) (\<lambda>u s.
        kbind (iupdate fp (upd_inode fp (\<lambda>p. p\<lparr>i_userid := u\<rparr>) s)) (\<lambda>_ s.
        kbind (iupdate dp (upd_inode dp (\<lambda>p. p\<lparr>i_nlink := i_nlink p + 1\<rparr>) s)) (\<lambda>_ s.
        kbind (dirlink fp (str ''.'') (i_inum (icache s fp)) s) (\<lambda>r s.
        kbind (if r < 0 then Ret True s
               else kbind (dirlink fp (str ''..'') (i_inum (icache s dp)) s) (\<lambda>r s. Ret (r < 0) s)) (\<lambda>bad s.
        if bad then Panic ''error in load_shadow(): create dots''
        else kbind (dirlink dp username (i_inum (icache s fp)) s) (\<lambda>_ s.
             kbind (iupdate fp s) (\<lambda>_ s.
             kbind (iupdate dp s) (\<lambda>_ s.
             kbind (iunlockput fp s) (\<lambda>_ s. iunlockput dp s))))))))))))"

text \<open>
  \<open>useradd\<close>: the failing returns after \<open>acquire\<close> leave \<open>utable.lock\<close> held, and the one after \<open>namei\<close> leaves the
  transaction open. \<open>strlen(x) < 0\<close> never holds and is left out.
\<close>

definition useradd :: "cstring \<Rightarrow> cstring \<Rightarrow> 'z user_state_scheme \<Rightarrow> (int, 'z user_state_scheme) res" where
  "useradd username password s =
     kbind (curproc s) (\<lambda>me s.
     if strcmp (p_userid (ptable s me)) (str ''root'') \<noteq> 0 then Ret (-1) s
     else kbind (acquire UtableLock s) (\<lambda>_ s.
       if first_idx NUM_USER (\<lambda>i. strcmp (uname (utable s) i) username = 0) \<noteq> None then Ret (-1) s
       else case first_idx NUM_USER (\<lambda>i. ustatus (utable s) i = 0) of
         None \<Rightarrow> Ret (-1) s
       | Some i \<Rightarrow>
           if strlen username > USER_FIELD div 2 \<or> strlen password > USER_FIELD div 2 then Ret (-1) s
           else
             let m = add_row i username password (utable s);
                 utemp = get_bytes m 0 (NUM_USER * USER_FIELD)
             in kbind (release UtableLock (s\<lparr>utable := m\<rparr>)) (\<lambda>_ s.
                kbind (begin_op s) (\<lambda>_ s.
                kbind (write_shadow True utemp s) (\<lambda>ok s.
                if \<not> ok then Ret (-1) s
                else kbind (namei (str ''/'') s) (\<lambda>dp s.
                  case dp of None \<Rightarrow> Ret (-1) s
                  | Some dp \<Rightarrow>
                      kbind (dirlookup dp username s) (\<lambda>fp s.
                      kbind (case fp of None \<Rightarrow> make_home username dp s | Some _ \<Rightarrow> Ret () s) (\<lambda>_ s.
                      kbind (end_op s) (\<lambda>_ s. Ret 0 s)))))))))"

definition userdel :: "cstring \<Rightarrow> 'z user_state_scheme \<Rightarrow> (int, 'z user_state_scheme) res" where
  "userdel username s =
     kbind (curproc s) (\<lambda>me s.
     if strcmp (p_userid (ptable s me)) (str ''root'') \<noteq> 0 then Ret (-1) s
     else if strcmp username (str ''root'') = 0 then Ret (-1) s
     else kbind (acquire UtableLock s) (\<lambda>_ s.
       case first_idx NUM_USER (\<lambda>i. strcmp (uname (utable s) i) username = 0) of
         None \<Rightarrow> kbind (release UtableLock s) (\<lambda>_ s. Ret (-1) s)
       | Some i \<Rightarrow>
           let m = store32 (clear_row i (utable s)) (ustatus_off i) 0;
               utemp = get_bytes m 0 (NUM_USER * USER_FIELD)
           in kbind (release UtableLock (s\<lparr>utable := m\<rparr>)) (\<lambda>_ s.
              kbind (begin_op s) (\<lambda>_ s.
              kbind (write_shadow False utemp s) (\<lambda>ok s.
              if \<not> ok then Ret (-1) s else kbind (end_op s) (\<lambda>_ s. Ret 0 s))))))"

definition chmod :: "nat \<Rightarrow> u32 \<Rightarrow> 'z user_state_scheme \<Rightarrow> (int, 'z user_state_scheme) res" where
  "chmod ip mode s = kbind (iupdate ip (upd_inode ip (\<lambda>p. p\<lparr>i_mode := mode\<rparr>) s)) (\<lambda>_ s. Ret 0 s)"

text \<open>\<open>strcpy\<close> to the user's buffer, its length unchecked.\<close>

definition whoami :: "u32 \<Rightarrow> 'z user_state_scheme \<Rightarrow> (int, 'z user_state_scheme) res" where
  "whoami username s =
     kbind (curproc s) (\<lambda>me s.
     kbind (user_put username (p_userid (ptable s me) @ [0]) s) (\<lambda>_ s. Ret 0 s))"

section \<open>System calls\<close>

definition sys_usercheck :: "'z user_state_scheme \<Rightarrow> (int, 'z user_state_scheme) res" where
  "sys_usercheck s =
     kopt (argstr 0 s) (\<lambda>(username, _) s.
     kopt (argstr 1 s) (\<lambda>(password, _) s. Ret (usercheck username password s) s))"

definition sys_useradd :: "'z user_state_scheme \<Rightarrow> (int, 'z user_state_scheme) res" where
  "sys_useradd s =
     kopt (argstr 0 s) (\<lambda>(username, _) s.
     kopt (argstr 1 s) (\<lambda>(password, _) s. useradd username password s))"

definition sys_userdel :: "'z user_state_scheme \<Rightarrow> (int, 'z user_state_scheme) res" where
  "sys_userdel s = kopt (argstr 0 s) (\<lambda>(username, _) s. userdel username s)"

definition sys_chmod :: "'z user_state_scheme \<Rightarrow> (int, 'z user_state_scheme) res" where
  "sys_chmod s =
     kopt (argstr 0 s) (\<lambda>(pathname, _) s.
     kopt (argint 1 s) (\<lambda>mode s.
     kbind (begin_op s) (\<lambda>_ s.
     kbind (namei pathname s) (\<lambda>ip s.
     case ip of
       None \<Rightarrow> kbind (end_op s) (\<lambda>_ s. kbind (cprintf ''chmod: invalid path\<newline>'' [] s) (\<lambda>_ s. Ret (-1) s))
     | Some ip \<Rightarrow>
         kbind (ilock (Some ip) s) (\<lambda>_ s.
         kbind (is_owner ip s) (\<lambda>o' s.
         if \<not> o' then
           kbind (cprintf ''chmod: privilege error (only owner of the file or root!)\<newline>'' [] s) (\<lambda>_ s.
           kbind (iunlock (Some ip) s) (\<lambda>_ s. kbind (end_op s) (\<lambda>_ s. Ret (-1) s)))
         else if i_type (icache s ip) = T_DEV then
           kbind (cprintf ''chmod: cannot change T_DEV (e.g. console)\<newline>'' [] s) (\<lambda>_ s.
           kbind (iunlock (Some ip) s) (\<lambda>_ s. kbind (end_op s) (\<lambda>_ s. Ret (-1) s)))
         else kbind (chmod ip mode s) (\<lambda>ret s.
              kbind (iunlock (Some ip) s) (\<lambda>_ s. kbind (end_op s) (\<lambda>_ s. Ret ret s)))))))))"

definition sys_whoami :: "'z user_state_scheme \<Rightarrow> (int, 'z user_state_scheme) res" where
  "sys_whoami s = kopt (argstr 0 s) (\<lambda>(_, username) s. whoami username s)"

section \<open>The account table\<close>

lemma urow_bounds: "i < NUM_USER \<Longrightarrow> urow i + 32 \<le> 320"
  by (simp add: urow_def NUM_USER_def USER_FIELD_def)

lemma utable_sizes: "utable_end = 360" "ustatus_off i = 320 + 4 * i"
  by (simp_all add: utable_end_def ustatus_off_def NUM_USER_def USER_FIELD_def)

text \<open>A table in which every name and password ends within its 16 bytes.\<close>

definition utable_ok :: "buffer \<Rightarrow> bool" where
  "utable_ok m \<longleftrightarrow> (\<forall>i<NUM_USER. length (uname m i) < 16 \<and> length (upass m i) < 16)"

lemma add_row_out:
  "x < urow i \<or> urow i + 32 \<le> x \<Longrightarrow> x < 320 \<Longrightarrow> length username < 16 \<Longrightarrow> length password < 16 \<Longrightarrow>
     add_row i username password m x = m x"
  by (auto simp: add_row_def Let_def strcpy_def store32_def utable_sizes USER_FIELD_def)

lemma add_row_row:
  assumes i: "i < NUM_USER" and u: "wf_cstr username" "length username < 16" and p: "wf_cstr password" "length password < 16"
  shows "uname (add_row i username password m) i = username" "upass (add_row i username password m) i = password"
proof -
  let ?m = "add_row i username password m"
  note r = urow_bounds [OF i]
  have b: "get_bytes ?m (urow i) (length (username @ [0])) = username @ [0]"
    "get_bytes ?m (urow i + 16) (length (password @ [0])) = password @ [0]"
    using u p r by (intro nth_equalityI;
      simp add: add_row_def Let_def strcpy_def store32_def utable_sizes USER_FIELD_def put_bytes_def)+
  show "uname ?m i = username" unfolding uname_def by (rule cstr_atI [OF u(1) _ b(1)]) (use u r in \<open>simp add: utable_sizes\<close>)
  show "upass ?m i = password" unfolding upass_def USER_FIELD_def
    using cstr_atI [OF p(1) _ b(2), of utable_end] p r by (simp add: utable_sizes)
qed

lemma add_row_other:
  assumes ok: "utable_ok m" and i: "i < NUM_USER" and j: "j < NUM_USER" "j \<noteq> i"
    and len: "length username < 16" "length password < 16"
  shows "uname (add_row i username password m) j = uname m j" "upass (add_row i username password m) j = upass m j"
proof -
  have far: "x < urow i \<or> urow i + 32 \<le> x" if "urow j \<le> x" "x < urow j + 32" for x
    using that j(2) by (auto simp: urow_def USER_FIELD_def)
  have same: "add_row i username password m x = m x" if "urow j \<le> x" "x < urow j + 32" for x
    using far [OF that] that(2) urow_bounds [OF j(1)] len by (intro add_row_out) linarith+
  have "length (uname m j) < 16" "length (upass m j) < 16" using ok j(1) by (simp_all add: utable_ok_def)
  then show "uname (add_row i username password m) j = uname m j" "upass (add_row i username password m) j = upass m j"
    unfolding uname_def upass_def
    using urow_bounds [OF j(1)] same by (auto intro!: cstr_at_cong [where n = 16] simp: utable_sizes USER_FIELD_def)
qed

lemma wf_uname [simp]: "wf_cstr (uname m i)" "wf_cstr (upass m i)"
  by (simp_all add: uname_def upass_def)

lemma usercheck_iff:
  assumes "wf_cstr username" and "wf_cstr password"
  shows "usercheck username password s =
    (if \<exists>i<NUM_USER. uname (utable s) i = username \<and> upass (utable s) i = password then 1 else 0)"
  using assms
  by (auto simp: usercheck_def strcmp_eq_0 first_idx_None split: option.splits dest: first_idx_SomeD)

text \<open>entering an account in the table. With a name and a password of less than 16 bytes, the new account is accepted with
  its password and no other, every account in another row is accepted exactly as before, and the table stays well formed.\<close>

theorem useradd_row_accounts:
  assumes "utable_ok (utable s)" and "i < NUM_USER"
    and "wf_cstr username" and "length username < 16" and "wf_cstr password" and "length password < 16"
    and "\<forall>j<NUM_USER. uname (utable s) j \<noteq> username" and "wf_cstr v" and "wf_cstr q" and "v \<noteq> uname (utable s) i"
  shows "let t = s\<lparr>utable := add_row i username password (utable s)\<rparr>
    in utable_ok (utable t) \<and> usercheck username q t = (if q = password then 1 else 0) \<and>
       (v \<noteq> username \<longrightarrow> usercheck v q t = usercheck v q s)"
proof -
  note row = add_row_row [OF assms(2-6), of "utable s"] and oth = add_row_other [OF assms(1,2) _ _ assms(4,6)]
  have "utable_ok (add_row i username password (utable s))"
    unfolding utable_ok_def
  proof (intro allI impI)
    fix j assume j: "j < NUM_USER"
    show "length (uname (add_row i username password (utable s)) j) < 16 \<and>
        length (upass (add_row i username password (utable s)) j) < 16"
      using row oth [OF j] assms(1,4,6) j by (cases "j = i") (simp_all add: utable_ok_def)
  qed
  moreover have "(\<exists>j<NUM_USER. uname (add_row i username password (utable s)) j = username \<and>
      upass (add_row i username password (utable s)) j = q) \<longleftrightarrow> q = password"
    using row oth assms(2,7) by metis
  moreover have "(\<exists>j<NUM_USER. uname (add_row i username password (utable s)) j = v \<and>
      upass (add_row i username password (utable s)) j = q) \<longleftrightarrow>
      (\<exists>j<NUM_USER. uname (utable s) j = v \<and> upass (utable s) j = q)" if "v \<noteq> username"
    using row oth assms(2,10) that by metis
  ultimately show ?thesis using assms(3,8,9) by (simp add: usercheck_iff)
qed

text \<open>the length check of \<open>useradd\<close> is off by one. A name of 16 bytes is let through, but the password then overwrites
  its NUL, so that the row reads as the name followed by the password: the new account cannot log in.\<close>

theorem useradd_long_name_locked_out:
  assumes "utable_ok (utable s)" and "i < NUM_USER" and "\<forall>j<NUM_USER. uname (utable s) j \<noteq> username"
    and "wf_cstr username" and "length username = 16" and "wf_cstr password" and "password \<noteq> []" and "length password < 16"
  shows "\<not> strlen username > USER_FIELD div 2 \<and>
    uname (add_row i username password (utable s)) i = username @ password \<and>
    usercheck username password (s\<lparr>utable := add_row i username password (utable s)\<rparr>) = 0"
proof -
  let ?m = "add_row i username password (utable s)"
  note r = urow_bounds [OF assms(2)]
  have "get_bytes ?m (urow i) (length ((username @ password) @ [0])) = (username @ password) @ [0]"
    using assms(5,8) r by (intro nth_equalityI)
      (auto simp: add_row_def Let_def strcpy_def store32_def utable_sizes USER_FIELD_def put_bytes_def nth_append)
  then have row: "uname ?m i = username @ password"
    unfolding uname_def using assms(4-8) r by (intro cstr_atI) (auto simp: wf_cstr_def utable_sizes)
  have "uname ?m j = uname (utable s) j" if j: "j < NUM_USER" "j \<noteq> i" for j
    unfolding uname_def
  proof (rule cstr_at_cong [where n = 16])
    show "length (cstr_at (utable s) (urow j) utable_end) < 16"
      using assms(1) j(1) by (simp add: utable_ok_def uname_def)
    show "?m x = utable s x" if "urow j \<le> x" "x < urow j + 16" for x
      using that j assms(5,8) urow_bounds [OF j(1)]
      by (auto simp: add_row_def Let_def strcpy_def store32_def utable_sizes USER_FIELD_def urow_def put_bytes_def)
  qed (use urow_bounds [OF j(1)] in \<open>simp add: utable_sizes\<close>)
  then have "uname ?m j \<noteq> username" if "j < NUM_USER" for j
    using row assms(3,7) that by (cases "j = i") auto
  then show ?thesis using row assms(4-6) by (auto simp: usercheck_iff strlen_def USER_FIELD_def)
qed

text \<open>a row that holds no account, cleared by \<open>init_utable\<close> or \<open>userdel\<close>, accepts the empty name with the empty
  password.\<close>

theorem usercheck_empty_credentials:
  assumes "i < NUM_USER" and "\<forall>j<USER_FIELD. utable s (urow i + j) = 0"
  shows "usercheck [] [] s = 1"
proof -
  have z: "cstr_at (utable s) off utable_end = []" if "off = urow i \<or> off = urow i + 16" for off
    by (rule cstr_atI)
       (use that assms(2) [rule_format, of 0] assms(2) [rule_format, of 16] urow_bounds [OF assms(1)] in
         \<open>auto simp: wf_cstr_def utable_sizes get_bytes_def USER_FIELD_def\<close>)
  have "uname (utable s) i = []" "upass (utable s) i = []"
    using z [of "urow i"] z [of "urow i + 16"] by (simp_all add: uname_def upass_def USER_FIELD_def)
  then show ?thesis using assms(1) by (auto simp: usercheck_iff wf_cstr_def)
qed

text \<open>C40: \<open>useradd\<close> of a name that is taken, by root, returns -1 with \<open>utable.lock\<close> still held: the next \<open>useradd\<close> on the
  same CPU panics.\<close>

theorem useradd_duplicate_leaks_lock:
  assumes "in_proc s me" and "p_userid (ptable s me) = str ''root''" and "wf_cstr username"
    and "j < NUM_USER" and "uname (utable s) j = username"
  shows "useradd username password s = Ret (-1) (with_locks [UtableLock] s) \<and>
    useradd v q (with_locks [UtableLock] s) = Panic ''acquire''"
proof -
  have root: "strcmp (str ''root'') (str ''root'') = 0" by (simp add: strcmp_eq_0 wf_cstr_def str_simps)
  have "first_idx NUM_USER (\<lambda>i. strcmp (uname (utable s) i) username = 0) \<noteq> None"
    using assms(3-5) by (auto simp: first_idx_None strcmp_eq_0)
  then show ?thesis using assms(1,2) root by (simp add: useradd_def)
qed

section \<open>A concrete table\<close>

definition user_demo :: user_state where
  "user_demo = vm_state.extend (file_state.extend (pipe_demo\<lparr>ptable := demo_table(1 := (demo_table 1)\<lparr>p_userid := str ''root''\<rparr>)\<rparr>)
     (vm_state.fields 0x8010A000)) (user_state.fields (add_row 0 (str ''root'') (str ''1234'') (\<lambda>_. 0)) None)"

lemma user_demo_sel:
  "utable user_demo = add_row 0 (str ''root'') (str ''1234'') (\<lambda>_. 0)" "p_userid (ptable user_demo 1) = str ''root''"
  by (simp_all add: user_demo_def vm_state.defs file_state.defs user_state.defs)

lemma user_demo_in: "in_proc user_demo 1"
  by (simp add: in_proc_def quiet_def cpu_known_def this_cpu_def user_demo_def pipe_demo_def demo_cpu_def first_idx_one
      vm_state.defs file_state.defs user_state.defs)

lemma zero_table: "i < NUM_USER \<Longrightarrow> uname (\<lambda>_. 0) i = []" "i < NUM_USER \<Longrightarrow> upass (\<lambda>_. 0) i = []" "utable_ok (\<lambda>_. 0)"
proof -
  have z: "cstr_at (\<lambda>_. 0) off 360 = []" if "off < 360" for off
    by (rule cstr_atI) (use that in \<open>simp_all add: wf_cstr_def get_bytes_def\<close>)
  show u: "uname (\<lambda>_. 0) i = []" "upass (\<lambda>_. 0) i = []" if "i < NUM_USER" for i
    using urow_bounds [OF that] by (simp_all add: uname_def upass_def z utable_sizes USER_FIELD_def)
  show "utable_ok (\<lambda>_. 0)" by (simp add: utable_ok_def u)
qed

lemma user_demo_rows:
  "j < NUM_USER \<Longrightarrow> uname (utable user_demo) j = (if j = 0 then str ''root'' else [])"
  "j < NUM_USER \<Longrightarrow> upass (utable user_demo) j = (if j = 0 then str ''1234'' else [])"
  "utable_ok (utable user_demo)"
proof -
  have wf: "wf_cstr (str ''root'')" "wf_cstr (str ''1234'')" by (simp_all add: wf_cstr_def str_simps)
  note row = add_row_row [of 0 "str ''root''" "str ''1234''" "\<lambda>_. 0"]
    and oth = add_row_other [OF zero_table(3), of 0 _ "str ''root''" "str ''1234''"]
  show u: "uname (utable user_demo) j = (if j = 0 then str ''root'' else [])"
    "upass (utable user_demo) j = (if j = 0 then str ''1234'' else [])" if "j < NUM_USER" for j
    using row oth [of j] that wf by (auto simp: user_demo_sel zero_table NUM_USER_def)
  show "utable_ok (utable user_demo)" by (simp add: utable_ok_def u)
qed

lemma user_demo_zero: "j < USER_FIELD \<Longrightarrow> utable user_demo (urow 3 + j) = 0"
  by (auto simp: user_demo_sel urow_def USER_FIELD_def add_row_def Let_def strcpy_def store32_def utable_sizes)

theorem useradd_row_accounts_witness:
  "usercheck (str ''kim'') (str ''pw'') (user_demo\<lparr>utable := add_row 1 (str ''kim'') (str ''pw'') (utable user_demo)\<rparr>) = 1"
  using useradd_row_accounts [OF user_demo_rows(3), of 1 "str ''kim''" "str ''pw''" "str ''root''" "str ''pw''"]
  by (simp add: user_demo_rows Let_def wf_cstr_def str_simps NUM_USER_def)

theorem useradd_long_name_locked_out_witness:
  "usercheck (str ''abcdefghijklmnop'') (str ''pw'')
     (user_demo\<lparr>utable := add_row 1 (str ''abcdefghijklmnop'') (str ''pw'') (utable user_demo)\<rparr>) = 0"
  using useradd_long_name_locked_out [OF user_demo_rows(3), of 1 "str ''abcdefghijklmnop''" "str ''pw''"]
  by (simp add: user_demo_rows wf_cstr_def str_simps NUM_USER_def)

theorem usercheck_empty_credentials_witness: "usercheck [] [] user_demo = 1"
  by (rule usercheck_empty_credentials [of 3]) (simp_all add: user_demo_zero NUM_USER_def)

theorem useradd_duplicate_leaks_lock_witness:
  "useradd (str ''root'') [] user_demo = Ret (-1) (with_locks [UtableLock] user_demo)"
  using useradd_duplicate_leaks_lock [OF user_demo_in user_demo_sel(2), of "str ''root''" 0 "[]"]
  by (simp add: user_demo_rows wf_cstr_def str_simps NUM_USER_def)

end
