(* ===== verification/Sched.thy ===== *)
theory Sched
  imports ProcTable
begin

text \<open>
  The three schedulers of \<open>proc.c\<close>: round robin (the default), the multilevel queue
  (\<open>MULTILEVEL_SCHED\<close>) and the multilevel feedback queue (\<open>MLFQ_SCHED\<close>).

  Each \<open>scheduler()\<close> is an endless loop with jumps, so it is modelled as a step function on
  a program counter and the kernel state: one step is one iteration of the loop the program
  counter is in. A step also reports the slot it switched to, if any. \<open>run i s\<close> is what
  happens between \<open>swtch\<close> to the process in slot \<open>i\<close> and its return to the scheduler.
\<close>

section \<open>Switching to a process\<close>

definition dispatch ::
  "(nat \<Rightarrow> 'z proc_state_scheme \<Rightarrow> 'z proc_state_scheme) \<Rightarrow> nat \<Rightarrow> nat \<Rightarrow> 'z proc_state_scheme \<Rightarrow>
    (unit, 'z proc_state_scheme) res" where
  "dispatch run c i s =
     (let s = upd_cpu c (\<lambda>u. u\<lparr>cpu_proc := Some i\<rparr>) s
      in kbind (switchuvm (Some i) s) (\<lambda>_ s.
         let s = upd_proc i (\<lambda>p. p\<lparr>p_state := RUNNING\<rparr>) s;
             s = run i s
         in switchkvm s))"

definition idle :: "nat \<Rightarrow> 'z proc_state_scheme \<Rightarrow> 'z proc_state_scheme" where
  "idle c s = upd_cpu c (\<lambda>u. u\<lparr>cpu_proc := None\<rparr>) s"

definition runnable :: "'z proc_state_scheme \<Rightarrow> nat \<Rightarrow> bool" where
  "runnable s i \<longleftrightarrow> p_state (ptable s i) = RUNNABLE"

definition even_pid :: "'z proc_state_scheme \<Rightarrow> nat \<Rightarrow> bool" where
  "even_pid s i \<longleftrightarrow> p_pid (ptable s i) mod 2 = 0"

text \<open>The entry of every \<open>scheduler()\<close>: \<open>c = mycpu(); c->proc = 0\<close>.\<close>

definition scheduler_enter :: "'z proc_state_scheme \<Rightarrow> (nat, 'z proc_state_scheme) res" where
  "scheduler_enter s = kbind (mycpu s) (\<lambda>c s. Ret c (idle c s))"

text \<open>The head of every endless loop: \<open>sti()\<close>, then the table lock.\<close>

definition scheduler_lock :: "'z proc_state_scheme \<Rightarrow> (unit, 'z proc_state_scheme) res" where
  "scheduler_lock s = acquire PtableLock (s\<lparr>eflags_IF := True\<rparr>)"

section \<open>Round robin\<close>

datatype rr_pc = RrTop | RrAt nat

definition rr_step ::
  "(nat \<Rightarrow> 'z proc_state_scheme \<Rightarrow> 'z proc_state_scheme) \<Rightarrow> nat \<Rightarrow> rr_pc \<Rightarrow> 'z proc_state_scheme \<Rightarrow>
    (rr_pc \<times> nat option, 'z proc_state_scheme) res" where
  "rr_step run c pc s =
     (case pc of
        RrTop \<Rightarrow> kbind (scheduler_lock s) (\<lambda>_ s. Ret (RrAt 0, None) s)
      | RrAt i \<Rightarrow>
          if i < NPROC then
            (if \<not> runnable s i then Ret (RrAt (Suc i), None) s
             else kbind (dispatch run c i s) (\<lambda>_ s. Ret (RrAt (Suc i), Some i) (idle c s)))
          else kbind (release PtableLock s) (\<lambda>_ s. Ret (RrTop, None) s))"

section \<open>Multilevel queue\<close>

datatype ml_pc = MlTop | MlEven nat | MlRecheck | MlOdd nat

text \<open>
  The inner loop over \<open>temp_p\<close>: \<open>None\<close> is the jump to \<open>EXIST_RUNNABLE\<close>, otherwise the value
  \<open>p\<close> has after the loop.
\<close>

fun odd_scan :: "'z proc_state_scheme \<Rightarrow> nat list \<Rightarrow> nat \<Rightarrow> nat option" where
  "odd_scan s [] p = Some p"
| "odd_scan s (temp_p # ts) p =
     (if runnable s p \<and> even_pid s p then None
      else odd_scan s ts
        (if runnable s temp_p \<and> \<not> even_pid s temp_p \<and> p_time_c (ptable s p) > p_time_c (ptable s temp_p)
         then temp_p else p))"

definition ml_step ::
  "(nat \<Rightarrow> 'z proc_state_scheme \<Rightarrow> 'z proc_state_scheme) \<Rightarrow> nat \<Rightarrow> ml_pc \<Rightarrow> 'z proc_state_scheme \<Rightarrow>
    (ml_pc \<times> nat option, 'z proc_state_scheme) res" where
  "ml_step run c pc s =
     (case pc of
        MlTop \<Rightarrow> kbind (scheduler_lock s) (\<lambda>_ s. Ret (MlEven 0, None) s)
      | MlEven i \<Rightarrow>
          if i < NPROC then
            (if \<not> runnable s i then Ret (MlEven (Suc i), None) s
             else if even_pid s i
             then kbind (dispatch run c i s) (\<lambda>_ s. Ret (MlEven (Suc i), Some i) (idle c s))
             else Ret (MlEven (Suc i), None) s)
          else Ret (MlRecheck, None) s
      | MlRecheck \<Rightarrow>
          if first_idx NPROC (\<lambda>i. runnable s i \<and> even_pid s i) \<noteq> None then Ret (MlEven 0, None) s
          else Ret (MlOdd 0, None) s
      | MlOdd i \<Rightarrow>
          if i < NPROC then
            (if \<not> runnable s i then Ret (MlOdd (Suc i), None) s
             else case odd_scan s [0..<NPROC] i of
               None \<Rightarrow> Ret (MlEven 0, None) s
             | Some p \<Rightarrow>
                 if \<not> even_pid s p
                 then kbind (dispatch run c p s) (\<lambda>_ s. Ret (MlOdd (Suc p), Some p) (idle c s))
                 else Ret (MlOdd (Suc p), None) s)
          else kbind (release PtableLock s) (\<lambda>_ s. Ret (MlTop, None) s))"

section \<open>Multilevel feedback queue\<close>

text \<open>\<open>MLFQ_K\<close> is the number of levels; \<open>flag\<close> tells that the next multiple of 100 ticks boosts.\<close>

datatype mlfq_pc = QTop bool | QAt bool int nat

definition boost_all :: "'z proc_state_scheme \<Rightarrow> 'z proc_state_scheme" where
  "boost_all s = s\<lparr>ptable := for_upd NPROC (\<lambda>p. p\<lparr>p_level := 0, p_hold := 4\<rparr>) (ptable s)\<rparr>"

definition age_proc :: "int \<Rightarrow> proc \<Rightarrow> proc" where
  "age_proc MLFQ_K p =
     (let p = (if p_level p < MLFQ_K - 1 \<and> p_hold p \<le> 0
               then (let p = p\<lparr>p_level := p_level p + 1\<rparr>
                     in p\<lparr>p_hold := TIME_QUANTUM (nat (p_level p))\<rparr>)
               else p)
      in if p_state p = SLEEPING then p\<lparr>p_level := 0, p_hold := TIME_QUANTUM 0\<rparr> else p)"

definition age_all :: "int \<Rightarrow> 'z proc_state_scheme \<Rightarrow> 'z proc_state_scheme" where
  "age_all MLFQ_K s = s\<lparr>ptable := for_upd NPROC (age_proc MLFQ_K) (ptable s)\<rparr>"

definition eligible :: "'z proc_state_scheme \<Rightarrow> nat \<Rightarrow> bool" where
  "eligible s i \<longleftrightarrow> runnable s i \<and> p_hold (ptable s i) > 0"

definition now_level :: "int \<Rightarrow> 'z proc_state_scheme \<Rightarrow> int" where
  "now_level MLFQ_K s =
     fold (\<lambda>i l. if eligible s i \<and> p_level (ptable s i) < l then p_level (ptable s i) else l)
       [0..<NPROC] MLFQ_K"

text \<open>The scan for \<open>new_p\<close>: the first slot of strictly greatest priority, starting from \<open>p\<close>.\<close>

definition best_slot :: "'z proc_state_scheme \<Rightarrow> int \<Rightarrow> nat \<Rightarrow> nat" where
  "best_slot s lev p =
     fold (\<lambda>t new_p. if eligible s t \<and> p_level (ptable s t) = lev \<and>
                        p_priority (ptable s t) > p_priority (ptable s new_p) then t else new_p)
       [0..<NPROC] p"

definition mlfq_step ::
  "int \<Rightarrow> (nat \<Rightarrow> 'z proc_state_scheme \<Rightarrow> 'z proc_state_scheme) \<Rightarrow> nat \<Rightarrow> mlfq_pc \<Rightarrow> 'z proc_state_scheme \<Rightarrow>
    (mlfq_pc \<times> nat option, 'z proc_state_scheme) res" where
  "mlfq_step MLFQ_K run c pc s =
     (case pc of
        QTop flag \<Rightarrow>
          kbind (scheduler_lock s) (\<lambda>_ s.
          let boost = (ticks s mod 100 = 0 \<and> flag);
              s = (if boost then boost_all s else s);
              flag = (if boost then False else flag);
              flag = (if ticks s mod 100 \<noteq> 0 then True else flag);
              s = age_all MLFQ_K s;
              lev = now_level MLFQ_K s
          in if lev = MLFQ_K
             then kbind (release PtableLock (boost_all s)) (\<lambda>_ s. Ret (QTop flag, None) s)
             else Ret (QAt flag lev 0, None) s)
      | QAt flag lev i \<Rightarrow>
          if i < NPROC then
            (if \<not> (eligible s i \<and> p_level (ptable s i) = lev) then Ret (QAt flag lev (Suc i), None) s
             else let p = best_slot s lev i
                  in kbind (dispatch run c p s) (\<lambda>_ s.
                     let s = (if p_hold (ptable s p) > 0
                              then upd_proc p (\<lambda>q. q\<lparr>p_hold := p_hold q - 1\<rparr>) s else s)
                     in Ret (QAt flag lev (Suc p), Some p) (idle c s)))
          else kbind (release PtableLock s) (\<lambda>_ s. Ret (QTop flag, None) s))"

section \<open>Runs\<close>

text \<open>\<open>n\<close> steps of a scheduler, with the slots it switched to, in order.\<close>

fun steps :: "('p \<Rightarrow> 's \<Rightarrow> ('p \<times> nat option, 's) res) \<Rightarrow> nat \<Rightarrow> 'p \<Rightarrow> 's \<Rightarrow> ('p \<times> nat list, 's) res" where
  "steps f 0 pc s = Ret (pc, []) s"
| "steps f (Suc n) pc s =
     kbind (f pc s) (\<lambda>r s. kbind (steps f n (fst r) s) (\<lambda>q s.
       Ret (fst q, (case snd r of None \<Rightarrow> snd q | Some i \<Rightarrow> i # snd q)) s))"

section \<open>What the scans choose\<close>

lemma odd_scan_choice:
  "odd_scan s ts p = Some q \<Longrightarrow> runnable s p \<Longrightarrow> \<not> even_pid s p \<Longrightarrow>
     q \<in> insert p (set ts) \<and> runnable s q \<and> \<not> even_pid s q \<and>
     (\<forall>t\<in>insert p (set ts). runnable s t \<and> \<not> even_pid s t \<longrightarrow> p_time_c (ptable s q) \<le> p_time_c (ptable s t))"
proof (induction ts arbitrary: p)
  case Nil
  then show ?case by simp
next
  case (Cons t ts)
  define r where "r = (if runnable s t \<and> \<not> even_pid s t \<and> p_time_c (ptable s p) > p_time_c (ptable s t)
    then t else p)"
  have r: "runnable s r" "\<not> even_pid s r" "r \<in> {p, t}"
      "p_time_c (ptable s r) \<le> p_time_c (ptable s p)"
      "runnable s t \<and> \<not> even_pid s t \<longrightarrow> p_time_c (ptable s r) \<le> p_time_c (ptable s t)"
    using Cons.prems by (auto simp: r_def not_less)
  have "odd_scan s ts r = Some q"
    using Cons.prems by (simp add: r_def)
  note IH = Cons.IH [OF this r(1,2)]
  then have le: "p_time_c (ptable s q) \<le> p_time_c (ptable s r)" using r(1,2) by blast
  from IH r(3) order_trans [OF le r(4)] order_trans [OF le] r(5) show ?case
    by auto
qed

lemma odd_scan_odd: "runnable s p \<Longrightarrow> \<not> even_pid s p \<Longrightarrow> odd_scan s ts p \<noteq> None"
  by (induction ts arbitrary: p) auto

lemma odd_scan_even: "runnable s p \<Longrightarrow> even_pid s p \<Longrightarrow> ts \<noteq> [] \<Longrightarrow> odd_scan s ts p = None"
  by (cases ts) auto

text \<open>A scan that keeps the better of the current and the visited slot.\<close>

lemma fold_better:
  assumes "\<And>t p. t \<in> set ts \<Longrightarrow> (f t p = p \<and> (ok t \<longrightarrow> (key t :: int) \<le> key p)) \<or> (f t p = t \<and> ok t \<and> key p \<le> key t)"
    and "ok p"
  shows "fold f ts p \<in> insert p (set ts) \<and> ok (fold f ts p) \<and> key p \<le> key (fold f ts p) \<and>
    (\<forall>t\<in>set ts. ok t \<longrightarrow> key t \<le> key (fold f ts p))"
  using assms
proof (induction ts arbitrary: p)
  case Nil
  then show ?case by simp
next
  case (Cons t ts)
  have step: "(f t p = p \<and> (ok t \<longrightarrow> key t \<le> key p)) \<or> (f t p = t \<and> ok t \<and> key p \<le> key t)"
    using Cons.prems(1) by simp
  then have ok: "ok (f t p)" using Cons.prems(2) by auto
  have "fold f ts (f t p) \<in> insert (f t p) (set ts) \<and> ok (fold f ts (f t p)) \<and>
      key (f t p) \<le> key (fold f ts (f t p)) \<and> (\<forall>u\<in>set ts. ok u \<longrightarrow> key u \<le> key (fold f ts (f t p)))"
    using Cons.IH [OF Cons.prems(1) ok] by simp
  with step show ?case by (auto intro: order_trans)
qed

lemma best_slot_choice:
  assumes "i < NPROC" and "eligible s i" and "p_level (ptable s i) = lev"
  defines "q \<equiv> best_slot s lev i"
  shows "q < NPROC" and "eligible s q" and "p_level (ptable s q) = lev"
    and "\<forall>t<NPROC. eligible s t \<and> p_level (ptable s t) = lev \<longrightarrow>
      p_priority (ptable s t) \<le> p_priority (ptable s q)"
proof -
  let ?ok = "\<lambda>t. eligible s t \<and> p_level (ptable s t) = lev"
  have "q \<in> insert i (set [0..<NPROC]) \<and> ?ok q \<and> p_priority (ptable s i) \<le> p_priority (ptable s q) \<and>
      (\<forall>t\<in>set [0..<NPROC]. ?ok t \<longrightarrow> p_priority (ptable s t) \<le> p_priority (ptable s q))"
    unfolding q_def best_slot_def by (rule fold_better) (use assms in auto)
  with assms(1) show "q < NPROC" "eligible s q" "p_level (ptable s q) = lev"
    "\<forall>t<NPROC. eligible s t \<and> p_level (ptable s t) = lev \<longrightarrow> p_priority (ptable s t) \<le> p_priority (ptable s q)"
    by auto
qed

lemma fold_min:
  fixes key :: "nat \<Rightarrow> int"
  shows "fold (\<lambda>i l. if ok i \<and> key i < l then key i else l) xs a =
    Min (insert a (key ` {i \<in> set xs. ok i}))"
proof (induction xs arbitrary: a)
  case Nil
  then show ?case by simp
next
  case (Cons x xs)
  define A where "A = key ` {i \<in> set xs. ok i}"
  have fin: "finite A" by (simp add: A_def)
  have set: "key ` {i \<in> set (x # xs). ok i} = (if ok x then insert (key x) A else A)"
    by (auto simp: A_def)
  have "Min (insert (if ok x \<and> key x < a then key x else a) A) =
      Min (insert a (if ok x then insert (key x) A else A))"
    using fin by (cases "A = {}") (auto simp: min_def)
  then show ?case
    unfolding set using Cons.IH by (simp add: A_def)
qed

lemma now_level_Min:
  "now_level K s = Min (insert K ((\<lambda>i. p_level (ptable s i)) ` {i. i < NPROC \<and> eligible s i}))"
  unfolding now_level_def fold_min [where key = "\<lambda>i. p_level (ptable s i)"] by simp

lemma now_level_le: "now_level K s \<le> K"
  unfolding now_level_Min by (rule Min_le) auto

lemma now_level_lower: "i < NPROC \<Longrightarrow> eligible s i \<Longrightarrow> now_level K s \<le> p_level (ptable s i)"
  unfolding now_level_Min by (rule Min_le) auto

lemma now_level_attained:
  "now_level K s \<noteq> K \<Longrightarrow> \<exists>i<NPROC. eligible s i \<and> p_level (ptable s i) = now_level K s"
proof -
  let ?S = "insert K ((\<lambda>i. p_level (ptable s i)) ` {i. i < NPROC \<and> eligible s i})"
  have "now_level K s \<in> ?S"
    unfolding now_level_Min by (rule Min_in) auto
  then show "now_level K s \<noteq> K \<Longrightarrow> ?thesis" by auto
qed

section \<open>The table across a dispatch\<close>

lemma no_locks_table:
  fixes s t :: "'z proc_state_scheme"
  assumes "no_locks t = no_locks s"
  shows "ptable t = ptable s" and "ticks t = ticks s"
  using arg_cong [OF assms, of ptable] arg_cong [OF assms, of ticks] by (simp_all add: no_locks_def)

lemma table_views:
  fixes s t :: "'z proc_state_scheme"
  assumes "ptable t = ptable s"
  shows "runnable t = runnable s" "even_pid t = even_pid s" "eligible t = eligible s"
  using assms by (simp_all add: runnable_def even_pid_def eligible_def fun_eq_iff)

lemma switchuvm_frame: "switchuvm p s = Ret u t \<Longrightarrow> no_locks t = no_locks s"
  by (auto simp: switchuvm_def Let_def kret dest!: mycpu_Ret pushcli_frame popcli_frame
      split: option.splits if_splits)

lemma switchkvm_frame: "switchkvm s = Ret u t \<Longrightarrow> no_locks t = no_locks s"
  by (auto simp: switchkvm_def kret dest!: mycpu_Ret)

lemma upd_cpu_table [simp]: "ptable (upd_cpu c f s) = ptable s" "ticks (upd_cpu c f s) = ticks s"
  by (simp_all add: upd_cpu_def)

lemma idle_table [simp]: "ptable (idle c s) = ptable s" "ticks (idle c s) = ticks s"
  by (simp_all add: idle_def)

lemma dispatch_Ret:
  assumes "dispatch run c i s = Ret u t"
  obtains v where "ptable v = (ptable s)(i := (ptable s i)\<lparr>p_state := RUNNING\<rparr>)"
    and "ticks v = ticks s" and "ptable t = ptable (run i v)"
proof -
  from assms obtain a w where w: "switchuvm (Some i) (upd_cpu c (\<lambda>u. u\<lparr>cpu_proc := Some i\<rparr>) s) = Ret a w"
    and k: "switchkvm (run i (upd_proc i (\<lambda>p. p\<lparr>p_state := RUNNING\<rparr>) w)) = Ret u t"
    by (auto simp: dispatch_def Let_def kret)
  from no_locks_table [OF switchuvm_frame [OF w]] have w': "ptable w = ptable s" "ticks w = ticks s"
    by simp_all
  show thesis
    by (rule that [of "upd_proc i (\<lambda>p. p\<lparr>p_state := RUNNING\<rparr>) w"])
       (use w' no_locks_table(1) [OF switchkvm_frame [OF k]] in simp_all)
qed

lemma scheduler_lock_table:
  "scheduler_lock s = Ret u t \<Longrightarrow> ptable t = ptable s \<and> ticks t = ticks s"
  using no_locks_table [OF acquire_frame [of PtableLock "s\<lparr>eflags_IF := True\<rparr>" u t]]
  by (simp add: scheduler_lock_def)

lemma release_table: "release l s = Ret u t \<Longrightarrow> ptable t = ptable s"
  using no_locks_table [OF release_frame] by blast

section \<open>Schedulers do not panic\<close>

text \<open>
  The states a scheduler moves through on CPU \<open>c\<close>: at the head of the loop nothing is held,
  inside it exactly the table lock; runnable processes have a kernel stack and a page table.
\<close>

definition loaded :: "'z proc_state_scheme \<Rightarrow> bool" where
  "loaded s \<longleftrightarrow> (\<forall>i<NPROC. runnable s i \<longrightarrow> p_kstack (ptable s i) \<noteq> 0 \<and> p_pgdir (ptable s i) \<noteq> 0)"

definition in_scan :: "nat \<Rightarrow> 'z proc_state_scheme \<Rightarrow> bool" where
  "in_scan c s \<longleftrightarrow> (\<exists>t. s = with_locks [PtableLock] t \<and> quiet t \<and> this_cpu t = c \<and> loaded t)"

definition at_head :: "nat \<Rightarrow> 'z proc_state_scheme \<Rightarrow> bool" where
  "at_head c s \<longleftrightarrow> calm s \<and> this_cpu s = c \<and> loaded s"

text \<open>
  What the scheduler relies on when a process gives the CPU back: it holds the table lock
  alone, on the same CPU, and the processes it made runnable are loaded.
\<close>

definition run_returns :: "nat \<Rightarrow> (nat \<Rightarrow> 'z proc_state_scheme \<Rightarrow> 'z proc_state_scheme) \<Rightarrow> bool" where
  "run_returns c run \<longleftrightarrow> (\<forall>i s. in_scan c s \<and> p_kstack (ptable s i) \<noteq> 0 \<and> p_pgdir (ptable s i) \<noteq> 0 \<longrightarrow>
     in_scan c (run i s))"

lemma loaded_views:
  "ptable t = ptable s \<Longrightarrow> loaded t = loaded s"
  by (simp add: loaded_def runnable_def)

lemma loaded_with_locks [simp]: "loaded (with_locks L s) = loaded s"
  by (rule loaded_views) simp

lemma runnable_with_locks [simp]:
  "runnable (with_locks L s) = runnable s" "even_pid (with_locks L s) = even_pid s"
  "eligible (with_locks L s) = eligible s"
  by (rule table_views, simp)+

lemma in_scan_upd_cpu: "in_scan c s \<Longrightarrow> cpu_neutral f \<Longrightarrow> in_scan c (upd_cpu k f s)"
  unfolding in_scan_def
proof (elim exE conjE)
  fix t assume t: "s = with_locks [PtableLock] t" "quiet t" "this_cpu t = c" "loaded t" and f: "cpu_neutral f"
  show "\<exists>t. upd_cpu k f s = with_locks [PtableLock] t \<and> quiet t \<and> this_cpu t = c \<and> loaded t"
    by (rule exI [of _ "upd_cpu k f t"]) (use t in \<open>simp add: upd_cpu_neutral [OF f] loaded_views [OF upd_cpu_table(1)]\<close>)
qed

lemma in_scan_mycpu: "in_scan c s \<Longrightarrow> mycpu s = Ret c s"
  by (auto simp: in_scan_def)

lemma in_scan_push_pop:
  assumes "in_scan c s"
  shows "pushcli s = Ret () (pushed s)" "mycpu (pushed s) = Ret c (pushed s)"
    "cpu_neutral f \<Longrightarrow> popcli (upd_cpu c f (pushed s)) = Ret () (upd_cpu c f s)"
proof -
  from assms obtain t where t: "s = with_locks [PtableLock] t" "quiet t" "this_cpu t = c"
    by (auto simp: in_scan_def)
  then show "pushcli s = Ret () (pushed s)" "mycpu (pushed s) = Ret c (pushed s)"
    by (simp_all add: pushcli_eq mycpu_eq quietD)
  assume f: "cpu_neutral f"
  have "popcli (pushed (with_locks [PtableLock] (upd_cpu c f t))) = Ret () (with_locks [PtableLock] (upd_cpu c f t))"
    using t by (intro popcli_pushed_with_locks) (simp add: upd_cpu_neutral [OF f])
  then show "popcli (upd_cpu c f (pushed s)) = Ret () (upd_cpu c f s)"
    by (simp add: t(1) upd_cpu_neutral(4) [OF f] flip: upd_cpu_neutral(5) [OF f])
qed

lemma in_scan_switchuvm:
  assumes "in_scan c s" and "p_kstack (ptable s i) \<noteq> 0" and "p_pgdir (ptable s i) \<noteq> 0"
  shows "switchuvm (Some i) s = Ret () (upd_cpu c (\<lambda>u. u\<lparr>ts_esp0 := p_kstack (ptable s i) + KSTACKSIZE,
    cr3 := V2P (p_pgdir (ptable s i))\<rparr>) s)"
proof -
  let ?f = "\<lambda>u. u\<lparr>ts_esp0 := p_kstack (ptable s i) + KSTACKSIZE, cr3 := V2P (p_pgdir (ptable s i))\<rparr>"
  have n: "cpu_neutral ?f" by (simp add: cpu_neutral_def)
  have tab: "ptable (pushed s) = ptable s" by (simp add: pushed_def)
  have "upd_cpu c (\<lambda>u. u\<lparr>cr3 := d\<rparr>) (upd_cpu c (\<lambda>u. u\<lparr>ts_esp0 := e\<rparr>) (pushed s)) =
      upd_cpu c (\<lambda>u. u\<lparr>ts_esp0 := e, cr3 := d\<rparr>) (pushed s)" for d e
    by (simp add: upd_cpu_def)
  then show ?thesis
    using assms in_scan_push_pop [OF assms(1)] n by (simp add: switchuvm_def Let_def tab)
qed

lemma in_scan_sub:
  assumes "in_scan c s"
    and "\<And>t. quiet (f t) = quiet t" "\<And>t. this_cpu (f t) = this_cpu t"
    and "\<And>L t. f (with_locks L t) = with_locks L (f t)" and "\<And>t. loaded t \<Longrightarrow> loaded (f t)"
  shows "in_scan c (f s)"
  using assms unfolding in_scan_def by metis

lemma in_scan_running: "in_scan c s \<Longrightarrow> in_scan c (upd_proc i (\<lambda>p. p\<lparr>p_state := RUNNING\<rparr>) s)"
  by (erule in_scan_sub) (auto simp: loaded_def runnable_def)

lemma in_scan_quanta:
  "in_scan c s \<Longrightarrow> in_scan c (upd_proc i (\<lambda>p. p\<lparr>p_hold := h p\<rparr>) s)"
  "in_scan c s \<Longrightarrow> in_scan c (boost_all s)" "in_scan c s \<Longrightarrow> in_scan c (age_all K s)"
  by (erule in_scan_sub, auto simp: loaded_def runnable_def boost_all_def age_all_def age_proc_def Let_def)+

lemma in_scan_runnable: "in_scan c s \<Longrightarrow> i < NPROC \<Longrightarrow> runnable s i \<Longrightarrow>
    p_kstack (ptable s i) \<noteq> 0 \<and> p_pgdir (ptable s i) \<noteq> 0"
  by (auto simp: in_scan_def loaded_def)

lemma in_scan_dispatch:
  assumes "run_returns c run" and "in_scan c s" and "i < NPROC" and "runnable s i"
  shows "\<exists>t. dispatch run c i s = Ret () t \<and> in_scan c t"
proof -
  let ?a = "upd_cpu c (\<lambda>u. u\<lparr>cpu_proc := Some i\<rparr>) s"
  let ?b = "upd_cpu c (\<lambda>u. u\<lparr>ts_esp0 := p_kstack (ptable s i) + KSTACKSIZE,
    cr3 := V2P (p_pgdir (ptable s i))\<rparr>) ?a"
  let ?r = "run i (upd_proc i (\<lambda>p. p\<lparr>p_state := RUNNING\<rparr>) ?b)"
  have a: "in_scan c ?a" using assms(2) by (rule in_scan_upd_cpu) simp
  then have b: "in_scan c ?b" by (rule in_scan_upd_cpu) (simp add: cpu_neutral_def)
  then have r: "in_scan c ?r"
    using assms(1) in_scan_running [OF b, of i] in_scan_runnable [OF assms(2-4)]
    unfolding run_returns_def by simp
  have "switchuvm (Some i) ?a = Ret () ?b"
    using in_scan_switchuvm [OF a, of i] in_scan_runnable [OF assms(2-4)] by simp
  then have "dispatch run c i s = Ret () (upd_cpu c (\<lambda>u. u\<lparr>cr3 := V2P (kpgdir ?r)\<rparr>) ?r)"
    using in_scan_mycpu [OF r] by (simp add: dispatch_def Let_def switchkvm_def)
  moreover have "in_scan c (upd_cpu c (\<lambda>u. u\<lparr>cr3 := V2P (kpgdir ?r)\<rparr>) ?r)"
    using r by (rule in_scan_upd_cpu) simp
  ultimately show ?thesis by blast
qed

lemma in_scan_idle: "in_scan c s \<Longrightarrow> in_scan c (idle c s)"
  unfolding idle_def by (rule in_scan_upd_cpu) simp_all

lemma in_scan_release: "in_scan c s \<Longrightarrow> \<exists>t. release PtableLock s = Ret () t \<and> at_head c t"
  by (auto simp: in_scan_def at_head_def quiet_calm)

lemma at_head_lock: "at_head c s \<Longrightarrow> \<exists>t. scheduler_lock s = Ret () t \<and> in_scan c t"
proof -
  assume h: "at_head c s"
  let ?t = "settle (s\<lparr>eflags_IF := True\<rparr>)"
  have "quiet ?t" "this_cpu ?t = c" "loaded ?t"
    using h loaded_views [of ?t s] by (auto simp: at_head_def) (simp add: settle_def)
  then show ?thesis
    using h by (auto simp: at_head_def scheduler_lock_def acquire_calm in_scan_def)
qed

text \<open>
  The contract of a scheduler loop: from a good state with well-behaved processes every step
  returns, in a good state.
\<close>

locale sched_loop =
  fixes step :: "'r \<Rightarrow> nat \<Rightarrow> 'p \<Rightarrow> 's \<Rightarrow> ('p \<times> nat option, 's) res"
    and ok :: "nat \<Rightarrow> 'r \<Rightarrow> bool"
    and good :: "nat \<Rightarrow> 'p \<Rightarrow> 's \<Rightarrow> bool"
  assumes step_good: "ok c r \<Longrightarrow> good c pc s \<Longrightarrow> \<exists>q t. step r c pc s = Ret q t \<and> good c (fst q) t"
begin

lemma steps_good:
  "ok c r \<Longrightarrow> good c pc s \<Longrightarrow> \<exists>q t. steps (step r c) n pc s = Ret q t \<and> good c (fst q) t"
proof (induction n arbitrary: pc s)
  case (Suc n)
  from step_good [OF Suc.prems] obtain q t where q: "step r c pc s = Ret q t" "good c (fst q) t" by blast
  from Suc.IH [OF Suc.prems(1) q(2)] q(1) show ?case by auto
qed auto

end

definition rr_good :: "nat \<Rightarrow> rr_pc \<Rightarrow> 'z proc_state_scheme \<Rightarrow> bool" where
  "rr_good c pc s = (case pc of RrTop \<Rightarrow> at_head c s | _ \<Rightarrow> in_scan c s)"

definition ml_good :: "nat \<Rightarrow> ml_pc \<Rightarrow> 'z proc_state_scheme \<Rightarrow> bool" where
  "ml_good c pc s = (case pc of MlTop \<Rightarrow> at_head c s | _ \<Rightarrow> in_scan c s)"

definition mlfq_good :: "nat \<Rightarrow> mlfq_pc \<Rightarrow> 'z proc_state_scheme \<Rightarrow> bool" where
  "mlfq_good c pc s = (case pc of QTop _ \<Rightarrow> at_head c s | _ \<Rightarrow> in_scan c s)"

lemmas sched_progress = in_scan_dispatch in_scan_idle in_scan_release at_head_lock in_scan_quanta

lemma rr_step_good:
  assumes "run_returns c run" and "rr_good c pc s"
  shows "\<exists>q t. rr_step run c pc s = Ret q t \<and> rr_good c (fst q) t"
proof (cases pc)
  case RrTop
  with assms(2) at_head_lock [of c s] show ?thesis
    by (auto simp: rr_good_def rr_step_def)
next
  case (RrAt i)
  with assms(2) have s: "in_scan c s" by (simp add: rr_good_def)
  show ?thesis
    using RrAt s in_scan_release [OF s] in_scan_dispatch [OF assms(1) s, of i] in_scan_idle
    by (fastforce simp: rr_good_def rr_step_def)
qed

lemma odd_scan_in: "odd_scan s ts p = Some q \<Longrightarrow> runnable s p \<Longrightarrow> q \<in> insert p (set ts) \<and> runnable s q"
  by (induction ts arbitrary: p) (auto split: if_splits)

lemma ml_step_good:
  assumes "run_returns c run" and "ml_good c pc s"
  shows "\<exists>q t. ml_step run c pc s = Ret q t \<and> ml_good c (fst q) t"
proof (cases pc)
  case MlTop
  with assms(2) at_head_lock [of c s] show ?thesis
    by (auto simp: ml_good_def ml_step_def)
next
  case (MlEven i)
  with assms(2) have s: "in_scan c s" by (simp add: ml_good_def)
  show ?thesis
    using MlEven s in_scan_dispatch [OF assms(1) s, of i] in_scan_idle
    by (fastforce simp: ml_good_def ml_step_def)
next
  case MlRecheck
  with assms(2) show ?thesis by (auto simp: ml_good_def ml_step_def)
next
  case (MlOdd i)
  with assms(2) have s: "in_scan c s" by (simp add: ml_good_def)
  have "\<exists>t. dispatch run c q s = Ret () t \<and> in_scan c t"
    if "i < NPROC" "runnable s i" "odd_scan s [0..<NPROC] i = Some q" for q
    using in_scan_dispatch [OF assms(1) s, of q] odd_scan_in [OF that(3,2)] that(1) by auto
  then show ?thesis
    using MlOdd s in_scan_release [OF s] in_scan_idle
    by (fastforce simp: ml_good_def ml_step_def split: option.splits)
qed

lemma mlfq_step_good:
  assumes "run_returns c run" and "mlfq_good c pc s"
  shows "\<exists>q t. mlfq_step K run c pc s = Ret q t \<and> mlfq_good c (fst q) t"
proof (cases pc)
  case (QTop flag)
  with assms(2) obtain t where t: "scheduler_lock s = Ret () t" "in_scan c t"
    using at_head_lock [of c s] by (auto simp: mlfq_good_def)
  define u where "u = age_all K (if ticks t mod 100 = 0 \<and> flag then boost_all t else t)"
  have u: "in_scan c u" using t(2) by (auto simp: u_def intro!: in_scan_quanta)
  show ?thesis
    using QTop t in_scan_release [OF in_scan_quanta(2) [OF u]] u
    by (auto simp: mlfq_good_def mlfq_step_def Let_def simp flip: u_def)
next
  case (QAt flag lev i)
  with assms(2) have s: "in_scan c s" by (simp add: mlfq_good_def)
  show ?thesis
  proof (cases "i < NPROC \<and> eligible s i \<and> p_level (ptable s i) = lev")
    case True
    let ?p = "best_slot s lev i"
    obtain t where t: "dispatch run c ?p s = Ret () t" "in_scan c t"
      using in_scan_dispatch [OF assms(1) s, of ?p] best_slot_choice(1,2) [of i s lev] True
      by (auto simp: eligible_def)
    then show ?thesis
      using True QAt in_scan_idle [OF t(2)] in_scan_idle [OF in_scan_quanta(1) [OF t(2)]]
      by (simp add: mlfq_good_def mlfq_step_def Let_def)
  next
    case False
    with QAt s in_scan_release [OF s] show ?thesis
      by (auto simp: mlfq_good_def mlfq_step_def)
  qed
qed

interpretation rr: sched_loop rr_step run_returns rr_good
  by unfold_locales (rule rr_step_good)

interpretation ml: sched_loop ml_step run_returns ml_good
  by unfold_locales (rule ml_step_good)

interpretation mlfq: sched_loop "\<lambda>(K, run). mlfq_step K run" "\<lambda>c (K, run). run_returns c run" mlfq_good
proof unfold_locales
  fix c pc and r :: "int \<times> (nat \<Rightarrow> 'z proc_state_scheme \<Rightarrow> 'z proc_state_scheme)"
    and s :: "'z proc_state_scheme"
  assume "case r of (K, run) \<Rightarrow> run_returns c run" and "mlfq_good c pc s"
  then show "\<exists>q t. (case r of (K, run) \<Rightarrow> mlfq_step K run) c pc s = Ret q t \<and> mlfq_good c (fst q) t"
    by (cases r, simp only: prod.case) (rule mlfq_step_good)
qed

section \<open>Levels and quanta\<close>



lemma TIME_QUANTUM_vals [simp]: "TIME_QUANTUM 0 = 4" "TIME_QUANTUM (Suc 0) = 6"
    "TIME_QUANTUM 2 = 8" "TIME_QUANTUM 3 = 10" "TIME_QUANTUM 4 = 12"
  by (simp_all add: TIME_QUANTUM_def)














section \<open>The first process a run of the multilevel queue picks\<close>

lemma ml_step_MlEven:
  "i < NPROC \<Longrightarrow> runnable s i \<Longrightarrow> even_pid s i \<Longrightarrow>
     ml_step run c (MlEven i) s = kbind (dispatch run c i s) (\<lambda>_ s. Ret (MlEven (Suc i), Some i) (idle c s))"
  "i < NPROC \<Longrightarrow> \<not> (runnable s i \<and> even_pid s i) \<Longrightarrow> ml_step run c (MlEven i) s = Ret (MlEven (Suc i), None) s"
  by (auto simp: ml_step_def)

lemma ml_step_MlRecheck:
  "\<exists>i<NPROC. runnable s i \<and> even_pid s i \<Longrightarrow> ml_step run c MlRecheck s = Ret (MlEven 0, None) s"
  by (auto simp: ml_step_def first_idx_None)

lemma ml_step_Some:
  "ml_step run c pc s = Ret (pc', Some q) t \<Longrightarrow> q < NPROC \<and> runnable s q"
  by (auto simp: ml_step_def kret dest: odd_scan_in split: ml_pc.splits if_splits option.splits)

lemma ml_step_None: "ml_step run c pc s = Ret (pc', None) t \<Longrightarrow> ptable t = ptable s"
  by (auto simp: ml_step_def kret dest: scheduler_lock_table release_table
      split: ml_pc.splits if_splits option.splits)

lemma ml_first_runnable:
  "steps (ml_step run c) n pc s = Ret (pc', q # qs) t \<Longrightarrow> q < NPROC \<and> runnable s q"
proof (induction n arbitrary: pc s)
  case (Suc n)
  then obtain pc1 d s1 where 1: "ml_step run c pc s = Ret (pc1, d) s1"
    and 2: "kbind (steps (ml_step run c) n pc1 s1) (\<lambda>r s. Ret (fst r, (case d of None \<Rightarrow> snd r | Some i \<Rightarrow> i # snd r)) s)
      = Ret (pc', q # qs) t"
    by (auto simp: kret)
  show ?case
  proof (cases d)
    case None
    with 2 have rest: "steps (ml_step run c) n pc1 s1 = Ret (pc', q # qs) t" by (auto simp: kret)
    from 1 None have "ptable s1 = ptable s" by (auto dest: ml_step_None)
    from Suc.IH [OF rest] table_views(1) [OF this] show ?thesis by simp
  next
    case (Some i)
    with 2 have "i = q" by (auto simp: kret)
    with ml_step_Some 1 Some show ?thesis by blast
  qed
qed simp

lemma ml_first_even:
  "steps (ml_step run c) n (MlEven i) s = Ret (pc', q # qs) t \<Longrightarrow> i \<le> j \<Longrightarrow> j < NPROC \<Longrightarrow>
     runnable s j \<Longrightarrow> even_pid s j \<Longrightarrow> even_pid s q"
proof (induction n arbitrary: i)
  case (Suc n)
  then have i: "i < NPROC" by simp
  show ?case
  proof (cases "runnable s i \<and> even_pid s i")
    case True
    with Suc.prems(1) i show ?thesis by (auto simp: ml_step_MlEven(1) kret)
  next
    case False
    with Suc.prems(1) i have "steps (ml_step run c) n (MlEven (Suc i)) s = Ret (pc', q # qs) t"
      by (auto simp: ml_step_MlEven(2) kret)
    moreover have "Suc i \<le> j" using False Suc.prems by (cases "i = j") auto
    ultimately show ?thesis using Suc.IH Suc.prems(3-5) by blast
  qed
qed simp

section \<open>Properties\<close>


text \<open>
  The level the feedback queue turns to at the head of its loop is the least level of any
  runnable process with quantum left after ageing, and such a process exists at that level.
\<close>

theorem mlfq_serves_lowest_level:
  assumes "mlfq_step K run c (QTop flag) s = Ret (QAt flag' lev i, d) t"
  shows "i = 0 \<and> lev < K \<and>
    (\<exists>p<NPROC. runnable t p \<and> p_hold (ptable t p) > 0 \<and> p_level (ptable t p) = lev) \<and>
    (\<forall>p<NPROC. runnable t p \<and> p_hold (ptable t p) > 0 \<longrightarrow> lev \<le> p_level (ptable t p))"
proof -
  from assms have "i = 0" "lev = now_level K t" "now_level K t \<noteq> K"
    by (auto simp: mlfq_step_def Let_def kret split: if_splits)
  moreover from this(3) now_level_le [of K t] have "now_level K t < K" by simp
  ultimately show ?thesis
    using now_level_attained [of K t] now_level_lower [of _ t K] by (auto simp: eligible_def)
qed


text \<open>
  Quanta are used up and lead to demotion. A process that is switched to and neither
  resets its level nor its quantum comes back with one unit less; at the next head of the loop
  without a boost a process (not asleep) whose quantum is used up and that is not on the last
  level moves down one level with that level's full quantum.
\<close>

theorem mlfq_demotes:
  assumes "mlfq_step K run c (QAt flag lev i) s = Ret (pc', Some p) t"
    and "\<And>j u. p_hold (ptable (run j u) p) = p_hold (ptable u p) \<and> p_level (ptable (run j u) p) = p_level (ptable u p)"
  shows "p_hold (ptable t p) = p_hold (ptable s p) - 1 \<and> p_level (ptable t p) = p_level (ptable s p) \<and>
    (p_hold (ptable t p) \<le> 0 \<and> p_state (ptable t p) \<noteq> SLEEPING \<and> p_level (ptable t p) < K - 1 \<longrightarrow>
     p_level (age_proc K (ptable t p)) = p_level (ptable s p) + 1 \<and>
     p_hold (age_proc K (ptable t p)) = TIME_QUANTUM (nat (p_level (ptable s p) + 1)))"
proof -
  from assms(1) have el: "i < NPROC" "eligible s i" "p_level (ptable s i) = lev" and p: "p = best_slot s lev i"
    by (auto simp: mlfq_step_def Let_def kret split: if_splits)
  from assms(1) el p obtain a where a: "dispatch run c p s = Ret () a"
    and t: "t = idle c (if p_hold (ptable a p) > 0
        then upd_proc p (\<lambda>q. q\<lparr>p_hold := p_hold q - 1\<rparr>) a else a)"
    by (auto simp: mlfq_step_def Let_def kret)
  from dispatch_Ret [OF a] obtain v where
    v: "ptable v = (ptable s)(p := (ptable s p)\<lparr>p_state := RUNNING\<rparr>)" "ptable a = ptable (run p v)" by blast
  have "0 < p_hold (ptable s p)" using best_slot_choice(2) [OF el] by (simp add: eligible_def p)
  then have "p_hold (ptable t p) = p_hold (ptable s p) - 1" "p_level (ptable t p) = p_level (ptable s p)"
    unfolding t using assms(2) [of p v] v by simp_all
  then show ?thesis by (auto simp: age_proc_def Let_def)
qed

text \<open>
  C10: In the multilevel queue a step that switches to a process from the odd queue takes a
  runnable process with an odd number created no later than any other such process (first come,
  first served).
\<close>

theorem ml_odd_queue_fcfs:
  assumes "ml_step run c (MlOdd i) s = Ret (pc', Some p) t"
  shows "runnable s p \<and> p_pid (ptable s p) mod 2 \<noteq> 0 \<and>
    (\<forall>q<NPROC. runnable s q \<and> p_pid (ptable s q) mod 2 \<noteq> 0 \<longrightarrow> p_time_c (ptable s p) \<le> p_time_c (ptable s q))"
proof -
  from assms have i: "i < NPROC" "runnable s i" and scan: "odd_scan s [0..<NPROC] i = Some p"
    and odd: "\<not> even_pid s p"
    by (auto simp: ml_step_def kret split: if_splits option.splits)
  have "\<not> even_pid s i"
    using odd_scan_even [of s i "[0..<NPROC]"] scan i by (auto simp: NPROC_def)
  with odd_scan_choice [OF scan i(2)] show ?thesis by (auto simp: even_pid_def)
qed

text \<open>
  C11: When the multilevel queue re-checks the table after its pass over the even queue, the
  next process it switches to has an even number exactly if some runnable process has one: the
  odd queue is entered only when the even queue is empty.
\<close>

theorem ml_even_queue_first:
  assumes "steps (ml_step run c) n MlRecheck s = Ret (pc', q # qs) t"
  shows "p_pid (ptable s q) mod 2 = 0 \<longleftrightarrow> (\<exists>i<NPROC. runnable s i \<and> p_pid (ptable s i) mod 2 = 0)"
proof -
  obtain m where n: "n = Suc m" using assms by (cases n) simp_all
  have "even_pid s q \<longleftrightarrow> (\<exists>i<NPROC. runnable s i \<and> even_pid s i)"
  proof
    show "\<exists>i<NPROC. runnable s i \<and> even_pid s i" if "even_pid s q"
      using ml_first_runnable [OF assms] that by blast
  next
    assume ex: "\<exists>i<NPROC. runnable s i \<and> even_pid s i"
    then obtain j where j: "j < NPROC" "runnable s j" "even_pid s j" by blast
    have "steps (ml_step run c) m (MlEven 0) s = Ret (pc', q # qs) t"
      using assms unfolding n by (simp add: ml_step_MlRecheck [OF ex]) (auto simp: kret)
    then show "even_pid s q" by (rule ml_first_even) (use j in simp_all)
  qed
  then show ?thesis by (simp only: even_pid_def)
qed

text \<open>
  Once inside the odd queue the scheduler no longer looks for even numbers: at a runnable
  odd process it switches to an odd process even if one with an even number has become runnable
  in another slot (the inner loop tests \<open>p\<close> where its comment is about \<open>temp_p\<close>).
\<close>

theorem ml_odd_queue_ignores_even:
  assumes "run_returns c run" and "in_scan c s"
    and "i < NPROC" and "runnable s i" and "p_pid (ptable s i) mod 2 \<noteq> 0"
    and "e < NPROC" and "runnable s e" and "p_pid (ptable s e) mod 2 = 0"
  shows "\<exists>p t. ml_step run c (MlOdd i) s = Ret (MlOdd (Suc p), Some p) t \<and> p_pid (ptable s p) mod 2 \<noteq> 0"
proof -
  have odd: "\<not> even_pid s i" using assms(5) by (simp add: even_pid_def)
  then obtain p where p: "odd_scan s [0..<NPROC] i = Some p"
    using odd_scan_odd [OF assms(4)] by blast
  from odd_scan_choice [OF p assms(4) odd] assms(3)
  have q: "p < NPROC" "runnable s p" "\<not> even_pid s p" by auto
  from in_scan_dispatch [OF assms(1,2) q(1,2)] show ?thesis
    using assms(3,4) p q(3) by (auto simp: ml_step_def even_pid_def)
qed




lemma best_slot_unique:
  assumes "i < NPROC" and "eligible s i" and "p_level (ptable s i) = lev"
    and "p < NPROC" "eligible s p" "p_level (ptable s p) = lev"
    and "\<forall>r<NPROC. r \<noteq> p \<and> eligible s r \<and> p_level (ptable s r) = lev \<longrightarrow> p_priority (ptable s r) < p_priority (ptable s p)"
  shows "best_slot s lev i = p"
  using best_slot_choice [OF assms(1-3)] assms(4-7) by (metis not_less)

lemma mlfq_step_QAt:
  "i < NPROC \<Longrightarrow> \<not> (eligible s i \<and> p_level (ptable s i) = lev) \<Longrightarrow>
     mlfq_step K run c (QAt flag lev i) s = Ret (QAt flag lev (Suc i), None) s"
  "i < NPROC \<Longrightarrow> eligible s i \<Longrightarrow> p_level (ptable s i) = lev \<Longrightarrow> best_slot s lev i = p \<Longrightarrow>
     dispatch run c p s = Ret () a \<Longrightarrow>
     mlfq_step K run c (QAt flag lev i) s = Ret (QAt flag lev (Suc p), Some p)
       (idle c (if p_hold (ptable a p) > 0 then upd_proc p (\<lambda>q. q\<lparr>p_hold := p_hold q - 1\<rparr>) a else a))"
  by (simp_all add: mlfq_step_def Let_def)





text \<open>
  C32: No scheduler panics. From a good state (the table lock free at the head of the loop and
  alone held inside it, runnable processes loaded), with processes that return the CPU in good
  states, any number of steps of each of the three schedulers returns.
\<close>

theorem schedulers_return:
  assumes "run_returns c run"
  shows "(rr_good c pc1 s1 \<longrightarrow> (\<exists>q t. steps (rr_step run c) n pc1 s1 = Ret q t)) \<and>
    (ml_good c pc2 s1 \<longrightarrow> (\<exists>q t. steps (ml_step run c) n pc2 s1 = Ret q t)) \<and>
    (mlfq_good c pc3 s1 \<longrightarrow> (\<exists>q t. steps (mlfq_step K run c) n pc3 s1 = Ret q t))"
  using rr.steps_good [OF assms] ml.steps_good [OF assms] mlfq.steps_good [of c "(K, run)"] assms
  by fastforce

section \<open>A concrete table\<close>

text \<open>
  Three runnable processes on level 0: number 2 in slot 0, number 3 with priority 5 in slot 1,
  number 5 in slot 2, seen by CPU 0 in the middle of a scan; and processes that only yield.
\<close>

definition ready_proc :: "int \<Rightarrow> int \<Rightarrow> u32 \<Rightarrow> proc" where
  "ready_proc n pri born = zero_proc\<lparr>p_state := RUNNABLE, p_pid := n, p_priority := pri, p_hold := 4,
     p_time_c := born, p_kstack := 0x80501000, p_pgdir := 0x80500000\<rparr>"

definition sched_table :: "nat \<Rightarrow> proc" where
  "sched_table = (\<lambda>_. zero_proc)(0 := ready_proc 2 0 1, 1 := ready_proc 3 5 2, 2 := ready_proc 5 1 3)"

definition sched_base :: proc_state where
  "sched_base = proc_demo\<lparr>ptable := sched_table\<rparr>"

definition sched_demo :: proc_state where
  "sched_demo = with_locks [PtableLock] sched_base"

definition yielder :: "nat \<Rightarrow> proc_state \<Rightarrow> proc_state" where
  "yielder i s = upd_proc i (\<lambda>p. p\<lparr>p_state := RUNNABLE\<rparr>) s"

definition yielder2 :: "nat \<Rightarrow> proc_state \<Rightarrow> proc_state" where
  "yielder2 i s = upd_proc i (\<lambda>p. p\<lparr>p_state := RUNNABLE, p_level := 0, p_hold := TIME_QUANTUM 0\<rparr>) s"

lemma sched_base_quiet: "quiet sched_base" "this_cpu sched_base = 0"
  using in_proc_quiet [OF proc_demo_in]
  by (simp_all add: sched_base_def) (simp add: this_cpu_def proc_demo_def demo_cpu_def first_idx_one)

lemma sched_demo_table [simp]: "ptable sched_demo = sched_table" "ptable sched_base = sched_table"
  by (simp_all add: sched_demo_def sched_base_def)

lemmas sched_demo_simps = sched_table_def ready_proc_def zero_proc_def

lemma sched_base_loaded: "loaded sched_base"
  by (auto simp: loaded_def runnable_def sched_demo_simps)

lemma sched_demo_in: "in_scan 0 sched_demo"
  using sched_base_quiet sched_base_loaded by (auto simp: in_scan_def sched_demo_def)

lemma run_returns_yielders: "run_returns c yielder" "run_returns c yielder2"
proof -
  have "in_scan c (upd_proc i f s)"
    if "in_scan c s" "p_kstack (ptable s i) \<noteq> 0" "p_pgdir (ptable s i) \<noteq> 0"
      and f: "\<And>p. p_kstack (f p) = p_kstack p \<and> p_pgdir (f p) = p_pgdir p" for i f and s :: proc_state
  proof -
    from that(1) obtain t where t: "s = with_locks [PtableLock] t" "quiet t" "this_cpu t = c" "loaded t"
      by (auto simp: in_scan_def)
    with that(2,3) f have "loaded (upd_proc i f t)" by (auto simp: loaded_def runnable_def)
    with t show ?thesis by (auto simp: in_scan_def)
  qed
  then show "run_returns c yielder" "run_returns c yielder2"
    by (auto simp: run_returns_def yielder_def yielder2_def)
qed

lemma sched_demo_best: "best_slot sched_demo 0 0 = 1"
  by (rule best_slot_unique)
     (auto simp: NPROC_def eligible_def runnable_def sched_demo_simps split: if_splits)

lemma sched_demo_mlfq:
  "\<exists>t. mlfq_step 3 yielder 0 (QAt True 0 0) sched_demo = Ret (QAt True 0 2, Some 1) t"
proof -
  have r: "1 < NPROC" "runnable sched_demo 1" "eligible sched_demo 0" "p_level (ptable sched_demo 0) = 0" "0 < NPROC"
    by (simp_all add: NPROC_def eligible_def runnable_def sched_demo_simps)
  obtain a where "dispatch yielder 0 1 sched_demo = Ret () a"
    using in_scan_dispatch [OF run_returns_yielders(1) sched_demo_in r(1,2)] by blast
  from mlfq_step_QAt(2) [OF r(5,3,4) sched_demo_best this] show ?thesis by (simp add: numeral_2_eq_2)
qed


theorem mlfq_demotes_witness:
  "\<exists>t. mlfq_step 3 yielder 0 (QAt True 0 0) sched_demo = Ret (QAt True 0 2, Some 1) t \<and>
     p_hold (ptable t 1) = 3"
proof -
  obtain t where t: "mlfq_step 3 yielder 0 (QAt True 0 0) sched_demo = Ret (QAt True 0 2, Some 1) t"
    using sched_demo_mlfq by blast
  have "p_hold (ptable (yielder j u) 1) = p_hold (ptable u 1) \<and>
      p_level (ptable (yielder j u) 1) = p_level (ptable u 1)" for j u
    by (simp add: yielder_def)
  with mlfq_demotes [OF t] have "p_hold (ptable t 1) = p_hold (ptable sched_demo 1) - 1" by blast
  then show ?thesis using t by (simp add: sched_demo_simps)
qed

lemma sched_demo_top:
  "\<exists>t. mlfq_step 3 yielder 0 (QTop False) sched_base = Ret (QAt False 0 0, None) t \<and> runnable t 1"
proof -
  have "at_head 0 sched_base"
    using sched_base_quiet sched_base_loaded by (simp add: at_head_def quiet_calm)
  then obtain a where a: "scheduler_lock sched_base = Ret () a" using at_head_lock by blast
  then have tab: "ptable a = sched_table" "ticks a = 100"
    using scheduler_lock_table [OF a] by (simp_all, simp add: sched_base_def proc_demo_def)
  let ?b = "age_all 3 a"
  have run: "runnable ?b 1" "eligible ?b 1" "p_level (ptable ?b 1) = 0" "1 < NPROC"
    by (simp_all add: eligible_def runnable_def age_all_def age_proc_def tab sched_demo_simps NPROC_def)
  have "0 \<le> p_level (ptable ?b i)" for i
    by (auto simp: age_all_def age_proc_def Let_def tab sched_demo_simps)
  moreover have "now_level 3 ?b \<le> 0" using now_level_lower [OF run(4,2), of 3] run(3) by simp
  ultimately have "now_level 3 ?b = 0"
    using now_level_attained [of 3 ?b] by (metis not_numeral_le_zero order_antisym)
  then show ?thesis using a tab(2) run(1) by (simp add: mlfq_step_def Let_def)
qed

theorem mlfq_serves_lowest_level_witness:
  "\<exists>t. mlfq_step 3 yielder 0 (QTop False) sched_base = Ret (QAt False 0 0, None) t \<and>
     (\<exists>p<NPROC. runnable t p \<and> p_hold (ptable t p) > 0 \<and> p_level (ptable t p) = 0)"
  using sched_demo_top mlfq_serves_lowest_level [of 3 yielder 0 False sched_base False 0 0 None] by blast



lemma sched_demo_odd:
  "\<exists>p t. ml_step yielder 0 (MlOdd 1) sched_demo = Ret (MlOdd (Suc p), Some p) t \<and>
     p_pid (ptable sched_demo p) mod 2 \<noteq> 0"
proof -
  have "runnable sched_demo 1" "1 < NPROC" "p_pid (ptable sched_demo 1) mod 2 \<noteq> 0"
    by (simp_all add: runnable_def NPROC_def sched_demo_simps)
  moreover from this have "\<not> even_pid sched_demo 1" by (simp add: even_pid_def)
  moreover obtain p where p: "odd_scan sched_demo [0..<NPROC] 1 = Some p"
    using odd_scan_odd calculation(1,4) by blast
  moreover from odd_scan_choice [OF this calculation(1,4)] calculation(2)
  have q: "p < NPROC" "runnable sched_demo p" "\<not> even_pid sched_demo p" by auto
  moreover obtain a where "dispatch yielder 0 p sched_demo = Ret () a"
    using in_scan_dispatch [OF run_returns_yielders(1) sched_demo_in q(1,2)] by blast
  ultimately show ?thesis by (simp add: ml_step_def even_pid_def)
qed

theorem ml_odd_queue_fcfs_witness:
  "\<exists>p t. ml_step yielder 0 (MlOdd 1) sched_demo = Ret (MlOdd (Suc p), Some p) t \<and>
     p_time_c (ptable sched_demo p) \<le> 2"
proof -
  obtain p t where s: "ml_step yielder 0 (MlOdd 1) sched_demo = Ret (MlOdd (Suc p), Some p) t"
    using sched_demo_odd by blast
  have "runnable sched_demo 1" "1 < NPROC" "p_pid (ptable sched_demo 1) mod 2 \<noteq> 0" "p_time_c (ptable sched_demo 1) = 2"
    by (simp_all add: runnable_def NPROC_def sched_demo_simps)
  with ml_odd_queue_fcfs [OF s] s show ?thesis by metis
qed

theorem ml_odd_queue_ignores_even_witness:
  "\<exists>p t. ml_step yielder 0 (MlOdd 1) sched_demo = Ret (MlOdd (Suc p), Some p) t \<and> p_pid (ptable sched_demo p) mod 2 \<noteq> 0 \<and>
     runnable sched_demo 0 \<and> p_pid (ptable sched_demo 0) mod 2 = 0"
proof -
  have "runnable sched_demo 1" "1 < NPROC" "p_pid (ptable sched_demo 1) mod 2 \<noteq> 0"
    and e: "0 < NPROC" "runnable sched_demo 0" "p_pid (ptable sched_demo 0) mod 2 = 0"
    by (simp_all add: runnable_def NPROC_def sched_demo_simps)
  from ml_odd_queue_ignores_even [OF run_returns_yielders(1) sched_demo_in this(2,1,3) e] e
  show ?thesis by simp
qed

lemma sched_demo_recheck:
  "\<exists>t. steps (ml_step yielder 0) 2 MlRecheck sched_demo = Ret (MlEven 1, [0]) t"
proof -
  have e: "0 < NPROC" "runnable sched_demo 0" "even_pid sched_demo 0"
    by (simp_all add: runnable_def even_pid_def NPROC_def sched_demo_simps)
  obtain a where "dispatch yielder 0 0 sched_demo = Ret () a"
    using in_scan_dispatch [OF run_returns_yielders(1) sched_demo_in e(1,2)] by blast
  moreover have "ml_step yielder 0 MlRecheck sched_demo = Ret (MlEven 0, None) sched_demo"
    using e by (intro ml_step_MlRecheck) blast
  ultimately show ?thesis
    using e by (simp add: numeral_2_eq_2 ml_step_MlEven(1))
qed

theorem ml_even_queue_first_witness:
  "(\<exists>t. steps (ml_step yielder 0) 2 MlRecheck sched_demo = Ret (MlEven 1, [0]) t) \<and>
   (\<exists>i<NPROC. runnable sched_demo i \<and> p_pid (ptable sched_demo i) mod 2 = 0)"
proof -
  obtain t where t: "steps (ml_step yielder 0) 2 MlRecheck sched_demo = Ret (MlEven 1, [0]) t"
    using sched_demo_recheck by blast
  have "p_pid (ptable sched_demo 0) mod 2 = 0" by (simp add: sched_demo_simps)
  with ml_even_queue_first [OF t] t show ?thesis by blast
qed


theorem schedulers_return_witness:
  "\<exists>q t. steps (mlfq_step 3 yielder 0) 200 (QTop True) sched_base = Ret q t"
proof -
  have "mlfq_good 0 (QTop True) sched_base"
    using sched_base_quiet sched_base_loaded by (simp add: mlfq_good_def at_head_def quiet_calm)
  then show ?thesis
    using schedulers_return [OF run_returns_yielders(1), of 0 RrTop sched_base 200 MlTop "QTop True" 3] by blast
qed

end
