(* ===== verification/ProcLife.thy ===== *)
theory ProcLife
  imports Users Sched
begin

text \<open>
  The life of a process (\<open>proc.c\<close>): the first process, growing and shrinking memory under the limit of Project 2,
  \<open>fork\<close> and \<open>fork2\<close>, \<open>exit\<close>, \<open>wait\<close> and the first return of a new process. \<open>forkret_first\<close> is the static variable
  of \<open>forkret\<close>; \<open>initcode\<close> is the program the build embeds for the first process.
\<close>

record kern_state = user_state +
  forkret_first :: bool
  initcode :: "u8 list"

lemma kern_this_cpu [simp]:
  "this_cpu (s\<lparr>forkret_first := x0\<rparr>) = this_cpu s"
  "this_cpu (s\<lparr>initcode := x1\<rparr>) = this_cpu s"
  by (simp_all add: this_cpu_def)

lemma kern_cpu_known [simp]:
  "cpu_known (s\<lparr>forkret_first := x0\<rparr>) = cpu_known s"
  "cpu_known (s\<lparr>initcode := x1\<rparr>) = cpu_known s"
  by (simp_all add: cpu_known_def)

lemma kern_quiet [simp]:
  "quiet (s\<lparr>forkret_first := x0\<rparr>) = quiet s"
  "quiet (s\<lparr>initcode := x1\<rparr>) = quiet s"
  by (simp_all add: quiet_def)

lemma kern_sel [simp]:
  "forkret_first (with_locks L s) = forkret_first s"
  "initcode (with_locks L s) = initcode s"
  by (simp_all add: with_locks_def)

lemma kern_upd [simp]:
  "(with_locks L s)\<lparr>forkret_first := x0\<rparr> = with_locks L (s\<lparr>forkret_first := x0\<rparr>)"
  "(with_locks L s)\<lparr>initcode := x1\<rparr> = with_locks L (s\<lparr>initcode := x1\<rparr>)"
  by (simp_all add: with_locks_def cong: if_cong)

text \<open>Assigning to a field of the trap frame of slot \<open>i\<close>.\<close>

definition tf_set16 :: "nat \<Rightarrow> nat \<Rightarrow> u16 \<Rightarrow> 'z proc_state_scheme \<Rightarrow> 'z proc_state_scheme" where
  "tf_set16 i fld v s = s\<lparr>ram := store16 (ram s) (unat (p_tf (ptable s i)) + fld) v\<rparr>"

definition userinit :: "'z kern_state_scheme \<Rightarrow> (unit, 'z kern_state_scheme) res" where
  "userinit s =
     kbind (allocproc s) (\<lambda>p s.
     kbind (deref p (s\<lparr>initproc := p\<rparr>)) (\<lambda>i s.
     kbind (setupkvm s) (\<lambda>d s.
     let s = upd_proc i (\<lambda>p. p\<lparr>p_pgdir := d\<rparr>) s
     in if d = 0 then Panic ''userinit: out of memory?''
        else kbind (inituvm d (initcode s) (of_nat (length (initcode s))) s) (\<lambda>_ s.
          let s = upd_proc i (\<lambda>p. p\<lparr>p_sz := PGSIZE\<rparr>) s;
              s = s\<lparr>ram := memset (ram s) (unat (p_tf (ptable s i))) 0 76\<rparr>;
              s = tf_set16 i 60 27 s;
              s = tf_set16 i 44 35 s;
              s = tf_set16 i 40 35 s;
              s = tf_set16 i 72 35 s;
              s = tf_set i 64 0x200 s;
              s = tf_set i tf_esp PGSIZE s;
              s = tf_set i tf_eip 0 s;
              s = upd_proc i (\<lambda>p. p\<lparr>p_name := safestrcpy_str (str ''initcode'') 16\<rparr>) s
          in kbind (namei (str ''/'') s) (\<lambda>ip s.
             let s = upd_proc i (\<lambda>p. p\<lparr>p_cwd := ip\<rparr>) s
             in kbind (acquire PtableLock s) (\<lambda>_ s.
                release PtableLock (upd_proc i (\<lambda>p. p\<lparr>p_state := RUNNABLE\<rparr>) s)))))))"

definition growproc :: "int \<Rightarrow> 'z kern_state_scheme \<Rightarrow> (int, 'z kern_state_scheme) res" where
  "growproc n s =
     kbind (curproc s) (\<lambda>me s.
     let sz = p_sz (ptable s me);
         limit = p_limit (ptable s me);
         pgdir = p_pgdir (ptable s me);
         finish = (\<lambda>sz s. let s = upd_proc me (\<lambda>p. p\<lparr>p_sz := sz\<rparr>) s
                         in kbind (switchuvm (Some me) s) (\<lambda>_ s. Ret 0 s))
     in if n > 0 then
          if sz + word_of_int n \<le> limit \<or> limit = 0 then
            kbind (allocuvm pgdir sz (sz + word_of_int n) s) (\<lambda>sz s. if sz = 0 then Ret (-1) s else finish sz s)
          else Ret (-1) s
        else if n < 0 then
          kbind (deallocuvm pgdir sz (sz + word_of_int n) s) (\<lambda>sz s. if sz = 0 then Ret (-1) s else finish sz s)
        else finish sz s)"

text \<open>\<open>fork\<close> and \<open>fork2\<close> differ only in the name the child's \<open>userid\<close> is copied from.\<close>

definition fork_as :: "nat \<Rightarrow> cstring \<Rightarrow> 'z kern_state_scheme \<Rightarrow> (int, 'z kern_state_scheme) res" where
  "fork_as me username s =
     kbind (allocproc s) (\<lambda>np s.
     case np of None \<Rightarrow> Ret (-1) s
     | Some np \<Rightarrow>
         kbind (copyuvm (p_pgdir (ptable s me)) (p_sz (ptable s me)) s) (\<lambda>d s.
         let s = upd_proc np (\<lambda>p. p\<lparr>p_pgdir := d\<rparr>) s
         in if d = 0 then
              kbind (kfree (p_kstack (ptable s np)) s) (\<lambda>_ s.
              Ret (-1) (upd_proc np (\<lambda>p. p\<lparr>p_kstack := 0, p_state := UNUSED\<rparr>) s))
            else
              let s = upd_proc np (\<lambda>p. p\<lparr>p_sz := p_sz (ptable s me), p_parent := Some me\<rparr>) s;
                  s = s\<lparr>ram := memmove (ram s) (unat (p_tf (ptable s np))) (unat (p_tf (ptable s me))) 76\<rparr>;
                  s = upd_proc np (\<lambda>p. p\<lparr>p_mode := p_mode (ptable s me), p_limit := p_limit (ptable s me)\<rparr>) s
              in kbind (strcpy_field 16 username s) (\<lambda>u s.
                 let s = upd_proc np (\<lambda>p. p\<lparr>p_userid := u\<rparr>) s;
                     s = tf_set np tf_eax 0 s
                 in kbind (kfor [0..<NOFILE] (\<lambda>fd s.
                      case p_ofile (ptable s me) fd of None \<Rightarrow> Ret () s
                      | Some f \<Rightarrow>
                          kbind (filedup f s) (\<lambda>f s.
                          Ret () (upd_proc np (\<lambda>p. p\<lparr>p_ofile := (p_ofile p)(fd := Some f)\<rparr>) s))) s) (\<lambda>_ s.
                    kbind (deref (p_cwd (ptable s me)) s) (\<lambda>cwd s.
                    kbind (idup cwd s) (\<lambda>cwd s.
                    let s = upd_proc np (\<lambda>p. p\<lparr>p_cwd := Some cwd, p_name := safestrcpy_str (p_name (ptable s me)) 16\<rparr>) s;
                        pid = p_pid (ptable s np)
                    in kbind (acquire PtableLock s) (\<lambda>_ s.
                       kbind (release PtableLock (upd_proc np (\<lambda>p. p\<lparr>p_state := RUNNABLE\<rparr>) s)) (\<lambda>_ s.
                       Ret pid s))))))))"

definition fork :: "'z kern_state_scheme \<Rightarrow> (int, 'z kern_state_scheme) res" where
  "fork s = kbind (curproc s) (\<lambda>me s. fork_as me (p_userid (ptable s me)) s)"

definition fork2 :: "cstring \<Rightarrow> 'z kern_state_scheme \<Rightarrow> (int, 'z kern_state_scheme) res" where
  "fork2 username s = kbind (curproc s) (\<lambda>me s. fork_as me username s)"

definition sys_fork2 :: "'z kern_state_scheme \<Rightarrow> (int, 'z kern_state_scheme) res" where
  "sys_fork2 s = kopt (argstr 0 s) (\<lambda>(username, _) s. fork2 username s)"

text \<open>\<open>wakeup1\<close> on a pointer to a process.\<close>

definition wakeup1_proc :: "nat option \<Rightarrow> 'z proc_state_scheme \<Rightarrow> 'z proc_state_scheme" where
  "wakeup1_proc p s = (case p of None \<Rightarrow> s | Some i \<Rightarrow> wakeup1 (ChanProc i) s)"

definition reparent :: "nat \<Rightarrow> 'z proc_state_scheme \<Rightarrow> 'z proc_state_scheme" where
  "reparent me s = fold (\<lambda>i s.
     if p_parent (ptable s i) = Some me then
       let s = upd_proc i (\<lambda>p. p\<lparr>p_parent := initproc s\<rparr>) s
       in if p_state (ptable s i) = ZOMBIE then wakeup1_proc (initproc s) s else s
     else s) [0..<NPROC] s"

definition exit :: "'z kern_state_scheme \<Rightarrow> ('a, 'z kern_state_scheme) res" where
  "exit s =
     kbind (curproc s) (\<lambda>me s.
     if Some me = initproc s then Panic ''init exiting''
     else kbind (kfor [0..<NOFILE] (\<lambda>fd s.
            case p_ofile (ptable s me) fd of None \<Rightarrow> Ret () s
            | Some f \<Rightarrow>
                kbind (fileclose f s) (\<lambda>_ s.
                Ret () (upd_proc me (\<lambda>p. p\<lparr>p_ofile := (p_ofile p)(fd := None)\<rparr>) s))) s) (\<lambda>_ s.
          kbind (begin_op s) (\<lambda>_ s.
          kbind (deref (p_cwd (ptable s me)) s) (\<lambda>cwd s.
          kbind (iput cwd s) (\<lambda>_ s.
          kbind (end_op s) (\<lambda>_ s.
          let s = upd_proc me (\<lambda>p. p\<lparr>p_cwd := None\<rparr>) s
          in kbind (acquire PtableLock s) (\<lambda>_ s.
             let s = wakeup1_proc (p_parent (ptable s me)) s;
                 s = reparent me s;
                 s = upd_proc me (\<lambda>p. p\<lparr>p_state := ZOMBIE\<rparr>) s
             in kbind (sched s) (\<lambda>_ s. Panic ''zombie exit''))))))))"

text \<open>One turn of the loop of \<open>wait\<close>, which a sleeper starts again with.\<close>

function wait_loop :: "nat \<Rightarrow> 'z kern_state_scheme \<Rightarrow> (int, 'z kern_state_scheme) res" where
  "wait_loop me s =
     (case first_idx NPROC (\<lambda>i. p_parent (ptable s i) = Some me \<and> p_state (ptable s i) = ZOMBIE) of
        Some i \<Rightarrow>
          let pid = p_pid (ptable s i)
          in kbind (kfree (p_kstack (ptable s i)) s) (\<lambda>_ s.
             let s = upd_proc i (\<lambda>p. p\<lparr>p_kstack := 0\<rparr>) s
             in kbind (freevm (p_pgdir (ptable s i)) s) (\<lambda>_ s.
                let s = upd_proc i (\<lambda>p. p\<lparr>p_pid := 0, p_parent := None, p_name := [], p_killed := False, p_state := UNUSED\<rparr>) s
                in kbind (release PtableLock s) (\<lambda>_ s. Ret pid s)))
      | None \<Rightarrow>
          if first_idx NPROC (\<lambda>i. p_parent (ptable s i) = Some me) = None \<or> p_killed (ptable s me)
          then kbind (release PtableLock s) (\<lambda>_ s. Ret (-1) s)
          else kbind (sleep (ChanProc me) PtableLock s) (\<lambda>_ s. wait_loop me s))"
  by pat_completeness auto
termination by (relation "{}") auto

definition wait :: "'z kern_state_scheme \<Rightarrow> (int, 'z kern_state_scheme) res" where
  "wait s = kbind (curproc s) (\<lambda>me s. kbind (acquire PtableLock s) (\<lambda>_ s. wait_loop me s))"

definition wait_return :: "nat \<Rightarrow> bool \<Rightarrow> 'z kern_state_scheme \<Rightarrow> (int, 'z kern_state_scheme) res" where
  "wait_return me saved s = kbind (sleep_return me PtableLock saved s) (\<lambda>_ s. wait_loop me s)"

definition forkret :: "'z kern_state_scheme \<Rightarrow> (unit, 'z kern_state_scheme) res" where
  "forkret s =
     kbind (release PtableLock s) (\<lambda>_ s.
     if forkret_first s then
       kbind (iinit ROOTDEV (s\<lparr>forkret_first := False\<rparr>)) (\<lambda>_ s. initlog ROOTDEV s)
     else Ret () s)"

section \<open>The size of a process\<close>

lemma allocuvm_Ret:
  "allocuvm d old new s = Ret r t \<Longrightarrow> r = 0 \<or> new < KERNBASE \<and> r = (if new < old then old else new)"
  by (auto simp: allocuvm_def kret split: if_splits option.splits)

lemma deallocuvm_Ret: "deallocuvm d old new s = Ret r t \<Longrightarrow> r = (if old \<le> new then old else new)"
  by (auto simp: deallocuvm_def kret split: if_splits)

lemma set_size_Ret:
  assumes "switchuvm (Some me) (upd_proc me (\<lambda>p. p\<lparr>p_sz := z\<rparr>) s) = Ret u t"
  shows "p_sz (ptable t me) = z"
  using no_locks_table(1) [OF switchuvm_frame [OF assms]] by simp

text \<open>What a successful \<open>growproc\<close> stored: the sum kept in 32 bits, or the old size when the sum wrapped below zero.\<close>

lemma growproc_stores:
  assumes "in_proc s me" and "growproc n s = Ret 0 t"
  defines "z \<equiv> p_sz (ptable s me)"
  shows "p_sz (ptable t me) =
      (if n > 0 \<and> z + word_of_int n < z \<or> n < 0 \<and> z \<le> z + word_of_int n then z else z + word_of_int n)"
    and "n > 0 \<Longrightarrow> z + word_of_int n < KERNBASE"
    and "n > 0 \<Longrightarrow> z + word_of_int n \<le> p_limit (ptable s me) \<or> p_limit (ptable s me) = 0"
  using assms
  by (auto simp: growproc_def Let_def kret dest!: allocuvm_Ret deallocuvm_Ret set_size_Ret split: if_splits)

lemma uint_add_int:
  fixes z :: u32
  assumes "- (2 ^ 31) \<le> n" "n < 2 ^ 31" "z < KERNBASE"
  shows "uint (z + word_of_int n) = (if uint z + n < 0 then uint z + n + 2 ^ 32 else uint z + n)"
proof -
  have z: "0 \<le> uint z" "uint z < 2 ^ 31" using assms(3) by (simp_all add: word_less_def KERNBASE_def)
  have "uint (z + word_of_int n) = (uint z + n) mod 2 ^ 32"
    by (simp add: uint_word_ariths mod_simps unsigned_of_int take_bit_eq_mod)
  moreover have "(uint z + n) mod 2 ^ 32 = uint z + n + 2 ^ 32" if "uint z + n < 0"
  proof -
    have "0 \<le> uint z + n + 2 ^ 32" using add_mono [OF z(1) assms(1)] by simp
    then show ?thesis using mod_pos_pos_trivial [of "uint z + n + 2 ^ 32" "2 ^ 32"] that by simp
  qed
  moreover have "(uint z + n) mod 2 ^ 32 = uint z + n" if "\<not> uint z + n < 0"
    using that z assms(2) by simp
  ultimately show ?thesis by simp
qed

lemma shrink_wraps:
  fixes z :: u32
  assumes "- (2 ^ 31) \<le> n" "n < 0" "z < KERNBASE"
  shows "z \<le> z + word_of_int n \<longleftrightarrow> n < - int (unat z)" and "\<not> n < - int (unat z) \<Longrightarrow> z + word_of_int n < KERNBASE"
  using uint_add_int [OF assms(1) _ assms(3)] assms by (auto simp: word_le_def word_less_def KERNBASE_def)

lemma grow_no_wrap:
  fixes z :: u32
  assumes "0 \<le> n" "n < 2 ^ 31" "z < KERNBASE"
  shows "z \<le> z + word_of_int n" and "\<not> n < - int (unat z)"
proof -
  show n: "\<not> n < - int (unat z)" using of_nat_0_le_iff [of "unat z"] assms(1) by linarith
  show "z \<le> z + word_of_int n" using uint_add_int [OF _ assms(2,3)] assms(1) n by (simp add: word_le_def)
qed

text \<open>
  C22: A successful \<open>growproc(n)\<close> changes the size of the running process by exactly \<open>n\<close>, unless \<open>n\<close> asks to
  give back more than the process has, which leaves the size as it is and still reports success. A size below
  \<open>KERNBASE\<close> and within the memory limit of the process stays so, whatever \<open>n\<close> is.
\<close>

theorem growproc_size_bounded:
  assumes "in_proc s me" and "- (2 ^ 31) \<le> n" "n < 2 ^ 31"
    and "p_sz (ptable s me) < KERNBASE" and "p_limit (ptable s me) = 0 \<or> p_sz (ptable s me) \<le> p_limit (ptable s me)"
    and "growproc n s = Ret 0 t"
  shows "p_sz (ptable t me) = (if n < - int (unat (p_sz (ptable s me))) then p_sz (ptable s me)
      else p_sz (ptable s me) + word_of_int n) \<and> p_sz (ptable t me) < KERNBASE \<and>
    (p_limit (ptable s me) = 0 \<or> p_sz (ptable t me) \<le> p_limit (ptable s me))"
proof -
  note st = growproc_stores [OF assms(1,6)]
  consider "n < 0" | "n = 0" | "n > 0" by linarith
  then show ?thesis
  proof cases
    case 1
    then show ?thesis using st(1) shrink_wraps [OF assms(2) 1 assms(4)] assms(4,5) by auto
  next
    case 2
    then show ?thesis using st(1) assms(4,5) by simp
  next
    case 3
    then show ?thesis using st grow_no_wrap [OF _ assms(3,4)] by auto
  qed
qed

lemma in_proc_switchuvm:
  assumes "in_proc s me" and "p_kstack (ptable s i) \<noteq> 0" and "p_pgdir (ptable s i) \<noteq> 0"
  obtains t where "switchuvm (Some i) s = Ret () t"
proof -
  have q: "quiet s" and k: "cpu_known s" using assms(1) by (simp_all add: quietD)
  have tab: "ptable (pushed s) = ptable s" by (simp add: pushed_def)
  let ?f = "\<lambda>u. u\<lparr>ts_esp0 := p_kstack (ptable s i) + KSTACKSIZE, cr3 := V2P (p_pgdir (ptable s i))\<rparr>"
  let ?c = "this_cpu s"
  have n: "cpu_neutral ?f" by (simp add: cpu_neutral_def)
  have "popcli (pushed (with_locks [] (upd_cpu ?c ?f s))) = Ret () (with_locks [] (upd_cpu ?c ?f s))"
    using q by (intro popcli_pushed_with_locks) (simp add: upd_cpu_neutral [OF n])
  then have p: "popcli (upd_cpu ?c ?f (pushed s)) = Ret () (upd_cpu ?c ?f s)"
    using q by (simp add: upd_cpu_neutral(1,3) [OF n] flip: upd_cpu_neutral(5) [OF n])
  have "upd_cpu c (\<lambda>u. u\<lparr>cr3 := d\<rparr>) (upd_cpu c (\<lambda>u. u\<lparr>ts_esp0 := e\<rparr>) (pushed s)) =
      upd_cpu c (\<lambda>u. u\<lparr>ts_esp0 := e, cr3 := d\<rparr>) (pushed s)" for c d e
    by (simp add: upd_cpu_def)
  then show thesis using that assms p k by (simp add: switchuvm_def Let_def tab pushcli_eq mycpu_eq)
qed

definition grow_demo :: kern_state where
  "grow_demo = user_state.extend (user_demo\<lparr>ptable := (ptable user_demo)(1 := (ptable user_demo 1)\<lparr>p_sz := 0x800,
     p_limit := 0x1000, p_kstack := 0x80104000, p_pgdir := 0x80100000\<rparr>)\<rparr>) (kern_state.fields False [])"

lemma grow_demo_in: "in_proc grow_demo 1"
  by (simp add: in_proc_def quiet_def cpu_known_def this_cpu_def grow_demo_def user_demo_def pipe_demo_def demo_cpu_def
      first_idx_one vm_state.defs file_state.defs user_state.defs kern_state.defs)

lemma grow_demo_sel:
  "p_sz (ptable grow_demo 1) = 0x800" "p_limit (ptable grow_demo 1) = 0x1000"
  "p_kstack (ptable grow_demo 1) = 0x80104000" "p_pgdir (ptable grow_demo 1) = 0x80100000"
  by (simp_all add: grow_demo_def user_state.defs kern_state.defs)

lemma grow_demo_grows: obtains t where "growproc 16 grow_demo = Ret 0 t"
proof -
  have "in_proc (upd_proc 1 (\<lambda>p. p\<lparr>p_sz := 0x810\<rparr>) grow_demo) 1" using grow_demo_in by simp
  then obtain t where t: "switchuvm (Some 1) (upd_proc 1 (\<lambda>p. p\<lparr>p_sz := 0x810\<rparr>) grow_demo) = Ret () t"
    by (rule in_proc_switchuvm [of _ _ 1]) (simp_all add: grow_demo_sel [unfolded One_nat_def])
  have "allocuvm 0x80100000 0x800 0x810 grow_demo = Ret 0x810 grow_demo"
    by (simp add: allocuvm_def page_steps_def PGROUNDUP_def PGSIZE_def KERNBASE_def)
  with t have "growproc 16 grow_demo = Ret 0 t"
    using grow_demo_in by (simp add: growproc_def grow_demo_sel [unfolded One_nat_def])
  then show thesis by (rule that)
qed

theorem growproc_size_bounded_witness:
  "\<exists>t. growproc 16 grow_demo = Ret 0 t \<and> p_sz (ptable t 1) = 0x810 \<and> p_sz (ptable t 1) \<le> 0x1000"
proof -
  obtain t where t: "growproc 16 grow_demo = Ret 0 t" by (rule grow_demo_grows)
  then show ?thesis
    using growproc_size_bounded [OF grow_demo_in _ _ _ _ t] by (simp add: grow_demo_sel [unfolded One_nat_def] KERNBASE_def)
qed

end
