(* ===== verification/Ports.thy ===== *)
theory Ports
  imports Prelude
begin

text \<open>
  Port input and output (\<open>x86.h\<close>). What is behind the ports is hardware: the drivers take
  the four kinds of access as a parameter \<open>P\<close> over an unknown state \<open>'d\<close> of the devices, and
  what a driver relies on is stated of the parameter. \<open>insl\<close> and \<open>outsl\<close> move a number of
  32-bit words as the bytes they are in memory. Here are also the registers of the I/O APIC
  (\<open>ioapic.c\<close>), which hold what was written to them.
\<close>

record 'd ports =
  inb :: "u16 \<Rightarrow> 'd \<Rightarrow> u8 \<times> 'd"
  outb :: "u16 \<Rightarrow> u8 \<Rightarrow> 'd \<Rightarrow> 'd"
  insl :: "u16 \<Rightarrow> nat \<Rightarrow> 'd \<Rightarrow> u8 list \<times> 'd"
  outsl :: "u16 \<Rightarrow> u8 list \<Rightarrow> 'd \<Rightarrow> 'd"

section \<open>Interrupt numbers (\<open>traps.h\<close>)\<close>

definition T_IRQ0 :: u32 where "T_IRQ0 = 32"
definition IRQ_TIMER :: u32 where "IRQ_TIMER = 0"
definition IRQ_KBD :: u32 where "IRQ_KBD = 1"
definition IRQ_COM1 :: u32 where "IRQ_COM1 = 4"
definition IRQ_IDE :: u32 where "IRQ_IDE = 14"
definition IRQ_SPURIOUS :: u32 where "IRQ_SPURIOUS = 31"

section \<open>The I/O APIC\<close>

type_synonym ioapic_regs = "u32 \<Rightarrow> u32"

definition REG_ID :: u32 where "REG_ID = 0"
definition REG_VER :: u32 where "REG_VER = 1"
definition REG_TABLE :: u32 where "REG_TABLE = 0x10"
definition INT_DISABLED :: u32 where "INT_DISABLED = 0x10000"

definition ioapicread :: "u32 \<Rightarrow> ioapic_regs \<Rightarrow> u32" where
  "ioapicread r a = a r"

definition ioapicwrite :: "u32 \<Rightarrow> u32 \<Rightarrow> ioapic_regs \<Rightarrow> ioapic_regs" where
  "ioapicwrite r x a = a(r := x)"

definition ioapic_mask :: "u32 \<Rightarrow> ioapic_regs \<Rightarrow> ioapic_regs" where
  "ioapic_mask i a = ioapicwrite (REG_TABLE + 2 * i + 1) 0 (ioapicwrite (REG_TABLE + 2 * i) (or INT_DISABLED (T_IRQ0 + i)) a)"

text \<open>\<open>ioapicinit\<close>: the first result says whether the code complains that the id is another one.\<close>

definition ioapicinit :: "u8 \<Rightarrow> ioapic_regs \<Rightarrow> bool \<times> ioapic_regs" where
  "ioapicinit ioapicid a =
     (let maxintr = and (drop_bit 16 (ioapicread REG_VER a)) 0xFF;
          ident = drop_bit 24 (ioapicread REG_ID a)
      in (ident \<noteq> ucast ioapicid, fold (\<lambda>i. ioapic_mask (of_nat i)) [0..<Suc (unat maxintr)] a))"

definition ioapicenable :: "u32 \<Rightarrow> u32 \<Rightarrow> ioapic_regs \<Rightarrow> ioapic_regs" where
  "ioapicenable irq cpunum a = ioapicwrite (REG_TABLE + 2 * irq + 1) (push_bit 24 cpunum) (ioapicwrite (REG_TABLE + 2 * irq) (T_IRQ0 + irq) a)"

text \<open>After \<open>ioapicinit\<close> no interrupt is routed anywhere, and \<open>ioapicenable\<close> unmasks exactly one.\<close>

definition unmasked :: "ioapic_regs \<Rightarrow> u32 \<Rightarrow> bool" where
  "unmasked a irq \<longleftrightarrow> and (a (REG_TABLE + 2 * irq)) INT_DISABLED = 0"

lemma table_slots:
  assumes "i < 256" "j < (256 :: u32)"
  shows "REG_TABLE + 2 * i = REG_TABLE + 2 * j \<longleftrightarrow> i = j" "REG_TABLE + 2 * i + 1 \<noteq> REG_TABLE + 2 * j"
proof -
  have "unat (REG_TABLE + 2 * k) = 16 + 2 * unat k" "unat (REG_TABLE + 2 * k + 1) = 17 + 2 * unat k" if "k < 256" for k
    using that by (simp_all add: REG_TABLE_def unat_word_ariths word_less_nat_alt)
  note u = this(1) [OF assms(1)] this(2) [OF assms(1)] this(1) [OF assms(2)]
  show "REG_TABLE + 2 * i = REG_TABLE + 2 * j \<longleftrightarrow> i = j" using u by (simp add: word_unat_eq_iff)
  have "(17 + 2 * unat i) mod 2 \<noteq> (16 + 2 * unat j) mod 2" by presburger
  then show "REG_TABLE + 2 * i + 1 \<noteq> REG_TABLE + 2 * j" using u by (metis)
qed

lemma irq_unmasked:
  assumes "i < (256 :: u32)"
  shows "and (T_IRQ0 + i) INT_DISABLED = 0" "and (or INT_DISABLED (T_IRQ0 + i)) INT_DISABLED \<noteq> 0"
proof -
  have "unat (T_IRQ0 + i) < 2 ^ 16" using assms by (simp add: T_IRQ0_def unat_word_ariths word_less_nat_alt)
  then have "\<not> bit (unat (T_IRQ0 + i)) 16" by (simp add: bit_iff_odd)
  then have "\<not> bit (T_IRQ0 + i) 16" by (simp add: bit_unsigned_iff)
  then show "and (T_IRQ0 + i) INT_DISABLED = 0"
    using and_exp_eq_0_iff_not_bit [of "T_IRQ0 + i" 16] by (simp add: INT_DISABLED_def)
  show "and (or INT_DISABLED (T_IRQ0 + i)) INT_DISABLED \<noteq> 0"
    by (simp add: INT_DISABLED_def bit.conj_disj_distrib2)
qed

lemma ioapicenable_unmasks:
  "i < 256 \<Longrightarrow> j < 256 \<Longrightarrow> unmasked (ioapicenable i c a) j \<longleftrightarrow> j = i \<or> unmasked a j"
  using irq_unmasked(1) [of i] table_slots [of i j] by (auto simp: unmasked_def ioapicenable_def ioapicwrite_def)

lemma ioapic_mask_masks: "i < 256 \<Longrightarrow> j < 256 \<Longrightarrow> unmasked (ioapic_mask i a) j \<longleftrightarrow> j \<noteq> i \<and> unmasked a j"
  using irq_unmasked(2) [of i] table_slots [of i j] by (auto simp: unmasked_def ioapic_mask_def ioapicwrite_def)

lemma ioapicinit_masks:
  assumes "i \<le> unat (and (drop_bit 16 (ioapicread REG_VER a)) 0xFF)"
  shows "\<not> unmasked (snd (ioapicinit ident a)) (of_nat i)"
proof -
  have small: "(of_nat k :: u32) < 256" if "k < 256" for k using that by (simp add: word_less_nat_alt unsigned_of_nat take_bit_eq_mod)
  have "i < n \<Longrightarrow> n \<le> 256 \<Longrightarrow> \<not> unmasked (fold (\<lambda>i. ioapic_mask (of_nat i)) [0..<n] a) (of_nat i)" for n
    by (induction n) (auto simp: ioapic_mask_masks small less_Suc_eq)
  moreover have "and w 0xFF \<le> 0xFF" for w :: u32 by (rule word_and_le1)
  then have "unat (and (drop_bit 16 (ioapicread REG_VER a)) 0xFF) \<le> 255" by (simp add: word_le_nat_alt)
  ultimately show ?thesis using assms by (auto simp: ioapicinit_def Let_def simp del: upt_Suc)
qed

end
