(* ===== verification/Syscalls.thy ===== *)
theory Syscalls
  imports SysFile Exec ProcLife Sched Ports
begin

text \<open>
  The remaining system calls (\<open>sysproc.c\<close> and the wrappers of the projects), the dispatch of \<open>syscall\<close> and the trap
  handler \<open>trap.c\<close>. What the interrupt controller and the devices do is an argument: the characters a keyboard or
  serial interrupt delivers, and the faulting address \<open>cr2\<close>.
\<close>

section \<open>Process calls\<close>

definition sys_fork :: "'z kern_state_scheme \<Rightarrow> (int, 'z kern_state_scheme) res" where
  "sys_fork s = fork s"

definition sys_exit :: "'z kern_state_scheme \<Rightarrow> (int, 'z kern_state_scheme) res" where
  "sys_exit s = exit s"

definition sys_wait :: "'z kern_state_scheme \<Rightarrow> (int, 'z kern_state_scheme) res" where
  "sys_wait s = wait s"

definition sys_kill :: "'z kern_state_scheme \<Rightarrow> (int, 'z kern_state_scheme) res" where
  "sys_kill s = kopt (argint 0 s) (\<lambda>pid s. kill (sint pid) s)"

definition sys_getpid :: "'z kern_state_scheme \<Rightarrow> (int, 'z kern_state_scheme) res" where
  "sys_getpid s = kbind (curproc s) (\<lambda>me s. Ret (p_pid (ptable s me)) s)"

definition sys_sbrk :: "'z kern_state_scheme \<Rightarrow> (int, 'z kern_state_scheme) res" where
  "sys_sbrk s =
     kopt (argint 0 s) (\<lambda>n s.
     kbind (curproc s) (\<lambda>me s.
     let addr = p_sz (ptable s me)
     in kbind (growproc (sint n) s) (\<lambda>r s. Ret (if r < 0 then -1 else sint addr) s)))"

text \<open>The comparison \<open>ticks - ticks0 < n\<close> is unsigned.\<close>

function sleep_loop :: "u32 \<Rightarrow> u32 \<Rightarrow> 'z kern_state_scheme \<Rightarrow> (int, 'z kern_state_scheme) res" where
  "sleep_loop n ticks0 s =
     (if ticks s - ticks0 < n then
        kbind (curproc s) (\<lambda>me s.
        if p_killed (ptable s me) then kbind (release TicksLock s) (\<lambda>_ s. Ret (-1) s)
        else kbind (sleep ChanTicks TicksLock s) (\<lambda>_ s. sleep_loop n ticks0 s))
      else kbind (release TicksLock s) (\<lambda>_ s. Ret 0 s))"
  by pat_completeness auto
termination by (relation "{}") auto

definition sys_sleep :: "'z kern_state_scheme \<Rightarrow> (int, 'z kern_state_scheme) res" where
  "sys_sleep s =
     kopt (argint 0 s) (\<lambda>n s.
     kbind (acquire TicksLock s) (\<lambda>_ s. sleep_loop n (ticks s) s))"

definition sys_sleep_return :: "nat \<Rightarrow> bool \<Rightarrow> u32 \<Rightarrow> u32 \<Rightarrow> 'z kern_state_scheme \<Rightarrow> (int, 'z kern_state_scheme) res" where
  "sys_sleep_return me saved n ticks0 s =
     kbind (sleep_return me TicksLock saved s) (\<lambda>_ s. sleep_loop n ticks0 s)"

definition sys_uptime :: "'z kern_state_scheme \<Rightarrow> (int, 'z kern_state_scheme) res" where
  "sys_uptime s =
     kbind (acquire TicksLock s) (\<lambda>_ s.
     let xticks = ticks s
     in kbind (release TicksLock s) (\<lambda>_ s. Ret (sint xticks) s))"

section \<open>Calls of the projects\<close>

definition myfunction :: "cstring \<Rightarrow> 'z kern_state_scheme \<Rightarrow> (int, 'z kern_state_scheme) res" where
  "myfunction t s = kbind (cprintf ''%s\<newline>'' [AStr t] s) (\<lambda>_ s. Ret (sint (0xABCDABCD :: u32)) s)"

definition sys_myfunction :: "'z kern_state_scheme \<Rightarrow> (int, 'z kern_state_scheme) res" where
  "sys_myfunction s = kopt (argstr 0 s) (\<lambda>(t, _) s. myfunction t s)"

definition getppid :: "'z kern_state_scheme \<Rightarrow> (int, 'z kern_state_scheme) res" where
  "getppid s =
     kbind (curproc s) (\<lambda>me s.
     kbind (deref (p_parent (ptable s me)) s) (\<lambda>q s. Ret (p_pid (ptable s q)) s))"

definition sys_getppid :: "'z kern_state_scheme \<Rightarrow> (int, 'z kern_state_scheme) res" where
  "sys_getppid s = getppid s"

definition sys_yield :: "'z kern_state_scheme \<Rightarrow> (int, 'z kern_state_scheme) res" where
  "sys_yield s = kbind (if mlfq s then yield2 s else yield s) (\<lambda>_ s. Ret 0 s)"

definition sys_getlev :: "'z kern_state_scheme \<Rightarrow> (int, 'z kern_state_scheme) res" where
  "sys_getlev s = getlev s"

definition sys_setpriority :: "'z kern_state_scheme \<Rightarrow> (int, 'z kern_state_scheme) res" where
  "sys_setpriority s =
     kopt (argint 0 s) (\<lambda>pid s.
     kopt (argint 1 s) (\<lambda>priority s. setpriority (sint pid) (sint priority) s))"

definition sys_getadmin :: "'z kern_state_scheme \<Rightarrow> (int, 'z kern_state_scheme) res" where
  "sys_getadmin s = kopt (argstr 0 s) (\<lambda>(password, _) s. getadmin password s)"

definition sys_setmemorylimit :: "'z kern_state_scheme \<Rightarrow> (int, 'z kern_state_scheme) res" where
  "sys_setmemorylimit s =
     kopt (argint 0 s) (\<lambda>pid s.
     kopt (argint 1 s) (\<lambda>limit s. setmemorylimit (sint pid) (sint limit) s))"

definition sys_printproclist :: "'z kern_state_scheme \<Rightarrow> (int, 'z kern_state_scheme) res" where
  "sys_printproclist s = kbind (printproclist s) (\<lambda>_ s. Ret 0 s)"

definition sys_getshmem :: "'z kern_state_scheme \<Rightarrow> (int, 'z kern_state_scheme) res" where
  "sys_getshmem s = kopt (argint 0 s) (\<lambda>pid s. exit s)"

section \<open>Dispatch\<close>

text \<open>The table \<open>syscalls\<close>, by the numbers of \<open>syscall.h\<close>.\<close>

definition syscalls :: "int \<Rightarrow> ('z kern_state_scheme \<Rightarrow> (int, 'z kern_state_scheme) res) option" where
  "syscalls num =
     map_of (zip [1..38]
       [sys_fork, sys_exit, sys_wait, sys_pipe, sys_read, sys_kill, sys_exec, sys_fstat, sys_chdir, sys_dup,
        sys_getpid, sys_sbrk, sys_sleep, sys_uptime, sys_open, sys_write, sys_mknod, sys_unlink, sys_link, sys_mkdir,
        sys_close, sys_myfunction, sys_getppid, sys_yield, sys_getlev, sys_setpriority, sys_getadmin, sys_exec2,
        sys_setmemorylimit, sys_printproclist, sys_getshmem, sys_inituser, sys_usercheck, sys_useradd, sys_userdel,
        sys_fork2, sys_chmod, sys_whoami]) num"

definition syscall :: "'z kern_state_scheme \<Rightarrow> (unit, 'z kern_state_scheme) res" where
  "syscall s =
     kbind (curproc s) (\<lambda>me s.
     let num = sint (tf_get me tf_eax s)
     in case syscalls num of
          Some f \<Rightarrow> kbind (f s) (\<lambda>r s. Ret () (tf_set me tf_eax (word_of_int r) s))
        | None \<Rightarrow>
            kbind (cprintf ''%d %s: unknown sys call %d\<newline>''
              [AInt (word_of_int (p_pid (ptable s me))), AStr (p_name (ptable s me)), AInt (word_of_int num)] s) (\<lambda>_ s.
            Ret () (tf_set me tf_eax (-1) s)))"

section \<open>Traps\<close>

definition T_SYSCALL :: u32 where "T_SYSCALL = 64"
definition T_MYSYSCALL :: u32 where "T_MYSYSCALL = 128"

text \<open>\<open>if(myproc()->killed) exit();\<close>\<close>

definition exit_if_killed :: "'z kern_state_scheme \<Rightarrow> (unit, 'z kern_state_scheme) res" where
  "exit_if_killed s = kbind (curproc s) (\<lambda>me s. if p_killed (ptable s me) then exit s else Ret () s)"

text \<open>\<open>if(myproc() && myproc()->killed && (tf->cs&3) == DPL_USER) exit();\<close>\<close>

definition exit_if_killed_user :: "u16 \<Rightarrow> 'z kern_state_scheme \<Rightarrow> (unit, 'z kern_state_scheme) res" where
  "exit_if_killed_user cs s =
     kbind (myproc s) (\<lambda>p s.
     case p of None \<Rightarrow> Ret () s
     | Some me \<Rightarrow> if p_killed (ptable s me) \<and> and cs 3 = 3 then exit s else Ret () s)"

definition timer_tick :: "'z kern_state_scheme \<Rightarrow> (unit, 'z kern_state_scheme) res" where
  "timer_tick s =
     kbind (cpuid s) (\<lambda>c s.
     if c = 0 then
       kbind (acquire TicksLock s) (\<lambda>_ s.
       kbind (wakeup ChanTicks (s\<lparr>ticks := ticks s + 1\<rparr>)) (\<lambda>_ s. release TicksLock s))
     else Ret () s)"

text \<open>The \<open>switch\<close> over the trap number.\<close>

definition trap_switch :: "u32 \<Rightarrow> int list \<Rightarrow> u32 \<Rightarrow> 'z kern_state_scheme \<Rightarrow> (unit, 'z kern_state_scheme) res" where
  "trap_switch tf chars cr2 s =
     (let trapno = peek32 (tf + 48) s;
          eip = peek32 (tf + 56) s;
          cs = load16 (ram s) (unat tf + 60)
      in if trapno = T_IRQ0 + IRQ_TIMER then timer_tick s
         else if trapno = T_IRQ0 + IRQ_IDE then Ret () s
         else if trapno = T_IRQ0 + IRQ_IDE + 1 then Ret () s
         else if trapno = T_IRQ0 + IRQ_KBD \<or> trapno = T_IRQ0 + IRQ_COM1 then
           kbind (consoleintr chars s) (\<lambda>_ s. Ret () s)
         else if trapno = T_IRQ0 + 7 \<or> trapno = T_IRQ0 + IRQ_SPURIOUS then
           kbind (cpuid s) (\<lambda>c s.
           cprintf ''cpu%d: spurious interrupt at %x:%x\<newline>'' [AInt (of_nat c), AInt (ucast cs), AInt eip] s)
         else kbind (myproc s) (\<lambda>p s.
           if p = None \<or> and cs 3 = 0 then
             kbind (cpuid s) (\<lambda>c s.
             kbind (cprintf ''unexpected trap %d from cpu %d eip %x (cr2=0x%x)\<newline>''
               [AInt trapno, AInt (of_nat c), AInt eip, AInt cr2] s) (\<lambda>_ s. Panic ''trap''))
           else kbind (curproc s) (\<lambda>me s.
             kbind (cpuid s) (\<lambda>c s.
             kbind (cprintf ''pid %d %s: trap %d err %d on cpu %d eip 0x%x addr 0x%x--kill proc\<newline>''
               [AInt (word_of_int (p_pid (ptable s me))), AStr (p_name (ptable s me)), AInt trapno, AInt (peek32 (tf + 52) s),
                AInt (of_nat c), AInt eip, AInt cr2] s) (\<lambda>_ s.
             Ret () (upd_proc me (\<lambda>p. p\<lparr>p_killed := True\<rparr>) s))))))"

definition trap :: "u32 \<Rightarrow> int list \<Rightarrow> u32 \<Rightarrow> 'z kern_state_scheme \<Rightarrow> (unit, 'z kern_state_scheme) res" where
  "trap tf chars cr2 s =
     (let trapno = peek32 (tf + 48) s;
          cs = load16 (ram s) (unat tf + 60)
      in if trapno = T_SYSCALL then
           kbind (exit_if_killed s) (\<lambda>_ s.
           kbind (curproc s) (\<lambda>me s.
           kbind (syscall (upd_proc me (\<lambda>p. p\<lparr>p_tf := tf\<rparr>) s)) (\<lambda>_ s. exit_if_killed s)))
         else if trapno = T_MYSYSCALL then
           kbind (exit_if_killed s) (\<lambda>_ s.
           kbind (curproc s) (\<lambda>me s.
           kbind (cprintf ''user interrupt %d called!\<newline>'' [AInt T_MYSYSCALL] (upd_proc me (\<lambda>p. p\<lparr>p_tf := tf\<rparr>) s)) (\<lambda>_ s.
           exit_if_killed s)))
         else
           kbind (trap_switch tf chars cr2 s) (\<lambda>_ s.
           kbind (exit_if_killed_user cs s) (\<lambda>_ s.
           kbind (myproc s) (\<lambda>p s.
           kbind (case p of None \<Rightarrow> Ret () s
                  | Some me \<Rightarrow>
                      if p_state (ptable s me) = RUNNING \<and> trapno = T_IRQ0 + IRQ_TIMER then yield s else Ret () s) (\<lambda>_ s.
           exit_if_killed_user cs s)))))"

text \<open>\<open>tvinit\<close> and \<open>idtinit\<close> fill in and load the hardware's descriptor table; what is left of them is the lock.\<close>

definition tvinit :: "'z kern_state_scheme \<Rightarrow> (unit, 'z kern_state_scheme) res" where
  "tvinit s = initlock TicksLock s"

end
