(* ===== verification/FsOps.thy ===== *)
theory FsOps
  imports Files
begin

text \<open>
  The file system inside an operation: what \<open>iupdate\<close>, \<open>ilock\<close>, \<open>balloc\<close>, \<open>readi\<close> and \<open>writei\<close> do to the blocks
  as the buffer cache and the log present them. Every step reads blocks with \<open>bread\<close>, changes them in the cache and
  hands them to \<open>log_write\<close>; the disk itself changes at the commit (theory \<open>Logging\<close>).
\<close>

section \<open>Blocks inside an operation\<close>

lemma fs_rest_same:
  fixes s t :: "'z fs_state_scheme"
  assumes "fs_rest t = fs_rest s"
  shows "icache t = icache s" "sb t = sb s" "log_size t = log_size s" "log_outstanding t = log_outstanding s"
    "disksize t = disksize s" "(ptable t i)\<lparr>p_state := UNUSED\<rparr> = (ptable s i)\<lparr>p_state := UNUSED\<rparr>"
  using arg_cong [OF assms, of icache] arg_cong [OF assms, of sb] arg_cong [OF assms, of log_size]
    arg_cong [OF assms, of log_outstanding] arg_cong [OF assms, of disksize] arg_cong [OF assms, of "\<lambda>s. ptable s i"]
  by (simp_all add: fs_rest_def bio_rest_def no_locks_def)

text \<open>
  Inside an operation: between \<open>begin_op\<close> and \<open>end_op\<close>, with no buffer held and the dirty buffers being those of the
  blocks the log lists.
\<close>

definition in_op :: "nat \<Rightarrow> nat set \<Rightarrow> 'z log_state_scheme \<Rightarrow> bool" where
  "in_op me H s \<longleftrightarrow> bio_ok me H s \<and> dirty_blks s = set (logged s) \<and> distinct (logged s) \<and> 0 \<le> lh_n s \<and>
     log_size s = 30 \<and> 1 \<le> log_outstanding s"

lemma length_logged [simp]: "length (logged s) = nat (lh_n s)"
  by (simp add: logged_def)

lemma in_op_card: "in_op me H s \<Longrightarrow> card (dirty_blks s) = nat (lh_n s)"
  using distinct_card [of "logged s"] by (simp add: in_op_def)

lemma logged_rest:
  assumes "bio_rest t = bio_rest s"
  shows "logged t = logged s"
  using bio_rest_log [OF assms] by (simp add: logged_def)

text \<open>Reading a block, with fewer blocks logged than there are buffers.\<close>

lemma in_op_bread:
  assumes "in_op me {} s" and "lh_n s < 30" and "b < disksize s"
    and "\<And>i t. in_op me {i} t \<Longrightarrow> cached t i b \<Longrightarrow> synced i t \<Longrightarrow> b_data (bufs t i) = blk s b \<Longrightarrow> blk t = blk s \<Longrightarrow>
      disk t = disk s \<Longrightarrow> writes t = writes s \<Longrightarrow> bio_rest t = bio_rest s \<Longrightarrow> P i t"
  shows "wp (bread 1 b s) P"
proof -
  have ok: "bio_ok me {} s" using assms(1) by (simp add: in_op_def)
  have "card (dirty_blks s) < NBUF" using in_op_card [OF assms(1)] assms(2) by (simp add: NBUF_def)
  then have "bio_room {} s" using dirty_room [OF ok] by simp
  with bread_got [OF ok _ _ assms(3)] obtain i t where i: "bread 1 b s = Ret i t" "got_block me {} b s i t"
    by (auto simp: not_held_def)
  then have "in_op me {i} t"
    using assms(1) logged_rest [of t s] bio_rest_log [of t s] by (simp add: got_block_def in_op_def)
  with i assms(4) [of i t] show ?thesis by (simp add: got_block_def)
qed

lemma in_op_brelse:
  assumes "in_op me {i} t" and "synced i t"
    and "\<And>u. in_op me {} u \<Longrightarrow> blk u = blk t \<Longrightarrow> disk u = disk t \<Longrightarrow> writes u = writes t \<Longrightarrow> bio_rest u = bio_rest t \<Longrightarrow> P () u"
  shows "wp (brelse i t) P"
proof -
  have ok: "bio_ok me {i} t" using assms(1) by (simp add: in_op_def)
  have "bio_ok me {} (released i t)" using bio_ok_released [OF ok, of i] assms(2) by (simp add: synced_def)
  moreover have "dirty_blks (released i t) = dirty_blks t" by (simp add: dirty_blks_def) metis
  ultimately have "in_op me {} (released i t)"
    using assms(1) logged_rest [of "released i t" t] bio_rest_log [of "released i t" t] by (simp add: in_op_def)
  with assms(3) brelse_eq [OF ok, of i] show ?thesis by simp
qed

text \<open>Logging a block that is held.\<close>

definition log_mark :: "nat \<Rightarrow> 'z log_state_scheme \<Rightarrow> 'z log_state_scheme" where
  "log_mark i s =
     (let b = b_blockno (bufs s i);
          k = (case first_idx (nat (lh_n s)) (\<lambda>k. lh_block s k = b) of Some k \<Rightarrow> k | None \<Rightarrow> nat (lh_n s));
          s = s\<lparr>lh_block := (lh_block s)(k := b)\<rparr>;
          s = (if int k = lh_n s then s\<lparr>lh_n := lh_n s + 1\<rparr> else s)
      in upd_buf i (\<lambda>b. b\<lparr>b_dirty := True\<rparr>) s)"

text \<open>Block \<open>b\<close> has the new contents \<open>d\<close> in the cache and is in the log; nothing else changed.\<close>

definition modified :: "nat \<Rightarrow> u32 \<Rightarrow> buffer \<Rightarrow> 'z log_state_scheme \<Rightarrow> 'z log_state_scheme \<Rightarrow> bool" where
  "modified me b d s t \<longleftrightarrow> in_op me {} t \<and> blk t = (blk s)(b := d) \<and> disk t = disk s \<and> writes t = writes s \<and>
     fs_rest t = fs_rest s \<and> set (logged t) = insert b (set (logged s)) \<and> lh_n t \<le> lh_n s + 1"

lemma log_mark_form:
  assumes "0 \<le> lh_n s"
  shows "\<exists>f n. log_mark i s = upd_buf i (\<lambda>b. b\<lparr>b_dirty := True\<rparr>) (s\<lparr>lh_block := f, lh_n := n\<rparr>) \<and>
    0 \<le> n \<and> n \<le> lh_n s + 1 \<and>
    map f [0..<nat n] = (if b_blockno (bufs s i) \<in> set (logged s) then logged s else logged s @ [b_blockno (bufs s i)])"
proof (cases "first_idx (nat (lh_n s)) (\<lambda>k. lh_block s k = b_blockno (bufs s i))")
  case None
  then have "b_blockno (bufs s i) \<notin> set (logged s)" using first_logged [of s] by simp
  with None assms show ?thesis
    by (intro exI [of _ "(lh_block s)(nat (lh_n s) := b_blockno (bufs s i))"] exI [of _ "lh_n s + 1"])
       (simp add: log_mark_def Let_def logged_def nat_add_distrib)
next
  case (Some k)
  then have k: "k < nat (lh_n s)" "lh_block s k = b_blockno (bufs s i)" by (auto dest: first_idx_SomeD)
  then have "b_blockno (bufs s i) \<in> set (logged s)" by (metis set_logged lessThan_iff imageI)
  with Some k assms show ?thesis
    by (intro exI [of _ "lh_block s"] exI [of _ "lh_n s"]) (simp add: log_mark_def Let_def fun_upd_idem logged_def)
qed

lemma log_mark_sel:
  assumes "0 \<le> lh_n s"
  shows "logged (log_mark i s) = (if b_blockno (bufs s i) \<in> set (logged s) then logged s else logged s @ [b_blockno (bufs s i)])"
    "bufs (log_mark i s) = (bufs s)(i := (bufs s i)\<lparr>b_dirty := True\<rparr>)" "fs_rest (log_mark i s) = fs_rest s"
    "disk (log_mark i s) = disk s" "writes (log_mark i s) = writes s" "lh_n (log_mark i s) \<le> lh_n s + 1" "0 \<le> lh_n (log_mark i s)"
    "sleeplks (log_mark i s) = sleeplks s" "ptable (log_mark i s) = ptable s" "lru (log_mark i s) = lru s"
    "in_proc (log_mark i s) me = in_proc s me" "log_size (log_mark i s) = log_size s"
    "log_outstanding (log_mark i s) = log_outstanding s"
proof -
  from log_mark_form [OF assms, of i] obtain f n
    where f: "log_mark i s = upd_buf i (\<lambda>b. b\<lparr>b_dirty := True\<rparr>) (s\<lparr>lh_block := f, lh_n := n\<rparr>)"
      "0 \<le> n" "n \<le> lh_n s + 1"
      "map f [0..<nat n] = (if b_blockno (bufs s i) \<in> set (logged s) then logged s else logged s @ [b_blockno (bufs s i)])"
    by blast
  have "logged (log_mark i s) = map f [0..<nat n]" by (simp add: f(1) logged_def upd_buf_def)
  with f(4) show "logged (log_mark i s) =
      (if b_blockno (bufs s i) \<in> set (logged s) then logged s else logged s @ [b_blockno (bufs s i)])" by simp
qed (insert log_mark_form [OF assms, of i],
     auto simp: upd_buf_def fs_rest_def bio_rest_def no_locks_def in_proc_def
       cong: sleeplock_id.case_cong)

lemma log_write_mark:
  assumes "quiet s" and "lh_n s < 29" and "log_size s = 30" and "1 \<le> log_outstanding s"
  shows "log_write i s = Ret () (log_mark i s)"
  using assms by (simp add: log_write_def log_mark_def LOGSIZE_def Let_def cong: option.case_cong)

lemma in_op_log_mark:
  assumes op: "in_op me {i} s" and n: "lh_n s < 29"
  shows "in_op me {i} (log_mark i s)" "blk (log_mark i s) = blk s" "cached (log_mark i s) j b = cached s j b"
    "synced i (log_mark i s)"
proof -
  have ok: "bio_ok me {i} s" and n0: "0 \<le> lh_n s" using op by (simp_all add: in_op_def)
  note sel = log_mark_sel [OF n0]
  have ok': "bio_ok me {i} (log_mark i s)"
  proof (rule bio_ok_upd [OF ok, where i = i])
    show "one_copy (log_mark i s)" by (rule one_copy_same [OF bio_okD(5) [OF ok]]) (simp add: sel)
    show "slot_ok me {i} (log_mark i s) i" using held_slot [OF ok, of i] by (simp add: slot_ok_def sel)
  qed (use bio_okD(1-4,6) [OF ok] in \<open>simp_all add: sel\<close>)
  have c: "cached (log_mark i s) j b = cached s j b" for j b by (simp add: cached_def sel)
  then show "cached (log_mark i s) j b = cached s j b" .
  show "blk (log_mark i s) = blk s" by (rule ext) (simp add: blk_def c sel split: option.splits)
  show "synced i (log_mark i s)" by (simp add: synced_def sel)
  have "dirty_blks (log_mark i s) = insert (b_blockno (bufs s i)) (dirty_blks s)"
    using held_slot(1) [OF ok, of i] by (auto simp: dirty_blks_def sel split: if_splits)
  then show "in_op me {i} (log_mark i s)" using op ok' by (auto simp: in_op_def sel)
qed

lemma in_op_set_data:
  assumes "in_op me {i} s"
  shows "in_op me {i} (set_data i d s)"
proof -
  have "dirty_blks (set_data i d s) = dirty_blks s" by (simp add: dirty_blks_def) metis
  then show ?thesis
    using assms bio_ok_set_data [of me "{i}" s i d] logged_rest [of "set_data i d s" s] bio_rest_log [of "set_data i d s" s]
    by (simp add: in_op_def)
qed

text \<open>The tail of every change of a block: fill the buffer, log it, release it.\<close>

lemma in_op_write:
  assumes op: "in_op me {i} t" and b: "cached t i b" and n: "lh_n t < 29"
    and P: "\<And>u. modified me b d t u \<Longrightarrow> P () u"
  shows "wp (log_write i (set_data i d t)) (\<lambda>_ u. wp (brelse i u) P)"
proof -
  let ?a = "set_data i d t"
  have a: "in_op me {i} ?a" using op by (rule in_op_set_data)
  have n': "lh_n ?a = lh_n t" "0 \<le> lh_n t" using bio_rest_log [of ?a t] op by (simp_all add: in_op_def)
  have w: "log_write i ?a = Ret () (log_mark i ?a)"
    using a n n' by (intro log_write_mark) (auto simp: in_op_def dest: bio_okD)
  have blk: "blk ?a = (blk t)(b := d)" using op b by (intro blk_set_data [of me "{i}"]) (simp_all add: in_op_def)
  note m = in_op_log_mark [OF a] log_mark_sel [of ?a i]
  have "wp (brelse i (log_mark i ?a)) P"
  proof (rule in_op_brelse)
    fix u assume u: "in_op me {} u" "blk u = blk (log_mark i ?a)" "disk u = disk (log_mark i ?a)"
      "writes u = writes (log_mark i ?a)" "bio_rest u = bio_rest (log_mark i ?a)"
    have "logged u = logged (log_mark i ?a)" "lh_n u = lh_n (log_mark i ?a)"
      using logged_rest [OF u(5)] bio_rest_log [OF u(5)] by simp_all
    moreover have "b_blockno (bufs t i) = b" using b by (simp add: cached_def)
    moreover have "logged ?a = logged t" by (rule logged_rest) simp
    moreover have "fs_rest u = fs_rest t" using fs_rest_bio [OF u(5)] m n n' fs_rest_bio [of ?a t] by simp
    ultimately have "modified me b d t u"
      using u m n n' blk by (auto simp: modified_def)
    then show "P () u" by (rule P)
  qed (use m n n' in simp_all)
  with w show ?thesis by simp
qed

text \<open>A block read, changed by \<open>F\<close> and logged.\<close>

lemma modify_block:
  assumes op: "in_op me {} s" and n: "lh_n s < 29" and b: "b < disksize s"
    and F: "\<And>i t. bio_rest t = bio_rest s \<Longrightarrow> b_data (bufs t i) = blk s b \<Longrightarrow> G i t = F (blk s b)"
    and P: "\<And>u. modified me b (F (blk s b)) s u \<Longrightarrow> P () u"
  shows "wp (kbind (bread 1 b s) (\<lambda>i t. kbind (log_write i (set_data i (G i t) t)) (\<lambda>_ t. brelse i t))) P"
proof (simp, rule in_op_bread [OF op _ b])
  fix i t assume t: "in_op me {i} t" "cached t i b" "b_data (bufs t i) = blk s b" "blk t = blk s" "disk t = disk s"
    "writes t = writes s" "bio_rest t = bio_rest s"
  have "modified me b d s u" if "modified me b d t u" for d u
    using that t fs_rest_bio [OF t(7)] logged_rest [OF t(7)] bio_rest_log [OF t(7)] by (simp add: modified_def)
  then show "wp (log_write i (set_data i (G i t) t)) (\<lambda>_ t. wp (brelse i t) P)"
    using t n P F [OF t(7,3)] bio_rest_log [OF t(7)] by (intro in_op_write) auto
qed (use n in simp)

section \<open>The on-disk inode\<close>

lemma load_other:
  "off + 4 \<le> o' \<or> o' + 4 \<le> off \<Longrightarrow> load32 (store32 m off w) o' = load32 m o'"
  "off + 4 \<le> o' \<or> o' + 2 \<le> off \<Longrightarrow> load16 (store32 m off w) o' = load16 m o'"
  "off + 2 \<le> o' \<or> o' + 4 \<le> off \<Longrightarrow> load32 (store16 m off v) o' = load32 m o'"
  "off + 2 \<le> o' \<or> o' + 2 \<le> off \<Longrightarrow> load16 (store16 m off v) o' = load16 m o'"
  "off + Suc (length t) \<le> o' \<or> o' + 4 \<le> off \<Longrightarrow> load32 (strcpy m off t) o' = load32 m o'"
  "off + Suc (length t) \<le> o' \<or> o' + 2 \<le> off \<Longrightarrow> load16 (strcpy m off t) o' = load16 m o'"
  by (simp_all add: store32_def store16_def strcpy_def load32_put_other load16_put_other)

lemma put_words_load:
  "load32 (fold (\<lambda>k d. store32 d (o' + 4 * k) (a k)) [0..<n] d) (o' + 4 * j) =
     (if j < n then a j else load32 d (o' + 4 * j))"
  by (induction n) (auto simp: load_other less_Suc_eq)

lemma put_words_out:
  "i < o' \<or> o' + 4 * n \<le> i \<Longrightarrow> fold (\<lambda>k d. store32 d (o' + 4 * k) (a k)) [0..<n] d i = d i"
  by (induction n) (auto simp: store32_def)

lemma put_addrs_out [simp]: "i < o' \<or> o' + 32 \<le> i \<Longrightarrow> put_addrs d o' a i = d i"
  using put_words_out [of i o' "NDIRECT + 1" a d] by (simp add: put_addrs_def NDIRECT_def del: upt_Suc)

lemma put_addrs_load: "k < NDIRECT + 1 \<Longrightarrow> load32 (put_addrs d o' a) (o' + 4 * k) = a k"
  by (simp only: put_addrs_def put_words_load if_True)

lemma put_dinode_out: "i < o' \<or> o' + 64 \<le> i \<Longrightarrow> length (i_userid ip) < 16 \<Longrightarrow> put_dinode ip o' d i = d i"
  by (auto simp: put_dinode_def Let_def store16_def store32_def strcpy_def)

lemma put_dinode_userid:
  assumes "wf_cstr (i_userid ip)" and "length (i_userid ip) < 16" and "o' + 64 \<le> BSIZE"
  shows "cstr_at (put_dinode ip o' d) (o' + 44) BSIZE = i_userid ip"
proof (rule cstr_atI [OF assms(1)])
  let ?t = "i_userid ip @ [0]"
  show "get_bytes (put_dinode ip o' d) (o' + 44) (length ?t) = ?t"
    using assms(2)
    by (intro nth_equalityI) (simp_all add: put_dinode_def Let_def store16_def store32_def strcpy_def put_bytes_def)
qed (use assms in simp)

lemma load_put_addrs:
  "off + 4 \<le> o' \<or> o' + 32 \<le> off \<Longrightarrow> load32 (put_addrs d o' a) off = load32 d off"
  "off + 2 \<le> o' \<or> o' + 32 \<le> off \<Longrightarrow> load16 (put_addrs d o' a) off = load16 d off"
  by (auto simp: load32_def load16_def)

lemma put_dinode_fields:
  assumes "length (i_userid ip) < 16"
  shows "load16 (put_dinode ip o' d) o' = i_type ip" "load16 (put_dinode ip o' d) (o' + 2) = i_major ip"
    "load16 (put_dinode ip o' d) (o' + 4) = i_minor ip" "load16 (put_dinode ip o' d) (o' + 6) = i_nlink ip"
    "load32 (put_dinode ip o' d) (o' + 8) = i_size ip" "load32 (put_dinode ip o' d) (o' + 60) = i_mode ip"
    "k < NDIRECT + 1 \<Longrightarrow> load32 (put_dinode ip o' d) (o' + 12 + 4 * k) = i_addrs ip k"
  using assms put_addrs_load [of k _ "o' + 12" "i_addrs ip"]
  by (simp_all add: put_dinode_def Let_def load_put_addrs load_other del: add_2_eq_Suc' One_nat_def)

lemma get_put_dinode:
  assumes "wf_cstr (i_userid ip)" and "length (i_userid ip) < 16" and "o' + 64 \<le> BSIZE"
  shows "get_dinode (put_dinode ip o' d) o' q =
    ip\<lparr>i_dev := i_dev q, i_inum := i_inum q, i_ref := i_ref q, i_valid := i_valid q,
       i_addrs := (\<lambda>k. if k < NDIRECT + 1 then i_addrs ip k else i_addrs q k)\<rparr>"
  unfolding get_dinode_def put_dinode_userid [OF assms] put_dinode_fields(1-6) [OF assms(2)]
  by (rule inode.equality) (auto simp: put_dinode_fields(7) [OF assms(2)] fun_eq_iff)

lemma in_op_frame [simp]:
  "in_op me H (s\<lparr>sleeplks := (sleeplks s)(InodeLock i := x)\<rparr>) = in_op me H s"
  "blk (s\<lparr>sleeplks := y\<rparr>) = blk s" "logged (s\<lparr>sleeplks := y\<rparr>) = logged s"
  by (simp_all add: in_op_def bio_ok_def slot_ok_def one_copy_def in_proc_def dirty_blks_def logged_def
      blk_def cached_def fun_eq_iff cong: option.case_cong)

lemma in_op_icache [simp]:
  "in_op me H (s\<lparr>icache := c\<rparr>) = in_op me H s" "blk (s\<lparr>icache := c\<rparr>) = blk s" "logged (s\<lparr>icache := c\<rparr>) = logged s"
  by (simp_all add: in_op_def bio_ok_def slot_ok_def one_copy_def in_proc_def dirty_blks_def logged_def
      blk_def cached_def fun_eq_iff cong: option.case_cong)

lemma upd_inode_sel [simp]:
  "in_op me H (upd_inode ip f s) = in_op me H s" "blk (upd_inode ip f s) = blk s" "logged (upd_inode ip f s) = logged s"
  "lh_n (upd_inode ip f s) = lh_n s" "disksize (upd_inode ip f s) = disksize s" "sb (upd_inode ip f s) = sb s"
  "icache (upd_inode ip f s) = (icache s)(ip := f (icache s ip))" "disk (upd_inode ip f s) = disk s"
  by (simp_all add: upd_inode_def)

lemma dino_block: "dino n + 64 \<le> BSIZE"
proof -
  have "n mod 8 < 8" by (rule word_mod_less_divisor) simp
  then show ?thesis by (simp add: dino_def IPB_def BSIZE_def word_less_nat_alt)
qed

lemma iupdate_wp:
  assumes "in_op me {} s" and "lh_n s < 29" and "i_dev (icache s ip) = 1"
    and "IBLOCK (i_inum (icache s ip)) (sb s) < disksize s"
    and "\<And>u. modified me (IBLOCK (i_inum (icache s ip)) (sb s))
        (put_dinode (icache s ip) (dino (i_inum (icache s ip))) (blk s (IBLOCK (i_inum (icache s ip)) (sb s)))) s u \<Longrightarrow> P () u"
  shows "wp (iupdate ip s) P"
  unfolding iupdate_def assms(3) Let_def
proof (rule modify_block [OF assms(1,2,4), where F = "put_dinode (icache s ip) (dino (i_inum (icache s ip)))"])
  fix i t assume "bio_rest t = bio_rest s" "b_data (bufs t i) = blk s (IBLOCK (i_inum (icache s ip)) (sb s))"
  with fs_rest_same(1) [OF fs_rest_bio, of t s] show "put_dinode (icache t ip) (dino (i_inum (icache t ip))) (b_data (bufs t i)) =
      put_dinode (icache s ip) (dino (i_inum (icache s ip))) (blk s (IBLOCK (i_inum (icache s ip)) (sb s)))" by simp
qed (rule assms(5))

text \<open>\<open>ilock\<close> of an inode that is not in memory yet and not locked.\<close>

lemma ilock_loads:
  assumes "in_op me {} s" and "lh_n s < 30" and "\<not> sl_locked (sleeplks s (InodeLock ip))"
    and ip: "1 \<le> i_ref (icache s ip)" "\<not> i_valid (icache s ip)" "i_dev (icache s ip) = 1"
      "IBLOCK (i_inum (icache s ip)) (sb s) < disksize s"
    and d: "d = blk s (IBLOCK (i_inum (icache s ip)) (sb s))" "o' = dino (i_inum (icache s ip))"
    and ok: "load16 d o' \<noteq> 0" "length (cstr_at d (o' + 44) BSIZE) < 16"
    and P: "\<And>u. in_op me {} u \<Longrightarrow> blk u = blk s \<Longrightarrow> disk u = disk s \<Longrightarrow>
        icache u = (icache s)(ip := (get_dinode d o' (icache s ip))\<lparr>i_valid := True\<rparr>) \<Longrightarrow> P () u"
  shows "wp (ilock (Some ip) s) P"
proof -
  let ?a = "s\<lparr>sleeplks := (sleeplks s)(InodeLock ip := sl_held (p_pid (ptable s me)))\<rparr>"
  let ?b = "IBLOCK (i_inum (icache s ip)) (sb s)"
  have "in_proc s me" using assms(1) by (auto simp: in_op_def dest: bio_okD)
  then have "acquiresleep (InodeLock ip) s = Ret () ?a" by (rule acquiresleep_free) (rule assms(3))
  moreover have "wp (ilock_locked ip ?a) P"
    using ip(2,3) unfolding ilock_locked_def
  proof (simp, intro in_op_bread [of me])
    fix i t assume t: "in_op me {i} t" "synced i t" "b_data (bufs t i) = blk ?a ?b" "blk t = blk ?a" "disk t = disk ?a"
      "bio_rest t = bio_rest ?a"
    from fs_rest_same(1) [OF fs_rest_bio [OF t(6)]] have ic: "icache t = icache s" by simp
    have dt: "b_data (bufs t i) = d" using t(3) d by simp
    let ?c = "upd_inode ip (get_dinode d o') t"
    have "wp (brelse i ?c) (\<lambda>_ s. i_type (icache s ip) \<noteq> 0 \<and> P () (upd_inode ip (\<lambda>p. p\<lparr>i_valid := True\<rparr>) s))"
    proof (rule in_op_brelse)
      fix u assume u: "in_op me {} u" "blk u = blk ?c" "disk u = disk ?c" "bio_rest u = bio_rest ?c"
      from fs_rest_same(1) [OF fs_rest_bio [OF u(4)]] ic have "icache u = (icache s)(ip := get_dinode d o' (icache s ip))" by simp
      then show "i_type (icache u ip) \<noteq> 0 \<and> P () (upd_inode ip (\<lambda>p. p\<lparr>i_valid := True\<rparr>) u)"
        using u t ok(1) by (intro conjI P) (simp_all add: get_dinode_def)
    next
      show "synced i ?c" using t(2) by (simp add: synced_def upd_inode_def)
    qed (use t(1) in simp)
    then show "wp (let d = b_data (bufs t i); o' = dino (i_inum (icache t ip))
       in kbind (strcpy_field 16 (cstr_at d (o' + 44) BSIZE) t) (\<lambda>_ s.
          kbind (brelse i (upd_inode ip (get_dinode d o') s)) (\<lambda>_ s.
          if i_type (icache s ip) = 0 then Panic ''ilock: no type''
          else Ret () (upd_inode ip (\<lambda>p. p\<lparr>i_valid := True\<rparr>) s)))) P"
      using ok ic dt d by (simp add: Let_def strcpy_field_def cong: conj_cong)
  qed (use assms in simp_all)
  ultimately show ?thesis using ip(1) by (simp add: ilock_def)
qed

text \<open>C21: \<open>iupdate\<close> and \<open>ilock\<close> are inverse. Inside an operation with room in the log, \<open>iupdate\<close> writes the
  inode into its slot of the inode block, touching no other slot and no other block and no disk block yet; when the cache
  entry is recycled and \<open>ilock\<close> reads the inode back, every field is the one written, whatever the entry held.\<close>

theorem iupdate_ilock_roundtrip:
  assumes "in_op me {} s" and "lh_n s < 29" and "\<not> sl_locked (sleeplks s (InodeLock ip))"
    and "i_dev (icache s ip) = 1" and "IBLOCK (i_inum (icache s ip)) (sb s) < disksize s"
    and "i_type (icache s ip) \<noteq> 0" and "wf_cstr (i_userid (icache s ip))" and "length (i_userid (icache s ip)) < 16"
  shows "\<exists>t. iupdate ip s = Ret () t \<and> icache t = icache s \<and> disk t = disk s \<and>
    (\<forall>b. b \<noteq> IBLOCK (i_inum (icache s ip)) (sb s) \<longrightarrow> blk t b = blk s b) \<and>
    (\<forall>x. x < dino (i_inum (icache s ip)) \<or> dino (i_inum (icache s ip)) + 64 \<le> x \<longrightarrow>
       blk t (IBLOCK (i_inum (icache s ip)) (sb s)) x = blk s (IBLOCK (i_inum (icache s ip)) (sb s)) x) \<and>
    (\<forall>q. 1 \<le> i_ref q \<longrightarrow>
       (\<exists>u. ilock (Some ip) (upd_inode ip (\<lambda>p. q\<lparr>i_dev := i_dev p, i_inum := i_inum p, i_valid := False\<rparr>) t) = Ret () u \<and>
          icache u ip = (icache s ip)\<lparr>i_ref := i_ref q,
            i_addrs := (\<lambda>k. if k < NDIRECT + 1 then i_addrs (icache s ip) k else i_addrs q k), i_valid := True\<rparr>))"
proof -
  let ?n = "i_inum (icache s ip)"
  let ?b = "IBLOCK ?n (sb s)"
  let ?d = "put_dinode (icache s ip) (dino ?n) (blk s ?b)"
  have "wp (iupdate ip s) (\<lambda>_ t. modified me ?b ?d s t)"
    by (rule iupdate_wp [OF assms(1,2,4,5)])
  then obtain t where t: "iupdate ip s = Ret () t" "modified me ?b ?d s t" by (auto simp: wp_Ret_ex)
  then have m: "in_op me {} t" "blk t = (blk s)(?b := ?d)" "disk t = disk s" "lh_n t < 30" "fs_rest t = fs_rest s"
    using assms(2) by (simp_all add: modified_def)
  note same = fs_rest_same [OF m(5)]
  have sl: "sleeplks t (InodeLock ip) = sleeplks s (InodeLock ip)"
    using arg_cong [OF m(5), of "\<lambda>s. sleeplks s (InodeLock ip)"] by (simp add: fs_rest_def bio_rest_def no_locks_def)
  note gp = get_put_dinode [OF assms(7,8) dino_block, of ?n "blk s ?b"]
  have "\<exists>u. ilock (Some ip) (upd_inode ip (\<lambda>p. q\<lparr>i_dev := i_dev p, i_inum := i_inum p, i_valid := False\<rparr>) t) = Ret () u \<and>
      icache u ip = (icache s ip)\<lparr>i_ref := i_ref q,
        i_addrs := (\<lambda>k. if k < NDIRECT + 1 then i_addrs (icache s ip) k else i_addrs q k), i_valid := True\<rparr>" if "1 \<le> i_ref q" for q
  proof -
    let ?t = "upd_inode ip (\<lambda>p. q\<lparr>i_dev := i_dev p, i_inum := i_inum p, i_valid := False\<rparr>) t"
    have "wp (ilock (Some ip) ?t) (\<lambda>_ u. icache u ip = (get_dinode ?d (dino ?n) (icache ?t ip))\<lparr>i_valid := True\<rparr>)"
      using m same sl assms that put_dinode_fields(1) [OF assms(8)] put_dinode_userid [OF assms(7,8) dino_block]
      by (intro ilock_loads [where d = ?d and o' = "dino ?n"]) (simp_all add: upd_inode_def)
    moreover have "icache ?t ip = q\<lparr>i_dev := i_dev (icache s ip), i_inum := ?n, i_valid := False\<rparr>" using same(1) by simp
    ultimately have "wp (ilock (Some ip) ?t) (\<lambda>_ u. icache u ip = (icache s ip)\<lparr>i_ref := i_ref q,
        i_addrs := (\<lambda>k. if k < NDIRECT + 1 then i_addrs (icache s ip) k else i_addrs q k), i_valid := True\<rparr>)"
      by (simp only: gp) (simp cong: if_cong)
    then show ?thesis by (auto simp: wp_Ret_ex)
  qed
  moreover have "blk t ?b x = blk s ?b x" if "x < dino ?n \<or> dino ?n + 64 \<le> x" for x
    using m(2) put_dinode_out [OF that assms(8)] by simp
  ultimately show ?thesis using t(1) m(2,3) same(1) by (intro exI [of _ t]) simp
qed

section \<open>The free-block bitmap\<close>

lemma bm_used_bit: "bm_used d bi \<longleftrightarrow> bit (d (bi div 8)) (bi mod 8)"
  by (simp add: bm_used_def push_bit_of_1 and_exp_eq_0_iff_not_bit)

lemma mod_div_eqI: "(i :: nat) div 8 = j div 8 \<Longrightarrow> i mod 8 = j mod 8 \<Longrightarrow> i = j"
  by (metis div_mult_mod_eq)

lemma bm_used_set: "bm_used (bm_set d bi) j \<longleftrightarrow> j = bi \<or> bm_used d j"
proof -
  have "bi mod 8 < 8" "j mod 8 < 8" by simp_all
  then show ?thesis
    by (auto simp: bm_used_bit bm_set_def bit_or_iff bit_push_bit_iff push_bit_of_1 bit_exp_iff dest: mod_div_eqI)
qed

lemma bm_used_clear: "bm_used (bm_clear d bi) j \<longleftrightarrow> j \<noteq> bi \<and> bm_used d j"
proof -
  have "bi mod 8 < 8" "j mod 8 < 8" by simp_all
  then show ?thesis
    by (auto simp: bm_used_bit bm_clear_def bit_and_iff bit_not_iff bit_push_bit_iff push_bit_of_1 bit_exp_iff dest: mod_div_eqI)
qed

text \<open>Whether the bitmap marks block \<open>x\<close> in use, and the number of bitmap blocks.\<close>

definition bm_block :: "'z log_state_scheme \<Rightarrow> nat \<Rightarrow> u32" where
  "bm_block s k = of_nat k + sb_bmapstart (sb s)"

definition used_at :: "'z log_state_scheme \<Rightarrow> nat \<Rightarrow> bool" where
  "used_at s x \<longleftrightarrow> bm_used (blk s (bm_block s (x div 4096))) (x mod 4096)"

definition fs_blocks :: "'z log_state_scheme \<Rightarrow> nat" where
  "fs_blocks s = unat (sb_size (sb s))"

definition bm_blocks :: "'z log_state_scheme \<Rightarrow> nat" where
  "bm_blocks s = (fs_blocks s + 4095) div 4096"

text \<open>The layout \<open>mkfs\<close> gives: the file system lies on the disk, and so does the bitmap, in blocks marked in use.\<close>

definition fs_layout :: "'z log_state_scheme \<Rightarrow> bool" where
  "fs_layout s \<longleftrightarrow> sb_size (sb s) \<le> disksize s \<and> fs_blocks s + 4096 \<le> 2 ^ 32 \<and>
     (\<forall>k<bm_blocks s. bm_block s k < disksize s \<and> used_at s (unat (bm_block s k)))"

lemma unat_u32: "n < 2 ^ 32 \<Longrightarrow> unat (of_nat n :: u32) = n"
  by (simp add: unat_of_nat)

lemma BBLOCK_of:
  assumes "k < bm_blocks s" and "fs_blocks s + 4096 \<le> 2 ^ 32"
  shows "BBLOCK (of_nat k * BPB) (sb s) = bm_block s k"
proof -
  have "4096 * k < 2 ^ 32" using assms by (auto simp: bm_blocks_def)
  moreover have "of_nat k * BPB = (of_nat (4096 * k) :: u32)" by (simp add: BPB_def mult.commute)
  ultimately have "unat (of_nat k * BPB :: u32) = 4096 * k" by (simp only: unat_u32)
  then have "unat ((of_nat k * BPB) div BPB :: u32) = k" by (simp add: unat_div BPB_def)
  moreover have "k < 2 ^ 32" using assms by (auto simp: bm_blocks_def)
  ultimately have "(of_nat k * BPB) div BPB = (of_nat k :: u32)" by (simp only: word_unat_eq_iff unat_u32)
  then show ?thesis by (simp add: BBLOCK_def bm_block_def)
qed

lemma blockno_of:
  assumes "k < bm_blocks s" and "fs_blocks s + 4096 \<le> 2 ^ 32" and "bi < 4096"
  shows "unat (of_nat k * BPB + of_nat bi :: u32) = 4096 * k + bi"
    "of_nat k * BPB + of_nat bi < sb_size (sb s) \<longleftrightarrow> 4096 * k + bi < fs_blocks s"
proof -
  have "4096 * k + bi < 2 ^ 32" using assms by (auto simp: bm_blocks_def)
  moreover have e: "of_nat k * BPB + of_nat bi = (of_nat (4096 * k + bi) :: u32)" by (simp add: BPB_def mult.commute)
  ultimately show u: "unat (of_nat k * BPB + of_nat bi :: u32) = 4096 * k + bi"
    unfolding e by (intro unat_u32) simp
  show "of_nat k * BPB + of_nat bi < sb_size (sb s) \<longleftrightarrow> 4096 * k + bi < fs_blocks s"
    by (simp add: word_less_nat_alt u fs_blocks_def)
qed

lemma bm_block_inj:
  assumes "j < 2 ^ 32" and "k < 2 ^ 32" and "bm_block s j = bm_block s k"
  shows "j = k"
proof -
  from assms(3) have "unat (of_nat j :: u32) = unat (of_nat k :: u32)" by (simp add: bm_block_def)
  then show ?thesis using assms(1,2) by (simp only: unat_u32)
qed

lemma bzero_wp:
  assumes "in_op me {} s" and "lh_n s < 29" and "b < disksize s"
    and "\<And>u. modified me b (memset (blk s b) 0 0 BSIZE) s u \<Longrightarrow> P () u"
  shows "wp (bzero 1 b s) P"
  unfolding bzero_def Let_def
  by (rule modify_block [OF assms(1-3), where F = "\<lambda>d. memset d 0 0 BSIZE"]) (use assms(4) in simp_all)

text \<open>What \<open>balloc\<close> does to take the block with number \<open>x\<close>.\<close>

definition taken :: "nat \<Rightarrow> nat \<Rightarrow> 'z log_state_scheme \<Rightarrow> 'z log_state_scheme \<Rightarrow> bool" where
  "taken me x s t \<longleftrightarrow> in_op me {} t \<and> disk t = disk s \<and> fs_rest t = fs_rest s \<and> lh_n t \<le> lh_n s + 2 \<and>
     (let b = bm_block s (x div 4096); e = (blk s)(b := bm_set (blk s b) (x mod 4096))
      in blk t = e(of_nat x := memset (e (of_nat x)) 0 0 BSIZE))"

lemma balloc_take_wp:
  assumes u: "in_op me {i} u" "cached u i (bm_block s k)" "b_data (bufs u i) = blk s (bm_block s k)" "blk u = blk s"
      "disk u = disk s" "bio_rest u = bio_rest s"
    and n: "lh_n s < 28" and lay: "fs_layout s" and x: "bi < 4096" "4096 * k + bi < fs_blocks s"
    and P: "\<And>v. taken me (4096 * k + bi) s v \<Longrightarrow> P () v"
  shows "wp (log_write i (set_data i (bm_set (b_data (bufs u i)) bi) u)) (\<lambda>_ s. wp (brelse i s) (\<lambda>_ s.
      wp (bzero 1 (of_nat (4096 * k + bi)) s) P))"
proof (rule in_op_write [OF u(1,2)])
  let ?x = "4096 * k + bi"
  fix v assume "modified me (bm_block s k) (bm_set (b_data (bufs u i)) bi) u v"
  then have v: "fs_rest v = fs_rest s" "lh_n v \<le> lh_n s + 1" "in_op me {} v" "disk v = disk s"
      "blk v = (blk s)(bm_block s k := bm_set (blk s (bm_block s k)) bi)"
    using u fs_rest_bio [OF u(6)] bio_rest_log [OF u(6)] by (simp_all add: modified_def)
  have "?x < 2 ^ 32" using lay x by (simp add: fs_layout_def)
  then have "(of_nat ?x :: u32) < sb_size (sb s)" using x(2) unat_u32 [of ?x] by (simp only: word_less_nat_alt fs_blocks_def)
  also have "\<dots> \<le> disksize v" using lay fs_rest_same(5) [OF v(1)] by (simp add: fs_layout_def)
  finally have lt: "of_nat ?x < disksize v" .
  show "wp (bzero 1 (of_nat ?x) v) P"
  proof (rule bzero_wp [OF v(3) _ lt])
    fix w assume w: "modified me (of_nat ?x) (memset (blk v (of_nat ?x)) 0 0 BSIZE) v w"
    have "?x div 4096 = k" "?x mod 4096 = bi" using x(1) by simp_all
    then have "taken me ?x s w" using v w by (simp add: taken_def modified_def Let_def del: of_nat_add of_nat_mult)
    then show "P () w" by (rule P)
  qed (use n v in simp)
qed (use n bio_rest_log [OF u(6)] in simp)

lemma balloc_body_wp:
  assumes op: "in_op me {} t" and n: "lh_n s < 28" and lay: "fs_layout s" and k: "k < bm_blocks s"
    and t: "blk t = blk s" "disk t = disk s" "bio_rest t = bio_rest s"
    and none: "\<And>u. (\<forall>bi<4096. 4096 * k + bi < fs_blocks s \<longrightarrow> used_at s (4096 * k + bi)) \<Longrightarrow> in_op me {} u \<Longrightarrow>
      blk u = blk s \<Longrightarrow> disk u = disk s \<Longrightarrow> bio_rest u = bio_rest s \<Longrightarrow> P None u"
    and some: "\<And>bi u. bi < 4096 \<Longrightarrow> 4096 * k + bi < fs_blocks s \<Longrightarrow> \<not> used_at s (4096 * k + bi) \<Longrightarrow>
      (\<forall>j<bi. used_at s (4096 * k + j)) \<Longrightarrow> taken me (4096 * k + bi) s u \<Longrightarrow> P (Some (of_nat (4096 * k + bi))) u"
  shows "wp (balloc_body 1 k t) P"
proof -
  from lay have size: "fs_blocks s + 4096 \<le> 2 ^ 32" and dsz: "bm_block s k < disksize s" "sb_size (sb s) \<le> disksize s"
    using k by (auto simp: fs_layout_def)
  note r = fs_rest_same [OF fs_rest_bio [OF t(3)]] and l = bio_rest_log [OF t(3)]
  have bb: "BBLOCK (of_nat k * BPB) (sb t) = bm_block s k" using BBLOCK_of [OF k size] r(2) by simp
  have used: "bm_used (blk s (bm_block s k)) bi \<longleftrightarrow> used_at s (4096 * k + bi)" if "bi < 4096" for bi
    using that by (simp add: used_at_def)
  show ?thesis
    unfolding balloc_body_def Let_def bb wp_kbind
  proof (rule in_op_bread [OF op])
    fix i u assume u: "in_op me {i} u" "cached u i (bm_block s k)" "synced i u" "b_data (bufs u i) = blk t (bm_block s k)"
      "blk u = blk t" "disk u = disk t" "bio_rest u = bio_rest t"
    then have ur: "bio_rest u = bio_rest s" using t(3) by simp
    note sbu = fs_rest_same(2) [OF fs_rest_bio [OF ur]]
    let ?Q = "\<lambda>bi. of_nat k * BPB + of_nat bi < sb_size (sb u) \<and> \<not> bm_used (b_data (bufs u i)) bi"
    have Q: "?Q bi \<longleftrightarrow> 4096 * k + bi < fs_blocks s \<and> \<not> used_at s (4096 * k + bi)" if "bi < 4096" for bi
      using blockno_of(2) [OF k size that] used [OF that] u(4) t(1) sbu by simp
    show "wp (case first_idx (unat BPB) ?Q of
          None \<Rightarrow> kbind (brelse i u) (\<lambda>_. Ret None)
        | Some bi \<Rightarrow> kbind (log_write i (set_data i (bm_set (b_data (bufs u i)) bi) u)) (\<lambda>_ s.
            kbind (brelse i s) (\<lambda>_ s. kbind (bzero 1 (of_nat k * BPB + of_nat bi) s)
              (\<lambda>_. Ret (Some (of_nat k * BPB + of_nat bi)))))) P"
    proof (cases "first_idx (unat BPB) ?Q")
      case None
      then have all: "\<forall>bi<4096. 4096 * k + bi < fs_blocks s \<longrightarrow> used_at s (4096 * k + bi)"
        using Q by (auto simp: first_idx_None BPB_def)
      have "wp (brelse i u) (\<lambda>_ s. P None s)"
        by (rule in_op_brelse [OF u(1,3)]) (use u t none [OF all] in simp)
      then show ?thesis using None by simp
    next
      case (Some bi)
      then have bi: "bi < 4096" "?Q bi" "\<forall>j<bi. \<not> ?Q j" by (auto simp: first_idx_Some BPB_def)
      let ?x = "4096 * k + bi"
      from bi Q [OF bi(1)] have x: "?x < fs_blocks s" "\<not> used_at s ?x" by auto
      have low: "\<forall>j<bi. used_at s (4096 * k + j)" using bi Q x by auto
      have bx: "of_nat k * BPB + of_nat bi = (of_nat ?x :: u32)" by (simp add: BPB_def mult.commute)
      have "wp (log_write i (set_data i (bm_set (b_data (bufs u i)) bi) u)) (\<lambda>_ s. wp (brelse i s) (\<lambda>_ s.
          wp (bzero 1 (of_nat ?x) s) (\<lambda>_ s. P (Some (of_nat ?x)) s)))"
        using u t x(1) lay n bi(1) some [OF bi(1) x low] by (intro balloc_take_wp [where s = s and k = k]) auto
      then show ?thesis unfolding Some bx [symmetric] by simp
    qed
  qed (use n l dsz r in simp_all)
qed

lemma taken_used:
  fixes s t :: "'z fs_state_scheme"
  assumes tk: "taken me x s t" and lay: "fs_layout s" and x: "x < fs_blocks s" "\<not> used_at s x" and y: "y < fs_blocks s"
  shows "used_at t y \<longleftrightarrow> y = x \<or> used_at s y"
proof -
  have size: "fs_blocks s + 4096 \<le> 2 ^ 32" using lay by (simp add: fs_layout_def)
  have sb: "sb t = sb s" using tk by (auto simp: taken_def dest: fs_rest_same)
  have yb: "y div 4096 < bm_blocks s" using y by (simp add: bm_blocks_def)
  then have "used_at s (unat (bm_block s (y div 4096)))" using lay by (simp add: fs_layout_def)
  then have "bm_block s (y div 4096) \<noteq> of_nat x" using x size unat_u32 [of x] by auto
  moreover have "bm_block s (y div 4096) = bm_block s (x div 4096) \<longleftrightarrow> y div 4096 = x div 4096"
    using bm_block_inj [of "y div 4096" "x div 4096" s] x y size by auto
  moreover have "y div 4096 = x div 4096 \<and> y mod 4096 = x mod 4096 \<longleftrightarrow> y = x" by (metis div_mult_mod_eq)
  ultimately show ?thesis
    using tk sb by (auto simp: used_at_def taken_def Let_def bm_block_def bm_used_set)
qed

lemma balloc_scan:
  assumes op: "in_op me {} s" and n: "lh_n s < 28" and lay: "fs_layout s"
  shows "wp (kscan [0..<bm_blocks s] (balloc_body 1) s) (\<lambda>r t. case r of
      None \<Rightarrow> \<forall>x<fs_blocks s. used_at s x
    | Some b \<Rightarrow> \<exists>x<fs_blocks s. b = of_nat x \<and> \<not> used_at s x \<and> (\<forall>y<x. used_at s y) \<and> taken me x s t)"
proof (rule wp_kscan [where I = "\<lambda>k t. in_op me {} t \<and> blk t = blk s \<and> disk t = disk s \<and> bio_rest t = bio_rest s \<and>
    (\<forall>x<4096 * k. x < fs_blocks s \<longrightarrow> used_at s x)"], goal_cases)
  case 1
  then show ?case using op by simp
next
  case (2 k t)
  then have k: "k < bm_blocks s" by simp
  from k have "\<forall>x<4096 * k. used_at s x" using 2(2) by (auto simp: bm_blocks_def)
  moreover have "y < 4096 * k \<or> (\<exists>j<bi. y = 4096 * k + j)" if "y < 4096 * k + bi" for y bi
    using that by (cases "y < 4096 * k") (auto intro: exI [of _ "y - 4096 * k"])
  ultimately have low: "\<forall>y<4096 * k + bi. used_at s y" if "\<forall>j<bi. used_at s (4096 * k + j)" for bi
    using that by blast
  show ?case
  proof (simp add: k, rule balloc_body_wp [of me t s k], goal_cases)
    case (8 u)
    have "y < 4096 * k \<or> (\<exists>j<4096. y = 4096 * k + j)" if "y < 4096 + 4096 * k" for y
      using that by (cases "y < 4096 * k") (auto intro: exI [of _ "y - 4096 * k"])
    with 8 2(2) show ?case by auto
  next
    case (9 bi u)
    then show ?case using low by (simp del: of_nat_add of_nat_mult) blast
  qed (use 2 n lay k in simp_all)
next
  case (3 t)
  have "x < 4096 * bm_blocks s" if "x < fs_blocks s" for x
    using that by (simp add: bm_blocks_def)
  with 3 show ?case by simp
qed

text \<open>\<open>balloc\<close> takes the first block that the bitmap marks free, marks that block and no other, zeroes it and leaves
  every other block alone; it panics only when no block of the file system is free.\<close>

theorem balloc_first_free:
  assumes "in_op me {} s" and "lh_n s < 28" and "fs_layout s"
  shows "if \<exists>x<fs_blocks s. \<not> used_at s x
    then \<exists>x t. balloc 1 s = Ret (of_nat x) t \<and> x < fs_blocks s \<and> \<not> used_at s x \<and> (\<forall>y<x. used_at s y) \<and>
      (\<forall>y<fs_blocks s. used_at t y \<longleftrightarrow> y = x \<or> used_at s y) \<and> (\<forall>i<512. blk t (of_nat x) i = 0) \<and>
      (\<forall>b. b \<noteq> of_nat x \<and> b \<noteq> bm_block s (x div 4096) \<longrightarrow> blk t b = blk s b) \<and> disk t = disk s \<and>
      in_op me {} t \<and> icache t = icache s
    else balloc 1 s = Panic ''balloc: out of blocks''"
proof -
  have bl: "balloc 1 s = kbind (kscan [0..<bm_blocks s] (balloc_body 1) s) (\<lambda>r s.
      case r of Some b \<Rightarrow> Ret b s | None \<Rightarrow> Panic ''balloc: out of blocks'')"
    by (simp add: balloc_def bm_blocks_def fs_blocks_def)
  from balloc_scan [OF assms] obtain r t where r: "kscan [0..<bm_blocks s] (balloc_body 1) s = Ret r t"
    and c: "case r of None \<Rightarrow> \<forall>x<fs_blocks s. used_at s x
      | Some b \<Rightarrow> \<exists>x<fs_blocks s. b = of_nat x \<and> \<not> used_at s x \<and> (\<forall>y<x. used_at s y) \<and> taken me x s t"
    by (auto simp: wp_Ret_ex)
  show ?thesis
  proof (cases r)
    case None
    with c r show ?thesis by (simp add: bl)
  next
    case (Some b)
    with c obtain x where x: "x < fs_blocks s" "b = of_nat x" "\<not> used_at s x" "\<forall>y<x. used_at s y" "taken me x s t" by auto
    have "\<forall>y<fs_blocks s. used_at t y \<longleftrightarrow> y = x \<or> used_at s y" using taken_used [OF x(5) assms(3) x(1,3)] by blast
    moreover have "\<forall>i<512. blk t (of_nat x) i = 0"
      using x(5) by (simp add: taken_def Let_def memset_put_replicate BSIZE_def put_bytes_def)
    moreover have "\<forall>b. b \<noteq> of_nat x \<and> b \<noteq> bm_block s (x div 4096) \<longrightarrow> blk t b = blk s b"
      using x(5) by (simp add: taken_def Let_def)
    moreover have "disk t = disk s \<and> in_op me {} t \<and> icache t = icache s"
      using x(5) fs_rest_same(1) [of t s] by (simp add: taken_def)
    moreover have "balloc 1 s = Ret (of_nat x) t" using r Some x(2) by (simp add: bl)
    ultimately show ?thesis using x by auto
  qed
qed

section \<open>The contents of a file\<close>

text \<open>A reader needs no operation, only buffers: fewer dirty ones than there are.\<close>

definition can_read :: "nat \<Rightarrow> 'z bio_state_scheme \<Rightarrow> bool" where
  "can_read me s \<longleftrightarrow> bio_ok me {} s \<and> card (dirty_blks s) < NBUF"

definition unchanged :: "nat \<Rightarrow> 'z bio_state_scheme \<Rightarrow> 'z bio_state_scheme \<Rightarrow> bool" where
  "unchanged me s t \<longleftrightarrow> can_read me t \<and> blk t = blk s \<and> disk t = disk s \<and> writes t = writes s \<and> bio_rest t = bio_rest s \<and>
     dirty_blks t = dirty_blks s"

lemma unchanged_refl: "can_read me s \<Longrightarrow> unchanged me s s"
  by (simp add: unchanged_def)

lemma unchanged_trans: "unchanged me s t \<Longrightarrow> unchanged me t u \<Longrightarrow> unchanged me s u"
  by (simp add: unchanged_def)

text \<open>A block that is read, looked at and released.\<close>

lemma peek_block:
  assumes "can_read me s" and "b < disksize s"
    and "\<And>i t u. b_data (bufs t i) = blk s b \<Longrightarrow> bio_rest t = bio_rest s \<Longrightarrow> brelse i t = Ret () u \<Longrightarrow>
      unchanged me s u \<Longrightarrow> P i t"
  shows "wp (bread 1 b s) P"
proof -
  have ok: "bio_ok me {} s" and c: "card (dirty_blks s) < NBUF" using assms(1) by (simp_all add: can_read_def)
  then have "bio_room {} s" using dirty_room [OF ok] by simp
  with bread_got [OF ok _ _ assms(2)] obtain i t where i: "bread 1 b s = Ret i t" "got_block me {} b s i t"
    by (auto simp: not_held_def)
  then have t: "bio_ok me {i} t" "synced i t" by (simp_all add: got_block_def)
  have "bio_ok me {} (released i t)" using bio_ok_released [OF t(1), of i] t(2) by (simp add: synced_def)
  moreover have "dirty_blks (released i t) = dirty_blks t" by (simp add: dirty_blks_def) metis
  ultimately have "unchanged me s (released i t)"
    using i(2) c by (simp add: unchanged_def can_read_def got_block_def)
  moreover have "brelse i t = Ret () (released i t)" using brelse_eq [OF t(1), of i] by simp
  ultimately show ?thesis using i assms(3) [of t i] by (simp add: got_block_def)
qed

text \<open>The disk block of block \<open>bn\<close> of the file in cache entry \<open>ip\<close>, and byte \<open>x\<close> of that file.\<close>

definition file_block :: "'z fs_state_scheme \<Rightarrow> nat \<Rightarrow> nat \<Rightarrow> u32" where
  "file_block s ip bn =
     (if bn < NDIRECT then i_addrs (icache s ip) bn
      else load32 (blk s (i_addrs (icache s ip) NDIRECT)) (4 * (bn - NDIRECT)))"

definition file_byte :: "'z fs_state_scheme \<Rightarrow> nat \<Rightarrow> nat \<Rightarrow> u8" where
  "file_byte s ip x = blk s (file_block s ip (x div 512)) (x mod 512)"

text \<open>Blocks 0 to \<open>n - 1\<close> of the file are allocated, and so is the indirect block where it is needed.\<close>

definition mapped :: "'z fs_state_scheme \<Rightarrow> nat \<Rightarrow> nat \<Rightarrow> bool" where
  "mapped s ip n \<longleftrightarrow> n \<le> MAXFILE \<and> i_dev (icache s ip) = 1 \<and>
     (\<forall>bn<n. file_block s ip bn \<noteq> 0 \<and> file_block s ip bn < disksize s) \<and>
     (NDIRECT < n \<longrightarrow> i_addrs (icache s ip) NDIRECT \<noteq> 0 \<and> i_addrs (icache s ip) NDIRECT < disksize s)"

lemma bio_rest_icache:
  fixes s t :: "'z fs_state_scheme"
  shows "bio_rest t = bio_rest s \<Longrightarrow> icache t = icache s \<and> disksize t = disksize s"
  using fs_rest_same(1,5) [OF fs_rest_bio, of t s] by simp

lemma unchanged_file:
  fixes s t :: "'z fs_state_scheme"
  assumes "unchanged me s t"
  shows "file_block t = file_block s" "file_byte t = file_byte s" "mapped t = mapped s" "icache t = icache s"
proof -
  have e: "blk t = blk s" "icache t = icache s" "disksize t = disksize s"
    using assms bio_rest_icache [of t s] by (simp_all add: unchanged_def)
  then show "icache t = icache s" by simp
  show fb: "file_block t = file_block s" by (intro ext) (simp add: file_block_def e)
  show "file_byte t = file_byte s" "mapped t = mapped s" by (intro ext, simp add: file_byte_def mapped_def fb e)+
qed

lemma bmap_mapped:
  assumes r: "can_read me s" and m: "mapped s ip n" and bn: "unat bn < n"
    and P: "\<And>t. unchanged me s t \<Longrightarrow> P (file_block s ip (unat bn)) t"
  shows "wp (bmap ip bn s) P"
proof -
  have b: "file_block s ip (unat bn) \<noteq> 0" using m bn by (simp add: mapped_def)
  show ?thesis
  proof (cases "unat bn < NDIRECT")
    case True
    then have "bn < of_nat NDIRECT" by (simp add: word_less_nat_alt NDIRECT_def)
    with True b P [OF unchanged_refl [OF r]] show ?thesis by (simp add: bmap_def file_block_def)
  next
    case False
    have n: "n \<le> MAXFILE" and ind: "i_addrs (icache s ip) NDIRECT \<noteq> 0" "i_addrs (icache s ip) NDIRECT < disksize s"
        "i_dev (icache s ip) = 1"
      using m bn False by (auto simp: mapped_def)
    have ge: "\<not> bn < of_nat NDIRECT" using False by (simp add: word_less_nat_alt NDIRECT_def)
    then have sub: "unat (bn - of_nat NDIRECT) = unat bn - NDIRECT"
      by (simp add: NDIRECT_def unat_sub not_less)
    then have lt: "bn - of_nat NDIRECT < of_nat NINDIRECT"
      using n bn by (simp add: word_less_nat_alt NINDIRECT_def MAXFILE_def)
    have addr: "load32 (blk s (i_addrs (icache s ip) NDIRECT)) (4 * unat (bn - of_nat NDIRECT)) = file_block s ip (unat bn)"
      using sub False by (simp add: file_block_def)
    show ?thesis
      unfolding bmap_def Let_def using ge lt ind
      by (simp, intro peek_block [OF r ind(2)]) (use addr b P in simp)
  qed
qed

text \<open>The bytes \<open>off .. off + n - 1\<close> of a file.\<close>

definition file_bytes :: "'z fs_state_scheme \<Rightarrow> nat \<Rightarrow> nat \<Rightarrow> nat \<Rightarrow> u8 list" where
  "file_bytes s ip off n = map (file_byte s ip) [off..<off + n]"

lemma file_bytes_split: "m \<le> n \<Longrightarrow> file_bytes s ip off n = file_bytes s ip off m @ file_bytes s ip (off + m) (n - m)"
  using upt_add_eq_append [of off "off + m" "n - m"] by (simp add: file_bytes_def)

lemma off_word:
  "unat (off mod of_nat BSIZE :: u32) = unat off mod 512" "unat (off div of_nat BSIZE :: u32) = unat off div 512"
  by (simp_all add: BSIZE_def unat_mod unat_div)

lemma chunk_nat: "chunk off n = min n (512 - unat off mod 512)"
  by (simp only: chunk_def off_word) (simp add: BSIZE_def)

lemma chunk_divmod:
  assumes "j < 512 - off mod 512"
  shows "(off + j) div 512 = off div 512" "(off + j) mod 512 = off mod 512 + (j :: nat)"
proof -
  have "off mod 512 + j < 512" using assms by linarith
  moreover have "off + j = 512 * (off div 512) + (off mod 512 + j)" by simp
  ultimately show "(off + j) div 512 = off div 512" "(off + j) mod 512 = off mod 512 + j"
    by (metis div_mult_self4 div_less add.right_neutral zero_neq_numeral, metis mod_mult_self4 mod_less)
qed

lemma same_block:
  assumes "(x :: nat) div 512 = off div 512"
  shows "x mod 512 - off mod 512 = x - off" "off mod 512 \<le> x mod 512 \<longleftrightarrow> off \<le> x"
    "x mod 512 < off mod 512 + n \<longleftrightarrow> x < off + n"
proof -
  have g: "a - b = y - z \<and> (b \<le> a \<longleftrightarrow> z \<le> y) \<and> (a < b + n \<longleftrightarrow> y < z + n)" if "y = 512 * q + a" "z = 512 * q + b"
    for a b q y z :: nat using that by auto
  from g [of x "off div 512" "x mod 512" off "off mod 512"]
  have "x mod 512 - off mod 512 = x - off \<and> (off mod 512 \<le> x mod 512 \<longleftrightarrow> off \<le> x) \<and>
      (x mod 512 < off mod 512 + n \<longleftrightarrow> x < off + n)"
    by (metis assms mult_div_mod_eq)
  then show "x mod 512 - off mod 512 = x - off" "off mod 512 \<le> x mod 512 \<longleftrightarrow> off \<le> x"
    "x mod 512 < off mod 512 + n \<longleftrightarrow> x < off + n" by blast+
qed

lemma chunk_bytes:
  assumes "m \<le> 512 - off mod 512"
  shows "get_bytes (blk s (file_block s ip (off div 512))) (off mod 512) m = file_bytes s ip off m"
proof (rule nth_equalityI)
  fix j assume "j < length (get_bytes (blk s (file_block s ip (off div 512))) (off mod 512) m)"
  then have j: "j < m" by simp
  with chunk_divmod [of j off] assms show "get_bytes (blk s (file_block s ip (off div 512))) (off mod 512) m ! j = file_bytes s ip off m ! j"
    using j by (simp add: file_bytes_def file_byte_def)
qed (simp add: file_bytes_def)

lemma unat_off_add:
  assumes "unat off + n < 2 ^ 32" and "m \<le> n"
  shows "unat (off + of_nat m :: u32) = unat off + m"
  using assms by (simp add: unat_word_ariths unat_of_nat)

declare readi_loop.simps [simp del] writei_loop.simps [simp del]

lemma readi_loop_wp:
  assumes "can_read me s" and "mapped s ip k" and "unat off + n \<le> 512 * k" and "unat off + n < 2 ^ 32"
  shows "wp (readi_loop ip off n s) (\<lambda>bs t. bs = file_bytes s ip (unat off) n \<and> unchanged me s t)"
  using assms
proof (induction n arbitrary: off s rule: less_induct)
  case (less n)
  show ?case
  proof (cases "n = 0")
    case True
    then show ?thesis using less.prems(1) by (simp add: readi_loop.simps file_bytes_def unchanged_refl)
  next
    case False
    let ?m = "chunk off n"
    have m: "0 < ?m" "?m \<le> n" "?m \<le> 512 - unat off mod 512" using False by (simp_all add: chunk_nat)
    have bn: "unat (off div of_nat BSIZE) < k" using less.prems(3) False by (simp add: off_word)
    have rest: "wp (readi_loop ip (off + of_nat ?m) (n - ?m) u)
        (\<lambda>bs t. file_bytes s ip (unat off) ?m @ bs = file_bytes s ip (unat off) n \<and> unchanged me s t)"
      if u: "unchanged me s u" for u
    proof -
      have o': "unat (off + of_nat ?m) = unat off + ?m" using less.prems(4) m(2) by (rule unat_off_add)
      have "wp (readi_loop ip (off + of_nat ?m) (n - ?m) u)
          (\<lambda>bs t. bs = file_bytes u ip (unat (off + of_nat ?m)) (n - ?m) \<and> unchanged me u t)"
        by (rule less.IH) (use m less.prems u unchanged_file [OF u] o' in \<open>auto simp: unchanged_def\<close>)
      then show ?thesis
        using unchanged_file(2) [OF u] file_bytes_split [OF m(2), of s ip "unat off"] unchanged_trans [OF u]
        by (auto elim!: wp_mono simp: o' file_bytes_def)
    qed
    show ?thesis
      unfolding readi_loop.simps [of ip off n] Let_def using False
    proof (simp, intro bmap_mapped [OF less.prems(1,2) bn])
      fix t assume t: "unchanged me s t"
      note f = unchanged_file [OF t]
      have dev: "i_dev (icache t ip) = 1" "file_block s ip (unat off div 512) < disksize t" "can_read me t"
        using t f less.prems(2) bn bio_rest_icache [of t s] by (auto simp: mapped_def unchanged_def off_word)
      show "wp (bread (i_dev (icache t ip)) (file_block s ip (unat (off div of_nat BSIZE))) t)
        (\<lambda>i t'. wp (brelse i t') (\<lambda>_ u. wp (readi_loop ip (off + of_nat ?m) (n - ?m) u)
          (\<lambda>bs u. get_bytes (b_data (bufs t' i)) (unat (off mod of_nat BSIZE)) ?m @ bs = file_bytes s ip (unat off) n \<and>
             unchanged me s u)))"
        unfolding dev(1) off_word
      proof (rule peek_block [OF dev(3,2)])
        fix i t' u assume a: "b_data (bufs t' i) = blk t (file_block s ip (unat off div 512))" "brelse i t' = Ret () u"
          "unchanged me t u"
        have "get_bytes (b_data (bufs t' i)) (unat off mod 512) ?m = file_bytes s ip (unat off) ?m"
          using a(1) t chunk_bytes [OF m(3)] by (simp add: unchanged_def)
        then show "wp (brelse i t') (\<lambda>_ u. wp (readi_loop ip (off + of_nat ?m) (n - ?m) u)
          (\<lambda>bs u. get_bytes (b_data (bufs t' i)) (unat off mod 512) ?m @ bs = file_bytes s ip (unat off) n \<and>
             unchanged me s u))"
          using a(2) rest [OF unchanged_trans [OF t a(3)]] by simp
      qed
    qed
  qed
qed

text \<open>The size is that of the inode, the allocated blocks cover it.\<close>

definition file_ok :: "'z fs_state_scheme \<Rightarrow> nat \<Rightarrow> bool" where
  "file_ok s ip \<longleftrightarrow> i_type (icache s ip) \<noteq> T_DEV \<and> unat (i_size (icache s ip)) \<le> 512 * MAXFILE \<and>
     mapped s ip ((unat (i_size (icache s ip)) + 511) div 512)"

lemma sint_small_u32:
  assumes "unat (w :: u32) < 2 ^ 31"
  shows "sint w = int (unat w)"
proof -
  have "int (unat w) < 2 ^ 31" using assms by (simp only: of_nat_less_numeral_power_cancel_iff)
  moreover have "- (2 ^ 31) \<le> uint w" by (rule order_trans [of _ 0]) simp_all
  ultimately have "signed_take_bit 31 (uint w) = uint w" by (intro signed_take_bit_int_eq_self) simp_all
  then have "sint w = uint w" by (simp add: sint_uint)
  then show ?thesis by simp
qed

lemma add_wraps: "(off :: u32) + n < off \<longleftrightarrow> 2 ^ 32 \<le> unat off + unat n"
proof (cases "unat off + unat n < 2 ^ 32")
  case True
  then have "unat (off + n) = unat off + unat n" by (simp add: unat_word_ariths)
  with True show ?thesis by (simp only: word_less_nat_alt) linarith
next
  case False
  have lt: "unat off < 2 ^ 32" "unat n < 2 ^ 32" using unsigned_less [of off] unsigned_less [of n] by simp_all
  have "unat (off + n) = (unat off + unat n) mod 2 ^ 32" by (simp add: unat_word_ariths)
  also have "\<dots> = unat off + unat n - 2 ^ 32" using False lt by (intro mod_nat_eqI) auto
  finally show ?thesis using False lt by (simp only: word_less_nat_alt) linarith
qed

lemma readi_spec:
  assumes "can_read me s" and "file_ok s ip"
  shows "if off > i_size (icache s ip) \<or> unat off + unat n \<ge> 2 ^ 32 then readi ip off n s = Ret (-1, []) s
    else \<exists>t. readi ip off n s =
        Ret (int (min (unat n) (unat (i_size (icache s ip)) - unat off)),
             file_bytes s ip (unat off) (min (unat n) (unat (i_size (icache s ip)) - unat off))) t \<and>
      unchanged me s t"
proof -
  let ?sz = "i_size (icache s ip)"
  have ty: "i_type (icache s ip) \<noteq> T_DEV" and sz: "unat ?sz \<le> 69120" using assms(2) by (simp_all add: file_ok_def MAXFILE_def NDIRECT_def NINDIRECT_def)
  note wrap = add_wraps [of off n]
  show ?thesis
  proof (cases "off > ?sz \<or> unat off + unat n \<ge> 2 ^ 32")
    case True
    then show ?thesis using ty wrap by (auto simp: readi_def Let_def)
  next
    case False
    define m where "m = (if off + n > ?sz then ?sz - off else n)"
    have add: "unat (off + n) = unat off + unat n" using False by (simp add: unat_word_ariths)
    have m: "unat m = min (unat n) (unat ?sz - unat off)"
      using False add by (auto simp: m_def word_less_nat_alt unat_sub word_le_nat_alt)
    have "wp (readi_loop ip off (unat m) s) (\<lambda>bs t. bs = file_bytes s ip (unat off) (unat m) \<and> unchanged me s t)"
      by (rule readi_loop_wp [OF assms(1), of ip "(unat ?sz + 511) div 512"])
         (use assms(2) False m sz in \<open>auto simp: file_ok_def word_less_nat_alt\<close>)
    then obtain t where "readi_loop ip off (unat m) s = Ret (file_bytes s ip (unat off) (unat m)) t" "unchanged me s t"
      by (auto simp: wp_Ret_ex)
    moreover have "sint m = int (unat m)" by (rule sint_small_u32) (use m sz in simp)
    ultimately show ?thesis
      using False wrap ty m by (simp add: readi_def Let_def flip: m_def)
  qed
qed

text \<open>C9: \<open>readi\<close> of a file returns the bytes of the file between the offset and the end of the range, cut at the size of the
  file, whether they lie in direct or indirect blocks, and changes neither cache contents nor disk; an offset beyond the size
  or a range that wraps around at 2^32 is refused with -1.\<close>

theorem readi_reads_file:
  assumes "can_read me s" and "file_ok s ip"
  shows "if off > i_size (icache s ip) \<or> unat off + unat n \<ge> 2 ^ 32 then readi ip off n s = Ret (-1, []) s
    else \<exists>t. readi ip off n s =
        Ret (int (min (unat n) (unat (i_size (icache s ip)) - unat off)),
             file_bytes s ip (unat off) (min (unat n) (unat (i_size (icache s ip)) - unat off))) t \<and>
      unchanged me s t"
  using readi_spec [OF assms] .

section \<open>Writing into a file\<close>

text \<open>No disk block serves twice in the file.\<close>

definition file_inj :: "'z fs_state_scheme \<Rightarrow> nat \<Rightarrow> nat \<Rightarrow> bool" where
  "file_inj s ip k \<longleftrightarrow> inj_on (file_block s ip) {..<k} \<and>
     (NDIRECT < k \<longrightarrow> i_addrs (icache s ip) NDIRECT \<notin> file_block s ip ` {..<k})"

text \<open>The number of blocks that \<open>n\<close> bytes from offset \<open>off\<close> touch.\<close>

definition spanned :: "nat \<Rightarrow> nat \<Rightarrow> nat" where
  "spanned off n = (if n = 0 then 0 else (off mod 512 + n + 511) div 512)"

lemma spanned_0: "spanned off 0 = 0"
  by (simp add: spanned_def)

lemma spanned_step:
  assumes "0 < n"
  shows "Suc (spanned (off + min n (512 - off mod 512)) (n - min n (512 - off mod 512))) = spanned off n"
proof (cases "n \<le> 512 - off mod 512")
  case True
  moreover have "off mod 512 < 512" by simp
  ultimately have "512 \<le> off mod 512 + n + 511" "off mod 512 + n + 511 < 1024" using assms by linarith+
  then have "(off mod 512 + n + 511) div 512 = 1" by simp
  with True assms show ?thesis by (simp add: spanned_def)
next
  case False
  have lt: "off mod 512 < 512" by simp
  have "a + (512 - r) = 512 * (q + 1)" if "a = 512 * q + r" "r < 512" for a q r :: nat using that by simp
  from this [of off "off div 512" "off mod 512"] have "off + (512 - off mod 512) = 512 * (off div 512 + 1)" by simp
  then have zero: "(off + (512 - off mod 512)) mod 512 = 0" by (metis mod_mult_self1_is_0)
  have "off mod 512 + n + 511 = (n - (512 - off mod 512) + 511) + 512" using False lt by linarith
  then have "(off mod 512 + n + 511) div 512 = Suc ((n - (512 - off mod 512) + 511) div 512)" by simp
  moreover have "min n (512 - off mod 512) = 512 - off mod 512" "n - (512 - off mod 512) \<noteq> 0" "n \<noteq> 0"
    using False assms by simp_all
  ultimately show ?thesis using zero by (simp only: spanned_def if_False add_0)
qed

text \<open>The bytes \<open>src\<close> have replaced those from offset \<open>off\<close> on; the operation logged at most one block per block touched.\<close>

definition overwritten :: "nat \<Rightarrow> nat \<Rightarrow> nat \<Rightarrow> nat \<Rightarrow> u8 list \<Rightarrow> 'z fs_state_scheme \<Rightarrow> 'z fs_state_scheme \<Rightarrow> bool" where
  "overwritten me ip k off src s t \<longleftrightarrow> in_op me {} t \<and> fs_rest t = fs_rest s \<and> disk t = disk s \<and>
     lh_n t \<le> lh_n s + int (spanned off (length src)) \<and>
     set (logged t) = set (logged s) \<union> (\<lambda>x. file_block s ip (x div 512)) ` {off..<off + length src} \<and>
     (\<forall>b. b \<notin> file_block s ip ` {..<k} \<longrightarrow> blk t b = blk s b) \<and>
     (\<forall>x<512 * k. file_byte t ip x = (if off \<le> x \<and> x < off + length src then src ! (x - off) else file_byte s ip x))"

lemma same_blocks:
  fixes s t :: "'z fs_state_scheme"
  assumes "fs_rest t = fs_rest s" and "file_inj s ip k" and "\<And>b. b \<notin> file_block s ip ` {..<k} \<Longrightarrow> blk t b = blk s b" and "j < k"
  shows "file_block t ip j = file_block s ip j"
  using assms fs_rest_same(1) [OF assms(1)] by (auto simp: file_block_def file_inj_def)

lemma overwritten_file:
  fixes s t :: "'z fs_state_scheme"
  assumes "overwritten me ip k off src s t" and "file_inj s ip k" and "mapped s ip k"
  shows "mapped t ip k" "file_inj t ip k" "file_block t ip ` {..<k} = file_block s ip ` {..<k}"
proof -
  have r: "icache t = icache s" "disksize t = disksize s"
    using assms(1) by (auto simp: overwritten_def dest: fs_rest_same)
  have b: "file_block t ip j = file_block s ip j" if "j < k" for j
    using assms(1) that by (intro same_blocks [OF _ assms(2)]) (auto simp: overwritten_def)
  then show im: "file_block t ip ` {..<k} = file_block s ip ` {..<k}" by simp
  show "mapped t ip k" using assms(3) b r by (simp add: mapped_def)
  show "file_inj t ip k" using assms(2) r(1) b im by (simp add: file_inj_def inj_on_def)
qed

lemma overwritten_trans:
  fixes s t u :: "'z fs_state_scheme"
  assumes a: "overwritten me ip k off (take m src) s t" and b: "overwritten me ip k (off + m) (drop m src) t u"
    and f: "file_inj s ip k" "mapped s ip k" and m: "m \<le> length src" and le: "off + length src \<le> 512 * k"
    and sp: "spanned off m + spanned (off + m) (length src - m) = spanned off (length src)"
  shows "overwritten me ip k off src s u"
proof -
  note im = overwritten_file(3) [OF a f]
  have "file_byte u ip x = (if off \<le> x \<and> x < off + length src then src ! (x - off) else file_byte s ip x)" if "x < 512 * k" for x
    using a b that m by (auto simp: overwritten_def min_def)
  moreover have "length (take m src) = m" using m by simp
  moreover have "int (spanned off m) + int (spanned (off + m) (length src - m)) = int (spanned off (length src))"
    using sp by linarith
  moreover have "set (logged u) = set (logged s) \<union> (\<lambda>x. file_block s ip (x div 512)) ` {off..<off + length src}"
  proof -
    have "file_block t ip (x div 512) = file_block s ip (x div 512)" if "x < off + length src" for x
      using a that le by (intro same_blocks [OF _ f(1)]) (auto simp: overwritten_def)
    then have "(\<lambda>x. file_block t ip (x div 512)) ` {off + m..<off + length src} =
        (\<lambda>x. file_block s ip (x div 512)) ` {off + m..<off + length src}" by (intro image_cong) auto
    moreover have "{off..<off + length src} = {off..<off + m} \<union> {off + m..<off + length src}" using m by auto
    ultimately show ?thesis using a b m by (simp add: overwritten_def image_Un Un_assoc)
  qed
  ultimately show ?thesis using a b im by (simp add: overwritten_def)
qed

lemma overwritten_chunk:
  fixes s t :: "'z fs_state_scheme"
  assumes w: "modified me (file_block s ip (off div 512)) (put_bytes (blk s (file_block s ip (off div 512))) (off mod 512) bs) s t"
    and f: "file_inj s ip k" and k: "off div 512 < k" and n: "bs \<noteq> []" "length bs \<le> 512 - off mod 512"
  shows "overwritten me ip k off bs s t"
proof -
  let ?b = "file_block s ip (off div 512)"
  from w have t: "in_op me {} t" "blk t = (blk s)(?b := put_bytes (blk s ?b) (off mod 512) bs)" "disk t = disk s"
      "fs_rest t = fs_rest s" "lh_n t \<le> lh_n s + 1" by (simp_all add: modified_def)
  have out: "blk t b = blk s b" if "b \<notin> file_block s ip ` {..<k}" for b
    using that k by (auto simp only: t(2) fun_upd_apply split: if_splits)
  have fb: "file_block t ip j = file_block s ip j" if "j < k" for j using same_blocks [OF t(4) f out that] .
  have "file_byte t ip x = (if off \<le> x \<and> x < off + length bs then bs ! (x - off) else file_byte s ip x)"
    if x: "x < 512 * k" for x
  proof (cases "x div 512 = off div 512")
    case True
    have "file_byte t ip x = put_bytes (blk s ?b) (off mod 512) bs (x mod 512)"
      using True fb [of "x div 512"] k t(2) by (simp add: file_byte_def)
    then show ?thesis using True by (simp only: put_bytes_def file_byte_def same_block [OF True])
  next
    case False
    have xk: "x div 512 < k" using x by simp
    then have "file_block s ip (x div 512) \<noteq> ?b" using f k False by (auto simp: file_inj_def inj_on_def)
    then have "file_byte t ip x = file_byte s ip x" using fb [OF xk] t(2) by (simp add: file_byte_def)
    moreover have "\<not> (off \<le> x \<and> x < off + length bs)"
    proof
      assume a: "off \<le> x \<and> x < off + length bs"
      then have "x - off < 512 - off mod 512" using n(2) by linarith
      from chunk_divmod(1) [OF this] a False show False by simp
    qed
    ultimately show ?thesis by (simp only: if_False)
  qed
  moreover have "spanned off (length bs) = 1"
    using spanned_step [of "length bs" off] n by (simp add: min_absorb1 spanned_0)
  moreover have "\<forall>b. b \<notin> file_block s ip ` {..<k} \<longrightarrow> blk t b = blk s b" using out by blast
  moreover have "set (logged t) = set (logged s) \<union> (\<lambda>x. file_block s ip (x div 512)) ` {off..<off + length bs}"
  proof -
    have "x div 512 = off div 512" if "off \<le> x" "x < off + length bs" for x
      using chunk_divmod(1) [of "x - off" off] that n(2) by simp
    then have "(\<lambda>x. file_block s ip (x div 512)) ` {off..<off + length bs} = (\<lambda>_. ?b) ` {off..<off + length bs}"
      by (intro image_cong) auto
    also have "\<dots> = {?b}" using n(1) by (simp add: image_constant_conv)
    finally have "(\<lambda>x. file_block s ip (x div 512)) ` {off..<off + length bs} = {?b}" .
    with w show ?thesis by (simp add: modified_def)
  qed
  ultimately show ?thesis unfolding overwritten_def using t(1,3-5) by simp
qed

lemma in_op_unchanged:
  assumes "in_op me {} s" and "unchanged me s t"
  shows "in_op me {} t"
proof -
  have r: "bio_rest t = bio_rest s" "dirty_blks t = dirty_blks s" "bio_ok me {} t"
    using assms(2) by (simp_all add: unchanged_def can_read_def)
  show ?thesis using assms(1) logged_rest [OF r(1)] bio_rest_log [OF r(1)] r by (simp add: in_op_def)
qed

lemma in_op_can_read: "in_op me {} s \<Longrightarrow> lh_n s < 30 \<Longrightarrow> can_read me s"
  using in_op_card [of me "{}" s] by (simp add: can_read_def in_op_def NBUF_def)

lemma overwritten_nil: "in_op me {} s \<Longrightarrow> overwritten me ip k off [] s s"
  by (auto simp: overwritten_def spanned_0)

text \<open>One iteration of \<open>writei\<close>, up to the recursive call.\<close>

lemma writei_chunk_wp:
  assumes op: "in_op me {} s" and m: "mapped s ip k" and bn: "unat off div 512 < k" and n: "lh_n s < 29"
    and P: "\<And>u. modified me (file_block s ip (unat off div 512))
        (put_bytes (blk s (file_block s ip (unat off div 512))) (unat off mod 512) bs) s u \<Longrightarrow> P () u"
  shows "wp (bmap ip (off div of_nat BSIZE) s) (\<lambda>b t. wp (bread (i_dev (icache t ip)) b t) (\<lambda>i t.
    wp (log_write i (set_data i (put_bytes (b_data (bufs t i)) (unat (off mod of_nat BSIZE)) bs) t)) (\<lambda>_ t.
    wp (brelse i t) P)))"
proof (rule bmap_mapped [OF _ m])
  show "can_read me s" using in_op_can_read [OF op] n by simp
  show "unat (off div of_nat BSIZE) < k" using bn by (simp only: off_word)
  fix t assume t: "unchanged me s t"
  let ?b = "file_block s ip (unat off div 512)"
  have tr: "bio_rest t = bio_rest s" "blk t = blk s" "disk t = disk s" "writes t = writes s"
    using t by (simp_all add: unchanged_def)
  have dev: "i_dev (icache t ip) = 1" "?b < disksize t" "lh_n t = lh_n s"
    using unchanged_file(4) [OF t] m bn bio_rest_icache [OF tr(1)] bio_rest_log [OF tr(1)] by (auto simp: mapped_def)
  have "modified me b d s u" if "modified me b d t u" for b d u
    using that tr fs_rest_bio [OF tr(1)] logged_rest [OF tr(1)] dev(3) by (simp add: modified_def)
  then show "wp (bread (i_dev (icache t ip)) (file_block s ip (unat (off div of_nat BSIZE))) t) (\<lambda>i t.
      wp (log_write i (set_data i (put_bytes (b_data (bufs t i)) (unat (off mod of_nat BSIZE)) bs) t)) (\<lambda>_ t.
      wp (brelse i t) P))"
    unfolding dev(1) off_word
    using modify_block [OF in_op_unchanged [OF op t] _ dev(2), where P = P and
      F = "\<lambda>d. put_bytes d (unat off mod 512) bs" and
      G = "\<lambda>i t. put_bytes (b_data (bufs t i)) (unat off mod 512) bs"] n dev(3) P tr(2)
    by simp
qed

lemma writei_loop_wp:
  assumes "in_op me {} s" and "mapped s ip k" and "file_inj s ip k" and "unat off + length src \<le> 512 * k"
    and "lh_n s + int (spanned (unat off) (length src)) \<le> 29"
  shows "wp (writei_loop ip off src s) (\<lambda>r t. r = off + of_nat (length src) \<and> overwritten me ip k (unat off) src s t)"
  using assms
proof (induction "length src" arbitrary: off src s rule: less_induct)
  case less
  show ?case
  proof (cases "src = []")
    case True
    then show ?thesis using less.prems(1) by (simp add: writei_loop.simps overwritten_nil)
  next
    case False
    let ?m = "chunk off (length src)"
    have m: "0 < ?m" "?m \<le> length src" "?m \<le> 512 - unat off mod 512" using False by (simp_all add: chunk_nat)
    have "k \<le> MAXFILE" using less.prems(2) by (simp add: mapped_def)
    then have "unat off + length src < 2 ^ 32" using less.prems(4) by (simp add: MAXFILE_def NDIRECT_def NINDIRECT_def)
    then have o': "unat (off + of_nat ?m) = unat off + ?m" using m(2) by (rule unat_off_add)
    have "unat off < k * 512" using less.prems(4) False by (cases src) auto
    then have bn: "unat off div 512 < k" by (rule less_mult_imp_div_less)
    have sp: "Suc (spanned (unat off + ?m) (length src - ?m)) = spanned (unat off) (length src)" "spanned (unat off) ?m = 1"
      using spanned_step [of "length src" "unat off"] spanned_step [of ?m "unat off"] m
      by (simp_all add: chunk_nat min_absorb1 spanned_0)
    have "wp (writei_loop ip (off + of_nat ?m) (drop ?m src) u)
        (\<lambda>r t. r = off + of_nat (length src) \<and> overwritten me ip k (unat off) src s t)"
      if w: "modified me (file_block s ip (unat off div 512))
        (put_bytes (blk s (file_block s ip (unat off div 512))) (unat off mod 512) (take ?m src)) s u" for u
    proof -
      have a: "overwritten me ip k (unat off) (take ?m src) s u"
        using overwritten_chunk [OF w less.prems(3) bn] m False by simp
      have "lh_n u \<le> lh_n s + 1" "in_op me {} u" using w by (simp_all add: modified_def)
      then have "wp (writei_loop ip (off + of_nat ?m) (drop ?m src) u)
          (\<lambda>r t. r = off + of_nat ?m + of_nat (length (drop ?m src)) \<and>
             overwritten me ip k (unat (off + of_nat ?m)) (drop ?m src) u t)"
        using overwritten_file [OF a less.prems(3,2)] less.prems(4,5) m o' sp by (intro less.hyps) auto
      then show ?thesis
        using overwritten_trans [OF a _ less.prems(3,2) m(2) less.prems(4)] sp m(2)
        by (auto elim!: wp_mono simp: o' of_nat_diff)
    qed
    from writei_chunk_wp [OF less.prems(1,2) bn _ this] show ?thesis
      unfolding writei_loop.simps [of ip off src] Let_def using False less.prems(5) sp by simp
  qed
qed

lemma writei_within:
  assumes "in_op me {} s" and "file_ok s ip" and "file_inj s ip ((unat (i_size (icache s ip)) + 511) div 512)"
    and "unat off + length src \<le> unat (i_size (icache s ip))"
    and "lh_n s + int (spanned (unat off) (length src)) \<le> 29"
  shows "\<exists>t. writei ip src off (of_nat (length src)) s = Ret (int (length src)) t \<and>
    overwritten me ip ((unat (i_size (icache s ip)) + 511) div 512) (unat off) src s t"
proof -
  let ?sz = "unat (i_size (icache s ip))"
  let ?n = "of_nat (length src) :: u32"
  have sz: "?sz \<le> 69120" and m: "mapped s ip ((?sz + 511) div 512)" and ty: "i_type (icache s ip) \<noteq> T_DEV"
    using assms(2) by (simp_all add: file_ok_def MAXFILE_def NDIRECT_def NINDIRECT_def)
  have n: "unat ?n = length src" by (rule unat_u32) (use assms(4) sz in simp)
  have le: "unat off + length src \<le> 512 * ((?sz + 511) div 512)" using assms(4) by linarith
  from writei_loop_wp [OF assms(1) m assms(3) le assms(5)] obtain t
    where t: "writei_loop ip off src s = Ret (off + ?n) t" "overwritten me ip ((?sz + 511) div 512) (unat off) src s t"
    by (auto simp: wp_Ret_ex)
  have ic: "icache t = icache s" using t(2) by (auto simp: overwritten_def dest: fs_rest_same)
  have add: "unat (off + ?n) = unat off + length src" using assms(4) sz n by (simp add: unat_word_ariths)
  have "\<not> off > i_size (icache s ip)" "\<not> off + ?n < off" "\<not> off + ?n > of_nat (MAXFILE * BSIZE)"
      "\<not> off + ?n > i_size (icache s ip)" "sint ?n = int (length src)"
    using assms(4) sz add sint_small_u32 [of ?n] n
    by (simp_all add: word_less_nat_alt MAXFILE_def NDIRECT_def NINDIRECT_def BSIZE_def)
  then have "writei ip src off ?n s = Ret (int (length src)) t"
    using t(1) n ty ic by (simp add: writei_def Let_def del: unat_of_nat)
  with t(2) show ?thesis by blast
qed

text \<open>C2: a write followed by a read gives back what was written. Inside an operation with room in the log for the blocks
  the range touches, \<open>writei\<close> within the file replaces exactly the bytes of the range, leaves the blocks of every other file
  and the disk alone, and \<open>readi\<close> of the range then returns the bytes written.\<close>

theorem writei_readi_roundtrip:
  assumes "in_op me {} s" and "file_ok s ip" and "file_inj s ip ((unat (i_size (icache s ip)) + 511) div 512)"
    and "unat off + length src \<le> unat (i_size (icache s ip))"
    and "lh_n s + int (spanned (unat off) (length src)) \<le> 29"
  shows "\<exists>t u. writei ip src off (of_nat (length src)) s = Ret (int (length src)) t \<and> disk t = disk s \<and>
    (\<forall>b. b \<notin> file_block s ip ` {..<(unat (i_size (icache s ip)) + 511) div 512} \<longrightarrow> blk t b = blk s b) \<and>
    (\<forall>x<unat (i_size (icache s ip)). \<not> (unat off \<le> x \<and> x < unat off + length src) \<longrightarrow> file_byte t ip x = file_byte s ip x) \<and>
    readi ip off (of_nat (length src)) t = Ret (int (length src), src) u"
proof -
  let ?sz = "unat (i_size (icache s ip))"
  let ?k = "(?sz + 511) div 512"
  let ?n = "of_nat (length src) :: u32"
  from writei_within [OF assms] obtain t
    where t: "writei ip src off ?n s = Ret (int (length src)) t" "overwritten me ip ?k (unat off) src s t" by blast
  have sz: "?sz \<le> 69120" and m: "mapped s ip ?k"
    using assms(2) by (simp_all add: file_ok_def MAXFILE_def NDIRECT_def NINDIRECT_def)
  have n: "unat ?n = length src" by (rule unat_u32) (use assms(4) sz in simp)
  have le: "unat off + length src \<le> 512 * ?k" using assms(4) by linarith
  have ic: "icache t = icache s" using t(2) by (auto simp: overwritten_def dest: fs_rest_same)
  have ok: "file_ok t ip" using overwritten_file(1) [OF t(2) assms(3) m] assms(2) ic by (simp add: file_ok_def)
  have cr: "can_read me t" using t(2) assms(5) by (intro in_op_can_read) (auto simp: overwritten_def)
  have "file_bytes t ip (unat off) (length src) = src"
    using t(2) le by (intro nth_equalityI) (simp_all add: file_bytes_def overwritten_def)
  moreover have "\<not> off > i_size (icache t ip) \<and> \<not> 2 ^ 32 \<le> unat off + unat ?n"
    using ic n assms(4) sz by (simp add: word_less_nat_alt del: unat_of_nat)
  moreover have "min (unat ?n) (?sz - unat off) = length src"
    unfolding n by (rule min_absorb1) (use assms(4) in linarith)
  ultimately obtain u where "readi ip off ?n t = Ret (int (length src), src) u"
    using readi_spec [OF cr ok, of off ?n] ic by (auto simp del: unat_of_nat)
  then show ?thesis using t by (intro exI [of _ t] exI [of _ u]) (auto simp: overwritten_def)
qed

section \<open>A concrete file system\<close>

text \<open>
  A disk of 1000 blocks with the layout of \<open>mkfs\<close>: the bitmap in block 58 marks blocks 0 to 101 in use. Cache entry 0 holds
  inode 5, a file of 600 bytes in blocks 100 and 101, and a process is inside an operation.
\<close>

definition demo_disk :: "u32 \<Rightarrow> buffer" where
  "demo_disk b i = (if b = 58 then if i < 12 then 255 else if i = 12 then 63 else 0 else 0)"

definition fs_demo :: file_state where
  "fs_demo = pipe_demo\<lparr>log_outstanding := 1, disk := demo_disk,
     icache := (\<lambda>_. demo_inode)(0 := demo_inode\<lparr>i_dev := 1, i_inum := 5, i_ref := 1, i_valid := True, i_type := T_FILE,
       i_nlink := 1, i_size := 600, i_addrs := (\<lambda>_. 0)(0 := 100, 1 := 101), i_userid := str ''root'', i_mode := 6\<rparr>)\<rparr>"

lemma fs_demo_sel:
  "bufs fs_demo = (\<lambda>_. empty_buf)" "disk fs_demo = demo_disk" "disksize fs_demo = 1000" "lh_n fs_demo = 0"
  "sb_bmapstart (sb fs_demo) = 58" "sb_size (sb fs_demo) = 1000" "sb_inodestart (sb fs_demo) = 32"
  "sleeplks fs_demo = (\<lambda>_. sl_free)" "icache fs_demo 0 = demo_inode\<lparr>i_dev := 1, i_inum := 5, i_ref := 1, i_valid := True,
     i_type := T_FILE, i_nlink := 1, i_size := 600, i_addrs := (\<lambda>_. 0)(0 := 100, 1 := 101), i_userid := str ''root'', i_mode := 6\<rparr>"
  "logged fs_demo = []" "lru fs_demo = [0..<30]" "log_size fs_demo = 30" "log_outstanding fs_demo = 1"
  by (simp_all add: fs_demo_def pipe_demo_def logged_def)

lemma fs_demo_blk: "blk fs_demo = demo_disk"
  by (rule ext, rule trans [OF blk_uncached]) (simp_all add: cached_def fs_demo_sel empty_buf_def)

lemma fs_demo_op: "in_op 1 {} fs_demo"
proof -
  have "in_proc fs_demo 1" using pipe_demo_in by (simp add: fs_demo_def in_proc_def)
  moreover have "slot_ok 1 {} fs_demo i" for i by (simp add: slot_ok_def fs_demo_sel empty_buf_def)
  moreover have "one_copy fs_demo" "distinct (lru fs_demo)" "set (lru fs_demo) = {..<NBUF}"
    by (auto simp: one_copy_def fs_demo_sel empty_buf_def NBUF_def)
  ultimately have "bio_ok 1 {} fs_demo" by (simp add: bio_ok_def)
  moreover have "dirty_blks fs_demo = {}" by (simp add: dirty_blks_def fs_demo_sel empty_buf_def)
  ultimately show ?thesis by (simp add: in_op_def fs_demo_sel)
qed

lemma fs_demo_layout: "fs_layout fs_demo"
proof -
  have k: "k < bm_blocks fs_demo \<longleftrightarrow> k = 0" for k by (simp add: bm_blocks_def fs_blocks_def fs_demo_sel)
  have "used_at fs_demo 58"
    by (simp add: used_at_def bm_block_def fs_demo_sel fs_demo_blk bm_used_bit demo_disk_def) 
  then show ?thesis by (simp add: fs_layout_def k fs_blocks_def fs_demo_sel bm_block_def)
qed

lemma fs_demo_file: "file_ok fs_demo 0" "file_inj fs_demo 0 2"
proof -
  have b: "file_block fs_demo 0 0 = 100" "file_block fs_demo 0 (Suc 0) = 101"
    by (simp_all add: file_block_def fs_demo_sel NDIRECT_def)
  have two: "bn < 2 \<longleftrightarrow> bn = 0 \<or> bn = Suc 0" for bn by auto
  show "file_inj fs_demo 0 2" by (auto simp: file_inj_def inj_on_def two b NDIRECT_def)
  show "file_ok fs_demo 0"
    by (auto simp: file_ok_def mapped_def fs_demo_sel MAXFILE_def NDIRECT_def NINDIRECT_def two b T_FILE_def T_DEV_def)
qed

theorem iupdate_ilock_roundtrip_witness:
  "\<exists>t u. iupdate 0 fs_demo = Ret () t \<and>
     ilock (Some 0) (upd_inode 0 (\<lambda>p. demo_inode\<lparr>i_ref := 1, i_dev := i_dev p, i_inum := i_inum p, i_valid := False\<rparr>) t) =
       Ret () u \<and> i_size (icache u 0) = 600 \<and> i_userid (icache u 0) = str ''root''"
proof -
  have "wf_cstr (i_userid (icache fs_demo 0))" by (simp add: fs_demo_sel wf_cstr_def str_simps)
  from iupdate_ilock_roundtrip [OF fs_demo_op _ _ _ _ _ this]
  obtain t where t: "iupdate 0 fs_demo = Ret () t"
    and q: "\<forall>q. 1 \<le> i_ref q \<longrightarrow>
      (\<exists>u. ilock (Some 0) (upd_inode 0 (\<lambda>p. q\<lparr>i_dev := i_dev p, i_inum := i_inum p, i_valid := False\<rparr>) t) = Ret () u \<and>
        icache u 0 = (icache fs_demo 0)\<lparr>i_ref := i_ref q,
          i_addrs := (\<lambda>k. if k < NDIRECT + 1 then i_addrs (icache fs_demo 0) k else i_addrs q k), i_valid := True\<rparr>)"
    by (auto simp: fs_demo_sel IBLOCK_def IPB_def T_FILE_def)
  from q [rule_format, of "demo_inode\<lparr>i_ref := 1\<rparr>"] t show ?thesis by (auto simp: fs_demo_sel)
qed

theorem balloc_first_free_witness:
  "\<exists>x t. balloc 1 fs_demo = Ret (of_nat x) t \<and> x < 1000 \<and> \<not> used_at fs_demo x \<and> used_at t x"
proof -
  have "\<not> used_at fs_demo 500"
    by (simp add: used_at_def bm_block_def fs_demo_sel fs_demo_blk bm_used_bit demo_disk_def)
  then have "\<exists>x<fs_blocks fs_demo. \<not> used_at fs_demo x" by (intro exI [of _ 500]) (simp add: fs_blocks_def fs_demo_sel)
  with balloc_first_free [OF fs_demo_op _ fs_demo_layout] show ?thesis by (auto simp: fs_demo_sel fs_blocks_def)
qed

theorem readi_reads_file_witness:
  "\<exists>t. readi 0 590 100 fs_demo = Ret (10, file_bytes fs_demo 0 590 10) t"
  using readi_reads_file [OF in_op_can_read [OF fs_demo_op] fs_demo_file(1), of 590 100]
  by (auto simp: fs_demo_sel)

theorem writei_readi_roundtrip_witness:
  "\<exists>t u. writei 0 [1, 2, 3] 511 3 fs_demo = Ret 3 t \<and> readi 0 511 3 t = Ret (3, [1, 2, 3]) u"
  using writei_readi_roundtrip [OF fs_demo_op fs_demo_file(1), of 511 "[1, 2, 3]"] fs_demo_file(2)
  by (auto simp: fs_demo_sel spanned_def)

end
