(* ===== verification/Accounts.thy ===== *)
theory Accounts
  imports Users FsOps
begin

text \<open>
  Removing an account, from the system call down to the disk: \<open>userdel\<close> clears a row of the account table, writes the table
  to the shadow file through the inode layer, the buffer cache and the log, and commits. The lemmas here are the steps of such
  an operation on a kernel with no other file-system activity.
\<close>

section \<open>An operation from begin to end\<close>

text \<open>Everything but the cache, the disk, the log and the sleep locks.\<close>

definition op_rest :: "'z log_state_scheme \<Rightarrow> 'z log_state_scheme" where
  "op_rest s = (fs_rest s)\<lparr>log_outstanding := 0, log_committing := False, sleeplks := (\<lambda>_. sl_free)\<rparr>"

lemma op_rest_fs: "fs_rest t = fs_rest s \<Longrightarrow> op_rest t = op_rest s"
  by (simp add: op_rest_def)

lemma op_rest_upds [simp]:
  "op_rest (s\<lparr>log_outstanding := n\<rparr>) = op_rest s" "op_rest (s\<lparr>log_committing := b\<rparr>) = op_rest s"
  "op_rest (s\<lparr>sleeplks := m\<rparr>) = op_rest s" "op_rest (wakeup1 ch s) = op_rest s"
proof -
  show "op_rest (wakeup1 ch s) = op_rest s" by (simp add: op_rest_def fs_rest_def)
qed (simp_all add: op_rest_def fs_rest_def bio_rest_def no_locks_def)

lemma op_rest_same:
  fixes s t :: "'z user_state_scheme"
  assumes "op_rest t = op_rest s"
  shows "icache t = icache s" "utable t = utable s" "utable_ptr t = utable_ptr s" "log_start t = log_start s"
    "log_dev t = log_dev s" "log_size t = log_size s" "disksize t = disksize s" "p_pid (ptable t i) = p_pid (ptable s i)"
  using arg_cong [OF assms, of icache] arg_cong [OF assms, of utable] arg_cong [OF assms, of utable_ptr]
    arg_cong [OF assms, of log_start] arg_cong [OF assms, of log_dev] arg_cong [OF assms, of log_size]
    arg_cong [OF assms, of disksize] arg_cong [OF assms, of "\<lambda>s. p_pid (ptable s i)"]
  by (simp_all add: op_rest_def fs_rest_def bio_rest_def no_locks_def)

text \<open>No operation is running: nothing is logged, dirty or locked.\<close>

definition fs_idle :: "nat \<Rightarrow> 'z log_state_scheme \<Rightarrow> bool" where
  "fs_idle me s \<longleftrightarrow> bio_ok me {} s \<and> dirty_blks s = {} \<and> lh_n s = 0 \<and> log_outstanding s = 0 \<and> \<not> log_committing s \<and>
     log_size s = 30 \<and> log_dev s = 1 \<and> unat (log_start s) + 30 < unat (disksize s)"

lemma bio_ok_frame [simp]:
  "bio_ok me H (s\<lparr>log_outstanding := n\<rparr>) = bio_ok me H s" "bio_ok me H (s\<lparr>log_committing := b\<rparr>) = bio_ok me H s"
  "blk (s\<lparr>log_outstanding := n\<rparr>) = blk s" "blk (s\<lparr>log_committing := b\<rparr>) = blk s"
  "dirty_blks (s\<lparr>log_outstanding := n\<rparr>) = dirty_blks s" "dirty_blks (s\<lparr>log_committing := b\<rparr>) = dirty_blks s"
  "bio_ok me H (wakeup1 ch s) = bio_ok me H s" "blk (wakeup1 ch s) = blk s" "dirty_blks (wakeup1 ch s) = dirty_blks s"
  by (simp_all add: bio_ok_def slot_ok_def one_copy_def in_proc_def blk_def cached_def fun_eq_iff dirty_blks_def
      cong: option.case_cong)

lemma log_wakeup [simp]:
  "lh_n (wakeup1 ch s) = lh_n s" "lh_block (wakeup1 ch s) = lh_block s" "log_outstanding (wakeup1 ch s) = log_outstanding s"
  "log_committing (wakeup1 ch s) = log_committing s" "log_size (wakeup1 ch s) = log_size s" "log_dev (wakeup1 ch s) = log_dev s"
  "log_start (wakeup1 ch s) = log_start s"
  by (simp_all add: wakeup1_def)

lemma in_op_wakeup [simp]: "in_op me H (wakeup1 ch s) = in_op me H s" "logged (wakeup1 ch s) = logged s"
  by (simp_all add: in_op_def logged_def)

lemma begin_op_idle:
  assumes "fs_idle me s"
  shows "begin_op s = Ret () (s\<lparr>log_outstanding := 1\<rparr>)" "in_op me {} (s\<lparr>log_outstanding := 1\<rparr>)"
proof -
  have "quiet s" using assms by (auto simp: fs_idle_def dest: bio_okD)
  then show "begin_op s = Ret () (s\<lparr>log_outstanding := 1\<rparr>)"
    using assms by (simp add: begin_op_def begin_op_loop_def fs_idle_def MAXOPBLOCKS_def LOGSIZE_def)
  show "in_op me {} (s\<lparr>log_outstanding := 1\<rparr>)" using assms by (simp add: fs_idle_def in_op_def logged_def)
qed

text \<open>The last operation ends: the blocks it logged reach the disk, and nothing else outside the log area changes.\<close>

lemma end_op_commits:
  fixes s :: "'z fs_state_scheme"
  assumes op: "in_op me {} s" and n: "lh_n s \<le> 29" "logged s \<noteq> []" and one: "log_outstanding s = 1" "\<not> log_committing s"
    and dev: "log_dev s = 1" "unat (log_start s) + 30 < unat (disksize s)"
    and log: "\<forall>b\<in>set (logged s). b \<notin> log_area (log_start s) \<and> b < disksize s"
  shows "\<exists>t. end_op s = Ret () t \<and> fs_idle me t \<and> op_rest t = op_rest s \<and>
    (\<forall>x. x \<notin> log_area (log_start s) \<longrightarrow> disk t x = (if x \<in> set (logged s) then blk s x else disk s x))"
proof -
  let ?a = "s\<lparr>log_outstanding := 0, log_committing := True\<rparr>"
  have q: "quiet s" and ok: "bio_ok me {} ?a" using op by (auto simp: in_op_def dest: bio_okD)
  have lg: "logged ?a = logged s" by (simp add: logged_def)
  have "txn ?a (logged s)"
    using op n dev log by (auto simp: txn_def in_op_def logged_def)
  moreover have "dirty_blks ?a = set (logged s)" using op by (simp add: in_op_def)
  ultimately obtain u where u: "commit ?a = Ret () u" "bio_ok me {} u" "dirty_blks u = {}" "lh_n u = 0" "fs_rest u = fs_rest ?a"
      "disk u = apply_writes (commit_writes ?a (logged s)) (disk ?a)" and tx: "txn ?a (logged s)"
    using commit_spec [OF ok, of "logged s"] n(2) by blast
  have qu: "quiet u" using u(2) by (auto dest: bio_okD)
  have ds: "disk u x = (if x \<in> set (logged s) then blk s x else disk s x)" if "x \<notin> log_area (log_start s)" for x
    using crash_done(2) [OF tx u(6), of x] that by (simp add: redo_def)
  let ?t = "wakeup1 ChanLog (u\<lparr>log_committing := False\<rparr>)"
  have "end_op s = Ret () ?t" using q qu one u(1) by (simp add: end_op_def Let_def)
  moreover have r: "op_rest u = op_rest s" using op_rest_fs [OF u(5)] by simp
  moreover have "fs_idle me ?t"
  proof -
    have "log_outstanding u = log_outstanding ?a" "disksize u = disksize ?a" "log_size u = log_size ?a"
      using fs_rest_same(3-5) [OF u(5)] by simp_all
    moreover have "log_dev u = log_dev ?a" "log_start u = log_start ?a"
      using arg_cong [OF u(5), of log_dev] arg_cong [OF u(5), of log_start]
      by (simp_all add: fs_rest_def bio_rest_def no_locks_def)
    ultimately show ?thesis using u op dev by (simp add: fs_idle_def in_op_def)
  qed
  ultimately show ?thesis using ds by (intro exI [of _ ?t]) simp
qed

section \<open>Locking an inode that is in memory\<close>

lemma ilock_valid:
  assumes "in_proc s me" and "1 \<le> i_ref (icache s ip)" and "i_valid (icache s ip)" and "\<not> sl_locked (sleeplks s (InodeLock ip))"
  shows "ilock (Some ip) s = Ret () (s\<lparr>sleeplks := (sleeplks s)(InodeLock ip := sl_held (p_pid (ptable s me)))\<rparr>)"
  using assms by (simp add: ilock_def ilock_locked_def acquiresleep_free)

lemma iunlock_held:
  assumes "in_proc s me" and "1 \<le> i_ref (icache s ip)" and "sleeplks s (InodeLock ip) = sl_held (p_pid (ptable s me))"
  shows "iunlock (Some ip) s =
    Ret () (wakeup1 (ChanSleep (InodeLock ip)) (s\<lparr>sleeplks := (sleeplks s)(InodeLock ip := sl_free)\<rparr>))"
  using assms by (simp add: iunlock_def holdingsleep_quiet releasesleep_quiet)

section \<open>The shadow file\<close>

text \<open>The shadow file is in memory, unlocked, 320 bytes long and in a block of its own outside the log.\<close>

definition shadow_ok :: "'z user_state_scheme \<Rightarrow> nat \<Rightarrow> bool" where
  "shadow_ok s ip \<longleftrightarrow> utable_ptr s = Some ip \<and> 1 \<le> i_ref (icache s ip) \<and> i_valid (icache s ip) \<and>
     \<not> sl_locked (sleeplks s (InodeLock ip)) \<and> file_ok s ip \<and> i_size (icache s ip) = 320 \<and>
     i_addrs (icache s ip) 0 \<notin> log_area (log_start s)"

text \<open>The file's block holds \<open>bs\<close> in the cache and is logged; nothing else changed.\<close>

definition shadow_written :: "nat \<Rightarrow> nat \<Rightarrow> u8 list \<Rightarrow> 'z user_state_scheme \<Rightarrow> 'z user_state_scheme \<Rightarrow> bool" where
  "shadow_written me ip bs s t \<longleftrightarrow> in_op me {} t \<and> op_rest t = op_rest s \<and> disk t = disk s \<and> lh_n t \<le> lh_n s + 1 \<and>
     set (logged t) = insert (i_addrs (icache s ip) 0) (set (logged s)) \<and>
     get_bytes (blk t (i_addrs (icache s ip) 0)) 0 320 = bs \<and>
     (\<forall>b. b \<noteq> i_addrs (icache s ip) 0 \<longrightarrow> blk t b = blk s b) \<and> log_outstanding t = log_outstanding s \<and>
     log_committing t = log_committing s"

lemma file_frame [simp]:
  "file_ok (s\<lparr>log_outstanding := n\<rparr>) = file_ok s" "file_ok (s\<lparr>sleeplks := m\<rparr>) = file_ok s"
  "file_block (s\<lparr>log_outstanding := n\<rparr>) = file_block s" "file_block (s\<lparr>sleeplks := m\<rparr>) = file_block s"
  by (simp_all add: file_ok_def mapped_def file_block_def fun_eq_iff)

lemma write_shadow_wp:
  assumes op: "in_op me {} s" and n: "lh_n s < 29" and sh: "shadow_ok s ip" and bs: "length bs = 320"
    and P: "\<And>t. shadow_written me ip bs s t \<Longrightarrow> P True t"
  shows "wp (write_shadow b bs s) P"
proof -
  let ?f = "i_addrs (icache s ip) 0"
  have me: "in_proc s me" using op by (auto simp: in_op_def dest: bio_okD)
  have ip: "utable_ptr s = Some ip" "1 \<le> i_ref (icache s ip)" "i_valid (icache s ip)" "\<not> sl_locked (sleeplks s (InodeLock ip))"
      "file_ok s ip" "i_size (icache s ip) = 320"
    using sh by (simp_all add: shadow_ok_def)
  let ?a = "s\<lparr>sleeplks := (sleeplks s)(InodeLock ip := sl_held (p_pid (ptable s me)))\<rparr>"
  have fb: "file_block ?a ip 0 = ?f" "file_block s ip 0 = ?f" by (simp_all add: file_block_def NDIRECT_def)
  obtain t where t: "writei ip bs 0 320 ?a = Ret 320 t" "overwritten me ip 1 0 bs ?a t"
    using writei_within [of me ?a ip 0 bs] op n ip(5,6) bs by (auto simp: file_inj_def NDIRECT_def spanned_def lessThan_Suc)
  then have tr: "fs_rest t = fs_rest ?a" "in_op me {} t" "disk t = disk s" "lh_n t \<le> lh_n s + 1"
      "\<forall>b. b \<noteq> ?f \<longrightarrow> blk t b = blk s b"
    using bs fb by (simp_all add: overwritten_def spanned_def lessThan_Suc)
  note r = op_rest_same [OF op_rest_fs [OF tr(1)]]
  have sl: "sleeplks t (InodeLock ip) = sl_held (p_pid (ptable t me))"
    using arg_cong [OF tr(1), of "\<lambda>s. sleeplks s (InodeLock ip)"] r(8) [of me]
    by (simp add: fs_rest_def bio_rest_def no_locks_def)
  have st: "log_outstanding t = log_outstanding s" "log_committing t = log_committing s"
    using arg_cong [OF tr(1), of log_outstanding] arg_cong [OF tr(1), of log_committing]
    by (simp_all add: fs_rest_def bio_rest_def no_locks_def)
  have lg: "set (logged t) = insert ?f (set (logged s))"
  proof -
    have "(\<lambda>x. file_block ?a ip (x div 512)) ` {0..<320} = (\<lambda>_. ?f) ` {0..<320 :: nat}" using fb by (intro image_cong) auto
    also have "\<dots> = {?f}" by (simp add: image_constant_conv)
    finally show ?thesis using t(2) bs by (simp add: overwritten_def)
  qed
  have data: "get_bytes (blk t ?f) 0 320 = bs"
  proof (rule nth_equalityI)
    fix j assume j: "j < length (get_bytes (blk t ?f) 0 320)"
    then have "file_byte t ip j = bs ! j" using t(2) bs by (simp add: overwritten_def)
    then show "get_bytes (blk t ?f) 0 320 ! j = bs ! j" using j r(1) by (simp add: file_byte_def file_block_def NDIRECT_def)
  qed (simp add: bs)
  let ?t = "wakeup1 (ChanSleep (InodeLock ip)) (t\<lparr>sleeplks := (sleeplks t)(InodeLock ip := sl_free)\<rparr>)"
  have "in_proc t me" using tr(2) by (auto simp: in_op_def dest: bio_okD)
  then have "iunlock (Some ip) t = Ret () ?t" using ip(2) r(1) sl by (intro iunlock_held) simp_all
  moreover have "shadow_written me ip bs s ?t"
    using tr lg data st op_rest_fs [OF tr(1)] by (simp add: shadow_written_def)
  moreover have "ilock (Some ip) s = Ret () ?a" using me ip by (intro ilock_valid)
  ultimately show ?thesis using t(1) ip(1) r(3) P by (simp add: write_shadow_def NUM_USER_def USER_FIELD_def deref_def)
qed

section \<open>Deleting an account\<close>

lemma clear_row_eq: "clear_row i m x = (if urow i \<le> x \<and> x < urow i + 32 then 0 else m x)"
proof -
  have "fold (\<lambda>j m. m(urow i + j := 0)) [0..<n] m x = (if urow i \<le> x \<and> x < urow i + n then 0 else m x)" for n
    by (induction n) auto
  then show ?thesis by (simp add: clear_row_def USER_FIELD_def)
qed

definition del_row :: "nat \<Rightarrow> buffer \<Rightarrow> buffer" where
  "del_row i m = store32 (clear_row i m) (ustatus_off i) 0"

lemma del_row_out: "x < 320 \<Longrightarrow> del_row i m x = clear_row i m x"
  by (simp add: del_row_def store32_def utable_sizes)

lemma del_row_names:
  assumes ok: "utable_ok m" and i: "i < NUM_USER" and j: "j < NUM_USER"
  shows "uname (del_row i m) j = (if j = i then [] else uname m j)"
    "upass (del_row i m) j = (if j = i then [] else upass m j)"
proof -
  have len: "length (cstr_at m (urow j) 360) < 16" "length (cstr_at m (urow j + 16) 360) < 16"
    using ok j by (simp_all add: utable_ok_def uname_def upass_def utable_sizes USER_FIELD_def)
  note b = urow_bounds [OF j]
  have z: "cstr_at (del_row i m) off 360 = []" if "urow i \<le> off" "off < urow i + 32" for off
    by (rule cstr_atI) (use that urow_bounds [OF i] in \<open>auto simp: wf_cstr_def get_bytes_def del_row_out clear_row_eq\<close>)
  have far: "del_row i m x = m x" if "j \<noteq> i" "urow j \<le> x" "x < urow j + 32" for x
    using that b by (auto simp: del_row_out clear_row_eq urow_def USER_FIELD_def)
  have "cstr_at (del_row i m) (urow j) 360 = (if j = i then [] else cstr_at m (urow j) 360)"
    using z [of "urow j"] cstr_at_cong [OF len(1), of "del_row i m"] far b by auto
  moreover have "cstr_at (del_row i m) (urow j + 16) 360 = (if j = i then [] else cstr_at m (urow j + 16) 360)"
    using z [of "urow j + 16"] cstr_at_cong [OF len(2), of "del_row i m"] far b by auto
  ultimately show "uname (del_row i m) j = (if j = i then [] else uname m j)"
    "upass (del_row i m) j = (if j = i then [] else upass m j)"
    by (simp_all add: uname_def upass_def utable_sizes USER_FIELD_def)
qed

lemma user_frame [simp]:
  "bio_ok me H (s\<lparr>utable := m\<rparr>) = bio_ok me H s" "blk (s\<lparr>utable := m\<rparr>) = blk s" "dirty_blks (s\<lparr>utable := m\<rparr>) = dirty_blks s"
  "file_ok (s\<lparr>utable := m\<rparr>) = file_ok s" "logged (s\<lparr>utable := m\<rparr>) = logged s"
  by (simp_all add: bio_ok_def slot_ok_def one_copy_def in_proc_def blk_def cached_def fun_eq_iff dirty_blks_def
      file_ok_def mapped_def file_block_def logged_def cong: option.case_cong)

text \<open>Writing the table to the shadow file in an operation of its own.\<close>

lemma save_table:
  assumes idle: "fs_idle me s" and sh: "shadow_ok s ip" and bs: "length bs = 320"
  shows "\<exists>t. kbind (begin_op s) (\<lambda>_ s. kbind (write_shadow b bs s) (\<lambda>ok s.
      if \<not> ok then Ret (-1) s else kbind (end_op s) (\<lambda>_ s. Ret 0 s))) = Ret (0 :: int) t \<and>
    fs_idle me t \<and> op_rest t = op_rest s \<and> get_bytes (disk t (i_addrs (icache s ip) 0)) 0 320 = bs \<and>
    (\<forall>x. x \<noteq> i_addrs (icache s ip) 0 \<and> x \<notin> log_area (log_start s) \<longrightarrow> disk t x = disk s x)"
proof -
  let ?f = "i_addrs (icache s ip) 0"
  let ?a = "s\<lparr>log_outstanding := 1\<rparr>"
  have i: "lh_n s = 0" "\<not> log_committing s" "log_dev s = 1" "unat (log_start s) + 30 < unat (disksize s)"
      "dirty_blks s = {}" "bio_ok me {} s" using idle by (simp_all add: fs_idle_def)
  have sa: "shadow_ok ?a ip" using sh by (simp add: shadow_ok_def)
  have "wp (write_shadow b bs ?a) (\<lambda>r t. r \<and> shadow_written me ip bs ?a t)"
    using i(1) by (intro write_shadow_wp [OF begin_op_idle(2) [OF idle] _ sa bs]) simp_all
  then obtain u where u: "write_shadow b bs ?a = Ret True u" "shadow_written me ip bs ?a u" by (auto simp: wp_Ret_ex)
  have lg: "set (logged u) = {?f}" using u(2) i(1) by (simp add: shadow_written_def logged_def)
  have r: "op_rest u = op_rest s" using u(2) by (simp add: shadow_written_def)
  have f: "?f \<notin> log_area (log_start s)" "?f < disksize s"
    using sh by (auto simp: shadow_ok_def file_ok_def mapped_def file_block_def NDIRECT_def)
  have "\<exists>t. end_op u = Ret () t \<and> fs_idle me t \<and> op_rest t = op_rest u \<and>
      (\<forall>x. x \<notin> log_area (log_start u) \<longrightarrow> disk t x = (if x \<in> set (logged u) then blk u x else disk u x))"
    by (rule end_op_commits)
       (use u(2) lg i f op_rest_same [OF r] in \<open>auto simp: shadow_written_def\<close>)
  then obtain t where t: "end_op u = Ret () t" "fs_idle me t" "op_rest t = op_rest s"
      "\<forall>x. x \<notin> log_area (log_start s) \<longrightarrow> disk t x = (if x = ?f then blk u x else disk s x)"
    using r lg op_rest_same(4) [OF r] u(2) by (auto simp: shadow_written_def)
  then show ?thesis
    using begin_op_idle(1) [OF idle] u f by (intro exI [of _ t]) (simp add: shadow_written_def)
qed

lemma userdel_found:
  assumes "in_proc s me" and "p_userid (ptable s me) = str ''root''" and "username \<noteq> str ''root''" and "wf_cstr username"
    and "first_idx NUM_USER (\<lambda>i. uname (utable s) i = username) = Some j"
  shows "userdel username s =
    kbind (begin_op (s\<lparr>utable := del_row j (utable s)\<rparr>)) (\<lambda>_ t.
    kbind (write_shadow False (get_bytes (del_row j (utable s)) 0 320) t) (\<lambda>ok t.
    if \<not> ok then Ret (-1) t else kbind (end_op t) (\<lambda>_ t. Ret 0 t)))"
proof -
  have "wf_cstr (str ''root'')" by (simp add: wf_cstr_def str_simps)
  then have "strcmp username (str ''root'') \<noteq> 0" "strcmp (str ''root'') (str ''root'') = 0"
    "(\<lambda>i. strcmp (uname (utable s) i) username = 0) = (\<lambda>i. uname (utable s) i = username)"
    using assms(3,4) by (simp_all add: strcmp_eq_0 fun_eq_iff)
  then show ?thesis
    using assms(1,2,5) by (simp add: userdel_def Let_def NUM_USER_def USER_FIELD_def flip: del_row_def)
qed

text \<open>C3: \<open>userdel\<close> by root of an existing account removes it for good. It returns 0; no password opens the account any more
  and every other account works as before; and the shadow file on disk holds the new table, while no other block of the
  disk outside the log has changed.\<close>

theorem userdel_durable:
  assumes "fs_idle me s" and "shadow_ok s ip" and "utable_ok (utable s)"
    and "p_userid (ptable s me) = str ''root''" and "username \<noteq> str ''root''" and "wf_cstr username" and "username \<noteq> []"
    and "j < NUM_USER" and "\<forall>i<NUM_USER. uname (utable s) i = username \<longleftrightarrow> i = j"
  shows "\<exists>t. userdel username s = Ret 0 t \<and> fs_idle me t \<and>
    (\<forall>q. wf_cstr q \<longrightarrow> usercheck username q t = 0) \<and>
    (\<forall>v q. wf_cstr v \<longrightarrow> wf_cstr q \<longrightarrow> v \<noteq> username \<longrightarrow> v \<noteq> [] \<longrightarrow> usercheck v q t = usercheck v q s) \<and>
    get_bytes (disk t (i_addrs (icache s ip) 0)) 0 320 = get_bytes (utable t) 0 320 \<and>
    (\<forall>x. x \<noteq> i_addrs (icache s ip) 0 \<and> x \<notin> log_area (log_start s) \<longrightarrow> disk t x = disk s x)"
proof -
  let ?m = "del_row j (utable s)"
  let ?a = "s\<lparr>utable := ?m\<rparr>"
  have me: "in_proc s me" using assms(1) by (auto simp: fs_idle_def dest: bio_okD)
  have "first_idx NUM_USER (\<lambda>i. uname (utable s) i = username) = Some j"
    using assms(8,9) by (auto simp: first_idx_Some)
  note del = userdel_found [OF me assms(4-6) this]
  have "fs_idle me ?a" "shadow_ok ?a ip" using assms(1,2) by (simp_all add: fs_idle_def shadow_ok_def)
  from save_table [OF this, of "get_bytes ?m 0 320" False] obtain t
    where t: "userdel username s = Ret 0 t" "fs_idle me t" "op_rest t = op_rest ?a"
      "get_bytes (disk t (i_addrs (icache s ip) 0)) 0 320 = get_bytes ?m 0 320"
      "\<forall>x. x \<noteq> i_addrs (icache s ip) 0 \<and> x \<notin> log_area (log_start s) \<longrightarrow> disk t x = disk s x"
    unfolding del by auto
  have ut: "utable t = ?m" using op_rest_same(2) [OF t(3)] by simp
  note names = del_row_names [OF assms(3,8)]
  have "\<forall>q. wf_cstr q \<longrightarrow> usercheck username q t = 0"
    using names assms(6,7,9) by (auto simp: usercheck_iff ut)
  moreover have "\<forall>v q. wf_cstr v \<longrightarrow> wf_cstr q \<longrightarrow> v \<noteq> username \<longrightarrow> v \<noteq> [] \<longrightarrow> usercheck v q t = usercheck v q s"
  proof (intro allI impI)
    fix v q assume v: "wf_cstr v" "wf_cstr q" "v \<noteq> username" "v \<noteq> []"
    then have "(\<exists>i<NUM_USER. uname ?m i = v \<and> upass ?m i = q) \<longleftrightarrow> (\<exists>i<NUM_USER. uname (utable s) i = v \<and> upass (utable s) i = q)"
      using names assms(9) by metis
    with v show "usercheck v q t = usercheck v q s" by (simp add: usercheck_iff ut)
  qed
  ultimately show ?thesis using t ut by auto
qed

section \<open>A concrete system\<close>

text \<open>The accounts \<open>root\<close> and \<open>kim\<close>, and a shadow file in block 100.\<close>

definition acct_demo :: user_state where
  "acct_demo = user_demo\<lparr>utable := add_row 1 (str ''kim'') (str ''pw'') (utable user_demo), utable_ptr := Some 0,
     icache := (\<lambda>_. demo_inode)(0 := demo_inode\<lparr>i_dev := 1, i_inum := 3, i_ref := 1, i_valid := True, i_type := T_FILE,
       i_nlink := 1, i_size := 320, i_addrs := (\<lambda>_. 0)(0 := 100), i_userid := str ''root''\<rparr>)\<rparr>"

lemma acct_demo_sel:
  "bufs acct_demo = (\<lambda>_. empty_buf)" "lru acct_demo = [0..<30]" "sleeplks acct_demo = (\<lambda>_. sl_free)" "disksize acct_demo = 1000"
  "lh_n acct_demo = 0" "log_outstanding acct_demo = 0" "log_committing acct_demo = False" "log_size acct_demo = 30"
  "log_dev acct_demo = 1" "log_start acct_demo = 2" "utable_ptr acct_demo = Some 0"
  "p_userid (ptable acct_demo 1) = str ''root''"
  "utable acct_demo = add_row 1 (str ''kim'') (str ''pw'') (utable user_demo)"
  "icache acct_demo 0 = demo_inode\<lparr>i_dev := 1, i_inum := 3, i_ref := 1, i_valid := True, i_type := T_FILE,
       i_nlink := 1, i_size := 320, i_addrs := (\<lambda>_. 0)(0 := 100), i_userid := str ''root''\<rparr>"
  by (simp_all add: acct_demo_def user_demo_def pipe_demo_def vm_state.defs file_state.defs user_state.defs)

lemma acct_demo_idle: "fs_idle 1 acct_demo"
proof -
  have "in_proc acct_demo 1" using user_demo_in by (simp add: acct_demo_def in_proc_def)
  moreover have "slot_ok 1 {} acct_demo i" for i by (simp add: slot_ok_def acct_demo_sel empty_buf_def)
  moreover have "one_copy acct_demo" "distinct (lru acct_demo)" "set (lru acct_demo) = {..<NBUF}"
    by (auto simp: one_copy_def acct_demo_sel empty_buf_def NBUF_def)
  ultimately have "bio_ok 1 {} acct_demo" by (simp add: bio_ok_def)
  moreover have "dirty_blks acct_demo = {}" by (simp add: dirty_blks_def acct_demo_sel empty_buf_def)
  ultimately show ?thesis by (simp add: fs_idle_def acct_demo_sel)
qed

lemma acct_demo_shadow: "shadow_ok acct_demo 0"
proof -
  have "file_ok acct_demo 0"
    by (auto simp: file_ok_def mapped_def file_block_def acct_demo_sel MAXFILE_def NDIRECT_def NINDIRECT_def T_FILE_def T_DEV_def)
  then show ?thesis by (simp add: shadow_ok_def acct_demo_sel log_area_def)
qed

lemma acct_demo_rows:
  "j < NUM_USER \<Longrightarrow> uname (utable acct_demo) j = (if j = 0 then str ''root'' else if j = 1 then str ''kim'' else [])"
  "utable_ok (utable acct_demo)"
proof -
  have wf: "wf_cstr (str ''kim'')" "wf_cstr (str ''pw'')" by (simp_all add: wf_cstr_def str_simps)
  have one: "1 < NUM_USER" by (simp add: NUM_USER_def)
  note row = add_row_row [OF one wf(1) _ wf(2), of "utable user_demo"]
    and oth = add_row_other [OF user_demo_rows(3) one, of _ "str ''kim''" "str ''pw''"]
  show u: "uname (utable acct_demo) j = (if j = 0 then str ''root'' else if j = 1 then str ''kim'' else [])" if "j < NUM_USER" for j
    using row(1) oth(1) [OF that] that by (auto simp: acct_demo_sel user_demo_rows)
  have p: "length (upass (utable acct_demo) j) < 16" if "j < NUM_USER" for j
    using row(2) oth(2) [OF that] that by (cases "j = 1") (auto simp: acct_demo_sel user_demo_rows)
  show "utable_ok (utable acct_demo)" by (auto simp: utable_ok_def u p)
qed

theorem userdel_durable_witness:
  "\<exists>t. userdel (str ''kim'') acct_demo = Ret 0 t \<and> usercheck (str ''kim'') (str ''pw'') t = 0 \<and>
     get_bytes (disk t 100) 0 320 = get_bytes (utable t) 0 320"
proof -
  have "\<forall>i<NUM_USER. uname (utable acct_demo) i = str ''kim'' \<longleftrightarrow> i = 1"
    by (auto simp: acct_demo_rows str_simps)
  from userdel_durable [OF acct_demo_idle acct_demo_shadow acct_demo_rows(2) acct_demo_sel(12) _ _ _ _ this]
  obtain t where "userdel (str ''kim'') acct_demo = Ret 0 t" "\<forall>q. wf_cstr q \<longrightarrow> usercheck (str ''kim'') q t = 0"
      "get_bytes (disk t (i_addrs (icache acct_demo 0) 0)) 0 320 = get_bytes (utable t) 0 320"
    by (auto simp: wf_cstr_def str_simps NUM_USER_def)
  then show ?thesis by (auto simp: wf_cstr_def str_simps acct_demo_sel)
qed

end
