(* ===== verification/Console.thy ===== *)
theory Console
  imports Files
begin

text \<open>
  The input buffer of the console (\<open>console.c\<close>): the characters between \<open>r\<close> and \<open>w\<close> are committed and wait for a reader,
  those between \<open>w\<close> and \<open>e\<close> can still be edited. The indices count up and wrap around at 2^32.
\<close>

definition input_ok :: "'z fs_state_scheme \<Rightarrow> bool" where
  "input_ok s \<longleftrightarrow> input_w s - input_r s \<le> input_e s - input_r s \<and> input_e s - input_r s \<le> INPUT_BUF"

definition pending :: "'z fs_state_scheme \<Rightarrow> u8 list" where
  "pending s = map (\<lambda>k. input_buf s (unat ((input_r s + of_nat k) mod INPUT_BUF))) [0..<unat (input_w s - input_r s)]"

lemma input_slot:
  assumes "k < 128"
  shows "unat ((r + of_nat k) mod INPUT_BUF) = (unat r + k) mod 128"
proof -
  have "unat (r + of_nat k) = (unat r + k) mod 2 ^ 32" using assms by (simp add: unat_word_ariths unat_of_nat)
  then show ?thesis by (simp add: INPUT_BUF_def unat_mod mod_mod_cancel)
qed

lemma input_slot_neq:
  "j \<noteq> k \<Longrightarrow> j < 128 \<Longrightarrow> k < 128 \<Longrightarrow> unat ((r + of_nat j) mod INPUT_BUF) \<noteq> unat ((r + of_nat k) mod INPUT_BUF)"
  by (auto simp: input_slot dest: mod_add_inj)

lemma input_ok_nat: "input_ok s \<longleftrightarrow>
    unat (input_w s - input_r s) \<le> unat (input_e s - input_r s) \<and> unat (input_e s - input_r s) \<le> 128"
  by (simp add: input_ok_def word_le_nat_alt INPUT_BUF_def)

text \<open>An edit index moved back towards \<open>w\<close>.\<close>

lemma edit_back:
  assumes "input_ok s" and "input_e s \<noteq> input_w s"
  shows "unat (input_e s - 1 - input_r s) = unat (input_e s - input_r s) - 1"
    "unat (input_w s - input_r s) \<le> unat (input_e s - 1 - input_r s)"
proof -
  have ne: "unat (input_w s - input_r s) \<noteq> unat (input_e s - input_r s)" using assms(2) by (simp add: word_unat_eq_iff [symmetric])
  with assms(1) have lt: "unat (input_w s - input_r s) < unat (input_e s - input_r s)" by (simp add: input_ok_nat)
  have e: "input_e s - 1 - input_r s = (input_e s - input_r s) - 1" by simp
  show u: "unat (input_e s - 1 - input_r s) = unat (input_e s - input_r s) - 1"
    unfolding e using lt by (subst unat_sub) (simp_all add: word_le_nat_alt)
  show "unat (input_w s - input_r s) \<le> unat (input_e s - 1 - input_r s)" using u lt by simp
qed

lemma consputc_sel [simp]:
  "input_ok (consputc c s) = input_ok s" "pending (consputc c s) = pending s" "input_r (consputc c s) = input_r s"
  "input_w (consputc c s) = input_w s" "input_e (consputc c s) = input_e s" "input_buf (consputc c s) = input_buf s"
  "quiet (consputc c s) = quiet s" "consputc c (with_locks L s) = with_locks L (consputc c s)"
  by (simp_all add: consputc_def input_ok_def pending_def)

lemma pending_frame [simp]:
  "pending (s\<lparr>input_e := e\<rparr>) = pending s" "pending (with_locks L s) = pending s" "input_ok (with_locks L s) = input_ok s"
  "pending (wakeup1 ch s) = pending s" "input_ok (wakeup1 ch s) = input_ok s" "input_r (wakeup1 ch s) = input_r s"
  by (simp_all add: pending_def input_ok_def wakeup1_def)

text \<open>\<open>t\<close> may have more characters committed than \<open>s\<close>, after the same ones.\<close>

definition typed :: "'z fs_state_scheme \<Rightarrow> 'z fs_state_scheme \<Rightarrow> bool" where
  "typed s t \<longleftrightarrow> quiet t \<and> input_ok t \<and> input_r t = input_r s \<and> (\<exists>x. pending t = pending s @ x)"

lemma typed_refl: "quiet s \<Longrightarrow> input_ok s \<Longrightarrow> typed s s"
  by (simp add: typed_def)

lemma typed_trans: "typed s t \<Longrightarrow> typed t u \<Longrightarrow> typed s u"
  by (auto simp: typed_def)

lemma typed_back:
  assumes "quiet s" and "input_ok s" and "input_e s \<noteq> input_w s"
  shows "typed s (consputc c (s\<lparr>input_e := input_e s - 1\<rparr>))"
  using assms edit_back [OF assms(2,3)] by (auto simp: typed_def input_ok_nat)

lemma kill_line_typed:
  assumes "quiet s" and "input_ok s"
  shows "typed s (kill_line n s) \<and> kill_line n (with_locks L s) = with_locks L (kill_line n s)"
  using assms
proof (induction n arbitrary: s)
  case (Suc n)
  let ?t = "consputc BACKSPACE (s\<lparr>input_e := input_e s - 1\<rparr>)"
  show ?case
  proof (cases "input_e s \<noteq> input_w s \<and> input_buf s (unat ((input_e s - 1) mod INPUT_BUF)) \<noteq> 10")
    case True
    with typed_back [OF Suc.prems, of BACKSPACE] have t: "typed s ?t" by simp
    with Suc.IH [of ?t] typed_trans [OF t] True show ?thesis by (simp add: typed_def)
  qed (use Suc.prems in \<open>auto simp: typed_refl\<close>)
qed (simp add: typed_refl)

text \<open>A character stored at the edit index, and the line committed.\<close>

lemma typed_insert:
  assumes "quiet s" and "input_ok s" and "input_e s - input_r s < INPUT_BUF"
  shows "typed s (s\<lparr>input_buf := (input_buf s)(unat (input_e s mod INPUT_BUF) := b), input_e := input_e s + 1\<rparr>)"
proof -
  let ?n = "unat (input_e s - input_r s)"
  let ?t = "s\<lparr>input_buf := (input_buf s)(unat (input_e s mod INPUT_BUF) := b), input_e := input_e s + 1\<rparr>"
  have n: "?n < 128" using assms(3) by (simp add: word_less_nat_alt INPUT_BUF_def)
  have e: "input_e s = input_r s + of_nat ?n" by simp
  have "input_e s + 1 - input_r s = (input_e s - input_r s) + 1" by simp
  then have n1: "unat (input_e s + 1 - input_r s) = ?n + 1" using n by (simp only: unat_word_ariths) simp
  have "unat ((input_r s + of_nat k) mod INPUT_BUF) \<noteq> unat (input_e s mod INPUT_BUF)" if "k < unat (input_w s - input_r s)" for k
    using input_slot_neq [of k ?n "input_r s"] e that assms(2) n by (simp add: input_ok_nat)
  then have "pending ?t = pending s" by (auto simp: pending_def)
  then show ?thesis using assms(1,2) n n1 by (simp add: typed_def input_ok_nat)
qed

lemma typed_commit:
  assumes "quiet s" and "input_ok s"
  shows "typed s (s\<lparr>input_w := input_e s\<rparr>)"
proof -
  let ?m = "unat (input_w s - input_r s)" and ?n = "unat (input_e s - input_r s)"
  have "[0..<?n] = [0..<?m] @ [?m..<?n]"
    using assms(2) upt_add_eq_append [of 0 ?m "?n - ?m"] by (simp add: input_ok_nat)
  then show ?thesis using assms by (auto simp: typed_def pending_def input_ok_def)
qed

lemma typed_wakeup: "typed s t \<Longrightarrow> typed s (wakeup1 ch t)"
  by (auto simp: typed_def)

lemma typed_consputc: "typed s t \<Longrightarrow> typed s (consputc c t)"
  by (auto simp: typed_def)

lemma consoleintr_char_typed:
  assumes "quiet s" and "input_ok s"
  shows "\<exists>d t. consoleintr_char c (with_locks [ConsLock] s) = Ret d (with_locks [ConsLock] t) \<and> typed s t"
proof -
  consider "c = 16" | "c = 21" | "c = 8 \<or> c = 127" | "c \<notin> {16, 21, 8, 127}" by auto
  then show ?thesis
  proof cases
    case 2
    then show ?thesis using kill_line_typed [OF assms] by (auto simp: consoleintr_char_def)
  next
    case 3
    then show ?thesis
      using typed_back [OF assms] typed_refl [OF assms] by (auto simp: consoleintr_char_def)
  next
    case 4
    let ?c = "if c = 13 then 10 else c"
    let ?t = "consputc ?c (s\<lparr>input_buf := (input_buf s)(unat (input_e s mod INPUT_BUF) := word_of_int ?c), input_e := input_e s + 1\<rparr>)"
    show ?thesis
    proof (cases "c \<noteq> 0 \<and> input_e s - input_r s < INPUT_BUF")
      case True
      then have t: "typed s ?t" using typed_insert [OF assms] by (simp add: typed_consputc)
      then have "typed s (?t\<lparr>input_w := input_e ?t\<rparr>)" using typed_trans [OF t typed_commit] by (simp add: typed_def)
      then have w: "typed s (wakeup1 ChanInput (?t\<lparr>input_w := input_e ?t\<rparr>))" by (rule typed_wakeup)
      have q: "quiet (?t\<lparr>input_w := input_e ?t\<rparr>)" using assms(1) by simp
      show ?thesis using 4 True t w q by (auto simp: consoleintr_char_def Let_def)
    qed (use 4 typed_refl [OF assms] in \<open>auto simp: consoleintr_char_def\<close>)
  qed (use typed_refl [OF assms] in \<open>auto simp: consoleintr_char_def\<close>)
qed

text \<open>C24: the input buffer stays within its 128 characters whatever is typed, and what is committed stays. After any sequence of
  characters, editing keys included, the interrupt handler has returned, the indices are in order and at most 128 apart, and
  the characters a reader could take before are still the first ones it will take.\<close>

theorem consoleintr_keeps_input:
  assumes "quiet s" and "input_ok s"
  shows "\<exists>d t. consoleintr cs s = Ret d t \<and> quiet t \<and> input_r t = input_r s \<and>
    input_w t - input_r t \<le> input_e t - input_r t \<and> input_e t - input_r t \<le> INPUT_BUF \<and>
    (\<exists>x. pending t = pending s @ x)"
proof -
  have "\<exists>d' t. consoleintr_loop cs d (with_locks [ConsLock] s) = Ret d' (with_locks [ConsLock] t) \<and> typed s t" for d
    using assms
  proof (induction cs arbitrary: s d)
    case (Cons c cs)
    from consoleintr_char_typed [OF Cons.prems, of c] obtain d1 t
      where t: "consoleintr_char c (with_locks [ConsLock] s) = Ret d1 (with_locks [ConsLock] t)" "typed s t" by blast
    from Cons.IH [of t "d \<or> d1"] t(2) obtain d2 u
      where "consoleintr_loop cs (d \<or> d1) (with_locks [ConsLock] t) = Ret d2 (with_locks [ConsLock] u)" "typed t u"
      by (auto simp: typed_def)
    with t typed_trans show ?case by fastforce
  qed (use typed_refl in auto)
  then obtain d t where t: "consoleintr_loop cs False (with_locks [ConsLock] s) = Ret d (with_locks [ConsLock] t)" "typed s t"
    by blast
  then show ?thesis using assms by (auto simp: consoleintr_def typed_def input_ok_def)
qed

theorem consoleintr_keeps_input_witness:
  "\<exists>d t. consoleintr [108, 115, 8, 13] pipe_demo = Ret d t \<and> input_e t - input_r t \<le> INPUT_BUF"
  using consoleintr_keeps_input [of pipe_demo "[108, 115, 8, 13]"] in_proc_quiet [OF pipe_demo_in]
  by (auto simp: input_ok_def pipe_demo_def INPUT_BUF_def)

end
