(* ===== verification/Grep.thy ===== *)
theory Grep
  imports CStrings
begin

text \<open>
  The user program \<open>grep.c\<close>: the matcher for patterns with \<open>^ . * $\<close> and the loop that cuts the input into lines. Text and
  pattern are the bytes before their NUL.
\<close>

section \<open>The matcher\<close>

definition ch_caret :: u8 where "ch_caret = 94"
definition ch_star :: u8 where "ch_star = 42"
definition ch_dollar :: u8 where "ch_dollar = 36"
definition ch_dot :: u8 where "ch_dot = 46"
definition newline :: u8 where "newline = 10"

lemmas ch_defs = ch_caret_def ch_star_def ch_dollar_def ch_dot_def newline_def

function (sequential) matchhere :: "cstring \<Rightarrow> cstring \<Rightarrow> bool"
  and matchstar :: "u8 \<Rightarrow> cstring \<Rightarrow> cstring \<Rightarrow> bool" where
  "matchhere [] tx = True"
| "matchhere (c # re) tx =
     (if re \<noteq> [] \<and> hd re = ch_star then matchstar c (tl re) tx
      else if c = ch_dollar \<and> re = [] then tx = []
      else if tx \<noteq> [] \<and> (c = ch_dot \<or> c = hd tx) then matchhere re (tl tx)
      else False)"
| "matchstar c re tx =
     (if matchhere re tx then True
      else if tx \<noteq> [] \<and> (hd tx = c \<or> c = ch_dot) then matchstar c re (tl tx)
      else False)"
  by pat_completeness auto
termination
  by (relation "measures [case_sum (\<lambda>(re, _). 2 * length re) (\<lambda>(_, re, _). 2 * length re + 1),
        case_sum (\<lambda>(_, tx). length tx) (\<lambda>(_, _, tx). length tx)]") (auto simp: neq_Nil_conv)

text \<open>\<open>do \<dots> while(*text++ != '\0')\<close>: every suffix is tried, the empty one last.\<close>

fun match_any :: "cstring \<Rightarrow> cstring \<Rightarrow> bool" where
  "match_any re [] = matchhere re []"
| "match_any re (x # tx) = (if matchhere re (x # tx) then True else match_any re tx)"

definition match :: "cstring \<Rightarrow> cstring \<Rightarrow> bool" where
  "match re tx = (if re \<noteq> [] \<and> hd re = ch_caret then matchhere (tl re) tx else match_any re tx)"

text \<open>What a pattern means: a sequence of items, each with the texts it stands for.\<close>

datatype re_item = One u8 | Star u8 | Eol

fun re_items :: "cstring \<Rightarrow> re_item list" where
  "re_items [] = []"
| "re_items [c] = [if c = ch_dollar then Eol else One c]"
| "re_items (c # d # re) = (if d = ch_star then Star c # re_items re else One c # re_items (d # re))"

definition fits :: "u8 \<Rightarrow> u8 \<Rightarrow> bool" where
  "fits c x \<longleftrightarrow> c = ch_dot \<or> c = x"

primrec denotes :: "re_item list \<Rightarrow> cstring \<Rightarrow> bool" where
  "denotes [] w \<longleftrightarrow> True"
| "denotes (i # is) w \<longleftrightarrow> (case i of
     One c \<Rightarrow> \<exists>x v. w = x # v \<and> fits c x \<and> denotes is v
   | Star c \<Rightarrow> \<exists>u v. w = u @ v \<and> (\<forall>x\<in>set u. fits c x) \<and> denotes is v
   | Eol \<Rightarrow> w = [] \<and> denotes is [])"

lemma star_unfold:
  "(\<exists>u v. w = u @ v \<and> (\<forall>x\<in>set u. P x) \<and> Q v) \<longleftrightarrow> Q w \<or> (\<exists>x w'. w = x # w' \<and> P x \<and> (\<exists>u v. w' = u @ v \<and> (\<forall>x\<in>set u. P x) \<and> Q v))"
  (is "?L \<longleftrightarrow> ?R")
proof
  assume ?L
  then obtain u v where w: "w = u @ v" "\<forall>x\<in>set u. P x" "Q v" by blast
  then show ?R by (cases u) auto
next
  assume ?R
  then consider "Q w" | x w' u v where "w = x # w'" "P x" "w' = u @ v" "\<forall>x\<in>set u. P x" "Q v" by blast
  then show ?L
  proof cases
    case 1
    then show ?thesis by (intro exI [of _ "[]"] exI [of _ w]) simp
  next
    case 2
    then show ?thesis by (intro exI [of _ "x # u"] exI [of _ v]) simp
  qed
qed

lemma denotes_star:
  "denotes (Star c # is) w \<longleftrightarrow> denotes is w \<or> (\<exists>x w'. w = x # w' \<and> fits c x \<and> denotes (Star c # is) w')"
  using star_unfold [of w "fits c" "denotes is"] by simp

lemma matchhere_denotes:
  "matchhere re tx \<longleftrightarrow> denotes (re_items re) tx"
  "matchstar c re tx \<longleftrightarrow> denotes (Star c # re_items re) tx"
proof (induction re tx and c re tx rule: matchhere_matchstar.induct)
  case (2 c re tx)
  then show ?case
    by (cases re; cases tx) (auto simp: fits_def)
next
  case (3 c re tx)
  have "matchstar c re tx \<longleftrightarrow> matchhere re tx \<or> (tx \<noteq> [] \<and> fits c (hd tx) \<and> matchstar c re (tl tx))"
    by (subst matchstar.simps) (auto simp: fits_def simp del: matchstar.simps)
  then show ?case
    using 3 by (subst denotes_star) (cases tx; auto simp: fits_def simp del: denotes.simps matchstar.simps)
qed simp

lemma match_any_denotes: "match_any re tx \<longleftrightarrow> (\<exists>u v. tx = u @ v \<and> denotes (re_items re) v)"
proof (induction tx)
  case Nil
  then show ?case by (simp add: matchhere_denotes)
next
  case (Cons x tx)
  have "(\<exists>u v. x # tx = u @ v \<and> denotes (re_items re) v) \<longleftrightarrow>
      denotes (re_items re) (x # tx) \<or> (\<exists>u v. tx = u @ v \<and> denotes (re_items re) v)"
    by (auto simp: Cons_eq_append_conv)
  then show ?case using Cons by (simp add: matchhere_denotes)
qed

text \<open>C19: \<open>match\<close> decides exactly the language of the pattern: it finds, anywhere in the text or, for a pattern that starts
  with \<open>^\<close>, at its start, a stretch that the items denote one after the other, a final \<open>$\<close> standing for the end of the text.\<close>

theorem match_iff_denotes:
  "match re tx \<longleftrightarrow>
     (if re \<noteq> [] \<and> hd re = ch_caret then denotes (re_items (tl re)) tx
      else \<exists>u v. tx = u @ v \<and> denotes (re_items re) v)"
  by (simp add: match_def matchhere_denotes match_any_denotes)

section \<open>The lines of the input\<close>

definition strchr :: "u8 list \<Rightarrow> u8 \<Rightarrow> nat option" where
  "strchr s c = first_idx (length (takeWhile (\<lambda>x. x \<noteq> 0) s)) (\<lambda>k. s ! k = c)"

lemma strchr_less: "strchr s c = Some k \<Longrightarrow> k < length s"
  using length_takeWhile_le [of "\<lambda>x. x \<noteq> 0" s] by (auto simp: strchr_def dest: first_idx_SomeD)

text \<open>The inner loop over a buffer: what is written, and the rest from \<open>p\<close> on.\<close>

function grep_lines :: "cstring \<Rightarrow> u8 list \<Rightarrow> u8 list \<times> u8 list" where
  "grep_lines pattern b =
     (case strchr b newline of None \<Rightarrow> ([], b)
      | Some k \<Rightarrow>
          let (out, rest) = grep_lines pattern (drop (Suc k) b)
          in ((if match pattern (take k b) then take (Suc k) b else []) @ out, rest))"
  by pat_completeness auto
termination by (relation "measure (\<lambda>(_, b). length b)") (auto dest: strchr_less)

declare grep_lines.simps [simp del]

text \<open>
  The outer loop, with the unfinished line \<open>m\<close> bytes long in the buffer and \<open>chunks\<close> the results of the \<open>read\<close>s to come, each
  at most \<open>1023 - m\<close> bytes long; the file ends with the empty chunk or the list.
\<close>

fun grep :: "cstring \<Rightarrow> u8 list \<Rightarrow> u8 list list \<Rightarrow> u8 list" where
  "grep pattern carry [] = []"
| "grep pattern carry (c # chunks) =
     (if c = [] then []
      else let b = carry @ c;
               (out, rest) = grep_lines pattern b;
               m = (if length rest = length b then [] else rest)
           in out @ grep pattern m chunks)"

text \<open>A read that holds no newline is thrown away with what the buffer held: the start of a line that arrives in two
  reads is lost.\<close>

theorem grep_loses_partial_line:
  assumes "newline \<notin> set carry" and "newline \<notin> set c" and "c \<noteq> []"
  shows "grep pattern carry (c # chunks) = grep pattern [] chunks"
proof -
  have "strchr (carry @ c) newline = None"
    unfolding strchr_def first_idx_None
  proof (intro allI impI)
    fix k assume "k < length (takeWhile (\<lambda>x. x \<noteq> 0) (carry @ c))"
    then have "k < length (carry @ c)" by (rule less_le_trans) (rule length_takeWhile_le)
    then have "(carry @ c) ! k \<in> set (carry @ c)" by (rule nth_mem)
    then show "(carry @ c) ! k \<noteq> newline" using assms(1,2) by auto
  qed
  then show ?thesis using assms(3) by (simp add: grep_lines.simps [of pattern "carry @ c"])
qed

end
