(* ===== verification/PageTables.thy ===== *)
theory PageTables
  imports Vm
begin

text \<open>
  What the page tables of \<open>vm.c\<close> mean. A page directory and its page tables are pages of \<open>ram\<close>; \<open>pte\<close> reads them as one array
  of 2^20 entries. \<open>walkpgdir\<close> and \<open>mappages\<close> are shown to change this array, and no memory but the page tables.
\<close>

section \<open>Pages and words\<close>

lemma unat_and_mask: "unat (and w (mask n) :: u32) = unat w mod 2 ^ n"
  by (simp add: unsigned_take_bit_eq flip: take_bit_eq_mask take_bit_eq_mod)

lemma unat_drop: "unat (drop_bit n w :: u32) = unat w div 2 ^ n"
  by (simp add: unat_drop_bit_eq flip: drop_bit_eq_div)

lemma mask10: "(0x3FF :: u32) = mask 10" and mask12: "(0xFFF :: u32) = mask 12"
  by (simp_all add: mask_eq_exp_minus_1)

lemma unat_PDX: "unat (PDX va) = unat va div 4194304"
proof -
  have "unat va < 4294967296" using unsigned_less [of va] by simp
  then have "unat va div 4194304 < 1024" by simp
  then show ?thesis by (simp only: PDX_def mask10 unat_and_mask unat_drop) simp
qed

lemma unat_PTX: "unat (PTX va) = unat va div 4096 mod 1024"
  by (simp only: PTX_def mask10 unat_and_mask unat_drop) simp

definition aligned :: "u32 \<Rightarrow> bool" where "aligned p \<longleftrightarrow> unat p mod 4096 = 0"

lemma aligned_mask: "aligned p \<longleftrightarrow> and p (mask 12) = 0"
  by (simp add: aligned_def word_unat_eq_iff unat_and_mask)

lemma PTE_ADDR_or:
  assumes "aligned pa" and "unat w < 4096"
  shows "PTE_ADDR (or pa w) = pa"
proof -
  have "take_bit 12 w = w" using assms(2) by (simp add: take_bit_eq_mask word_unat_eq_iff unat_and_mask)
  then have w: "\<not> bit w n" if "\<not> n < 12" for n using that by (metis bit_take_bit_iff)
  have pa: "\<not> bit pa n" if "n < 12" for n
  proof
    assume "bit pa n"
    with that have "bit (and pa (mask 12)) n" using bit_imp_le_length [of pa n] by (simp add: bit_simps)
    then show False using assms(1) by (simp add: aligned_mask)
  qed
  show ?thesis unfolding PTE_ADDR_def mask12 using w pa by (intro bit_word_eqI) (auto simp: bit_simps)
qed

lemma unat_in_page: "aligned p \<Longrightarrow> k < 4096 \<Longrightarrow> unat (p + of_nat k) = unat p + k"
proof -
  assume p: "aligned p" and k: "k < 4096"
  obtain a where a: "unat p = 4096 * a" using p by (auto simp: aligned_def)
  have "unat p < 4294967296" using unsigned_less [of p] by simp
  then have "4096 * a + k < 4294967296" using a k by simp
  then have "unat p + unat (of_nat k :: u32) < 2 ^ LENGTH(32)" using a k by (simp add: unsigned_of_nat take_bit_eq_mod)
  then show ?thesis using k by (simp add: unat_add_lem [THEN iffD1] unsigned_of_nat take_bit_eq_mod)
qed

lemma page_ok_align: "page_ok e p \<Longrightarrow> aligned p"
  by (simp add: aligned_def page_ok_aligned)

text \<open>The bytes of a page, and memories that differ only within some pages.\<close>

definition page :: "u32 \<Rightarrow> nat set" where "page p = {unat p ..< unat p + 4096}"

definition only :: "u32 set \<Rightarrow> buffer \<Rightarrow> buffer \<Rightarrow> bool" where
  "only P m m' \<longleftrightarrow> (\<forall>x. (\<forall>p\<in>P. x \<notin> page p) \<longrightarrow> m' x = m x)"

lemma only_refl [simp]: "only P m m"
  by (simp add: only_def)

lemma only_trans [trans]: "only P m m' \<Longrightarrow> only Q m' m'' \<Longrightarrow> only (P \<union> Q) m m''"
  by (auto simp: only_def)

lemma only_mono: "only P m m' \<Longrightarrow> P \<subseteq> Q \<Longrightarrow> only Q m m'"
  by (auto simp: only_def)

lemma only_put: "k + length xs \<le> 4096 \<Longrightarrow> only {p} m (put_bytes m (unat p + k) xs)"
  by (auto simp: only_def page_def put_bytes_def)

lemma only_store32: "k + 4 \<le> 4096 \<Longrightarrow> only {p} m (store32 m (unat p + k) w)"
  by (simp add: store32_def only_put)

lemma load32_words: "load32 (store32 m (a + 4 * j) w) (a + 4 * k) = (if k = j then w else load32 m (a + 4 * k))"
proof (cases "k = j")
  case False
  then have "a + 4 * j + 4 \<le> a + 4 * k \<or> a + 4 * k + 4 \<le> a + 4 * j" by auto
  then show ?thesis using False by (simp add: store32_def load32_put_other)
qed simp

definition pages_ok :: "u32 \<Rightarrow> u32 set \<Rightarrow> bool" where "pages_ok e P \<longleftrightarrow> (\<forall>p\<in>P. page_ok e p)"

lemma pages_ok_simps [simp]:
  "pages_ok e {}" "pages_ok e (insert p P) \<longleftrightarrow> page_ok e p \<and> pages_ok e P"
  "pages_ok e (P \<union> Q) \<longleftrightarrow> pages_ok e P \<and> pages_ok e Q"
  by (auto simp: pages_ok_def)

lemma only_page:
  assumes "only P m m'" "pages_ok e P" "page_ok e q" "q \<notin> P" "k < 4096"
  shows "m' (unat q + k) = m (unat q + k)"
proof -
  have "unat q + k \<notin> page p" if "p \<in> P" for p
  proof -
    have "p \<noteq> q" "page_ok e p" using assms(2,4) that by (auto simp: pages_ok_def)
    then show ?thesis using pages_disjoint [OF _ assms(3), of e p] assms(5) by (auto simp: page_def)
  qed
  then show ?thesis using assms(1) by (simp add: only_def)
qed

lemma only_load32:
  assumes "only P m m'" "pages_ok e P" "page_ok e q" "q \<notin> P" "k + 4 \<le> 4096"
  shows "load32 m' (unat q + k) = load32 m (unat q + k)"
proof -
  have "m' (unat q + k + j) = m (unat q + k + j)" if "j < 4" for j
    using only_page [OF assms(1-4), of "k + j"] assms(5) that by (simp add: add.assoc)
  from this [of 0] this [of 1] this [of 2] this [of 3] show ?thesis by (simp add: load32_def)
qed

lemma free_list_only:
  assumes "free_list s L" "only P (ram s) m" "pages_ok (kend s) P" "set L \<inter> P = {}"
  shows "free_list (s\<lparr>ram := m\<rparr>) L"
proof -
  have "load32 (ram s) (unat v) = load32 m (unat v)" if "v \<in> set L" for v
  proof -
    have "page_ok (kend s) v" using assms(1) that by (auto simp: free_list_def chain_page_ok)
    moreover have "v \<notin> P" using assms(4) that by auto
    ultimately show ?thesis using only_load32 [OF assms(2,3), of v 0] by simp
  qed
  then show ?thesis using assms(1) chain_cong [of L "ram s" m] by (simp add: free_list_def)
qed

section \<open>The entries of a page directory\<close>

definition present :: "u32 \<Rightarrow> bool" where "present e \<longleftrightarrow> and e PTE_P \<noteq> 0"

definition pde :: "buffer \<Rightarrow> u32 \<Rightarrow> nat \<Rightarrow> u32" where "pde m d i = load32 m (unat d + 4 * i)"

definition tab :: "buffer \<Rightarrow> u32 \<Rightarrow> nat \<Rightarrow> u32" where "tab m d i = P2V (PTE_ADDR (pde m d i))"

text \<open>The entry of page \<open>v\<close>; a missing page table stands for 1024 entries that are 0.\<close>

definition pte :: "buffer \<Rightarrow> u32 \<Rightarrow> nat \<Rightarrow> u32" where
  "pte m d v = (if present (pde m d (v div 1024)) then load32 m (unat (tab m d (v div 1024)) + 4 * (v mod 1024)) else 0)"

definition dir_idx :: "buffer \<Rightarrow> u32 \<Rightarrow> nat set" where
  "dir_idx m d = {i. i < 1024 \<and> present (pde m d i)}"

definition dir_pages :: "buffer \<Rightarrow> u32 \<Rightarrow> u32 set" where
  "dir_pages m d = insert d (tab m d ` dir_idx m d)"

definition dir_ok :: "u32 \<Rightarrow> buffer \<Rightarrow> u32 \<Rightarrow> bool" where
  "dir_ok e m d \<longleftrightarrow> pages_ok e (dir_pages m d) \<and> d \<notin> tab m d ` dir_idx m d \<and> inj_on (tab m d) (dir_idx m d)"

lemma dir_ok_pages:
  assumes "dir_ok e m d"
  shows "page_ok e d" and "i < 1024 \<Longrightarrow> present (pde m d i) \<Longrightarrow> page_ok e (tab m d i)"
    and "i < 1024 \<Longrightarrow> present (pde m d i) \<Longrightarrow> tab m d i \<noteq> d"
    and "i < 1024 \<Longrightarrow> present (pde m d i) \<Longrightarrow> tab m d i \<in> dir_pages m d"
proof -
  show "page_ok e d" using assms by (simp add: dir_ok_def dir_pages_def)
  assume "i < 1024" "present (pde m d i)"
  then have i: "i \<in> dir_idx m d" by (simp add: dir_idx_def)
  then show "page_ok e (tab m d i)" "tab m d i \<in> dir_pages m d" using assms by (auto simp: dir_ok_def dir_pages_def pages_ok_def)
  show "tab m d i \<noteq> d" using assms i unfolding dir_ok_def by (metis imageI)
qed

lemma dir_same:
  assumes "\<And>i. i < 1024 \<Longrightarrow> pde m' d i = pde m d i"
  shows "dir_pages m' d = dir_pages m d" and "dir_ok e m' d = dir_ok e m d"
proof -
  have "tab m' d i = tab m d i" if "i < 1024" for i using assms [OF that] by (simp add: tab_def)
  moreover have i: "dir_idx m' d = dir_idx m d" using assms by (auto simp: dir_idx_def)
  ultimately have t: "\<forall>i\<in>dir_idx m d. tab m' d i = tab m d i" by (simp add: dir_idx_def)
  show p: "dir_pages m' d = dir_pages m d" using t i by (simp add: dir_pages_def)
  show "dir_ok e m' d = dir_ok e m d" using t unfolding dir_ok_def p i by (simp cong: inj_on_cong image_cong)
qed

lemma pde_only:
  assumes "only P m m'" "pages_ok e P" "page_ok e d" "d \<notin> P" "i < 1024"
  shows "pde m' d i = pde m d i" and "tab m' d i = tab m d i"
  using only_load32 [OF assms(1-4), of "4 * i"] assms(5) by (simp_all add: pde_def tab_def)

lemma dir_only:
  assumes "dir_ok e m d" "only P m m'" "pages_ok e P" "P \<inter> dir_pages m d = {}"
  shows "v < 1048576 \<Longrightarrow> pte m' d v = pte m d v" and "dir_pages m' d = dir_pages m d" and "dir_ok e m' d"
proof -
  have d: "page_ok e d" "d \<notin> P" using assms(1,4) by (auto simp: dir_ok_pages dir_pages_def)
  note p = pde_only [OF assms(2,3) d]
  show "dir_pages m' d = dir_pages m d" "dir_ok e m' d" using dir_same [OF p(1)] assms(1) by simp_all
  show "pte m' d v = pte m d v" if "v < 1048576"
  proof (cases "present (pde m d (v div 1024))")
    case True
    have i: "v div 1024 < 1024" using that by auto
    then have "tab m d (v div 1024) \<notin> P" using assms(4) True by (auto simp: dir_pages_def dir_idx_def)
    then show ?thesis
      using only_load32 [OF assms(2,3) dir_ok_pages(2) [OF assms(1) i True], of "4 * (v mod 1024)"] p [OF i] True
      by (simp add: pte_def)
  next
    case False
    then show ?thesis using p [of "v div 1024"] that by (simp add: pte_def)
  qed
qed

text \<open>Writing one entry of a page table.\<close>

lemma set_pte:
  fixes w :: u32
  assumes "dir_ok e m d" "i < 1024" "present (pde m d i)" "j < 1024"
  defines "m' \<equiv> store32 m (unat (tab m d i) + 4 * j) w"
  shows "v < 1048576 \<Longrightarrow> pte m' d v = (if v = 1024 * i + j then w else pte m d v)"
    and "dir_pages m' d = dir_pages m d" and "dir_ok e m' d" and "only {tab m d i} m m'"
proof -
  let ?t = "tab m d i"
  have t: "page_ok e ?t" "?t \<noteq> d" using dir_ok_pages [OF assms(1)] assms(2,3) by auto
  show o: "only {?t} m m'" unfolding m'_def by (rule only_store32) (use assms(4) in simp)
  have p: "pde m' d k = pde m d k" "tab m' d k = tab m d k" if "k < 1024" for k
    using pde_only [OF o _ _ _ that, of e d] t dir_ok_pages(1) [OF assms(1)] by auto
  show "dir_pages m' d = dir_pages m d" "dir_ok e m' d" using dir_same [OF p(1)] assms(1) by simp_all
  assume v: "v < 1048576"
  let ?k = "v div 1024"
  have k: "?k < 1024" using v by auto
  show "pte m' d v = (if v = 1024 * i + j then w else pte m d v)"
  proof (cases "?k = i")
    case True
    then have vi: "v = 1024 * i + v mod 1024" by (metis mult_div_mod_eq)
    have "load32 m' (unat ?t + 4 * (v mod 1024)) = (if v mod 1024 = j then w else load32 m (unat ?t + 4 * (v mod 1024)))"
      unfolding m'_def by (rule load32_words)
    then show ?thesis using p [OF k] assms(3) True vi by (auto simp: pte_def)
  next
    case False
    have "load32 m' (unat (tab m d ?k) + 4 * (v mod 1024)) = load32 m (unat (tab m d ?k) + 4 * (v mod 1024))"
      if pr: "present (pde m d ?k)"
    proof -
      have "tab m d ?k \<noteq> ?t" using assms(1-3) False k pr by (auto simp: dir_ok_def inj_on_def dir_idx_def)
      then show ?thesis using only_load32 [OF o _ dir_ok_pages(2) [OF assms(1) k pr], of "4 * (v mod 1024)"] t(1) by simp
    qed
    moreover have "v \<noteq> 1024 * i + j" using False assms(4) by auto
    ultimately show ?thesis using p [OF k] by (simp add: pte_def)
  qed
qed

text \<open>Adding a page table that is all zeroes: no entry changes.\<close>

lemma add_table:
  assumes "dir_ok e m d" "i < 1024" "\<not> present (pde m d i)" "page_ok e p" "p \<notin> dir_pages m d"
    and "P2V (PTE_ADDR w) = p" "present w"
  defines "m' \<equiv> store32 (memset m (unat p) 0 4096) (unat d + 4 * i) w"
  shows "v < 1048576 \<Longrightarrow> pte m' d v = pte m d v" and "dir_pages m' d = insert p (dir_pages m d)"
    and "dir_ok e m' d" and "only {p, d} m m'" and "pde m' d i = w"
proof -
  let ?z = "memset m (unat p) 0 4096"
  have z: "?z = put_bytes m (unat p) (replicate 4096 0)" by (simp add: memset_put_replicate)
  have oz: "only {p} m ?z" unfolding z using only_put [of 0 "replicate 4096 0" p m] by simp
  have om: "only {d} ?z m'" unfolding m'_def by (rule only_store32) (use assms(2) in simp)
  show o: "only {p, d} m m'" using only_trans [OF oz om] by (simp add: insert_commute)
  have d: "page_ok e d" "d \<noteq> p" using assms(1,5) by (auto simp: dir_ok_pages dir_pages_def)
  have pz: "pde ?z d k = pde m d k" if "k < 1024" for k using pde_only(1) [OF oz _ d(1) _ that] assms(4) d(2) by simp
  show pi: "pde m' d i = w" by (simp add: m'_def pde_def)
  have pk: "pde m' d k = pde m d k" if "k < 1024" "k \<noteq> i" for k
    using pz [OF that(1)] that by (simp add: m'_def pde_def load32_words)
  have t: "tab m' d i = p" "\<And>k. k < 1024 \<Longrightarrow> k \<noteq> i \<Longrightarrow> tab m' d k = tab m d k" using pi pk assms(6) by (simp_all add: tab_def)
  have pr: "present (pde m' d k) \<longleftrightarrow> k = i \<or> present (pde m d k)" if "k < 1024" for k
    using pi pk [OF that] assms(7) by (cases "k = i") auto
  have i: "dir_idx m' d = insert i (dir_idx m d)" using pr assms(2) by (auto simp: dir_idx_def)
  have ti: "tab m' d ` dir_idx m d = tab m d ` dir_idx m d" and tj: "inj_on (tab m' d) (dir_idx m d) = inj_on (tab m d) (dir_idx m d)"
    using t(2) assms(3) by (auto simp: dir_idx_def intro!: image_cong inj_on_cong)
  show dp: "dir_pages m' d = insert p (dir_pages m d)" by (simp add: dir_pages_def i ti t(1) insert_commute)
  have ni: "i \<notin> dir_idx m d" using assms(3) by (simp add: dir_idx_def)
  have np: "p \<notin> tab m d ` dir_idx m d" using assms(5) by (simp add: dir_pages_def)
  show "dir_ok e m' d" using assms(1,4) d(2) np ni unfolding dir_ok_def dp
    by (simp add: i ti tj t(1) inj_on_insert)
  assume v: "v < 1048576"
  let ?k = "v div 1024"
  have k: "?k < 1024" using v by auto
  show "pte m' d v = pte m d v"
  proof (cases "?k = i")
    case True
    have "load32 m' (unat p + 4 * (v mod 1024)) = load32 ?z (unat p + 4 * (v mod 1024))"
      using only_load32 [OF om _ assms(4)] d by auto
    also have "\<dots> = 0" unfolding z by (simp add: load32_def put_bytes_def)
    finally show ?thesis using True assms(3,7) pi t(1) by (simp add: pte_def)
  next
    case False
    have "load32 m' (unat (tab m d ?k) + 4 * (v mod 1024)) = load32 m (unat (tab m d ?k) + 4 * (v mod 1024))"
      if "present (pde m d ?k)"
    proof (rule only_load32 [OF o])
      show "page_ok e (tab m d ?k)" using dir_ok_pages(2) [OF assms(1) k that] .
      show "tab m d ?k \<notin> {p, d}" using np dir_ok_pages(3) [OF assms(1) k that] k that by (auto simp: dir_idx_def)
    qed (use assms(4) d(1) in auto)
    then show ?thesis using pr [OF k] t(2) [OF k False] False by (auto simp: pte_def)
  qed
qed

section \<open>Building page tables\<close>

text \<open>A page directory next to the free pages \<open>L\<close>.\<close>

definition vspace :: "u32 \<Rightarrow> u32 list \<Rightarrow> 'z mem_state_scheme \<Rightarrow> bool" where
  "vspace d L s \<longleftrightarrow> quiet s \<and> free_list s L \<and> dir_ok (kend s) (ram s) d \<and> set L \<inter> dir_pages (ram s) d = {}"

text \<open>Steps that change memory and the free list, and nothing else of the state.\<close>

definition mem_step :: "'z mem_state_scheme \<Rightarrow> 'z mem_state_scheme \<Rightarrow> bool" where
  "mem_step s t \<longleftrightarrow> t\<lparr>ram := (\<lambda>_. 0), freelist := 0\<rparr> = s\<lparr>ram := (\<lambda>_. 0), freelist := 0\<rparr>"

lemma mem_step_refl [simp]: "mem_step s s"
  by (simp add: mem_step_def)

lemma mem_step_trans: "mem_step s t \<Longrightarrow> mem_step t u \<Longrightarrow> mem_step s u"
  by (simp add: mem_step_def)

lemma mem_step_upd [simp]: "mem_step s (s\<lparr>ram := m\<rparr>)" "mem_step s (s\<lparr>freelist := f\<rparr>)" "mem_step s (poke32 a w s)"
  by (simp_all add: mem_step_def poke32_def)

lemma mem_step_same:
  assumes "mem_step s t"
  shows "quiet t = quiet s" and "kend t = kend s"
  using arg_cong [OF assms [unfolded mem_step_def], of quiet] arg_cong [OF assms [unfolded mem_step_def], of kend] by simp_all

definition grew :: "u32 \<Rightarrow> u32 list \<Rightarrow> 'z mem_state_scheme \<Rightarrow> u32 list \<Rightarrow> 'z mem_state_scheme \<Rightarrow> bool" where
  "grew d L s L' t \<longleftrightarrow> mem_step s t \<and> vspace d L' t \<and> (\<exists>k. L' = drop k L) \<and>
     dir_pages (ram s) d \<subseteq> dir_pages (ram t) d \<and> dir_pages (ram t) d \<union> set L' = dir_pages (ram s) d \<union> set L \<and>
     only (dir_pages (ram t) d) (ram s) (ram t)"

lemma grew_refl: "vspace d L s \<Longrightarrow> grew d L s L s"
  by (auto simp: grew_def intro: exI [of _ 0])

lemma grew_trans:
  assumes "grew d L s L' t" and "grew d L' t L'' u"
  shows "grew d L s L'' u"
proof -
  from assms obtain k k' where k: "L' = drop k L" "L'' = drop k' L'" by (auto simp: grew_def)
  have "set L' \<subseteq> set L" by (simp add: k(1) set_drop_subset)
  moreover have "only (dir_pages (ram u) d) (ram s) (ram u)"
  proof (rule only_mono)
    show "only (dir_pages (ram t) d \<union> dir_pages (ram u) d) (ram s) (ram u)"
      using assms by (auto simp: grew_def intro: only_trans)
  qed (use assms in \<open>auto simp: grew_def\<close>)
  moreover have "\<exists>i. L'' = drop i L" using k by auto
  ultimately show ?thesis using assms mem_step_trans [of s t u] unfolding grew_def by blast
qed

lemma grew_frame:
  assumes "grew d L s L' t" "page_ok (kend s) q" "q \<notin> dir_pages (ram s) d" "q \<notin> set L" "k < 4096"
  shows "ram t (unat q + k) = ram s (unat q + k)"
proof (rule only_page [OF _ _ assms(2) _ assms(5)])
  show "only (dir_pages (ram t) d) (ram s) (ram t)" using assms(1) by (simp add: grew_def)
  show "pages_ok (kend s) (dir_pages (ram t) d)"
    using assms(1) mem_step_same(2) [of s t] by (simp add: grew_def vspace_def dir_ok_def)
  show "q \<notin> dir_pages (ram t) d" using assms(1,3,4) by (auto simp: grew_def)
qed

lemma add_table_step:
  assumes "vspace d (p # L) s" "i < 1024" "\<not> present (pde (ram s) d i)" "P2V (PTE_ADDR w) = p" "present w"
  defines "t \<equiv> poke32 (unat d + 4 * i) w (s\<lparr>freelist := next_free s, ram := memset (ram s) (unat p) 0 4096\<rparr>)"
  shows "grew d (p # L) s L t" and "\<forall>v<1048576. pte (ram t) d v = pte (ram s) d v" and "pde (ram t) d i = w"
proof -
  have v: "quiet s" "free_list s (p # L)" "dir_ok (kend s) (ram s) d" "p \<notin> dir_pages (ram s) d"
      "set L \<inter> dir_pages (ram s) d = {}" using assms(1) by (auto simp: vspace_def)
  have p: "page_ok (kend s) p" using v(2) by (simp add: free_list_def)
  let ?m = "store32 (memset (ram s) (unat p) 0 4096) (unat d + 4 * i) w"
  have rt: "ram t = ?m" by (simp add: t_def poke32_def)
  note a = add_table [OF v(3) assms(2,3) p v(4) assms(4,5), folded rt]
  show "\<forall>v<1048576. pte (ram t) d v = pte (ram s) d v" "pde (ram t) d i = w" using a by simp_all
  let ?s = "s\<lparr>freelist := next_free s\<rparr>"
  have "free_list ?s L" using free_list_take [OF v(2)] by simp
  then have "free_list (?s\<lparr>ram := ?m\<rparr>) L"
    by (rule free_list_only [where P = "{p, d}"])
      (use a(4) rt p v dir_ok_pages(1) [OF v(3)] in \<open>auto simp: free_list_def dir_pages_def\<close>)
  moreover have t: "t = ?s\<lparr>ram := ?m\<rparr>" by (simp add: t_def poke32_def)
  moreover have "only (dir_pages (ram t) d) (ram s) (ram t)"
    using only_mono [OF a(4)] a(2) by (simp add: dir_pages_def)
  ultimately show "grew d (p # L) s L t"
    using a(2,3) v unfolding grew_def vspace_def
    by (auto simp: mem_step_def free_list_def intro: exI [of _ 1])
qed

lemma PDX_less: "unat (va :: u32) div 4194304 < 1024"
proof -
  have "unat va < 4294967296" using unsigned_less [of va] by simp
  then show ?thesis by simp
qed

lemma pde_addr: "page_ok e d \<Longrightarrow> unat (d + 4 * PDX va) = unat d + 4 * (unat va div 4194304)"
proof -
  assume "page_ok e d"
  moreover note PDX_less [of va]
  ultimately have "unat (d + of_nat (4 * (unat va div 4194304))) = unat d + 4 * (unat va div 4194304)"
    by (intro unat_in_page page_ok_align) auto
  moreover have "4 * PDX va = of_nat (4 * (unat va div 4194304))" by (simp add: unat_PDX [symmetric])
  ultimately show ?thesis by simp
qed

lemma pte_addr: "page_ok e p \<Longrightarrow> unat (p + 4 * PTX va) = unat p + 4 * (unat va div 4096 mod 1024)"
proof -
  assume "page_ok e p"
  moreover have "unat va div 4096 mod 1024 < 1024" by simp
  ultimately have "unat (p + of_nat (4 * (unat va div 4096 mod 1024))) = unat p + 4 * (unat va div 4096 mod 1024)"
    by (intro unat_in_page page_ok_align) auto
  moreover have "4 * PTX va = of_nat (4 * (unat va div 4096 mod 1024))" by (simp add: unat_PTX [symmetric])
  ultimately show ?thesis by simp
qed

lemma V2P_aligned: "page_ok e p \<Longrightarrow> aligned (V2P p)"
proof -
  assume p: "page_ok e p"
  then obtain a where a: "unat p = 4096 * a" using page_ok_aligned [OF p] by auto
  have "unat (V2P p) = unat p - 0x80000000"
    using page_ok_range [OF p] by (simp add: V2P_def KERNBASE_def unat_sub_if' word_le_nat_alt)
  also have "\<dots> = 4096 * (a - 524288)" using a by simp
  finally show ?thesis by (simp add: aligned_def)
qed

lemma present_odd: "present e \<longleftrightarrow> odd e"
  by (simp add: present_def PTE_P_def and_one_eq odd_iff_mod_2_eq_one)

lemma present_or: "present (or a b) \<longleftrightarrow> present a \<or> present b"
  by (simp add: present_odd even_or_iff)

lemma table_entry:
  assumes "page_ok e p"
  shows "P2V (PTE_ADDR (or (or (or (V2P p) PTE_P) PTE_W) PTE_U)) = p" and "present (or (or (or (V2P p) PTE_P) PTE_W) PTE_U)"
proof -
  have "PTE_ADDR (or (V2P p) 7) = V2P p" using V2P_aligned [OF assms] by (intro PTE_ADDR_or) simp_all
  moreover have "or (or (or (V2P p) PTE_P) PTE_W) PTE_U = or (V2P p) 7"
    by (simp add: PTE_P_def PTE_W_def PTE_U_def or.assoc)
  ultimately show "P2V (PTE_ADDR (or (or (or (V2P p) PTE_P) PTE_W) PTE_U)) = p" by simp
  show "present (or (or (or (V2P p) PTE_P) PTE_W) PTE_U)"
    by (simp add: present_or PTE_P_def) (simp add: present_odd)
qed

text \<open>\<open>walkpgdir\<close> with allocation: the address of the entry, with a page table added if there was none.\<close>

lemma walkpgdir_alloc:
  assumes "vspace d L s"
  obtains (full) "L = []" "walkpgdir d va True s = Ret None s"
  | (slot) t L' where "walkpgdir d va True s = Ret (Some (tab (ram t) d (unat va div 4194304) + 4 * PTX va)) t"
      "grew d L s L' t" "length L \<le> length L' + 1" "present (pde (ram t) d (unat va div 4194304))"
      "\<forall>v<1048576. pte (ram t) d v = pte (ram s) d v"
proof -
  let ?i = "unat va div 4194304"
  have i: "?i < 1024" by (rule PDX_less)
  have v: "quiet s" "free_list s L" "dir_ok (kend s) (ram s) d" using assms by (auto simp: vspace_def)
  have pd: "peek32 (d + 4 * PDX va) s = pde (ram s) d ?i"
    by (simp add: peek32_def pde_def pde_addr [OF dir_ok_pages(1) [OF v(3)]])
  show thesis
  proof (cases "present (pde (ram s) d ?i)")
    case True
    then show thesis using pd assms by (intro slot [of s L]) (auto simp: walkpgdir_def present_def tab_def grew_refl)
  next
    case False
    note absent = this
    show thesis
    proof (cases L)
      case Nil
      then have "s\<lparr>freelist := next_free s\<rparr> = s" using v(2) by (simp add: free_list_empty next_free_def upd_same_freelist)
      then show thesis using Nil v pd absent by (intro full) (auto simp: walkpgdir_def present_def kalloc_quiet free_list_empty)
    next
      case (Cons p K)
      let ?w = "or (or (or (V2P p) PTE_P) PTE_W) PTE_U"
      have p: "freelist s = p" "p \<noteq> 0" using free_list_take [of s p K] v(2) Cons by auto
      have pok: "page_ok (kend s) p" using v(2) Cons by (simp add: free_list_def)
      note a = add_table_step [OF assms [unfolded Cons] i absent table_entry [OF pok]]
      let ?t = "poke32 (unat d + 4 * ?i) ?w (s\<lparr>freelist := next_free s, ram := memset (ram s) (unat p) 0 4096\<rparr>)"
      have t: "tab (ram ?t) d ?i = p" using a(3) table_entry(1) [OF pok] by (simp add: tab_def)
      have "walkpgdir d va True s = Ret (Some (p + 4 * PTX va)) ?t"
        using v pd absent p pde_addr [OF dir_ok_pages(1) [OF v(3)]] by (simp add: walkpgdir_def present_def kalloc_quiet Let_def)
      then show thesis using a table_entry(2) [OF pok] t Cons by (intro slot [of ?t K]) auto
    qed
  qed
qed

lemma vpn_split: "v = unat (va :: u32) div 4096 \<Longrightarrow> v div 1024 = unat va div 4194304 \<and> 1024 * (unat va div 4194304) + v mod 1024 = v"
  using div_mult2_eq [of "unat va" 4096 1024] mult_div_mod_eq [of 1024 v] by simp

lemma set_pte_step:
  fixes w va :: u32
  assumes "vspace d L s" "present (pde (ram s) d (unat va div 4194304))"
  defines "a \<equiv> tab (ram s) d (unat va div 4194304) + 4 * PTX va" and "v \<equiv> unat va div 4096"
  shows "peek32 a s = pte (ram s) d v" and "grew d L s L (poke32 (unat a) w s)"
    and "\<forall>u<1048576. pte (ram (poke32 (unat a) w s)) d u = (if u = v then w else pte (ram s) d u)"
    and "dir_pages (ram (poke32 (unat a) w s)) d = dir_pages (ram s) d"
proof -
  let ?i = "unat va div 4194304" and ?j = "v mod 1024"
  have q: "quiet s" "free_list s L" "dir_ok (kend s) (ram s) d" "set L \<inter> dir_pages (ram s) d = {}"
    using assms(1) by (auto simp: vspace_def)
  note i = PDX_less [of va]
  have v: "v div 1024 = ?i" "1024 * ?i + ?j = v" using vpn_split [of v va] by (simp_all add: v_def)
  have a: "unat a = unat (tab (ram s) d ?i) + 4 * ?j"
    unfolding a_def v_def by (rule pte_addr [OF dir_ok_pages(2) [OF q(3) i assms(2)]])
  show "peek32 a s = pte (ram s) d v" using assms(2) v(1) by (simp add: peek32_def a pte_def)
  note p = set_pte [OF q(3) i assms(2), where j = ?j and w = w, folded a]
  show "\<forall>u<1048576. pte (ram (poke32 (unat a) w s)) d u = (if u = v then w else pte (ram s) d u)"
    using p(1) v(2) by (simp add: poke32_def)
  show "dir_pages (ram (poke32 (unat a) w s)) d = dir_pages (ram s) d" using p(2) by (simp add: poke32_def)
  have t: "tab (ram s) d ?i \<in> dir_pages (ram s) d" "page_ok (kend s) (tab (ram s) d ?i)"
    using dir_ok_pages [OF q(3)] i assms(2) by auto
  have "free_list (s\<lparr>ram := store32 (ram s) (unat a) w\<rparr>) L"
    using q(2) p(4) by (rule free_list_only) (use t q(4) in auto)
  then show "grew d L s L (poke32 (unat a) w s)"
    using p q t only_mono [OF p(4), of "dir_pages (ram s) d"] unfolding grew_def vspace_def
    by (auto simp: poke32_def mem_step_def intro: exI [of _ 0])
qed

text \<open>The entry \<open>mappages\<close> writes for the page \<open>k\<close> places after the first.\<close>

definition map_entry :: "u32 \<Rightarrow> u32 \<Rightarrow> nat \<Rightarrow> u32" where
  "map_entry pa perm k = or (or (pa + of_nat (4096 * k)) perm) PTE_P"

lemma map_one:
  assumes "vspace d L s" "unat a = 4096 * v" "\<not> present (pte (ram s) d v)"
  obtains (full) "L = []" "walkpgdir d a True s = Ret None s"
  | (slot) x t L' where "walkpgdir d a True s = Ret (Some x) t" "and (peek32 x t) PTE_P = 0"
      "\<And>w. grew d L s L' (poke32 (unat x) w t)" "length L \<le> length L' + 1"
      "\<And>w. \<forall>u<1048576. pte (ram (poke32 (unat x) w t)) d u = (if u = v then w else pte (ram s) d u)"
proof -
  have v: "unat a div 4096 = v" using assms(2) by simp
  have vl: "v < 1048576" using PDX_less [of a] assms(2) by simp
  from assms(1) show thesis
  proof (cases rule: walkpgdir_alloc [where va = a])
    case f: full
    then show thesis by (rule full)
  next
    case (slot t L')
    have vs: "vspace d L' t" using slot(2) by (simp add: grew_def)
    note st = set_pte_step [OF vs slot(4), unfolded v]
    show thesis
    proof (rule that(2) [OF slot(1)])
      show "and (peek32 (tab (ram t) d (unat a div 4194304) + 4 * PTX a) t) PTE_P = 0"
        using st(1) slot(5) vl assms(3) by (simp add: present_def)
    qed (use st slot grew_trans [OF slot(2)] in auto)
  qed
qed

text \<open>What mapping \<open>n + 1\<close> pages from \<open>v\<close> on leaves: all the entries, or an empty free list.\<close>

definition map_result ::
  "u32 \<Rightarrow> nat \<Rightarrow> nat \<Rightarrow> u32 \<Rightarrow> u32 \<Rightarrow> u32 list \<Rightarrow> 'z mem_state_scheme \<Rightarrow> int \<Rightarrow> u32 list \<Rightarrow> 'z mem_state_scheme \<Rightarrow> bool" where
  "map_result d v n pa perm L s r L' t \<longleftrightarrow> grew d L s L' t \<and>
    (r = 0 \<and> length L \<le> length L' + n + 1 \<and>
       (\<forall>u<1048576. pte (ram t) d u = (if v \<le> u \<and> u \<le> v + n then map_entry pa perm (u - v) else pte (ram s) d u)) \<or>
     r = -1 \<and> L' = [] \<and> length L \<le> n \<and> (\<forall>u<1048576. u < v \<or> v + n < u \<longrightarrow> pte (ram t) d u = pte (ram s) d u))"

lemma map_result_Suc:
  assumes "map_result d v 0 pa perm L s 0 L' t" "map_result d (Suc v) n (pa + PGSIZE) perm L' t r L'' u"
  shows "map_result d v (Suc n) pa perm L s r L'' u"
proof -
  have g: "grew d L s L'' u" "r = 0 \<Longrightarrow> length L \<le> length L'' + Suc n + 1" "r = -1 \<Longrightarrow> length L \<le> Suc n"
    using assms grew_trans [of d L s L' t L'' u] by (auto simp: map_result_def)
  have p: "pte (ram t) d w = (if w = v then map_entry pa perm 0 else pte (ram s) d w)" if "w < 1048576" for w
    using assms(1) that by (auto simp: map_result_def)
  have e: "map_entry (pa + PGSIZE) perm (w - Suc v) = map_entry pa perm (w - v)" if "Suc v \<le> w" for w
  proof -
    have "w - v = Suc (w - Suc v)" using that by simp
    then show ?thesis by (simp add: map_entry_def PGSIZE_def algebra_simps)
  qed
  have "pte (ram u) d w = (if v \<le> w \<and> w \<le> v + Suc n then map_entry pa perm (w - v) else pte (ram s) d w)"
    if "r = 0" "w < 1048576" for w
    using assms(2) p e [of w] that by (cases "w = v") (auto simp: map_result_def not_le)
  moreover have "pte (ram u) d w = pte (ram s) d w" if "r = -1" "w < 1048576" "w < v \<or> v + Suc n < w" for w
    using assms(2) p [of w] that by (auto simp: map_result_def)
  ultimately show ?thesis using g assms(2) unfolding map_result_def by blast
qed

lemma mappages_loop_spec:
  assumes "vspace d L s" "unat a = 4096 * v" "v + n < 1048576" "\<forall>k\<le>n. \<not> present (pte (ram s) d (v + k))"
  shows "\<exists>r t L'. mappages_loop d a n pa perm s = Ret r t \<and> map_result d v n pa perm L s r L' t"
  using assms
proof (induction n arbitrary: a v pa s L)
  case 0
  have np: "\<not> present (pte (ram s) d v)" using "0.prems"(4) by simp
  from "0.prems"(1,2) np show ?case
  proof (cases rule: map_one)
    case full
    then show ?thesis using grew_refl [OF "0.prems"(1)] by (auto simp: map_result_def)
  next
    case (slot x t L')
    let ?t = "poke32 (unat x) (map_entry pa perm 0) t"
    have "mappages_loop d a 0 pa perm s = Ret 0 ?t" using slot(1,2) by (simp add: map_entry_def)
    moreover have "map_result d v 0 pa perm L s 0 L' ?t" using slot(3-5) by (auto simp: map_result_def)
    ultimately show ?thesis by blast
  qed
next
  case (Suc n)
  have np: "\<not> present (pte (ram s) d v)" using Suc.prems(4) by (metis add.right_neutral le0)
  from Suc.prems(1,2) np show ?case
  proof (cases rule: map_one)
    case full
    then show ?thesis using grew_refl [OF Suc.prems(1)] by (auto simp: map_result_def)
  next
    case (slot x t L')
    let ?t = "poke32 (unat x) (map_entry pa perm 0) t"
    have m: "mappages_loop d a (Suc n) pa perm s = mappages_loop d (a + PGSIZE) n (pa + PGSIZE) perm ?t"
      using slot(1,2) by (simp add: map_entry_def)
    have 1: "map_result d v 0 pa perm L s 0 L' ?t" using slot(3-5) by (auto simp: map_result_def)
    have "unat (a + PGSIZE) = 4096 * Suc v"
      using Suc.prems(2,3) by (simp add: PGSIZE_def unat_word_ariths)
    moreover have "\<forall>k\<le>n. \<not> present (pte (ram ?t) d (Suc v + k))"
      using slot(5) [of "map_entry pa perm 0"] Suc.prems(3,4) by auto
    moreover have "vspace d L' ?t" using 1 by (simp add: map_result_def grew_def)
    ultimately have "\<exists>r u L''. mappages_loop d (a + PGSIZE) n (pa + PGSIZE) perm ?t = Ret r u \<and>
        map_result d (Suc v) n (pa + PGSIZE) perm L' ?t r L'' u"
      using Suc.prems(3) by (intro Suc.IH) auto
    then show ?thesis using map_result_Suc [OF 1] m by metis
  qed
qed

lemma unat_PGROUNDDOWN: "unat (PGROUNDDOWN a) = 4096 * (unat a div 4096)"
proof -
  have "PGSIZE - 1 = mask 12" by (simp add: PGSIZE_def mask_eq_exp_minus_1)
  then have "PGROUNDDOWN a + and a (mask 12) = a"
    unfolding PGROUNDDOWN_def by (subst disjunctive_add) (auto simp: bit_simps intro!: bit_word_eqI)
  then have "PGROUNDDOWN a = a - and a (mask 12)" by (metis add_diff_cancel_right')
  moreover have "and a (mask 12) \<le> a" by (simp add: word_le_nat_alt unat_and_mask)
  ultimately have "unat (PGROUNDDOWN a) = unat a - unat a mod 4096" by (simp add: unat_sub unat_and_mask)
  then show ?thesis by (simp add: minus_mod_eq_mult_div)
qed

text \<open>\<open>mappages\<close> for a range that does not wrap around: every page that meets the range.\<close>

lemma mappages_spec:
  assumes "vspace d L s" "0 < unat sz" "unat va + unat sz \<le> 4294967296"
    and "\<forall>u. unat va div 4096 \<le> u \<and> u \<le> (unat va + unat sz - 1) div 4096 \<longrightarrow> \<not> present (pte (ram s) d u)"
  shows "\<exists>r t L'. mappages d va sz pa perm s = Ret r t \<and>
    map_result d (unat va div 4096) ((unat va + unat sz - 1) div 4096 - unat va div 4096) pa perm L s r L' t"
proof -
  let ?v = "unat va div 4096" and ?l = "(unat va + unat sz - 1) div 4096"
  have "unat (sz - 1) = unat sz - 1" using assms(2) by (intro unat_minus_one) auto
  then have "unat (va + (sz - 1)) = unat va + (unat sz - 1)"
    using assms(2,3) by (subst unat_add_lem [THEN iffD1]) auto
  then have "unat (va + sz - 1) = unat va + unat sz - 1" using assms(2) by (simp add: add_diff_eq)
  then have "unat (PGROUNDDOWN (va + sz - 1)) = 4096 * ?l" by (simp add: unat_PGROUNDDOWN)
  moreover have "?v \<le> ?l" using assms(2) by (intro div_le_mono) simp
  ultimately have "unat ((PGROUNDDOWN (va + sz - 1) - PGROUNDDOWN va) div PGSIZE) = ?l - ?v"
    by (simp add: unat_div unat_sub word_le_nat_alt unat_PGROUNDDOWN PGSIZE_def diff_mult_distrib2 [symmetric])
  moreover have "?v + (?l - ?v) < 1048576" using \<open>?v \<le> ?l\<close> assms(2,3) by auto
  moreover have "\<forall>k\<le>?l - ?v. \<not> present (pte (ram s) d (?v + k))"
  proof (intro allI impI)
    fix k
    assume "k \<le> ?l - ?v"
    then have "?v + k \<le> ?l" using \<open>?v \<le> ?l\<close> by linarith
    then show "\<not> present (pte (ram s) d (?v + k))" using assms(4) by simp
  qed
  ultimately show ?thesis using mappages_loop_spec [OF assms(1) unat_PGROUNDDOWN, of va "?l - ?v" pa perm]
    by (simp add: mappages_def Let_def del: mappages_loop.simps)
qed

lemma mappages_page:
  assumes "vspace d L s" "unat a = 4096 * v" "\<not> present (pte (ram s) d v)"
  obtains (full) "L = []" "mappages d a PGSIZE pa perm s = Ret (-1) s"
  | (mapped) t L' where "mappages d a PGSIZE pa perm s = Ret 0 t" "grew d L s L' t" "length L \<le> length L' + 1"
      "\<forall>u<1048576. pte (ram t) d u = (if u = v then map_entry pa perm 0 else pte (ram s) d u)"
proof -
  have "v < 1048576" using PDX_less [of a] assms(2) by simp
  then have "unat (a + PGSIZE - 1) = 4096 * v + 4095" using assms(2) by (simp add: PGSIZE_def unat_word_ariths)
  then have r: "PGROUNDDOWN (a + PGSIZE - 1) = a" "PGROUNDDOWN a = a"
    using assms(2) by (simp_all add: word_unat_eq_iff unat_PGROUNDDOWN)
  then have m: "mappages d a PGSIZE pa perm s = mappages_loop d a 0 pa perm s"
    by (simp add: mappages_def Let_def del: mappages_loop.simps)
  from assms show thesis
  proof (cases rule: map_one)
    case f: full
    then show thesis using m by (intro full) simp_all
  next
    case (slot x t L')
    show thesis
    proof (rule mapped)
      show "mappages d a PGSIZE pa perm s = Ret 0 (poke32 (unat x) (map_entry pa perm 0) t)"
        using m slot(1,2) by (simp add: map_entry_def)
    qed (use slot in auto)
  qed
qed

lemma grew_only:
  assumes "grew d L s L' t"
  shows "only (dir_pages (ram t) d) (ram s) (ram t)" "pages_ok (kend s) (dir_pages (ram t) d)"
  using assms mem_step_same(2) [of s t] by (simp_all add: grew_def vspace_def dir_ok_def)

text \<open>Taking a page \<open>p\<close> off the free list and writing to it.\<close>

lemma take_page:
  assumes "vspace d (p # L) s" "only {p} (ram s) m"
  defines "t \<equiv> s\<lparr>freelist := next_free s, ram := m\<rparr>"
  shows "kalloc s = Ret p (s\<lparr>freelist := next_free s\<rparr>)" "p \<noteq> 0" "vspace d L t" "mem_step s t"
    "\<forall>u<1048576. pte (ram t) d u = pte (ram s) d u" "dir_pages (ram t) d = dir_pages (ram s) d"
    "page_ok (kend s) p" "p \<notin> dir_pages (ram s) d" "p \<notin> set L" "ram t = m" "kend t = kend s"
proof -
  have v: "quiet s" "free_list s (p # L)" "dir_ok (kend s) (ram s) d" "p \<notin> dir_pages (ram s) d" "set L \<inter> dir_pages (ram s) d = {}"
    using assms(1) by (auto simp: vspace_def)
  then show p: "page_ok (kend s) p" "p \<notin> dir_pages (ram s) d" "p \<notin> set L" by (simp_all add: free_list_def)
  note f = free_list_take [OF v(2)]
  show "kalloc s = Ret p (s\<lparr>freelist := next_free s\<rparr>)" "p \<noteq> 0" using f v(1) by (simp_all add: kalloc_quiet)
  show rt: "ram t = m" and "kend t = kend s" by (simp_all add: t_def)
  note dd = dir_only [OF v(3) assms(2), unfolded pages_ok_simps]
  show "\<forall>u<1048576. pte (ram t) d u = pte (ram s) d u" "dir_pages (ram t) d = dir_pages (ram s) d"
    using dd p v(4) unfolding rt by auto
  show "mem_step s t" by (simp add: t_def mem_step_def)
  have "free_list (s\<lparr>freelist := next_free s, ram := m\<rparr>) L"
    by (rule free_list_only [where P = "{p}"]) (use f assms(2) p in auto)
  then have "free_list t L" by (simp add: t_def)
  then show "vspace d L t" using dd v p by (auto simp: vspace_def t_def)
qed

end
