(* ===== verification/AddrSpace.thy ===== *)
theory AddrSpace
  imports PageTables
begin

text \<open>
  Address spaces: \<open>umem\<close> is the memory a user program sees through its page tables. Growing (\<open>allocuvm\<close>), shrinking
  (\<open>deallocuvm\<close>), copying (\<open>copyuvm\<close>) and freeing (\<open>freevm\<close>) an address space are shown to do to \<open>umem\<close> what they should, and to
  take from and return to the page allocator exactly the pages they use.
\<close>

section \<open>The memory a process sees\<close>

definition frame :: "u32 \<Rightarrow> u32" where "frame e = P2V (PTE_ADDR e)"

definition PTE_PU :: u32 where "PTE_PU = or PTE_P PTE_U"

text \<open>The byte a user program finds at address \<open>x\<close>, or \<open>None\<close> where an access faults.\<close>

definition umem :: "buffer \<Rightarrow> u32 \<Rightarrow> nat \<Rightarrow> u8 option" where
  "umem m d x = (let e = pte m d (x div 4096)
     in if and e PTE_PU = PTE_PU then Some (m (unat (frame e) + x mod 4096)) else None)"

definition upages :: "buffer \<Rightarrow> u32 \<Rightarrow> nat set" where
  "upages m d = {v. v < 524288 \<and> present (pte m d v)}"

text \<open>User pages have frames of their own, apart from the page tables and the free pages.\<close>

definition uspace :: "u32 \<Rightarrow> u32 list \<Rightarrow> 'z mem_state_scheme \<Rightarrow> bool" where
  "uspace d L s \<longleftrightarrow> vspace d L s \<and>
     (let F = (\<lambda>v. frame (pte (ram s) d v)) in
        inj_on F (upages (ram s) d) \<and>
        (\<forall>v\<in>upages (ram s) d. page_ok (kend s) (F v) \<and> F v \<notin> dir_pages (ram s) d \<and> F v \<notin> set L))"

lemma uspace_frame:
  assumes "uspace d L s" "v \<in> upages (ram s) d"
  shows "page_ok (kend s) (frame (pte (ram s) d v))" "frame (pte (ram s) d v) \<notin> dir_pages (ram s) d"
    "frame (pte (ram s) d v) \<notin> set L"
  using assms by (auto simp: uspace_def Let_def)

lemma umem_present: "umem m d x \<noteq> None \<Longrightarrow> present (pte m d (x div 4096))"
proof -
  assume "umem m d x \<noteq> None"
  then have "and (pte m d (x div 4096)) PTE_PU = PTE_PU" by (auto simp: umem_def Let_def split: if_splits)
  then have "odd (and (pte m d (x div 4096)) PTE_PU)" by (simp add: PTE_PU_def PTE_P_def PTE_U_def)
  then show ?thesis by (simp add: present_odd even_and_iff)
qed

lemma translate_eq:
  assumes "dir_ok (kend s) (ram s) d" "odd need"
  shows "translate d need va s = (let e = pte (ram s) d (unat va div 4096) in
    if and e need = need then Some (frame e + and va 0xFFF) else None)"
proof -
  let ?i = "unat va div 4194304"
  have pd: "peek32 (d + 4 * PDX va) s = pde (ram s) d ?i"
    by (simp add: peek32_def pde_def pde_addr [OF dir_ok_pages(1) [OF assms(1)]])
  have i: "unat va div 4096 div 1024 = ?i" using vpn_split [of _ va] by simp
  show ?thesis
  proof (cases "present (pde (ram s) d ?i)")
    case True
    have "peek32 (tab (ram s) d ?i + 4 * PTX va) s = pte (ram s) d (unat va div 4096)"
      using True i pte_addr [OF dir_ok_pages(2) [OF assms(1) PDX_less True]] by (simp add: peek32_def pte_def)
    then show ?thesis using True pd by (simp add: translate_def present_def tab_def frame_def Let_def)
  next
    case False
    then have "pte (ram s) d (unat va div 4096) = 0" using i by (simp add: pte_def)
    then show ?thesis using False pd assms(2) by (auto simp: translate_def present_def Let_def)
  qed
qed

text \<open>Memory outside the page tables and the frames does not matter.\<close>

lemma umem_cong:
  assumes "pte m' d (x div 4096) = pte m d (x div 4096)"
    and "present (pte m d (x div 4096)) \<Longrightarrow> m' (unat (frame (pte m d (x div 4096))) + x mod 4096) = m (unat (frame (pte m d (x div 4096))) + x mod 4096)"
  shows "umem m' d x = umem m d x"
  using assms umem_present [of m d x] by (cases "umem m d x = None") (auto simp: umem_def Let_def split: if_splits)

lemma umem_only:
  assumes "uspace d L s" "only P (ram s) m'" "pages_ok (kend s) P" "y < 2147483648"
    and "pte m' d (y div 4096) = pte (ram s) d (y div 4096)"
    and "y div 4096 \<in> upages (ram s) d \<Longrightarrow> frame (pte (ram s) d (y div 4096)) \<notin> P"
  shows "umem m' d y = umem (ram s) d y"
proof (rule umem_cong [OF assms(5)])
  assume "present (pte (ram s) d (y div 4096))"
  then have u: "y div 4096 \<in> upages (ram s) d" using assms(4) by (simp add: upages_def)
  show "m' (unat (frame (pte (ram s) d (y div 4096))) + y mod 4096) = ram s (unat (frame (pte (ram s) d (y div 4096))) + y mod 4096)"
    using only_page [OF assms(2,3) uspace_frame(1) [OF assms(1) u] assms(6) [OF u]] by simp
qed

lemma frame_entry:
  assumes "page_ok e p" "unat perm < 4096"
  shows "frame (map_entry (V2P p) perm 0) = p"
proof -
  have "or (or (V2P p) perm) PTE_P = or (V2P p) (or perm 1)" by (simp add: PTE_P_def or.assoc)
  moreover have "unat (or perm 1) < 4096"
  proof -
    have "take_bit 12 perm = perm" using assms(2) by (simp add: take_bit_eq_mask word_unat_eq_iff unat_and_mask)
    then have "take_bit 12 (or perm 1) = or perm 1" by simp
    then have "unat (or perm 1) = unat (or perm 1) mod 4096"
      using unat_and_mask [of "or perm 1" 12] by (simp add: take_bit_eq_mask)
    then show ?thesis by (metis mod_less_divisor zero_less_numeral)
  qed
  ultimately show ?thesis using PTE_ADDR_or [OF V2P_aligned [OF assms(1)]] by (simp add: frame_def map_entry_def)
qed

lemma entry_present: "present (map_entry pa perm k)"
  by (simp add: map_entry_def present_or PTE_P_def) (simp add: present_odd)

lemma entry_PU:
  assumes "page_ok e p" "unat perm < 4096"
  shows "and (map_entry (V2P p) perm 0) PTE_PU = and (or perm PTE_P) PTE_PU"
proof -
  have "and (V2P p) (mask 12) = 0" using V2P_aligned [OF assms(1)] by (simp add: aligned_mask)
  moreover have "PTE_PU = and (mask 12) PTE_PU" by (simp add: PTE_PU_def PTE_P_def PTE_U_def mask_eq_exp_minus_1)
  ultimately have "and (V2P p) PTE_PU = 0"
    using and.assoc [of "V2P p" "mask 12" PTE_PU] by simp
  moreover have "and (or (or (V2P p) perm) PTE_P) PTE_PU = or (and (V2P p) PTE_PU) (and (or perm PTE_P) PTE_PU)"
    by (rule bit_word_eqI) (auto simp: bit_simps)
  ultimately show ?thesis by (simp add: map_entry_def)
qed

text \<open>A user page added to an address space, with a frame taken from the free pages.\<close>

lemma uspace_add:
  assumes "uspace d (p # L) s" "vspace d L' t" "kend t = kend s" "dir_pages (ram t) d \<subseteq> dir_pages (ram s) d \<union> set L"
    "set L' \<subseteq> set L" "v < 524288" "v \<notin> upages (ram s) d" "present e" "frame e = p"
    and pt: "\<forall>u<1048576. pte (ram t) d u = (if u = v then e else pte (ram s) d u)"
  shows "uspace d L' t" "upages (ram t) d = insert v (upages (ram s) d)"
proof -
  show up: "upages (ram t) d = insert v (upages (ram s) d)" using pt assms(6,8) by (auto simp: upages_def)
  have p: "page_ok (kend s) p" "p \<notin> dir_pages (ram s) d" "p \<notin> set L"
    using assms(1) by (auto simp: uspace_def vspace_def free_list_def)
  have F: "frame (pte (ram t) d v) = p" "u \<in> upages (ram s) d \<Longrightarrow> frame (pte (ram t) d u) = frame (pte (ram s) d u)" for u
    using pt assms(6,7,9) by (auto simp: upages_def)
  have "inj_on (\<lambda>u. frame (pte (ram s) d u)) (upages (ram s) d)" using assms(1) by (simp add: uspace_def Let_def)
  then have "inj_on (\<lambda>u. frame (pte (ram t) d u)) (upages (ram s) d)" using F(2) by (simp add: inj_on_def)
  moreover have "p \<noteq> frame (pte (ram s) d u)" if "u \<in> upages (ram s) d" for u using uspace_frame(3) [OF assms(1) that] by auto
  then have "frame (pte (ram t) d v) \<notin> (\<lambda>u. frame (pte (ram t) d u)) ` upages (ram s) d" using F by auto
  ultimately have "inj_on (\<lambda>u. frame (pte (ram t) d u)) (insert v (upages (ram s) d))" using assms(7) by simp
  moreover have "page_ok (kend t) (frame (pte (ram t) d u)) \<and> frame (pte (ram t) d u) \<notin> dir_pages (ram t) d \<and>
      frame (pte (ram t) d u) \<notin> set L'" if "u \<in> upages (ram t) d" for u
    using that uspace_frame [OF assms(1), of u] F p assms(3-5) unfolding up by auto
  ultimately show "uspace d L' t" using assms(2) up by (simp add: uspace_def Let_def)
qed

text \<open>Mapping a page that was just taken, with any contents and permissions.\<close>

lemma map_page:
  assumes "uspace d (p # L) s" "only {p} (ram s) m" "unat a = 4096 * v" "v < 524288" "v \<notin> upages (ram s) d" "unat perm < 4096"
  defines "z \<equiv> s\<lparr>freelist := next_free s, ram := m\<rparr>"
  obtains (full) "L = []" "mappages d a PGSIZE (V2P p) perm z = Ret (-1) z"
  | (mapped) t L' where "mappages d a PGSIZE (V2P p) perm z = Ret 0 t" "uspace d L' t" "length L \<le> length L' + 1" "mem_step s t"
      "upages (ram t) d = insert v (upages (ram s) d)" "frame (pte (ram t) d v) = p"
      "\<forall>u<1048576. u \<noteq> v \<longrightarrow> pte (ram t) d u = pte (ram s) d u" "grew d L z L' t"
      "\<forall>x<2147483648. umem (ram t) d x = (if x div 4096 = v
         then if and (or perm PTE_P) PTE_PU = PTE_PU then Some (m (unat p + x mod 4096)) else None else umem (ram s) d x)"
proof -
  have vs: "vspace d (p # L) s" using assms(1) by (simp add: uspace_def)
  note k = take_page [OF vs assms(2), folded z_def]
  have "\<not> present (pte (ram z) d v)" using assms(4,5) k(5) by (simp add: upages_def)
  from k(3) assms(3) this show thesis
  proof (cases rule: mappages_page [where pa = "V2P p" and perm = perm])
    case f: full
    then show thesis by (rule full)
  next
    case (mapped t L')
    let ?e = "map_entry (V2P p) perm 0"
    have fe: "frame ?e = p" by (rule frame_entry [OF k(7) assms(6)])
    have pt: "\<forall>u<1048576. pte (ram t) d u = (if u = v then ?e else pte (ram s) d u)" using mapped(4) k(5) by auto
    have D: "dir_pages (ram t) d \<subseteq> dir_pages (ram s) d \<union> set L" "set L' \<subseteq> set L" "vspace d L' t" "mem_step z t"
      using mapped(2) k(6) by (auto simp: grew_def dest: in_set_dropD)
    note add = uspace_add [OF assms(1) D(3) _ D(1,2) assms(4,5) entry_present fe pt]
    have ke: "kend t = kend s" using mem_step_same(2) [OF D(4)] k(11) by simp
    have o: "only (insert p (dir_pages (ram t) d)) (ram s) (ram t)" "pages_ok (kend s) (insert p (dir_pages (ram t) d))"
      using only_trans [OF assms(2) grew_only(1) [OF mapped(2), unfolded k(10)]] grew_only(2) [OF mapped(2)] k(7,11) by simp_all
    have um: "umem (ram t) d x = (if x div 4096 = v
         then if and (or perm PTE_P) PTE_PU = PTE_PU then Some (m (unat p + x mod 4096)) else None else umem (ram s) d x)"
      if "x < 2147483648" for x
    proof (cases "x div 4096 = v")
      case True
      have "ram t (unat p + x mod 4096) = m (unat p + x mod 4096)"
        using grew_frame [OF mapped(2), of p "x mod 4096"] k(6-11) by simp
      then show ?thesis using True pt assms(4) fe entry_PU [OF k(7) assms(6)] by (simp add: umem_def Let_def)
    next
      case False
      have "frame (pte (ram s) d (x div 4096)) \<notin> insert p (dir_pages (ram t) d)" if "x div 4096 \<in> upages (ram s) d"
        using uspace_frame [OF assms(1) that] D(1) by auto
      then show ?thesis using umem_only [OF assms(1) o that] pt that False by auto
    qed
    show thesis
      by (rule that(2) [OF mapped(1) add(1) [OF ke] mapped(3) mem_step_trans [OF k(4) D(4)] add(2) [OF ke]])
        (use pt fe assms(4) um mapped(2) in auto)
  qed
qed

lemma zero_page: "only {p} m (memset m (unat p) 0 4096)" "k < 4096 \<Longrightarrow> memset m (unat p) 0 4096 (unat p + k) = 0"
  using only_put [of 0 "replicate 4096 0" p m] by (simp_all add: memset_put_replicate put_bytes_def)

text \<open>One round of \<open>allocuvm\<close> with enough memory: a zeroed page at \<open>a\<close>.\<close>

lemma alloc_page:
  assumes "uspace d (p # L) s" "L \<noteq> []" "unat a = 4096 * v" "v < 524288" "v \<notin> upages (ram s) d"
  shows "\<exists>t L'. allocuvm_round d old new a s = Ret None t \<and> uspace d L' t \<and> length L \<le> length L' + 1 \<and>
    mem_step s t \<and> upages (ram t) d = insert v (upages (ram s) d) \<and>
    (\<forall>x<2147483648. umem (ram t) d x = (if x div 4096 = v then Some 0 else umem (ram s) d x))"
proof -
  have k: "kalloc s = Ret p (s\<lparr>freelist := next_free s\<rparr>)" "p \<noteq> 0"
    using take_page(1,2) [of d p L s "ram s"] assms(1) by (simp_all add: uspace_def)
  have "unat (or PTE_W PTE_U) < 4096" by (simp add: PTE_W_def PTE_U_def)
  with assms(1) zero_page(1) assms(3-5) show ?thesis
  proof (cases rule: map_page)
    case full
    then show ?thesis using assms(2) by simp
  next
    case (mapped t L')
    have "and (or (or PTE_W PTE_U) PTE_P) PTE_PU = PTE_PU" by (simp add: PTE_W_def PTE_U_def PTE_P_def PTE_PU_def)
    then have "\<forall>x<2147483648. umem (ram t) d x = (if x div 4096 = v then Some 0 else umem (ram s) d x)"
      using mapped(9) zero_page(2) by simp
    moreover have "allocuvm_round d old new a s = Ret None t" using k mapped(1) by (simp add: allocuvm_round_def)
    ultimately show ?thesis using mapped(2-5) by blast
  qed
qed

lemma alloc_rounds:
  assumes "uspace d L s" "map unat as = map ((*) 4096) vs" "distinct vs" "\<forall>v\<in>set vs. v < 524288 \<and> \<not> present (pte (ram s) d v)"
    and "2 * length vs \<le> length L"
  shows "\<exists>t L'. kscan as (allocuvm_round d old new) s = Ret None t \<and> uspace d L' t \<and> length L \<le> length L' + 2 * length vs \<and>
    mem_step s t \<and> upages (ram t) d = set vs \<union> upages (ram s) d \<and>
    (\<forall>x<2147483648. umem (ram t) d x = (if x div 4096 \<in> set vs then Some 0 else umem (ram s) d x))"
  using assms
proof (induction vs arbitrary: as L s)
  case Nil
  then show ?case by auto
next
  case (Cons v vs)
  obtain a bs where as: "as = a # bs" "unat a = 4096 * v" "map unat bs = map ((*) 4096) vs" using Cons.prems(2) by (cases as) auto
  obtain p K where L: "L = p # K" "K \<noteq> []" using Cons.prems(5) by (cases L; cases "tl L") auto
  have v: "v < 524288" "v \<notin> upages (ram s) d" using Cons.prems(4) by (auto simp: upages_def)
  from alloc_page [OF Cons.prems(1) [unfolded L(1)] L(2) as(2) v] obtain t K' where
    round: "allocuvm_round d old new a s = Ret None t"
    and t: "uspace d K' t" "length K \<le> length K' + 1" "mem_step s t" "upages (ram t) d = insert v (upages (ram s) d)"
    and u: "\<forall>x<2147483648. umem (ram t) d x = (if x div 4096 = v then Some 0 else umem (ram s) d x)"
    by blast
  have "\<not> present (pte (ram t) d w)" if "w \<in> set vs" for w
    using t(4) Cons.prems(3,4) that by (auto simp: upages_def)
  then obtain t' L' where r: "kscan bs (allocuvm_round d old new) t = Ret None t'" "uspace d L' t'" "length K' \<le> length L' + 2 * length vs"
     "mem_step t t'" "upages (ram t') d = set vs \<union> upages (ram t) d"
    and u': "\<forall>x<2147483648. umem (ram t') d x = (if x div 4096 \<in> set vs then Some 0 else umem (ram t) d x)"
    using Cons.IH [OF t(1) as(3)] Cons.prems(3-5) L t(2) by auto
  have "kscan as (allocuvm_round d old new) s = Ret None t'" using round r(1) as(1) by simp
  moreover have "length L \<le> length L' + 2 * length (v # vs)" using r(3) t(2) L(1) by simp
  moreover have "upages (ram t') d = set (v # vs) \<union> upages (ram s) d" using r(5) t(4) by auto
  moreover have "\<forall>x<2147483648. umem (ram t') d x = (if x div 4096 \<in> set (v # vs) then Some 0 else umem (ram s) d x)"
    using u u' by auto
  ultimately show ?case using r(2) mem_step_trans [OF t(3) r(4)] by blast
qed

lemma unat_PGROUNDUP:
  assumes "unat a \<le> 4294963200"
  shows "unat (PGROUNDUP a) = 4096 * ((unat a + 4095) div 4096)"
proof -
  have "PGROUNDUP a = PGROUNDDOWN (a + 4095)" by (simp add: PGROUNDUP_def PGROUNDDOWN_def PGSIZE_def add.commute)
  moreover have "unat (a + 4095) = unat a + 4095" using assms by (simp add: unat_word_ariths)
  ultimately show ?thesis by (simp add: unat_PGROUNDDOWN)
qed

text \<open>The number of pages a size needs, and the pages between two sizes.\<close>

definition npages :: "u32 \<Rightarrow> nat" where "npages sz = (unat sz + 4095) div 4096"

lemma page_steps_pages:
  assumes "unat a = 4096 * v" "lim < KERNBASE" "v \<le> npages lim"
  shows "map unat (page_steps a lim) = map ((*) 4096) [v..<npages lim]"
proof -
  have l: "unat lim < 2147483648" using assms(2) by (simp add: KERNBASE_def word_less_nat_alt)
  have n: "(unat lim - unat a + 4095) div 4096 = npages lim - v"
  proof (cases "4096 * v \<le> unat lim")
    case True
    then obtain r where "unat lim = 4096 * v + r" using le_Suc_ex by blast
    then show ?thesis using assms(1) by (simp add: npages_def)
  next
    case False
    then have "(unat lim + 4095) div 4096 \<le> v" by simp
    then show ?thesis using False assms(1) by (simp add: npages_def)
  qed
  have "unat (a + of_nat (4096 * k)) = 4096 * (v + k)" if "k < npages lim - v" for k
  proof -
    have "npages lim \<le> 524288" using l by (simp add: npages_def)
    then have "4096 * (v + k) < 4294967296" using that by simp
    moreover from this have "unat (of_nat (4096 * k) :: u32) = 4096 * k"
      by (simp add: unsigned_of_nat take_bit_eq_mod del: of_nat_mult)
    ultimately show ?thesis using assms(1) by (subst unat_add_lem [THEN iffD1]) simp_all
  qed
  then show ?thesis unfolding page_steps_def n by (intro nth_equalityI) auto
qed

text \<open>
  C7: Growing an address space with \<open>allocuvm\<close> adds pages that read as zeroes, keeps what the process could read before, and
  leaves every user page with a frame of its own, apart from the page tables and the free pages.
\<close>

theorem allocuvm_zero_fills:
  assumes "uspace d L s" "old \<le> new" "new < KERNBASE" "2 * (npages new - npages old) \<le> length L"
    and "\<forall>v. npages old \<le> v \<and> v < npages new \<longrightarrow> \<not> present (pte (ram s) d v)"
  shows "\<exists>t L'. allocuvm d old new s = Ret new t \<and> uspace d L' t \<and> mem_step s t \<and>
    (\<forall>x<2147483648. umem (ram t) d x = (if npages old \<le> x div 4096 \<and> x div 4096 < npages new then Some 0 else umem (ram s) d x))"
proof -
  have l: "unat old \<le> unat new" "unat new < 2147483648" using assms(2,3) by (simp_all add: KERNBASE_def word_less_nat_alt word_le_nat_alt)
  then have n: "npages old \<le> npages new" "npages new \<le> 524288" by (simp_all add: npages_def div_le_mono)
  have "unat (PGROUNDUP old) = 4096 * npages old" using l by (simp add: unat_PGROUNDUP npages_def)
  note ps = page_steps_pages [OF this assms(3) n(1)]
  have "\<forall>v\<in>set [npages old..<npages new]. v < 524288 \<and> \<not> present (pte (ram s) d v)" using assms(5) n(2) by auto
  from alloc_rounds [OF assms(1) ps _ this, of old new] obtain t L' where
    "kscan (page_steps (PGROUNDUP old) new) (allocuvm_round d old new) s = Ret None t" "uspace d L' t" "mem_step s t"
    "\<forall>x<2147483648. umem (ram t) d x = (if x div 4096 \<in> set [npages old..<npages new] then Some 0 else umem (ram s) d x)"
    using assms(4) by auto
  then show ?thesis using assms(2,3) by (auto simp: allocuvm_def leD)
qed

section \<open>Giving memory back\<close>

lemma walkpgdir_look:
  assumes "dir_ok (kend s) (ram s) d"
  shows "walkpgdir d va False s = Ret (if present (pde (ram s) d (unat va div 4194304))
    then Some (tab (ram s) d (unat va div 4194304) + 4 * PTX va) else None) s"
  by (simp add: walkpgdir_def peek32_def pde_def pde_addr [OF dir_ok_pages(1) [OF assms]] present_def tab_def)

lemma freed_only: "only {p} (ram s) (ram (freed p s))"
  by (auto simp: only_def page_def freed_frame)

lemma upages_slot: "v \<in> upages m d \<Longrightarrow> present (pde m d (v div 1024))"
  by (auto simp: upages_def pte_def present_odd split: if_splits)

text \<open>Freeing the frame of a user page and clearing its entry.\<close>

lemma free_page:
  assumes "uspace d L s" "v \<in> upages (ram s) d" "unat a = 4096 * v"
  defines "f \<equiv> frame (pte (ram s) d v)" and "x \<equiv> tab (ram s) d (unat a div 4194304) + 4 * PTX a"
  defines "t \<equiv> poke32 (unat x) 0 (freed f s)"
  shows "uspace d (f # L) t" "mem_step s t" "dir_pages (ram t) d = dir_pages (ram s) d"
    "\<forall>u<1048576. pte (ram t) d u = (if u = v then 0 else pte (ram s) d u)"
    "\<forall>y<2147483648. umem (ram t) d y = (if y div 4096 = v then None else umem (ram s) d y)"
    "only (insert f (dir_pages (ram s) d)) (ram s) (ram t)"
proof -
  note f = uspace_frame [OF assms(1,2), folded f_def]
  have vs: "vspace d L s" using assms(1) by (simp add: uspace_def)
  then have q: "quiet s" "free_list s L" "dir_ok (kend s) (ram s) d" "set L \<inter> dir_pages (ram s) d = {}" by (auto simp: vspace_def)
  have pf: "pages_ok (kend s) {f}" "{f} \<inter> dir_pages (ram s) d = {}" using f by auto
  note dd = dir_only [OF q(3) freed_only pf]
  have vf: "vspace d (f # L) (freed f s)"
    using q dd free_list_freed [OF q(2) f(1,3)] f(2) by (simp add: vspace_def)
  have i: "unat a div 4194304 = v div 1024" "unat a div 4096 = v" using assms(3) vpn_split [of v a] by auto
  have vl: "v < 524288" using assms(2) by (simp add: upages_def)
  have pk: "pde (ram (freed f s)) d k = pde (ram s) d k" "tab (ram (freed f s)) d k = tab (ram s) d k" if "k < 1024" for k
    using pde_only [OF freed_only pf(1) dir_ok_pages(1) [OF q(3)] _ that] f(2) by (auto simp: dir_pages_def)
  have pr: "present (pde (ram (freed f s)) d (unat a div 4194304))"
    using upages_slot [OF assms(2)] pk(1) [OF PDX_less [of a]] i(1) by simp
  have x: "x = tab (ram (freed f s)) d (unat a div 4194304) + 4 * PTX a"
    using pk(2) [OF PDX_less [of a]] by (simp add: x_def)
  note sp = set_pte_step(2-4) [OF vf pr, where w = 0, folded x t_def, unfolded i(2)]
  show pt: "\<forall>u<1048576. pte (ram t) d u = (if u = v then 0 else pte (ram s) d u)" using sp(2) dd(1) by auto
  show dp: "dir_pages (ram t) d = dir_pages (ram s) d" using sp(3) dd(2) by simp
  show ms: "mem_step s t" by (simp add: t_def mem_step_def freed_def poke32_def)
  show o: "only (insert f (dir_pages (ram s) d)) (ram s) (ram t)"
    using only_trans [OF freed_only grew_only(1) [OF sp(1)]] dp by simp
  have "present (pte (ram t) d u) \<longleftrightarrow> u \<noteq> v \<and> present (pte (ram s) d u)" if "u < 524288" for u
    using pt that by (cases "u = v") (simp_all add: present_odd)
  then have up: "upages (ram t) d = upages (ram s) d - {v}" by (auto simp: upages_def)
  have F: "frame (pte (ram t) d u) = frame (pte (ram s) d u)" "frame (pte (ram s) d u) \<noteq> f" if "u \<in> upages (ram s) d - {v}" for u
    using that pt assms(1,2) by (auto simp: upages_def f_def uspace_def Let_def inj_on_def)
  have ke: "kend t = kend s" using mem_step_same(2) [OF ms] .
  show "uspace d (f # L) t"
  proof -
    have "vspace d (f # L) t" using sp(1) by (simp add: grew_def)
    moreover have "inj_on (\<lambda>u. frame (pte (ram s) d u)) (upages (ram s) d - {v})"
      using assms(1) by (simp add: uspace_def Let_def inj_on_diff)
    then have "inj_on (\<lambda>u. frame (pte (ram t) d u)) (upages (ram t) d)" using F(1) by (simp add: up inj_on_def)
    moreover have "page_ok (kend t) (frame (pte (ram t) d u)) \<and> frame (pte (ram t) d u) \<notin> dir_pages (ram t) d \<and>
        frame (pte (ram t) d u) \<notin> set (f # L)" if "u \<in> upages (ram t) d" for u
      using uspace_frame [OF assms(1), of u] F [of u] that unfolding up dp ke by auto
    ultimately show ?thesis by (simp add: uspace_def Let_def)
  qed
  show "\<forall>y<2147483648. umem (ram t) d y = (if y div 4096 = v then None else umem (ram s) d y)"
  proof (intro allI impI)
    fix y :: nat
    assume y: "y < 2147483648"
    let ?u = "y div 4096"
    show "umem (ram t) d y = (if ?u = v then None else umem (ram s) d y)"
    proof (cases "?u = v")
      case True
      then show ?thesis using pt vl by (simp add: umem_def PTE_PU_def PTE_P_def PTE_U_def)
    next
      case False
      have "pages_ok (kend s) (insert f (dir_pages (ram s) d))" using q(3) f(1) by (simp add: dir_ok_def)
      then have "umem (ram t) d y = umem (ram s) d y"
        using umem_only [OF assms(1) o _ y] pt y False F(2) uspace_frame(2) [OF assms(1)] dp by auto
      with False show ?thesis by simp
    qed
  qed
qed

text \<open>The frames of the user pages in a range.\<close>

definition frames_in :: "buffer \<Rightarrow> u32 \<Rightarrow> nat \<Rightarrow> nat \<Rightarrow> u32 set" where
  "frames_in m d v w = (\<lambda>u. frame (pte m d u)) ` {u \<in> upages m d. v \<le> u \<and> u < w}"

text \<open>All pages of an address space.\<close>

definition held :: "buffer \<Rightarrow> u32 \<Rightarrow> u32 set" where
  "held m d = dir_pages m d \<union> frames_in m d 0 524288"

text \<open>What giving back the pages \<open>v\<close> to \<open>w - 1\<close> leaves.\<close>

definition gave_back :: "u32 \<Rightarrow> nat \<Rightarrow> nat \<Rightarrow> u32 list \<Rightarrow> 'z mem_state_scheme \<Rightarrow> u32 list \<Rightarrow> 'z mem_state_scheme \<Rightarrow> bool" where
  "gave_back d v w L s L' t \<longleftrightarrow> uspace d L' t \<and> mem_step s t \<and> set L' = set L \<union> frames_in (ram s) d v w \<and>
     dir_pages (ram t) d = dir_pages (ram s) d \<and> only (dir_pages (ram s) d \<union> frames_in (ram s) d v w) (ram s) (ram t) \<and>
     (\<forall>u<1048576. pte (ram t) d u = (if v \<le> u \<and> u < w \<and> u \<in> upages (ram s) d then 0 else pte (ram s) d u)) \<and>
     (\<forall>x<2147483648. umem (ram t) d x = (if v \<le> x div 4096 \<and> x div 4096 < w then None else umem (ram s) d x))"

lemma gave_back_none:
  assumes "uspace d L s" "\<forall>u. v \<le> u \<and> u < w \<longrightarrow> u \<notin> upages (ram s) d"
  shows "gave_back d v w L s L s"
proof -
  have "umem (ram s) d x = None" if "v \<le> x div 4096 \<and> x div 4096 < w" "x < 2147483648" for x
    using umem_present [of "ram s" d x] assms(2) that by (cases "umem (ram s) d x = None") (auto simp: upages_def)
  then show ?thesis using assms by (auto simp: gave_back_def frames_in_def)
qed

lemma gave_back_trans:
  assumes "gave_back d v w L s L' t" "gave_back d w y L' t L'' u" "v \<le> w" "w \<le> y"
  shows "gave_back d v y L s L'' u"
proof -
  have up: "x \<in> upages (ram t) d \<longleftrightarrow> x \<in> upages (ram s) d" "x < 1048576 \<Longrightarrow> pte (ram t) d x = pte (ram s) d x" if "w \<le> x" for x
    using assms(1) that by (auto simp: gave_back_def upages_def)
  then have "frames_in (ram t) d w y = frames_in (ram s) d w y"
    unfolding frames_in_def by (intro image_cong) (auto simp: upages_def)
  moreover have "frames_in (ram s) d v y = frames_in (ram s) d v w \<union> frames_in (ram s) d w y"
  proof -
    have "{x \<in> upages (ram s) d. v \<le> x \<and> x < y} = {x \<in> upages (ram s) d. v \<le> x \<and> x < w} \<union> {x \<in> upages (ram s) d. w \<le> x \<and> x < y}"
      using assms(3,4) by auto
    then show ?thesis by (simp add: frames_in_def image_Un)
  qed
  ultimately have fi: "frames_in (ram t) d w y \<subseteq> frames_in (ram s) d v y" "frames_in (ram s) d v w \<subseteq> frames_in (ram s) d v y"
    "set L'' = set L \<union> frames_in (ram s) d v y" using assms(1,2) by (auto simp: gave_back_def)
  have "only (dir_pages (ram s) d \<union> frames_in (ram s) d v y) (ram s) (ram u)"
  proof (rule only_mono)
    show "only ((dir_pages (ram s) d \<union> frames_in (ram s) d v w) \<union> (dir_pages (ram t) d \<union> frames_in (ram t) d w y)) (ram s) (ram u)"
      by (rule only_trans [of _ _ "ram t"]) (use assms(1,2) in \<open>simp_all add: gave_back_def\<close>)
  qed (use assms(1) fi in \<open>auto simp: gave_back_def\<close>)
  moreover have "pte (ram u) d x = (if v \<le> x \<and> x < y \<and> x \<in> upages (ram s) d then 0 else pte (ram s) d x)" if "x < 1048576" for x
    using assms up [of x] that by (cases "x < w") (auto simp: gave_back_def)
  moreover have "umem (ram u) d x = (if v \<le> x div 4096 \<and> x div 4096 < y then None else umem (ram s) d x)" if "x < 2147483648" for x
    using assms that by (cases "x div 4096 < w") (auto simp: gave_back_def)
  ultimately show ?thesis using assms(1,2) fi(3) mem_step_trans [of s t u] by (auto simp: gave_back_def)
qed

lemma gave_back_one:
  assumes "uspace d L s" "v \<in> upages (ram s) d" "unat a = 4096 * v"
  shows "gave_back d v (Suc v) L s (frame (pte (ram s) d v) # L)
    (poke32 (unat (tab (ram s) d (unat a div 4194304) + 4 * PTX a)) 0 (freed (frame (pte (ram s) d v)) s))"
proof -
  have "frames_in (ram s) d v (Suc v) = {frame (pte (ram s) d v)}" using assms(2) by (auto simp: frames_in_def less_Suc_eq)
  then show ?thesis using free_page [OF assms] assms(2) by (auto simp: gave_back_def less_Suc_eq le_less_Suc_eq)
qed

lemma next_table:
  assumes "a < KERNBASE"
  shows "unat (PGADDR (PDX a + 1) 0 0 - PGSIZE + PGSIZE) = 4194304 * (unat a div 4194304 + 1)"
proof -
  have "unat a < 2147483648" using assms by (simp add: KERNBASE_def word_less_nat_alt)
  then have l: "unat (PDX a) < 512" by (simp add: unat_PDX)
  then have u: "unat (PDX a + 1) = unat a div 4194304 + 1" by (simp add: unat_word_ariths flip: unat_PDX)
  have "unat ((PDX a + 1) * 4194304) = unat (PDX a + 1) * 4194304"
    using l u unat_PDX [of a] by (subst unat_mult_lem [THEN iffD1]) simp_all
  then show ?thesis using u by (simp add: PGADDR_def push_bit_eq_mult mult.commute)
qed

lemma mult_div_Suc_less: "v < 1024 * (v div 1024 + 1)" for v :: nat
  using mod_less_divisor [of 1024 v] mult_div_mod_eq [of 1024 v] by (simp del: mod_less_divisor)

lemma same_table: "v \<le> u \<Longrightarrow> u < 1024 * (v div 1024 + 1) \<Longrightarrow> u div 1024 = v div 1024" for u v :: nat
  by (metis add.commute div_le_mono le_antisym less_Suc_eq_le less_mult_imp_div_less mult.commute plus_1_eq_Suc)

lemma dealloc_loop:
  assumes "uspace d L s" "unat a = 4096 * v" "old \<le> KERNBASE" "KERNBASE < kend s"
  shows "\<exists>t L'. deallocuvm_loop d a old s = Ret () t \<and> gave_back d v (npages old) L s L' t"
  using assms
proof (induction "unat old - unat a" arbitrary: a v s L rule: less_induct)
  case less
  note IH = less.hyps and us = less.prems(1) and av = less.prems(2) and ke = less.prems(4)
  have ob: "unat old \<le> 2147483648" using less.prems(3) by (simp add: KERNBASE_def word_le_nat_alt)
  show ?case
  proof (cases "a < old")
    case False
    then have "npages old \<le> v" using av by (simp add: npages_def word_less_nat_alt)
    then have "gave_back d v (npages old) L s L s" using us by (intro gave_back_none) auto
    then show ?thesis using False by (subst deallocuvm_loop.simps) auto
  next
    case True
    then have ao: "unat a < unat old" by (simp add: word_less_nat_alt)
    then have vn: "v < npages old" using av by (simp add: npages_def)
    have ak: "a < KERNBASE" using True less.prems(3) by simp
    have vl: "v < 524288" using ao ob av by simp
    have d: "dir_ok (kend s) (ram s) d" "quiet s" using us by (auto simp: uspace_def vspace_def)
    let ?i = "unat a div 4194304" and ?x = "tab (ram s) d (unat a div 4194304) + 4 * PTX a"
    have i: "?i = v div 1024" "unat a div 4096 = v" using av vpn_split [of v a] by auto
    have pg: "unat (a + PGSIZE) = 4096 * Suc v" using av vl by (simp add: PGSIZE_def unat_word_ariths)
    have more: "\<exists>t' L''. deallocuvm_loop d b old t = Ret () t' \<and> gave_back d v (npages old) L s L'' t'"
      if t: "gave_back d v w L s L' t" and b: "unat b = 4096 * w" "v < w" "w \<le> npages old" for b w t L'
    proof -
      have "uspace d L' t" "kend t = kend s" using t mem_step_same(2) [of s t] by (auto simp: gave_back_def)
      moreover have "unat old - unat b < unat old - unat a" using b(1,2) av ao by simp
      ultimately obtain t' L'' where "deallocuvm_loop d b old t = Ret () t'" "gave_back d w (npages old) L' t L'' t'"
        using IH [of b L' t w] b(1) less.prems(3) ke by auto
      then show ?thesis using gave_back_trans [OF t] b(2,3) by auto
    qed
    show ?thesis
    proof (cases "present (pde (ram s) d ?i)")
      case False
      let ?b = "PGADDR (PDX a + 1) 0 0 - PGSIZE + PGSIZE" and ?w = "1024 * (v div 1024 + 1)"
      have b: "unat ?b = 4096 * ?w" using next_table [OF ak] i(1) by simp
      have w: "v < ?w" by (rule mult_div_Suc_less)
      have gt: "a < ?b" unfolding word_less_nat_alt b av using w by simp
      have step: "deallocuvm_loop d a old s = deallocuvm_loop d ?b old s"
        using True False gt walkpgdir_look [OF d(1), of a] by (subst deallocuvm_loop.simps) simp
      have "u \<notin> upages (ram s) d" if "v \<le> u \<and> u < ?w" for u
      proof -
        have "u div 1024 = v div 1024" using that by (intro same_table) auto
        then show ?thesis using upages_slot [of u "ram s" d] False i(1) by auto
      qed
      note none = gave_back_none [OF us, of v ?w] gave_back_none [OF us, of v "npages old"]
      show ?thesis
      proof (cases "?w \<le> npages old")
        case True
        then show ?thesis using more [OF _ b w] none(1) step \<open>\<And>u. v \<le> u \<and> u < ?w \<Longrightarrow> u \<notin> upages (ram s) d\<close> by auto
      next
        case False
        then have "\<not> ?b < old" unfolding word_less_nat_alt b by (simp add: npages_def)
        then have "deallocuvm_loop d ?b old s = Ret () s" by (subst deallocuvm_loop.simps) simp
        then show ?thesis using none(2) step False \<open>\<And>u. v \<le> u \<and> u < ?w \<Longrightarrow> u \<notin> upages (ram s) d\<close> by auto
      qed
    next
      case pr: True
      have look: "peek32 ?x s = pte (ram s) d v"
        using set_pte_step(1) [of d L s a] us pr i by (simp add: uspace_def)
      have gt: "a < a + PGSIZE" unfolding word_less_nat_alt pg av by simp
      show ?thesis
      proof (cases "v \<in> upages (ram s) d")
        case False
        then have "\<not> present (pte (ram s) d v)" using vl by (simp add: upages_def)
        then have "deallocuvm_loop d a old s = deallocuvm_loop d (a + PGSIZE) old s"
          using True pr gt look walkpgdir_look [OF d(1), of a] by (subst deallocuvm_loop.simps) (simp add: present_def)
        moreover have "gave_back d v (Suc v) L s L s" using us False by (intro gave_back_none) (auto simp: less_Suc_eq)
        ultimately show ?thesis using more [OF _ pg] vn by auto
      next
        case up: True
        let ?f = "frame (pte (ram s) d v)"
        have f: "page_ok (kend s) ?f" using uspace_frame(1) [OF us up] .
        then have nz: "PTE_ADDR (pte (ram s) d v) \<noteq> 0"
          using ke by (auto simp: page_ok_def frame_def P2V_def)
        have "deallocuvm_loop d a old s = deallocuvm_loop d (a + PGSIZE) old (poke32 (unat ?x) 0 (freed ?f s))"
          using True pr gt look walkpgdir_look [OF d(1), of a] up nz f d(2)
          by (subst deallocuvm_loop.simps) (simp add: present_def upages_def kfree_quiet flip: frame_def)
        then show ?thesis using more [OF gave_back_one [OF us up av] pg] vn by auto
      qed
    qed
  qed
qed

text \<open>
  C8: Shrinking an address space with \<open>deallocuvm\<close> never panics, puts the frames of exactly the pages between the two sizes
  back on the free list, makes these pages inaccessible and leaves the rest of the memory of the process as it was.
\<close>

theorem deallocuvm_gives_back:
  assumes "uspace d L s" "new < old" "old \<le> KERNBASE" "KERNBASE < kend s"
  shows "\<exists>t L'. deallocuvm d old new s = Ret new t \<and> uspace d L' t \<and> mem_step s t \<and>
    set L' = set L \<union> frames_in (ram s) d (npages new) (npages old) \<and>
    (\<forall>x<2147483648. umem (ram t) d x = (if npages new \<le> x div 4096 \<and> x div 4096 < npages old then None else umem (ram s) d x))"
proof -
  have "unat new < 2147483648" using assms(2,3) by (auto simp: KERNBASE_def word_less_nat_alt word_le_nat_alt)
  then have "unat (PGROUNDUP new) = 4096 * npages new" by (simp add: unat_PGROUNDUP npages_def)
  from dealloc_loop [OF assms(1) this assms(3,4)] show ?thesis
    using assms(2) by (fastforce simp: deallocuvm_def gave_back_def leD)
qed

text \<open>Freeing a page that is neither in the pool nor a page of the directory \<open>d\<close>.\<close>

lemma kfree_more:
  assumes "quiet s" "free_list s L" "page_ok (kend s) p" "p \<notin> set L"
  shows "kfree p s = Ret () (freed p s)" "free_list (freed p s) (p # L)" "quiet (freed p s)" "kend (freed p s) = kend s" "mem_step s (freed p s)"
proof -
  show "free_list (freed p s) (p # L)" using assms(2-4) by (rule free_list_freed)
qed (use assms in \<open>simp_all add: kfree_quiet mem_step_def freed_def\<close>)

lemma free_tables:
  assumes "quiet s" "free_list s L" "dir_ok (kend s) (ram s) d" "distinct is" "\<forall>i\<in>set is. i < 1024"
    and "set L \<inter> insert d (tab (ram s) d ` {i \<in> set is. present (pde (ram s) d i)}) = {}"
  shows "\<exists>t L'. kfor is (freevm_table d) s = Ret () t \<and> mem_step s t \<and>
    free_list t L' \<and> set L' = set L \<union> tab (ram s) d ` {i \<in> set is. present (pde (ram s) d i)} \<and>
    only (tab (ram s) d ` {i \<in> set is. present (pde (ram s) d i)}) (ram s) (ram t)"
  using assms
proof (induction "is" arbitrary: s L)
  case Nil
  then show ?case by auto
next
  case (Cons i "is")
  have d: "page_ok (kend s) d" using dir_ok_pages(1) [OF Cons.prems(3)] .
  have i: "i < 1024" using Cons.prems(5) by simp
  have "unat (d + of_nat (4 * i)) = unat d + 4 * i" using i by (intro unat_in_page page_ok_align [OF d]) simp
  then have pk: "peek32 (d + of_nat (4 * i)) s = pde (ram s) d i" by (simp add: peek32_def pde_def del: of_nat_mult)
  show ?case
  proof (cases "present (pde (ram s) d i)")
    case False
    then have "{k \<in> set (i # is). present (pde (ram s) d k)} = {k \<in> set is. present (pde (ram s) d k)}" by auto
    moreover have "freevm_table d i s = Ret () s" using pk False by (simp add: freevm_table_def present_def)
    ultimately show ?thesis using Cons.IH [OF Cons.prems(1-3)] Cons.prems(4-6) by auto
  next
    case True
    let ?p = "tab (ram s) d i"
    have p: "page_ok (kend s) ?p" "?p \<notin> set L" "?p \<noteq> d"
      using dir_ok_pages(2,3) [OF Cons.prems(3) i True] Cons.prems(6) True by auto
    note k = kfree_more [OF Cons.prems(1,2) p(1,2)]
    have pd: "pde (ram (freed ?p s)) d j = pde (ram s) d j" "tab (ram (freed ?p s)) d j = tab (ram s) d j" if "j < 1024" for j
      using pde_only [OF freed_only [of ?p s] _ d _ that] p by auto
    have S: "{k \<in> set is. present (pde (ram (freed ?p s)) d k)} = {k \<in> set is. present (pde (ram s) d k)}"
      using pd(1) Cons.prems(5) by auto
    have T: "tab (ram (freed ?p s)) d ` {k \<in> set is. present (pde (ram s) d k)} = tab (ram s) d ` {k \<in> set is. present (pde (ram s) d k)}"
      using pd(2) Cons.prems(5) by (intro image_cong) auto
    have "?p \<notin> tab (ram s) d ` {k \<in> set is. present (pde (ram s) d k)}"
      using Cons.prems(3-5) True i by (auto simp: dir_ok_def dir_idx_def inj_on_def)
    then have "set (?p # L) \<inter> insert d (tab (ram s) d ` {k \<in> set is. present (pde (ram s) d k)}) = {}"
      using Cons.prems(6) p(3) by auto
    then obtain t L' where r: "kfor is (freevm_table d) (freed ?p s) = Ret () t" "mem_step (freed ?p s) t"
       "free_list t L'" "set L' = set (?p # L) \<union> tab (ram s) d ` {k \<in> set is. present (pde (ram s) d k)}"
      and o: "only (tab (ram s) d ` {k \<in> set is. present (pde (ram s) d k)}) (ram (freed ?p s)) (ram t)"
      using Cons.IH [OF k(3,2)] Cons.prems(3-5) k(4) dir_same(2) [of "ram (freed ?p s)" d "ram s"] pd(1) S T by auto
    moreover have "set L' = set L \<union> tab (ram s) d ` {k \<in> set (i # is). present (pde (ram s) d k)}" using r(4) True by auto
    moreover have "freevm_table d i s = Ret () (freed ?p s)" using pk True k(1) by (simp add: freevm_table_def present_def tab_def)
    moreover have "only (tab (ram s) d ` {k \<in> set (i # is). present (pde (ram s) d k)}) (ram s) (ram t)"
      by (rule only_mono [OF only_trans [OF freed_only o]]) (use True in auto)
    ultimately show ?thesis using mem_step_trans [OF k(5)] by auto
  qed
qed

text \<open>
  \<open>freevm\<close> returns every page of an address space to the allocator, the frames of the user pages, the page tables and the
  directory, each once, and takes no other page.
\<close>

lemma freevm_spec:
  assumes "uspace d L s" "KERNBASE < kend s"
  shows "\<exists>t L'. freevm d s = Ret () t \<and> mem_step s t \<and> free_list t L' \<and>
    set L' = set L \<union> held (ram s) d \<and> only (held (ram s) d) (ram s) (ram t)"
proof -
  have d: "page_ok (kend s) d" "d \<noteq> 0"
    using assms(1) dir_ok_pages(1) [of "kend s" "ram s" d] page_ok_nonzero [of "kend s" d] by (auto simp: uspace_def vspace_def)
  have n: "npages KERNBASE = 524288" "unat (PGROUNDUP 0) = 4096 * npages 0" "npages 0 = 0"
    by (simp_all add: npages_def KERNBASE_def unat_PGROUNDUP)
  from dealloc_loop [OF assms(1) n(2) _ assms(2), of KERNBASE] obtain t L' where
    l: "deallocuvm_loop d (PGROUNDUP 0) KERNBASE s = Ret () t" and g: "gave_back d 0 524288 L s L' t" by (auto simp: n)
  have t: "quiet t" "free_list t L'" "dir_ok (kend t) (ram t) d" "set L' \<inter> dir_pages (ram t) d = {}" "kend t = kend s"
    "dir_pages (ram t) d = dir_pages (ram s) d"
    using g mem_step_same(2) [of s t] by (auto simp: gave_back_def uspace_def vspace_def)
  have D: "dir_pages (ram t) d = insert d (tab (ram t) d ` {i \<in> set [0..<1024]. present (pde (ram t) d i)})"
    by (simp add: dir_pages_def dir_idx_def)
  from free_tables [OF t(1-3), of "[0..<1024]"] t(4) obtain u M where
    f: "kfor [0..<1024] (freevm_table d) t = Ret () u" "mem_step t u" "free_list u M"
      "set M = set L' \<union> tab (ram t) d ` {i \<in> set [0..<1024]. present (pde (ram t) d i)}"
      "only (tab (ram t) d ` {i \<in> set [0..<1024]. present (pde (ram t) d i)}) (ram t) (ram u)" unfolding D by auto
  have "d \<notin> set M" using f(4) t(3,4) by (auto simp: dir_ok_def dir_idx_def dir_pages_def)
  then have k: "kfree d u = Ret () (freed d u)" "free_list (freed d u) (d # M)" "mem_step u (freed d u)"
    using kfree_more [of u M d] f(2,3) t(1,5) mem_step_same [OF f(2)] d(1) by auto
  have "only (held (ram s) d) (ram s) (ram (freed d u))"
  proof (rule only_mono [OF only_trans [OF only_trans [OF _ f(5)] freed_only]])
    show "only (held (ram s) d) (ram s) (ram t)" using g by (simp add: gave_back_def held_def)
  qed (use D t(6) in \<open>auto simp: held_def\<close>)
  moreover have "set (d # M) = set L \<union> held (ram s) d"
  proof -
    have "set (d # M) = set L' \<union> dir_pages (ram t) d" unfolding D using f(4) by auto
    then show ?thesis using g t(6) by (auto simp: gave_back_def held_def)
  qed
  moreover have "freevm d s = Ret () (freed d u)"
    using d(2) l f(1) k(1) by (simp add: freevm_def deallocuvm_def KERNBASE_def NPDENTRIES_def)
  moreover have "mem_step s (freed d u)"
    using mem_step_trans [OF mem_step_trans [OF _ f(2)] k(3)] g by (simp add: gave_back_def)
  ultimately show ?thesis using k(2) by blast
qed

section \<open>A concrete address space\<close>

text \<open>An empty directory at the start of free memory and four free pages after it.\<close>

definition space_ram :: buffer where
  "space_ram = store32 (store32 (store32 (\<lambda>_. 0) 0x80201000 0x80202000) 0x80202000 0x80203000) 0x80203000 0x80204000"

definition space_demo :: vm_state where
  "space_demo = file_state.extend (pipe_demo\<lparr>ram := space_ram, freelist := 0x80201000, kend := 0x80120000\<rparr>) (vm_state.fields 0x80110000)"

lemma space_demo_sel: "ram space_demo = space_ram" "freelist space_demo = 0x80201000" "kend space_demo = 0x80120000" "quiet space_demo"
  by (simp_all add: space_demo_def file_state.defs vm_state.defs quiet_def cpu_known_def this_cpu_def pipe_demo_def demo_cpu_def first_idx_one)

lemma space_demo_ok: "uspace 0x80200000 [0x80201000, 0x80202000, 0x80203000, 0x80204000] space_demo" "upages space_ram 0x80200000 = {}"
proof -
  have p: "pde space_ram 0x80200000 i = 0" if "i < 1024" for i
    using that by (simp add: pde_def space_ram_def store32_def load32_put_other) (simp add: load32_def)
  then have i: "dir_idx space_ram 0x80200000 = {}" by (auto simp: dir_idx_def present_odd)
  have w: "load32 space_ram 0x80201000 = 0x80202000" "load32 space_ram 0x80202000 = 0x80203000"
    "load32 space_ram 0x80203000 = 0x80204000"
    by (simp_all add: space_ram_def store32_def load32_put_other) (simp_all add: store32_def [symmetric])
  have w0: "load32 space_ram 0x80204000 = 0"
    by (simp add: space_ram_def store32_def load32_put_other) (simp add: load32_def)
  have ok: "page_ok 0x80120000 p" if "p \<in> {0x80200000, 0x80201000, 0x80202000, 0x80203000, 0x80204000}" for p
    using that by (auto simp: page_ok_def PGSIZE_def V2P_def KERNBASE_def PHYSTOP_def)
  have "free_list space_demo [0x80201000, 0x80202000, 0x80203000, 0x80204000]"
    using w w0 ok by (simp add: free_list_def space_demo_sel)
  moreover have "dir_ok 0x80120000 space_ram 0x80200000" "dir_pages space_ram 0x80200000 = {0x80200000}"
    using i ok by (simp_all add: dir_ok_def dir_pages_def)
  ultimately have "vspace 0x80200000 [0x80201000, 0x80202000, 0x80203000, 0x80204000] space_demo"
    by (simp add: vspace_def space_demo_sel)
  moreover show u: "upages space_ram 0x80200000 = {}" using p by (auto simp: upages_def pte_def present_odd)
  ultimately show "uspace 0x80200000 [0x80201000, 0x80202000, 0x80203000, 0x80204000] space_demo"
    by (simp add: uspace_def space_demo_sel)
qed

theorem allocuvm_zero_fills_witness:
  "\<exists>t. allocuvm 0x80200000 0 100 space_demo = Ret 100 t \<and> umem (ram t) 0x80200000 5 = Some 0 \<and> umem (ram t) 0x80200000 5000 = None"
proof -
  have "npages 0 = 0" "npages 100 = 1" by (simp_all add: npages_def)
  moreover have "\<not> present (pte space_ram 0x80200000 v)" if "v < 1" for v
    using space_demo_ok(2) that by (auto simp: upages_def)
  ultimately obtain t where "allocuvm 0x80200000 0 100 space_demo = Ret 100 t"
    "\<forall>x<2147483648. umem (ram t) 0x80200000 x = (if x div 4096 < 1 then Some 0 else umem space_ram 0x80200000 x)"
    using allocuvm_zero_fills [OF space_demo_ok(1), of 0 100] by (auto simp: KERNBASE_def space_demo_sel)
  moreover have "umem space_ram 0x80200000 5000 = None"
    using umem_present [of space_ram "0x80200000" 5000] space_demo_ok(2)
    by (cases "umem space_ram 0x80200000 5000 = None") (auto simp: upages_def)
  ultimately show ?thesis by auto
qed

lemma space_demo_grown:
  obtains t :: vm_state and L' where "uspace 0x80200000 L' t" "kend t = 0x80120000" "kdata t = 0x80110000" "umem (ram t) 0x80200000 5 = Some 0" "upages (ram t) 0x80200000 = {0}"
proof -
  have "unat (0 :: u32) = 4096 * 0" by simp
  from alloc_page [OF space_demo_ok(1) _ this, where old = 0 and new = 100] obtain t L' where "uspace 0x80200000 L' t" "mem_step space_demo t"
    "upages (ram t) 0x80200000 = {0}"
    "\<forall>x<2147483648. umem (ram t) 0x80200000 x = (if x div 4096 = 0 then Some 0 else umem (ram space_demo) 0x80200000 x)"
    using space_demo_ok(2) by (auto simp: space_demo_sel)
  moreover have "kdata t = kdata space_demo"
    using arg_cong [OF \<open>mem_step space_demo t\<close> [unfolded mem_step_def], of kdata] by simp
  moreover have "kdata space_demo = 0x80110000" by (simp add: space_demo_def file_state.defs vm_state.defs)
  ultimately show thesis using mem_step_same(2) [of space_demo t] by (intro that [of L' t]) (auto simp: space_demo_sel)
qed

theorem deallocuvm_gives_back_witness:
  "\<exists>d L s t. umem (ram s) d 5 = Some 0 \<and> deallocuvm d 100 0 s = Ret 0 (t :: vm_state) \<and> uspace d L t \<and> umem (ram t) d 5 = None"
proof -
  obtain s :: vm_state and L where s: "uspace 0x80200000 L s" "kend s = 0x80120000" "umem (ram s) 0x80200000 5 = Some 0"
    using space_demo_grown by metis
  obtain t M where "deallocuvm 0x80200000 100 0 s = Ret 0 t" "uspace 0x80200000 M t"
    "\<forall>x<2147483648. umem (ram t) 0x80200000 x = (if npages 0 \<le> x div 4096 \<and> x div 4096 < npages 100 then None else umem (ram s) 0x80200000 x)"
    using deallocuvm_gives_back [OF s(1), of 0 100] s(2) by (auto simp: KERNBASE_def)
  moreover from this(3) have "umem (ram t) 0x80200000 5 = None" by (simp add: npages_def)
  ultimately show ?thesis using s(3) by blast
qed

end
