(* ===== verification/SpaceCopy.thy ===== *)
theory SpaceCopy
  imports AddrSpace
begin

text \<open>
  Copying an address space: \<open>setupkvm\<close> builds the kernel part of a new page directory and \<open>copyuvm\<close> fills its user part with
  copies of the pages of a process. The copy reads the same, shares no page with the original, and when memory runs out
  everything taken is given back.
\<close>

section \<open>Two address spaces\<close>

lemma held_frame: "v \<in> upages m d \<Longrightarrow> frame (pte m d v) \<in> held m d"
  by (auto simp: held_def frames_in_def upages_def)

lemma held_pages: "uspace d L s \<Longrightarrow> pages_ok (kend s) (held (ram s) d)"
  by (auto simp: uspace_def vspace_def dir_ok_def held_def frames_in_def pages_ok_def Let_def)

lemma held_free: "uspace d L s \<Longrightarrow> held (ram s) d \<inter> set L = {}"
  by (auto simp: uspace_def vspace_def held_def frames_in_def Let_def)

lemma free_pages_ok: "free_list s L \<Longrightarrow> pages_ok (kend s) (set L)"
  by (auto simp: free_list_def pages_ok_def chain_page_ok)

text \<open>Changes to pages an address space does not hold leave it as it is.\<close>

lemma uspace_other:
  assumes "uspace d L s" "only P (ram s) (ram t)" "pages_ok (kend s) P" "P \<inter> held (ram s) d = {}"
    and "mem_step s t" "free_list t L'" "set L' \<inter> held (ram s) d = {}"
  shows "uspace d L' t" "held (ram t) d = held (ram s) d" "upages (ram t) d = upages (ram s) d"
    and "\<forall>u<1048576. pte (ram t) d u = pte (ram s) d u" "\<forall>x<2147483648. umem (ram t) d x = umem (ram s) d x"
proof -
  have v: "quiet s" "dir_ok (kend s) (ram s) d" using assms(1) by (auto simp: uspace_def vspace_def)
  have "P \<inter> dir_pages (ram s) d = {}" using assms(4) by (auto simp: held_def)
  note dd = dir_only [OF v(2) assms(2,3) this]
  show pt: "\<forall>u<1048576. pte (ram t) d u = pte (ram s) d u" using dd(1) by simp
  then show up: "upages (ram t) d = upages (ram s) d" by (auto simp: upages_def)
  have F: "frame (pte (ram t) d u) = frame (pte (ram s) d u)" if "u \<in> upages (ram s) d" for u
    using pt that by (simp add: upages_def)
  have "frames_in (ram t) d 0 524288 = frames_in (ram s) d 0 524288"
    unfolding frames_in_def up by (intro image_cong) (auto simp: F)
  then show h: "held (ram t) d = held (ram s) d" by (simp add: held_def dd(2))
  show "\<forall>x<2147483648. umem (ram t) d x = umem (ram s) d x"
  proof (intro allI impI)
    fix x :: nat
    assume x: "x < 2147483648"
    have "frame (pte (ram s) d (x div 4096)) \<notin> P" if "x div 4096 \<in> upages (ram s) d"
      using held_frame [OF that] assms(4) by auto
    then show "umem (ram t) d x = umem (ram s) d x" using umem_only [OF assms(1-3) x] pt x by simp
  qed
  have ke: "kend t = kend s" "quiet t" using mem_step_same [OF assms(5)] v(1) by auto
  have "inj_on (\<lambda>u. frame (pte (ram s) d u)) (upages (ram s) d)" using assms(1) by (simp add: uspace_def Let_def)
  then have "inj_on (\<lambda>u. frame (pte (ram t) d u)) (upages (ram s) d)" using F by (simp add: inj_on_def)
  moreover have "page_ok (kend s) (frame (pte (ram t) d u)) \<and> frame (pte (ram t) d u) \<notin> dir_pages (ram t) d \<and>
      frame (pte (ram t) d u) \<notin> set L'" if "u \<in> upages (ram s) d" for u
    using uspace_frame [OF assms(1) that] F [OF that] dd(2) held_frame [OF that] assms(7) by auto
  moreover have "vspace d L' t" using dd ke assms(6,7) by (auto simp: vspace_def held_def)
  ultimately show "uspace d L' t" by (simp add: uspace_def Let_def up ke)
qed

section \<open>The kernel part\<close>

text \<open>A directory without user pages.\<close>

definition kspace :: "u32 \<Rightarrow> u32 list \<Rightarrow> 'z mem_state_scheme \<Rightarrow> bool" where
  "kspace d L s \<longleftrightarrow> vspace d L s \<and> upages (ram s) d = {}"

lemma kspace_uspace: "kspace d L s \<Longrightarrow> uspace d L s \<and> held (ram s) d = dir_pages (ram s) d"
  by (simp add: kspace_def uspace_def held_def frames_in_def)

text \<open>The pages of an entry of \<open>kmap\<close>, as the first and the last.\<close>

definition range_ok :: "u32 \<times> u32 \<times> u32 \<times> u32 \<Rightarrow> bool" where
  "range_ok r = (case r of (virt, ps, pe, perm) \<Rightarrow>
     0 < unat (pe - ps) \<and> unat virt + unat (pe - ps) \<le> 4294967296 \<and> 524288 \<le> unat virt div 4096)"

definition range_pages :: "u32 \<times> u32 \<times> u32 \<times> u32 \<Rightarrow> nat set" where
  "range_pages r = (case r of (virt, ps, pe, perm) \<Rightarrow> {unat virt div 4096 .. (unat virt + unat (pe - ps) - 1) div 4096})"

lemma map_range:
  assumes "kspace d L s" "range_ok (virt, ps, pe, perm)" "\<forall>u\<in>range_pages (virt, ps, pe, perm). \<not> present (pte (ram s) d u)"
  shows "\<exists>r t L'. mappages d virt (pe - ps) ps perm s = Ret r t \<and> (r = 0 \<or> r = -1) \<and> grew d L s L' t \<and> kspace d L' t \<and>
    (\<forall>u<1048576. u \<notin> range_pages (virt, ps, pe, perm) \<longrightarrow> pte (ram t) d u = pte (ram s) d u)"
proof -
  let ?v = "unat virt div 4096" and ?l = "(unat virt + unat (pe - ps) - 1) div 4096"
  have c: "0 < unat (pe - ps)" "unat virt + unat (pe - ps) \<le> 4294967296" "524288 \<le> ?v" using assms(2) by (auto simp: range_ok_def)
  have vl: "?v + (?l - ?v) = ?l" using c(1) by (intro le_add_diff_inverse div_le_mono) simp
  obtain r t L' where m: "mappages d virt (pe - ps) ps perm s = Ret r t" "map_result d ?v (?l - ?v) ps perm L s r L' t"
    using mappages_spec [of d L s "pe - ps" virt ps perm] assms(1,3) c(1,2) by (auto simp: kspace_def range_pages_def)
  have pt: "\<forall>u<1048576. u \<notin> range_pages (virt, ps, pe, perm) \<longrightarrow> pte (ram t) d u = pte (ram s) d u"
    using m(2) vl by (auto simp: map_result_def range_pages_def)
  then have "upages (ram t) d = {}" using assms(1) c(3) by (auto simp: kspace_def upages_def range_pages_def)
  then show ?thesis using m pt by (auto simp: map_result_def grew_def kspace_def)
qed

lemma range_pages_less: "range_ok p \<Longrightarrow> u \<in> range_pages p \<Longrightarrow> u < 1048576"
  by (auto simp: range_ok_def range_pages_def)

lemma setup_rounds:
  assumes "kspace d L s" "KERNBASE < kend s" "\<forall>r\<in>set rs. range_ok r" "\<forall>r\<in>set rs. \<forall>u\<in>range_pages r. \<not> present (pte (ram s) d u)"
    and "distinct rs" "pairwise (\<lambda>r q. range_pages r \<inter> range_pages q = {}) (set rs)"
  shows "\<exists>r t L'. kscan rs (setupkvm_round d) s = Ret r t \<and> mem_step s t \<and>
    only (dir_pages (ram s) d \<union> set L) (ram s) (ram t) \<and>
    (r = None \<and> kspace d L' t \<and> dir_pages (ram t) d \<union> set L' = dir_pages (ram s) d \<union> set L \<or>
     r = Some () \<and> free_list t L' \<and> set L' = dir_pages (ram s) d \<union> set L)"
  using assms
proof (induction rs arbitrary: s L)
  case Nil
  then show ?case by auto
next
  case (Cons q rs)
  obtain virt ps pe perm where q: "q = (virt, ps, pe, perm)" by (cases q)
  obtain r t L' where m: "mappages d virt (pe - ps) ps perm s = Ret r t" "r = 0 \<or> r = -1" "grew d L s L' t" "kspace d L' t"
    "\<forall>u<1048576. u \<notin> range_pages q \<longrightarrow> pte (ram t) d u = pte (ram s) d u"
    using map_range [OF Cons.prems(1), of virt ps pe perm] Cons.prems(3,4) q by auto
  have g: "mem_step s t" "dir_pages (ram t) d \<union> set L' = dir_pages (ram s) d \<union> set L" "only (dir_pages (ram s) d \<union> set L) (ram s) (ram t)"
    using m(3) only_mono [of "dir_pages (ram t) d" "ram s" "ram t"] by (auto simp: grew_def)
  have ke: "KERNBASE < kend t" using mem_step_same(2) [OF g(1)] Cons.prems(2) by simp
  show ?case
  proof (cases "r = 0")
    case True
    have np: "\<not> present (pte (ram t) d u)" if "p \<in> set rs" "u \<in> range_pages p" for p u
    proof -
      have "p \<noteq> q" using Cons.prems(5) that(1) by auto
      then have "u \<notin> range_pages q" using Cons.prems(6) that by (auto simp: pairwise_def)
      then show ?thesis using Cons.prems(3,4) m(5) that range_pages_less [of p u] by auto
    qed
    have "\<exists>r u L''. kscan rs (setupkvm_round d) t = Ret r u \<and> mem_step t u \<and>
        only (dir_pages (ram t) d \<union> set L') (ram t) (ram u) \<and>
        (r = None \<and> kspace d L'' u \<and> dir_pages (ram u) d \<union> set L'' = dir_pages (ram t) d \<union> set L' \<or>
         r = Some () \<and> free_list u L'' \<and> set L'' = dir_pages (ram t) d \<union> set L')"
      using np Cons.prems(3,5,6) by (intro Cons.IH [OF m(4) ke]) (auto simp: pairwise_insert)
    then obtain r' u L'' where u: "kscan rs (setupkvm_round d) t = Ret r' u" "mem_step t u"
        "only (dir_pages (ram s) d \<union> set L) (ram t) (ram u)"
        "r' = None \<and> kspace d L'' u \<and> dir_pages (ram u) d \<union> set L'' = dir_pages (ram s) d \<union> set L \<or>
         r' = Some () \<and> free_list u L'' \<and> set L'' = dir_pages (ram s) d \<union> set L"
      unfolding g(2) by blast
    have "kscan (q # rs) (setupkvm_round d) s = Ret r' u" using m(1) True u(1) q by (simp add: setupkvm_round_def)
    then show ?thesis using u(4) mem_step_trans [OF g(1) u(2)] only_trans [OF g(3) u(3)] by (metis sup.idem)
  next
    case False
    then have "r < 0" using m(2) by auto
    obtain u L'' where f: "freevm d t = Ret () u" "mem_step t u" "free_list u L''" "set L'' = set L' \<union> dir_pages (ram t) d"
      "only (dir_pages (ram t) d) (ram t) (ram u)"
      using freevm_spec [of d L' t] kspace_uspace [OF m(4)] ke by auto
    have "kscan (q # rs) (setupkvm_round d) s = Ret (Some ()) u"
      using m(1) \<open>r < 0\<close> f(1) q by (simp add: setupkvm_round_def)
    moreover have "only (dir_pages (ram s) d \<union> set L) (ram s) (ram u)"
      by (rule only_mono [OF only_trans [OF g(3) f(5)]]) (use g(2) in auto)
    moreover have "set L'' = dir_pages (ram s) d \<union> set L" using f(4) g(2) by auto
    ultimately show ?thesis using mem_step_trans [OF g(1) f(2)] f(3) by blast
  qed
qed

text \<open>The linker puts \<open>data\<close> on a page boundary between the kernel text and the end of physical memory.\<close>

definition kdata_ok :: "u32 \<Rightarrow> bool" where
  "kdata_ok data \<longleftrightarrow> unat data mod 4096 = 0 \<and> unat KERNLINK < unat data \<and> unat data < unat (P2V PHYSTOP)"

lemma kmap_ranges:
  assumes "kdata_ok data"
  shows "\<forall>r\<in>set (kmap data). range_ok r" "distinct (kmap data)"
    "pairwise (\<lambda>r q. range_pages r \<inter> range_pages q = {}) (set (kmap data))"
proof -
  obtain k where k: "unat data = 4096 * k" using assms by (auto simp: kdata_ok_def)
  have b: "524544 < k" "k < 581632" using assms k by (simp_all add: kdata_ok_def KERNLINK_def KERNBASE_def EXTMEM_def P2V_def PHYSTOP_def)
  have "V2P data - V2P KERNLINK = data - 0x80100000" by (simp add: V2P_def KERNLINK_def KERNBASE_def EXTMEM_def)
  then have 2: "unat (V2P data - V2P KERNLINK) = 4096 * k - 2148532224"
    using k b by (simp add: unat_sub word_le_nat_alt)
  have "PHYSTOP - V2P data = 0x8E000000 - data" by (simp add: V2P_def KERNBASE_def PHYSTOP_def)
  then have 3: "unat (PHYSTOP - V2P data) = 2382364672 - 4096 * k"
    using k b by (simp add: unat_sub word_le_nat_alt)
  have "(4096 * k - 1) div 4096 = k - 1" using b by (cases k) simp_all
  then have r: "range_pages (KERNBASE, 0, EXTMEM, PTE_W) = {524288..524543}"
    "range_pages (KERNLINK, V2P KERNLINK, V2P data, 0) = {524544..k - 1}"
    "range_pages (data, V2P data, PHYSTOP, PTE_W) = {k..581631}"
    "range_pages (DEVSPACE, DEVSPACE, 0, PTE_W) = {1040384..1048575}"
    using 2 3 k b by (simp_all add: range_pages_def KERNBASE_def KERNLINK_def EXTMEM_def DEVSPACE_def)
  then show "pairwise (\<lambda>r q. range_pages r \<inter> range_pages q = {}) (set (kmap data))"
    using b by (auto simp: kmap_def pairwise_insert)
  show "\<forall>r\<in>set (kmap data). range_ok r"
    using 2 3 k b by (simp add: kmap_def range_ok_def KERNBASE_def KERNLINK_def EXTMEM_def DEVSPACE_def)
  have "data \<noteq> KERNBASE" "data \<noteq> KERNLINK" "data \<noteq> DEVSPACE"
    using k b by (auto simp: KERNBASE_def KERNLINK_def EXTMEM_def DEVSPACE_def)
  then show "distinct (kmap data)" by (auto simp: kmap_def KERNBASE_def KERNLINK_def EXTMEM_def DEVSPACE_def)
qed

lemma setupkvm_spec:
  assumes "quiet s" "free_list s L" "KERNBASE < kend s" "kdata_ok (kdata s)"
  shows "\<exists>d t L'. setupkvm s = Ret d t \<and> mem_step s t \<and> only (set L) (ram s) (ram t) \<and>
    (d = 0 \<and> free_list t L' \<and> set L' = set L \<or> d \<noteq> 0 \<and> kspace d L' t \<and> dir_pages (ram t) d \<union> set L' = set L)"
proof (cases L)
  case Nil
  then have "s\<lparr>freelist := next_free s\<rparr> = s" using assms(2) by (simp add: free_list_empty next_free_def upd_same_freelist)
  then have "setupkvm s = Ret 0 s" using Nil assms by (simp add: setupkvm_def kalloc_quiet free_list_empty)
  then show ?thesis using assms(2) by auto
next
  case (Cons d K)
  have d: "freelist s = d" "d \<noteq> 0" "free_list (s\<lparr>freelist := next_free s\<rparr>) K" "page_ok (kend s) d" "d \<notin> set K"
    using free_list_take [of s d K] assms(2) Cons by (auto simp: free_list_def)
  let ?z = "s\<lparr>freelist := next_free s, ram := memset (ram s) (unat d) 0 4096\<rparr>"
  have o: "only {d} (ram s) (ram ?z)" using zero_page(1) by simp
  have "free_list ((s\<lparr>freelist := next_free s\<rparr>)\<lparr>ram := ram ?z\<rparr>) K"
    by (rule free_list_only [OF d(3), of "{d}"]) (use o d in auto)
  then have fl: "free_list ?z K" by simp
  have pz: "pde (ram ?z) d i = 0" if "i < 1024" for i
    using zero_page(2) [of "4 * i" "ram s" d] zero_page(2) [of "4 * i + 1" "ram s" d] zero_page(2) [of "4 * i + 2" "ram s" d]
      zero_page(2) [of "4 * i + 3" "ram s" d] that by (simp add: pde_def load32_def add.assoc)
  then have i: "dir_idx (ram ?z) d = {}" "pte (ram ?z) d u = 0" if "u < 1048576" for u
    using that by (auto simp: dir_idx_def present_odd pte_def)
  have D: "dir_pages (ram ?z) d = {d}" "dir_ok (kend ?z) (ram ?z) d" using i(1) [of 0] d(4) by (simp_all add: dir_pages_def dir_ok_def)
  have ks: "kspace d K ?z" using fl D d(5) assms(1) i(2) by (auto simp: kspace_def vspace_def upages_def present_odd)
  have "KERNBASE < kend ?z" using assms(3) by simp
  moreover have "\<forall>r\<in>set (kmap (kdata s)). \<forall>u\<in>range_pages r. \<not> present (pte (ram ?z) d u)"
    using i(2) kmap_ranges(1) [OF assms(4)] range_pages_less by (metis even_zero present_odd)
  moreover have S: "dir_pages (ram ?z) d \<union> set K = set L" using D(1) Cons by simp
  ultimately obtain r t L' where k: "kscan (kmap (kdata s)) (setupkvm_round d) ?z = Ret r t" "mem_step ?z t" "only (set L) (ram ?z) (ram t)"
    "r = None \<and> kspace d L' t \<and> dir_pages (ram t) d \<union> set L' = set L \<or> r = Some () \<and> free_list t L' \<and> set L' = set L"
    using setup_rounds [OF ks _ kmap_ranges(1) [OF assms(4)] _ kmap_ranges(2,3) [OF assms(4)], unfolded S] by blast
  have "\<not> DEVSPACE < P2V PHYSTOP" by (simp add: DEVSPACE_def P2V_def PHYSTOP_def KERNBASE_def)
  then have "setupkvm s = Ret (case r of Some _ \<Rightarrow> 0 | None \<Rightarrow> d) t"
    using k(1) d assms(1) by (simp add: setupkvm_def kalloc_quiet)
  moreover have "mem_step s t" using mem_step_trans [OF _ k(2)] by (simp add: mem_step_def)
  moreover have "only (set L) (ram s) (ram t)" by (rule only_mono [OF only_trans [OF o k(3)]]) (simp add: Cons)
  ultimately show ?thesis using k(4) d(2) by (cases r) auto
qed

section \<open>The user part\<close>

text \<open>\<open>copyuvm\<close> after \<open>n\<close> pages, from the state \<open>s0\<close> with the free pages \<open>L0\<close> on.\<close>

definition copying :: "u32 \<Rightarrow> u32 \<Rightarrow> nat \<Rightarrow> u32 list \<Rightarrow> 'z mem_state_scheme \<Rightarrow> u32 list \<Rightarrow> 'z mem_state_scheme \<Rightarrow> bool" where
  "copying d c n L0 s0 L s \<longleftrightarrow> uspace d L s \<and> uspace c L s \<and> held (ram s) d \<inter> held (ram s) c = {} \<and> mem_step s0 s \<and>
     held (ram s) d = held (ram s0) d \<and> upages (ram s) d = upages (ram s0) d \<and> upages (ram s) c = {..<n} \<and>
     set L \<union> held (ram s) c = set L0 \<and> (\<forall>x<2147483648. umem (ram s) d x = umem (ram s0) d x) \<and>
     (\<forall>x<2147483648. umem (ram s) c x = (if x div 4096 < n then umem (ram s0) d x else None))"

lemma copying_other:
  assumes "copying d c n L0 s0 L s" "only P (ram s) (ram t)" "P \<subseteq> set L" "mem_step s t" "free_list t L'" "set L' = set L"
  shows "copying d c n L0 s0 L' t"
proof -
  have u: "uspace d L s" "uspace c L s" using assms(1) by (simp_all add: copying_def)
  have P: "pages_ok (kend s) P" "P \<inter> held (ram s) d = {}" "P \<inter> held (ram s) c = {}"
    using held_free [OF u(1)] held_free [OF u(2)] assms(3) u(1) free_pages_ok [of s L]
    by (auto simp: uspace_def vspace_def pages_ok_def)
  have "set L' \<inter> held (ram s) d = {}" "set L' \<inter> held (ram s) c = {}"
    using held_free [OF u(1)] held_free [OF u(2)] assms(6) by auto
  then show ?thesis
    using uspace_other [OF u(1) assms(2) P(1,2) assms(4,5)] uspace_other [OF u(2) assms(2) P(1,3) assms(4,5)]
      assms(1,6) mem_step_trans [OF _ assms(4)] by (auto simp: copying_def)
qed

lemma flags_PU:
  assumes "present e"
  shows "and (or (PTE_FLAGS e) PTE_P) PTE_PU = and e PTE_PU" "unat (PTE_FLAGS e) < 4096"
proof -
  have "bit e 0" using assms by (simp add: present_odd bit_0)
  then have e: "or e PTE_P = e" unfolding PTE_P_def by (intro bit_word_eqI) (auto simp: bit_or_iff bit_1_iff)
  have m: "or 0xFFF PTE_P = 0xFFF" "and 0xFFF PTE_PU = PTE_PU" by (simp_all add: PTE_P_def PTE_PU_def PTE_U_def)
  have "or (PTE_FLAGS e) PTE_P = and (or e PTE_P) (or 0xFFF PTE_P)"
    unfolding PTE_FLAGS_def by (rule bit_word_eqI) (auto simp only: bit_or_iff bit_and_iff)
  then show "and (or (PTE_FLAGS e) PTE_P) PTE_PU = and e PTE_PU" by (simp only: e m and.assoc)
  show "unat (PTE_FLAGS e) < 4096" by (simp add: PTE_FLAGS_def mask12 unat_and_mask)
qed

lemma copied_page:
  assumes "copying d c n L0 s0 (p # K) s" "n \<in> upages (ram s) d" "only {p} (ram s) m"
    and cp: "\<And>j. j < 4096 \<Longrightarrow> m (unat p + j) = ram s (unat (frame (pte (ram s) d n)) + j)"
    and t: "uspace c L' t" "mem_step s t" "upages (ram t) c = insert n (upages (ram s) c)" "frame (pte (ram t) c n) = p"
      "\<forall>u<1048576. u \<noteq> n \<longrightarrow> pte (ram t) c u = pte (ram s) c u" "grew c K (s\<lparr>freelist := next_free s, ram := m\<rparr>) L' t"
      "\<forall>x<2147483648. umem (ram t) c x = (if x div 4096 = n
         then if and (or (PTE_FLAGS (pte (ram s) d n)) PTE_P) PTE_PU = PTE_PU then Some (m (unat p + x mod 4096)) else None
         else umem (ram s) c x)"
  shows "copying d c (Suc n) L0 s0 L' t"
proof -
  let ?z = "s\<lparr>freelist := next_free s, ram := m\<rparr>"
  have u: "uspace d (p # K) s" "uspace c (p # K) s" "held (ram s) d \<inter> held (ram s) c = {}" "upages (ram s) c = {..<n}"
    using assms(1) unfolding copying_def by auto
  have vs: "vspace c (p # K) s" using u(2) by (simp add: uspace_def)
  note k = take_page [OF vs assms(3)]
  have g: "dir_pages (ram t) c \<union> set L' = dir_pages (ram s) c \<union> set K" "only (dir_pages (ram t) c) m (ram t)"
    using t(6) k(6) by (auto simp: grew_def)
  have nl: "n < 524288" using assms(2) by (simp add: upages_def)
  have fr: "frames_in (ram t) c 0 524288 = insert p (frames_in (ram s) c 0 524288)"
  proof -
    have "frame (pte (ram t) c v) = frame (pte (ram s) c v)" if "v < n" for v using t(5) that nl by simp
    moreover have U: "{v \<in> upages (ram t) c. 0 \<le> v \<and> v < 524288} = insert n {..<n}" "{v \<in> upages (ram s) c. 0 \<le> v \<and> v < 524288} = {..<n}"
      using t(3) u(4) nl by auto
    ultimately show ?thesis unfolding frames_in_def U using t(4) by simp
  qed
  have h: "set L' \<union> held (ram t) c = set (p # K) \<union> held (ram s) c" using g(1) fr by (auto simp: held_def)
  have P: "only (insert p (dir_pages (ram t) c)) (ram s) (ram t)" "insert p (dir_pages (ram t) c) \<subseteq> set (p # K) \<union> held (ram s) c"
    using only_trans [OF assms(3) g(2)] g(1) by (auto simp: held_def)
  have hd: "held (ram s) d \<inter> (set (p # K) \<union> held (ram s) c) = {}" using held_free [OF u(1)] u(3) by auto
  have ok: "pages_ok (kend s) (set (p # K) \<union> held (ram s) c)"
    using held_pages [OF u(2)] free_pages_ok [of s "p # K"] vs by (simp add: vspace_def)
  have okP: "pages_ok (kend s) (insert p (dir_pages (ram t) c))" using ok P(2) unfolding pages_ok_def by blast
  have dis: "insert p (dir_pages (ram t) c) \<inter> held (ram s) d = {}" "set L' \<inter> held (ram s) d = {}" using hd P(2) h by blast+
  have fl: "free_list t L'" using t(1) by (simp add: uspace_def vspace_def)
  note D = uspace_other [OF u(1) P(1) okP dis(1) t(2) fl dis(2)]
  have c: "mem_step s0 s" "held (ram s) d = held (ram s0) d" "upages (ram s) d = upages (ram s0) d" "set (p # K) \<union> held (ram s) c = set L0"
      "\<forall>x<2147483648. umem (ram s) d x = umem (ram s0) d x"
      "\<forall>x<2147483648. umem (ram s) c x = (if x div 4096 < n then umem (ram s0) d x else None)"
    using assms(1) unfolding copying_def by blast+
  have "present (pte (ram s) d n)" using assms(2) by (simp add: upages_def)
  note fl = flags_PU(1) [OF this]
  have um: "umem (ram t) c x = (if x div 4096 < Suc n then umem (ram s0) d x else None)" if x: "x < 2147483648" for x
  proof (cases "x div 4096 = n")
    case True
    have "umem (ram t) c x = umem (ram s) d x"
      using t(7) x cp [of "x mod 4096"] True fl by (simp add: umem_def [of "ram s" d])
    then show ?thesis using True c(5) x by simp
  next
    case False
    then have "umem (ram t) c x = umem (ram s) c x" using t(7) x by simp
    then show ?thesis using False c(6) x by (simp add: less_Suc_eq)
  qed
  show ?thesis
    unfolding copying_def
  proof (intro conjI)
    show "uspace d L' t" "uspace c L' t" by (fact D(1), fact t(1))
    show "held (ram t) d \<inter> held (ram t) c = {}" unfolding D(2) using hd h by blast
    show "mem_step s0 t" by (rule mem_step_trans [OF c(1) t(2)])
    show "held (ram t) d = held (ram s0) d" "upages (ram t) d = upages (ram s0) d" using D(2,3) c(2,3) by simp_all
    show "upages (ram t) c = {..<Suc n}" using t(3) u(4) by auto
    show "set L' \<union> held (ram t) c = set L0" using h c(4) by simp
    show "\<forall>x<2147483648. umem (ram t) d x = umem (ram s0) d x" using D(5) c(5) by simp
    show "\<forall>x<2147483648. umem (ram t) c x = (if x div 4096 < Suc n then umem (ram s0) d x else None)" using um by blast
  qed
qed

lemma copy_round:
  assumes "copying d c n L0 s0 L s" "n \<in> upages (ram s0) d" "unat a = 4096 * n"
  shows "\<exists>r t L'. copyuvm_round d c a s = Ret r t \<and>
    (r = None \<and> copying d c (Suc n) L0 s0 L' t \<or> r = Some () \<and> copying d c n L0 s0 L' t)"
proof -
  have u: "uspace d L s" "uspace c L s" "held (ram s) d \<inter> held (ram s) c = {}" "n \<in> upages (ram s) d" "n \<notin> upages (ram s) c"
    using assms(1,2) unfolding copying_def by auto
  have nl: "n < 524288" using u(4) by (simp add: upages_def)
  let ?e = "pte (ram s) d n" and ?x = "tab (ram s) d (unat a div 4194304) + 4 * PTX a"
  have q: "quiet s" "free_list s L" "vspace d L s" "dir_ok (kend s) (ram s) d" using u(1) by (auto simp: uspace_def vspace_def)
  have i: "unat a div 4194304 = n div 1024" "unat a div 4096 = n" using assms(3) vpn_split [of n a] by auto
  have pr: "present (pde (ram s) d (unat a div 4194304))" using upages_slot [OF u(4)] i(1) by simp
  have look: "walkpgdir d a False s = Ret (Some ?x) s" using walkpgdir_look [OF q(4), of a] pr by simp
  have pk: "peek32 ?x s = ?e" using set_pte_step(1) [OF q(3) pr] i by simp
  have pe: "present ?e" using u(4) by (simp add: upages_def)
  show ?thesis
  proof (cases L)
    case Nil
    then have "s\<lparr>freelist := next_free s\<rparr> = s" using q(2) by (simp add: free_list_empty next_free_def upd_same_freelist)
    then have "copyuvm_round d c a s = Ret (Some ()) s"
      using look pk pe q Nil by (simp add: copyuvm_round_def present_def kalloc_quiet free_list_empty)
    then show ?thesis using assms(1) by blast
  next
    case (Cons p K)
    let ?m = "memmove (ram s) (unat p) (unat (frame ?e)) 4096" and ?z = "s\<lparr>freelist := next_free s, ram := memmove (ram s) (unat p) (unat (frame ?e)) 4096\<rparr>"
    have o: "only {p} (ram s) ?m" and cp: "\<And>j. j < 4096 \<Longrightarrow> ?m (unat p + j) = ram s (unat (frame ?e) + j)"
      using only_put [of 0 "get_bytes (ram s) (unat (frame ?e)) 4096" p "ram s"] by (simp_all add: memmove_put_get put_bytes_def)
    have k: "kalloc s = Ret p (s\<lparr>freelist := next_free s\<rparr>)" "p \<noteq> 0" "page_ok (kend s) p" "vspace d K ?z"
      using take_page(1,2,7,3) [of d p K s ?m] q(3) o Cons by auto
    have step: "copyuvm_round d c a s = kbind (mappages c a PGSIZE (V2P p) (PTE_FLAGS ?e) ?z) (\<lambda>r s.
        if r < 0 then kbind (kfree p s) (\<lambda>_ s. Ret (Some ()) s) else Ret None s)"
      using look pk pe k by (simp add: copyuvm_round_def present_def frame_def)
    from u(2) [unfolded Cons] o assms(3) nl u(5) flags_PU(2) [OF pe] show ?thesis
    proof (cases rule: map_page)
      case full
      have f: "kfree p ?z = Ret () (freed p ?z)" "free_list (freed p ?z) [p]" "mem_step ?z (freed p ?z)"
        using kfree_more [of ?z "[]" p] k(3,4) full(1) by (auto simp: vspace_def)
      have "copying d c n L0 s0 [p] (freed p ?z)"
      proof (rule copying_other [OF assms(1), of "{p}"])
        show "only {p} (ram s) (ram (freed p ?z))" using only_trans [of "{p}" "ram s" "ram ?z", OF _ freed_only [of p ?z]] o by simp
        show "mem_step s (freed p ?z)" using mem_step_trans [OF _ f(3)] by (simp add: mem_step_def)
      qed (use f(2) full(1) Cons in auto)
      then show ?thesis using step full(2) f(1) by auto
    next
      case (mapped t L')
      have "copying d c (Suc n) L0 s0 L' t"
        using copied_page [OF assms(1) [unfolded Cons] u(4) o cp mapped(2,4-9)] .
      then show ?thesis using step mapped(1) by auto
    qed
  qed
qed

lemma copy_rounds:
  assumes "copying d c n L0 s0 L s" "map unat as = map ((*) 4096) [n..<N]" "n \<le> N" "\<forall>v<N. v \<in> upages (ram s0) d"
  shows "\<exists>r t L' k. kscan as (copyuvm_round d c) s = Ret r t \<and> copying d c k L0 s0 L' t \<and> (r = None \<and> k = N \<or> r = Some ())"
  using assms
proof (induction as arbitrary: n s L)
  case Nil
  then have "n = N" by (cases "n < N") auto
  then show ?case using Nil by auto
next
  case (Cons a as)
  then have n: "n < N" by (cases "n < N") auto
  then have a: "unat a = 4096 * n" "map unat as = map ((*) 4096) [Suc n..<N]" using Cons.prems(2) by (simp_all add: upt_conv_Cons)
  obtain r t L' where r: "copyuvm_round d c a s = Ret r t"
    "r = None \<and> copying d c (Suc n) L0 s0 L' t \<or> r = Some () \<and> copying d c n L0 s0 L' t"
    using copy_round [OF Cons.prems(1) _ a(1)] Cons.prems(4) n by blast
  show ?case
  proof (cases r)
    case None
    then have "copying d c (Suc n) L0 s0 L' t" using r(2) by simp
    from Cons.IH [OF this a(2)] n Cons.prems(4) show ?thesis using r(1) None by auto
  next
    case Some
    then show ?thesis using r by auto
  qed
qed

text \<open>
  C4: \<open>copyuvm\<close> never panics on a process whose pages below \<open>sz\<close> are there. It leaves the process as it was, and returns either
  a new address space that reads the same below \<open>sz\<close>, shares no page with the old one and holds exactly the pages that left the
  free list, or 0 after giving back everything it took.
\<close>

theorem copyuvm_copies:
  assumes "uspace d L s" "KERNBASE < kend s" "kdata_ok (kdata s)" "sz < KERNBASE" "\<forall>v<npages sz. v \<in> upages (ram s) d"
  shows "\<exists>c t L'. copyuvm d sz s = Ret c t \<and> mem_step s t \<and> uspace d L' t \<and> (\<forall>x<2147483648. umem (ram t) d x = umem (ram s) d x) \<and>
    (c = 0 \<and> set L' = set L \<or>
     c \<noteq> 0 \<and> uspace c L' t \<and> held (ram t) c \<inter> held (ram t) d = {} \<and> set L' \<union> held (ram t) c = set L \<and>
     (\<forall>x<2147483648. umem (ram t) c x = (if x div 4096 < npages sz then umem (ram s) d x else None)))"
proof -
  have q: "quiet s" "free_list s L" using assms(1) by (auto simp: uspace_def vspace_def)
  note hf = held_free [OF assms(1)] and ok = free_pages_ok [OF q(2)]
  obtain c t L' where k: "setupkvm s = Ret c t" "mem_step s t" "only (set L) (ram s) (ram t)"
    "c = 0 \<and> free_list t L' \<and> set L' = set L \<or> c \<noteq> 0 \<and> kspace c L' t \<and> dir_pages (ram t) c \<union> set L' = set L"
    using setupkvm_spec [OF q assms(2,3)] by blast
  have fl: "free_list t L'" "set L' \<subseteq> set L" using k(4) by (auto simp: kspace_def vspace_def)
  have "set L' \<inter> held (ram s) d = {}" "set L \<inter> held (ram s) d = {}" using hf fl(2) by blast+
  note o = uspace_other [OF assms(1) k(3) ok this(2) k(2) fl(1) this(1)]
  show ?thesis
  proof (cases "c = 0")
    case True
    then have "copyuvm d sz s = Ret 0 t" using k(1) by (simp add: copyuvm_def)
    then show ?thesis using k(2,4) o(1,5) True by blast
  next
    case False
    have ks: "kspace c L' t" "held (ram t) c \<union> set L' = set L" using k(4) False kspace_uspace [of c L' t] by auto
    have "umem (ram t) c x = None" if "x < 2147483648" for x
      using umem_present [of "ram t" c x] ks(1) that by (cases "umem (ram t) c x = None") (auto simp: kspace_def upages_def)
    then have cp: "copying d c 0 L s L' t"
      unfolding copying_def using o k(2) kspace_uspace [OF ks(1)] ks hf by (auto simp: kspace_def)
    have "map unat (page_steps 0 sz) = map ((*) 4096) [0..<npages sz]" using assms(4) by (intro page_steps_pages) simp_all
    then obtain r t' L'' n where r: "kscan (page_steps 0 sz) (copyuvm_round d c) t = Ret r t'" "copying d c n L s L'' t'"
      "r = None \<and> n = npages sz \<or> r = Some ()"
      using copy_rounds [OF cp _ _ assms(5)] by blast
    note c = r(2) [unfolded copying_def]
    show ?thesis
    proof (cases r)
      case None
      then have "copyuvm d sz s = Ret c t'" "n = npages sz" using k(1) r False by (auto simp: copyuvm_def)
      then show ?thesis using c False by (auto simp: Int_commute)
    next
      case Some
      have us: "uspace c L'' t'" "uspace d L'' t'" "KERNBASE < kend t'" using c mem_step_same(2) [of s t'] assms(2) by auto
      obtain u M where f: "freevm c t' = Ret () u" "mem_step t' u" "free_list u M" "set M = set L'' \<union> held (ram t') c"
        "only (held (ram t') c) (ram t') (ram u)" using freevm_spec [OF us(1,3)] by blast
      have m: "set M = set L" "set M \<inter> held (ram t') d = {}" "held (ram t') c \<inter> held (ram t') d = {}"
        using f(4) c hf by auto
      note d = uspace_other [OF us(2) f(5) held_pages [OF us(1)] m(3) f(2,3) m(2)]
      have "copyuvm d sz s = Ret 0 u" using k(1) r(1) Some f(1) False by (simp add: copyuvm_def)
      moreover have "mem_step s u" using mem_step_trans [OF _ f(2)] c by simp
      moreover have "\<forall>x<2147483648. umem (ram u) d x = umem (ram s) d x" using d(5) c by simp
      ultimately show ?thesis using d(1) m(1) by blast
    qed
  qed
qed

theorem copyuvm_copies_witness:
  "\<exists>d L s c t L'. umem (ram s) d 5 = Some 0 \<and> copyuvm d 100 s = Ret c (t :: vm_state) \<and> umem (ram t) d 5 = Some 0 \<and>
     (c = 0 \<and> set L' = set L \<or> umem (ram t) c 5 = Some 0 \<and> held (ram t) c \<inter> held (ram t) d = {})"
proof -
  obtain s :: vm_state and L where s: "uspace 0x80200000 L s" "kend s = 0x80120000" "kdata s = 0x80110000"
     "umem (ram s) 0x80200000 5 = Some 0" "upages (ram s) 0x80200000 = {0}"
    using space_demo_grown by metis
  have "kdata_ok 0x80110000" by (simp add: kdata_ok_def KERNLINK_def KERNBASE_def EXTMEM_def P2V_def PHYSTOP_def)
  then obtain c t L' where "copyuvm 0x80200000 100 s = Ret c t" "\<forall>x<2147483648. umem (ram t) 0x80200000 x = umem (ram s) 0x80200000 x"
    "c = 0 \<and> set L' = set L \<or> held (ram t) c \<inter> held (ram t) 0x80200000 = {} \<and>
      (\<forall>x<2147483648. umem (ram t) c x = (if x div 4096 < npages 100 then umem (ram s) 0x80200000 x else None))"
    using copyuvm_copies [OF s(1), of 100] s(2,3,5) by (auto simp: KERNBASE_def npages_def)
  moreover from this(2,3) s(4) have "umem (ram t) 0x80200000 5 = Some 0"
    "c = 0 \<and> set L' = set L \<or> umem (ram t) c 5 = Some 0 \<and> held (ram t) c \<inter> held (ram t) 0x80200000 = {}"
    by (auto simp: npages_def)
  ultimately show ?thesis using s(4) by blast
qed

end
