(* ===== verification/Ide.thy ===== *)
theory Ide
  imports Bio Ports "HOL-Library.While_Combinator"
begin

text \<open>
  The driver of the IDE disk, \<open>ide.c\<close>. A request is queued under \<open>IdeLock\<close>, its process sleeps,
  and the interrupt handler completes the request at the head of the queue and starts the next.
  The queue is linked through the buffers by \<open>qnext\<close>.

  The disk is hardware: the predicate \<open>ata_disk\<close> collects what the driver relies on, in terms of the
  disk's registers and its sectors. The theorems show that queueing and interrupts together do
  what the synchronous driver \<open>memide.c\<close> of the rest of the development does.
\<close>

section \<open>Constants and state\<close>

definition SECTOR_SIZE :: nat where "SECTOR_SIZE = 512"
definition FSSIZE :: u32 where "FSSIZE = 2000"
definition IDE_BSY :: u8 where "IDE_BSY = 0x80"
definition IDE_DRDY :: u8 where "IDE_DRDY = 0x40"
definition IDE_DF :: u8 where "IDE_DF = 0x20"
definition IDE_ERR :: u8 where "IDE_ERR = 0x01"
definition IDE_CMD_READ :: u8 where "IDE_CMD_READ = 0x20"
definition IDE_CMD_WRITE :: u8 where "IDE_CMD_WRITE = 0x30"
definition IDE_CMD_RDMUL :: u8 where "IDE_CMD_RDMUL = 0xc4"
definition IDE_CMD_WRMUL :: u8 where "IDE_CMD_WRMUL = 0xc5"

record 'd ide_state = bio_state +
  idequeue :: "nat option"
  qnext :: "nat \<Rightarrow> nat option"
  havedisk1 :: bool
  ioapic :: ioapic_regs
  dev :: 'd

definition upd_dev :: "('d \<Rightarrow> 'd) \<Rightarrow> ('d, 'z) ide_state_scheme \<Rightarrow> ('d, 'z) ide_state_scheme" where
  "upd_dev f s = s\<lparr>dev := f (dev s)\<rparr>"

section \<open>Frame rules\<close>

lemma ide_this_cpu [simp]:
  "this_cpu (s\<lparr>idequeue := x0\<rparr>) = this_cpu s"
  "this_cpu (s\<lparr>qnext := x1\<rparr>) = this_cpu s"
  "this_cpu (s\<lparr>havedisk1 := x2\<rparr>) = this_cpu s"
  "this_cpu (s\<lparr>ioapic := x3\<rparr>) = this_cpu s"
  "this_cpu (s\<lparr>dev := x4\<rparr>) = this_cpu s"
  by (simp_all add: this_cpu_def)

lemma ide_cpu_known [simp]:
  "cpu_known (s\<lparr>idequeue := x0\<rparr>) = cpu_known s"
  "cpu_known (s\<lparr>qnext := x1\<rparr>) = cpu_known s"
  "cpu_known (s\<lparr>havedisk1 := x2\<rparr>) = cpu_known s"
  "cpu_known (s\<lparr>ioapic := x3\<rparr>) = cpu_known s"
  "cpu_known (s\<lparr>dev := x4\<rparr>) = cpu_known s"
  by (simp_all add: cpu_known_def)

lemma ide_quiet [simp]:
  "quiet (s\<lparr>idequeue := x0\<rparr>) = quiet s"
  "quiet (s\<lparr>qnext := x1\<rparr>) = quiet s"
  "quiet (s\<lparr>havedisk1 := x2\<rparr>) = quiet s"
  "quiet (s\<lparr>ioapic := x3\<rparr>) = quiet s"
  "quiet (s\<lparr>dev := x4\<rparr>) = quiet s"
  by (simp_all add: quiet_def)

lemma ide_in_proc [simp]:
  "in_proc (s\<lparr>idequeue := x0\<rparr>) i = in_proc s i"
  "in_proc (s\<lparr>qnext := x1\<rparr>) i = in_proc s i"
  "in_proc (s\<lparr>havedisk1 := x2\<rparr>) i = in_proc s i"
  "in_proc (s\<lparr>ioapic := x3\<rparr>) i = in_proc s i"
  "in_proc (s\<lparr>dev := x4\<rparr>) i = in_proc s i"
  by (simp_all add: in_proc_def)

lemma ide_sel [simp]:
  "idequeue (with_locks L s) = idequeue s"
  "qnext (with_locks L s) = qnext s"
  "havedisk1 (with_locks L s) = havedisk1 s"
  "ioapic (with_locks L s) = ioapic s"
  "dev (with_locks L s) = dev s"
  by (simp_all add: with_locks_def)

lemma ide_upd [simp]:
  "(with_locks L s)\<lparr>idequeue := x0\<rparr> = with_locks L (s\<lparr>idequeue := x0\<rparr>)"
  "(with_locks L s)\<lparr>qnext := x1\<rparr> = with_locks L (s\<lparr>qnext := x1\<rparr>)"
  "(with_locks L s)\<lparr>havedisk1 := x2\<rparr> = with_locks L (s\<lparr>havedisk1 := x2\<rparr>)"
  "(with_locks L s)\<lparr>ioapic := x3\<rparr> = with_locks L (s\<lparr>ioapic := x3\<rparr>)"
  "(with_locks L s)\<lparr>dev := x4\<rparr> = with_locks L (s\<lparr>dev := x4\<rparr>)"
  by (simp_all add: with_locks_def cong: if_cong)

lemma ide_sel_buf [simp]:
  "idequeue (upd_buf i f s) = idequeue s"
  "qnext (upd_buf i f s) = qnext s"
  "havedisk1 (upd_buf i f s) = havedisk1 s"
  "ioapic (upd_buf i f s) = ioapic s"
  "dev (upd_buf i f s) = dev s"
  by (simp_all add: upd_buf_def)

lemma ide_sel_wakeup [simp]:
  "idequeue (wakeup1 ch s) = idequeue s"
  "qnext (wakeup1 ch s) = qnext s"
  "havedisk1 (wakeup1 ch s) = havedisk1 s"
  "ioapic (wakeup1 ch s) = ioapic s"
  "dev (wakeup1 ch s) = dev s"
  by (simp_all add: wakeup1_def)

section \<open>Operations\<close>

definition idle :: "u8 \<Rightarrow> bool" where
  "idle r \<longleftrightarrow> and r (or IDE_BSY IDE_DRDY) = IDE_DRDY"

text \<open>The loop of \<open>idewait\<close> does not end on a disk that never becomes ready, the outcome \<open>Fault\<close>.\<close>

definition poll :: "'d ports \<Rightarrow> 'd \<Rightarrow> (u8 \<times> 'd) option" where
  "poll P d = while_option (\<lambda>(r, d). \<not> idle r) (\<lambda>(r, d). inb P 0x1f7 d) (inb P 0x1f7 d)"

definition idewait :: "'d ports \<Rightarrow> bool \<Rightarrow> ('d, 'z) ide_state_scheme \<Rightarrow> (int, ('d, 'z) ide_state_scheme) res" where
  "idewait P checkerr s =
     (case poll P (dev s) of
        None \<Rightarrow> Fault ''idewait: never ready''
      | Some (r, d) \<Rightarrow> Ret (if checkerr \<and> and r (or IDE_DF IDE_ERR) \<noteq> 0 then -1 else 0) (s\<lparr>dev := d\<rparr>))"

text \<open>The search for disk 1 in \<open>ideinit\<close>, with at most \<open>n\<close> reads of the status.\<close>

fun probe :: "'d ports \<Rightarrow> nat \<Rightarrow> ('d, 'z) ide_state_scheme \<Rightarrow> ('d, 'z) ide_state_scheme" where
  "probe P 0 s = s"
| "probe P (Suc n) s =
     (case inb P 0x1f7 (dev s) of (r, d) \<Rightarrow>
        if r \<noteq> 0 then s\<lparr>dev := d, havedisk1 := True\<rparr> else probe P n (s\<lparr>dev := d\<rparr>))"

definition ideinit :: "'d ports \<Rightarrow> ('d, 'z) ide_state_scheme \<Rightarrow> (unit, ('d, 'z) ide_state_scheme) res" where
  "ideinit P s =
     kbind (initlock IdeLock s) (\<lambda>_ s.
     kbind (idewait P False (s\<lparr>ioapic := ioapicenable IRQ_IDE (of_nat (ncpu s) - 1) (ioapic s)\<rparr>)) (\<lambda>_ s.
     let s = upd_dev (outb P 0x1f6 (or 0xe0 (push_bit 4 1))) s;
         s = probe P 1000 s
     in Ret () (upd_dev (outb P 0x1f6 (or 0xe0 (push_bit 4 0))) s)))"

definition idestart :: "'d ports \<Rightarrow> nat option \<Rightarrow> ('d, 'z) ide_state_scheme \<Rightarrow> (unit, ('d, 'z) ide_state_scheme) res" where
  "idestart P bp s =
     (case bp of None \<Rightarrow> Panic ''idestart''
      | Some i \<Rightarrow>
          let b = bufs s i in
          if b_blockno b \<ge> FSSIZE then Panic ''incorrect blockno''
          else let sector_per_block = BSIZE div SECTOR_SIZE;
                   sector = b_blockno b * of_nat sector_per_block;
                   read_cmd = (if sector_per_block = 1 then IDE_CMD_READ else IDE_CMD_RDMUL);
                   write_cmd = (if sector_per_block = 1 then IDE_CMD_WRITE else IDE_CMD_WRMUL)
               in if sector_per_block > 7 then Panic ''idestart''
                  else kbind (idewait P False s) (\<lambda>_ s.
                    let s = upd_dev (outb P 0x3f6 0) s;
                        s = upd_dev (outb P 0x1f2 (of_nat sector_per_block)) s;
                        s = upd_dev (outb P 0x1f3 (ucast (and sector 0xff))) s;
                        s = upd_dev (outb P 0x1f4 (ucast (and (drop_bit 8 sector) 0xff))) s;
                        s = upd_dev (outb P 0x1f5 (ucast (and (drop_bit 16 sector) 0xff))) s;
                        s = upd_dev (outb P 0x1f6 (ucast (or (or 0xe0 (push_bit 4 (and (b_dev b) 1)))
                              (and (drop_bit 24 sector) 0x0f)))) s
                    in if b_dirty b
                       then Ret () (upd_dev (\<lambda>d. outsl P 0x1f0 (get_bytes (b_data b) 0 (4 * (BSIZE div 4))) (outb P 0x1f7 write_cmd d)) s)
                       else Ret () (upd_dev (outb P 0x1f7 read_cmd) s)))"

definition ide_fill :: "'d ports \<Rightarrow> nat \<Rightarrow> ('d, 'z) ide_state_scheme \<Rightarrow> ('d, 'z) ide_state_scheme" where
  "ide_fill P i s =
     (case insl P 0x1f0 (BSIZE div 4) (dev s) of (bs, d) \<Rightarrow>
        upd_buf i (\<lambda>b. b\<lparr>b_data := put_bytes (b_data b) 0 bs\<rparr>) (s\<lparr>dev := d\<rparr>))"

definition ide_fetch :: "'d ports \<Rightarrow> nat \<Rightarrow> ('d, 'z) ide_state_scheme \<Rightarrow> (unit, ('d, 'z) ide_state_scheme) res" where
  "ide_fetch P i s =
     (if \<not> b_dirty (bufs s i)
      then kbind (idewait P True s) (\<lambda>r s. Ret () (if r \<ge> 0 then ide_fill P i s else s))
      else Ret () s)"

definition ideintr :: "'d ports \<Rightarrow> ('d, 'z) ide_state_scheme \<Rightarrow> (unit, ('d, 'z) ide_state_scheme) res" where
  "ideintr P s =
     kbind (acquire IdeLock s) (\<lambda>_ s.
     case idequeue s of
       None \<Rightarrow> release IdeLock s
     | Some i \<Rightarrow>
         let s = s\<lparr>idequeue := qnext s i\<rparr>
         in kbind (ide_fetch P i s) (\<lambda>_ s.
            let s = upd_buf i (\<lambda>b. b\<lparr>b_valid := True\<rparr>) s;
                s = upd_buf i (\<lambda>b. b\<lparr>b_dirty := False\<rparr>) s
            in kbind (wakeup (ChanBuf i) s) (\<lambda>_ s.
               kbind (if idequeue s \<noteq> None then idestart P (idequeue s) s else Ret () s) (\<lambda>_ s.
               release IdeLock s))))"

text \<open>
  The end of the queue: \<open>for(pp=&idequeue; *pp; pp=&(*pp)->qnext)\<close>. On a queue that runs in a
  circle the loop does not end.
\<close>

partial_function (option) queue_end :: "(nat \<Rightarrow> nat option) \<Rightarrow> nat \<Rightarrow> nat option" where
  "queue_end nx i = (case nx i of None \<Rightarrow> Some i | Some j \<Rightarrow> queue_end nx j)"

definition enqueue :: "nat \<Rightarrow> ('d, 'z) ide_state_scheme \<Rightarrow> (unit, ('d, 'z) ide_state_scheme) res" where
  "enqueue i s =
     (let s = s\<lparr>qnext := (qnext s)(i := None)\<rparr>
      in case idequeue s of
           None \<Rightarrow> Ret () (s\<lparr>idequeue := Some i\<rparr>)
         | Some h \<Rightarrow> (case queue_end (qnext s) h of
                        None \<Rightarrow> Fault ''iderw: endless queue''
                      | Some e \<Rightarrow> Ret () (s\<lparr>qnext := (qnext s)(e := Some i)\<rparr>)))"

definition ide_loop :: "nat \<Rightarrow> ('d, 'z) ide_state_scheme \<Rightarrow> (unit, ('d, 'z) ide_state_scheme) res" where
  "ide_loop i s =
     (if \<not> (b_valid (bufs s i) \<and> \<not> b_dirty (bufs s i)) then sleep (ChanBuf i) IdeLock s
      else release IdeLock s)"

definition ide_rw :: "'d ports \<Rightarrow> nat \<Rightarrow> ('d, 'z) ide_state_scheme \<Rightarrow> (unit, ('d, 'z) ide_state_scheme) res" where
  "ide_rw P i s =
     kbind (holdingsleep (BufLock i) s) (\<lambda>h s.
     let b = bufs s i
     in if \<not> h then Panic ''iderw: buf not locked''
        else if b_valid b \<and> \<not> b_dirty b then Panic ''iderw: nothing to do''
        else if b_dev b \<noteq> 0 \<and> \<not> havedisk1 s then Panic ''iderw: ide disk 1 not present''
        else kbind (acquire IdeLock s) (\<lambda>_ s.
             kbind (enqueue i s) (\<lambda>_ s.
             kbind (if idequeue s = Some i then idestart P (Some i) s else Ret () s) (\<lambda>_ s.
             ide_loop i s))))"

text \<open>What the process of a request does when it runs again.\<close>

definition ide_rw_return :: "nat \<Rightarrow> nat \<Rightarrow> bool \<Rightarrow> ('d, 'z) ide_state_scheme \<Rightarrow> (unit, ('d, 'z) ide_state_scheme) res" where
  "ide_rw_return me i saved s = kbind (sleep_return me IdeLock saved s) (\<lambda>_ s. ide_loop i s)"

section \<open>What the driver relies on\<close>

text \<open>
  The disk as its registers show it: whether it takes a command, the command block registers, the
  sectors of the two drives and the command under way (whether it writes, the drive, the sector).
\<close>

record ata_view =
  ready :: bool
  task :: "u16 \<Rightarrow> u8"
  sectors :: "bool \<Rightarrow> nat \<Rightarrow> u8 list"
  request :: "(bool \<times> bool \<times> nat) option"

definition drive :: "ata_view \<Rightarrow> bool" where
  "drive v = bit (task v 0x1f6) 4"

definition lba :: "ata_view \<Rightarrow> nat" where
  "lba v = unat (task v 0x1f3) + 256 * unat (task v 0x1f4) + 65536 * unat (task v 0x1f5) +
     16777216 * unat (and (task v 0x1f6) 0x0f)"

text \<open>
  A sector holds 512 bytes; the status reports when the disk is ready, which happens after finitely
  many reads; a ready disk takes the registers and then a command for one sector; the data of a
  write follows its command, the data of a read can be fetched when the disk is ready again.
\<close>

definition ata_disk :: "'d ports \<Rightarrow> ('d \<Rightarrow> ata_view) \<Rightarrow> bool" where
  "ata_disk P v \<longleftrightarrow>
     (\<forall>d dr n. length (sectors (v d) dr n) = 512) \<and>
     (\<forall>d. v (snd (inb P 0x1f7 d)) = (v d)\<lparr>ready := ready (v d) \<or> idle (fst (inb P 0x1f7 d))\<rparr>) \<and>
     (\<forall>d. \<exists>n. idle (fst (inb P 0x1f7 (((\<lambda>d. snd (inb P 0x1f7 d)) ^^ n) d)))) \<and>
     (\<forall>d x. v (outb P 0x3f6 x d) = v d) \<and>
     (\<forall>d p x. ready (v d) \<and> p \<in> {0x1f2, 0x1f3, 0x1f4, 0x1f5, 0x1f6} \<longrightarrow>
        v (outb P p x d) = (v d)\<lparr>task := (task (v d))(p := x)\<rparr>) \<and>
     (\<forall>d c. ready (v d) \<and> task (v d) 0x1f2 = 1 \<and> c \<in> {IDE_CMD_READ, IDE_CMD_WRITE} \<longrightarrow>
        v (outb P 0x1f7 c d) = (v d)\<lparr>ready := False, request := Some (c = IDE_CMD_WRITE, drive (v d), lba (v d))\<rparr>) \<and>
     (\<forall>d bs dr n. request (v d) = Some (True, dr, n) \<and> length bs = 512 \<longrightarrow>
        v (outsl P 0x1f0 bs d) = (v d)\<lparr>sectors := (sectors (v d))(dr := (sectors (v d) dr)(n := bs)), request := None\<rparr>) \<and>
     (\<forall>d dr n. ready (v d) \<and> request (v d) = Some (False, dr, n) \<longrightarrow>
        fst (insl P 0x1f0 128 d) = sectors (v d) dr n \<and> v (snd (insl P 0x1f0 128 d)) = (v d)\<lparr>request := None\<rparr>)"

text \<open>The disk never reports an error.\<close>

definition fault_free :: "'d ports \<Rightarrow> bool" where
  "fault_free P \<longleftrightarrow> (\<forall>d. and (fst (inb P 0x1f7 d)) (or IDE_DF IDE_ERR) = 0)"

lemma ata_diskD:
  assumes "ata_disk P v"
  shows "length (sectors (v d) dr n) = 512"
    and "v (snd (inb P 0x1f7 d)) = (v d)\<lparr>ready := ready (v d) \<or> idle (fst (inb P 0x1f7 d))\<rparr>"
    and "\<exists>n. idle (fst (inb P 0x1f7 (((\<lambda>d. snd (inb P 0x1f7 d)) ^^ n) d)))"
    and "v (outb P 0x3f6 x d) = v d"
    and "ready (v d) \<Longrightarrow> p \<in> {0x1f2, 0x1f3, 0x1f4, 0x1f5, 0x1f6} \<Longrightarrow> v (outb P p x d) = (v d)\<lparr>task := (task (v d))(p := x)\<rparr>"
    and "ready (v d) \<Longrightarrow> task (v d) 0x1f2 = 1 \<Longrightarrow> c \<in> {IDE_CMD_READ, IDE_CMD_WRITE} \<Longrightarrow>
      v (outb P 0x1f7 c d) = (v d)\<lparr>ready := False, request := Some (c = IDE_CMD_WRITE, drive (v d), lba (v d))\<rparr>"
    and "request (v d) = Some (True, dr, n) \<Longrightarrow> length bs = 512 \<Longrightarrow>
      v (outsl P 0x1f0 bs d) = (v d)\<lparr>sectors := (sectors (v d))(dr := (sectors (v d) dr)(n := bs)), request := None\<rparr>"
    and "ready (v d) \<Longrightarrow> request (v d) = Some (False, dr, n) \<Longrightarrow>
      fst (insl P 0x1f0 128 d) = sectors (v d) dr n \<and> v (snd (insl P 0x1f0 128 d)) = (v d)\<lparr>request := None\<rparr>"
proof -
  note h = assms [unfolded ata_disk_def]
  show "length (sectors (v d) dr n) = 512" using h [THEN conjunct1] by blast
  show "v (snd (inb P 0x1f7 d)) = (v d)\<lparr>ready := ready (v d) \<or> idle (fst (inb P 0x1f7 d))\<rparr>" using h [THEN conjunct2, THEN conjunct1] by blast
  show "\<exists>n. idle (fst (inb P 0x1f7 (((\<lambda>d. snd (inb P 0x1f7 d)) ^^ n) d)))" using h [THEN conjunct2, THEN conjunct2, THEN conjunct1] by blast
  show "v (outb P 0x3f6 x d) = v d" using h [THEN conjunct2, THEN conjunct2, THEN conjunct2, THEN conjunct1] by blast
  show "v (outb P p x d) = (v d)\<lparr>task := (task (v d))(p := x)\<rparr>" if "ready (v d)" "p \<in> {0x1f2, 0x1f3, 0x1f4, 0x1f5, 0x1f6}" using that h [THEN conjunct2, THEN conjunct2, THEN conjunct2, THEN conjunct2, THEN conjunct1] by blast
  show "v (outb P 0x1f7 c d) = (v d)\<lparr>ready := False, request := Some (c = IDE_CMD_WRITE, drive (v d), lba (v d))\<rparr>" if "ready (v d)" "task (v d) 0x1f2 = 1" "c \<in> {IDE_CMD_READ, IDE_CMD_WRITE}" using that h [THEN conjunct2, THEN conjunct2, THEN conjunct2, THEN conjunct2, THEN conjunct2, THEN conjunct1] by blast
  show "v (outsl P 0x1f0 bs d) = (v d)\<lparr>sectors := (sectors (v d))(dr := (sectors (v d) dr)(n := bs)), request := None\<rparr>" if "request (v d) = Some (True, dr, n)" "length bs = 512" using that h [THEN conjunct2, THEN conjunct2, THEN conjunct2, THEN conjunct2, THEN conjunct2, THEN conjunct2, THEN conjunct1] by blast
  show "fst (insl P 0x1f0 128 d) = sectors (v d) dr n \<and> v (snd (insl P 0x1f0 128 d)) = (v d)\<lparr>request := None\<rparr>" if "ready (v d)" "request (v d) = Some (False, dr, n)" using that h [THEN conjunct2, THEN conjunct2, THEN conjunct2, THEN conjunct2, THEN conjunct2, THEN conjunct2, THEN conjunct2] by blast
qed

lemma poll_step:
  "poll P d = (if idle (fst (inb P 0x1f7 d)) then Some (inb P 0x1f7 d) else poll P (snd (inb P 0x1f7 d)))"
  unfolding poll_def by (subst while_option_unfold) (simp add: case_prod_beta)

lemma poll_ready:
  assumes "ata_disk P v"
  obtains r d' where "poll P d = Some (r, d')" "idle r" "\<exists>e. r = fst (inb P 0x1f7 e)" "v d' = (v d)\<lparr>ready := True\<rparr>"
proof -
  note st = ata_diskD(2) [OF assms]
  obtain n where "idle (fst (inb P 0x1f7 (((\<lambda>d. snd (inb P 0x1f7 d)) ^^ n) d)))" using ata_diskD(3) [OF assms] by blast
  then have "\<exists>r d'. poll P d = Some (r, d') \<and> idle r \<and> (\<exists>e. r = fst (inb P 0x1f7 e)) \<and> v d' = (v d)\<lparr>ready := True\<rparr>"
  proof (induction n arbitrary: d)
    case 0
    then have "poll P d = Some (inb P 0x1f7 d)" by (subst poll_step) simp
    then show ?case using 0 st [of d] by (intro exI [of _ "fst (inb P 0x1f7 d)"] exI [of _ "snd (inb P 0x1f7 d)"]) auto
  next
    case (Suc n)
    show ?case
    proof (cases "idle (fst (inb P 0x1f7 d))")
      case True
      then have "poll P d = Some (inb P 0x1f7 d)" by (subst poll_step) simp
      then show ?thesis using True st [of d] by (intro exI [of _ "fst (inb P 0x1f7 d)"] exI [of _ "snd (inb P 0x1f7 d)"]) auto
    next
      case False
      then have "poll P d = poll P (snd (inb P 0x1f7 d))" by (subst poll_step) simp
      moreover have "v (snd (inb P 0x1f7 d)) = v d" using st [of d] False by simp
      moreover have "((\<lambda>d. snd (inb P 0x1f7 d)) ^^ Suc n) d = ((\<lambda>d. snd (inb P 0x1f7 d)) ^^ n) (snd (inb P 0x1f7 d))"
        by (simp add: funpow_Suc_right del: funpow.simps)
      ultimately show ?thesis using Suc.IH [of "snd (inb P 0x1f7 d)"] Suc.prems by (simp del: funpow.simps)
    qed
  qed
  then show thesis using that by blast
qed

section \<open>Starting a request\<close>

definition drive_of :: "buf \<Rightarrow> bool" where "drive_of b = bit (b_dev b) 0"

abbreviation sector_of :: "buf \<Rightarrow> nat" where "sector_of b \<equiv> unat (b_blockno b)"

text \<open>The disk works on the request of buffer \<open>b\<close>: a write has reached the sector, a read is under way.\<close>

definition started :: "ata_view \<Rightarrow> buf \<Rightarrow> bool" where
  "started v b \<longleftrightarrow> (if b_dirty b then sectors v (drive_of b) (sector_of b) = get_bytes (b_data b) 0 512
     else request v = Some (False, drive_of b, sector_of b))"

definition stored :: "buf \<Rightarrow> (bool \<Rightarrow> nat \<Rightarrow> u8 list) \<Rightarrow> bool \<Rightarrow> nat \<Rightarrow> u8 list" where
  "stored b m = (if b_dirty b then m(drive_of b := (m (drive_of b))(sector_of b := get_bytes (b_data b) 0 512)) else m)"

lemma drive_register:
  assumes "w < FSSIZE"
  shows "ucast (or (or 0xe0 (push_bit 4 (and (e :: u32) 1))) (and (drop_bit 24 w) 0x0f)) = (if bit e 0 then 0xf0 else 0xe0 :: u8)"
proof -
  have "drop_bit 24 w = 0" using assms
    by (intro word_unat_eq_iff [THEN iffD2]) (simp add: drop_bit_eq_div unat_div_distrib FSSIZE_def word_less_nat_alt)
  moreover have "and e 1 = (if bit e 0 then 1 else 0)" by (simp add: and_one_eq bit_0 mod_2_eq_odd)
  ultimately show ?thesis by simp
qed

lemma lba_bytes:
  assumes "w < FSSIZE"
  shows "unat (ucast (and w 0xff) :: u8) + 256 * unat (ucast (and (drop_bit 8 w) 0xff) :: u8) +
     65536 * unat (ucast (and (drop_bit 16 w) 0xff) :: u8) = unat w"
proof -
  have m: "unat (ucast (and x 0xff) :: u8) = unat x mod 256" for x :: u32
  proof -
    have "and x 0xff = take_bit 8 x" by (simp add: take_bit_eq_mask mask_eq_exp_minus_1)
    then show ?thesis by (simp add: unsigned_ucast_eq take_bit_eq_mod unat_mod_distrib)
  qed
  have "unat w < 2000" using assms by (simp add: FSSIZE_def word_less_nat_alt)
  then show ?thesis by (simp add: m drop_bit_eq_div unat_div_distrib)
qed

lemma idestart_starts:
  assumes "ata_disk P v" "b_blockno (bufs s i) < FSSIZE"
  obtains d where "idestart P (Some i) s = Ret () (s\<lparr>dev := d\<rparr>)" "started (v d) (bufs s i)"
    "sectors (v d) = stored (bufs s i) (sectors (v (dev s)))"
proof -
  let ?b = "bufs s i" and ?w = "b_blockno (bufs s i)"
  note a = ata_diskD [OF assms(1)] and lb = lba_bytes [OF assms(2)] and dr = drive_register [OF assms(2), of "b_dev (bufs s i)"]
  obtain r d0 where p: "poll P (dev s) = Some (r, d0)" "v d0 = (v (dev s))\<lparr>ready := True\<rparr>" using poll_ready [OF assms(1)] by blast
  define d1 where "d1 = outb P 0x1f6 (if bit (b_dev ?b) 0 then 0xf0 else 0xe0) (outb P 0x1f5 (ucast (and (drop_bit 16 ?w) 0xff))
     (outb P 0x1f4 (ucast (and (drop_bit 8 ?w) 0xff)) (outb P 0x1f3 (ucast (and ?w 0xff)) (outb P 0x1f2 1 (outb P 0x3f6 0 d0)))))"
  have run: "idestart P (Some i) s = Ret () (s\<lparr>dev := if b_dirty ?b then outsl P 0x1f0 (get_bytes (b_data ?b) 0 512) (outb P 0x1f7 IDE_CMD_WRITE d1)
     else outb P 0x1f7 IDE_CMD_READ d1\<rparr>)"
    using assms(2) p(1) dr by (simp add: idestart_def idewait_def Let_def upd_dev_def BSIZE_def SECTOR_SIZE_def d1_def flip: not_le)
  have t: "task (v d1) 0x1f2 = 1" "ready (v d1)" "sectors (v d1) = sectors (v (dev s))" "drive (v d1) = drive_of ?b" "lba (v d1) = sector_of ?b"
    using p(2) lb by (simp_all add: d1_def a(4,5) drive_def lba_def drive_of_def bit_numeral_rec)
  show thesis
  proof (cases "b_dirty ?b")
    case True
    let ?d = "outb P 0x1f7 IDE_CMD_WRITE d1"
    have "request (v ?d) = Some (True, drive_of ?b, sector_of ?b)" "sectors (v ?d) = sectors (v (dev s))"
      using a(6) [OF t(2,1)] t by simp_all
    then show ?thesis using that [OF run] True a(7) [of ?d] by (simp add: started_def stored_def)
  next
    case False
    have "IDE_CMD_READ \<noteq> IDE_CMD_WRITE" by (simp add: IDE_CMD_READ_def IDE_CMD_WRITE_def)
    then show ?thesis using that [OF run] False a(6) [OF t(2,1)] t by (simp add: started_def stored_def)
  qed
qed

section \<open>The queue\<close>

fun qchain :: "nat option \<Rightarrow> (nat \<Rightarrow> nat option) \<Rightarrow> nat list \<Rightarrow> bool" where
  "qchain p nx [] \<longleftrightarrow> p = None"
| "qchain p nx (i # q) \<longleftrightarrow> p = Some i \<and> qchain (nx i) nx q"

lemma qchain_cong: "(\<And>j. j \<in> set q \<Longrightarrow> nx j = nx' j) \<Longrightarrow> qchain p nx q = qchain p nx' q"
  by (induction q arbitrary: p) auto

lemma qchain_end: "qchain (nx i) nx q \<Longrightarrow> queue_end nx i = Some (last (i # q))"
proof (induction q arbitrary: i)
  case Nil
  then show ?case by (subst queue_end.simps) simp
next
  case (Cons j q)
  then show ?case by (subst queue_end.simps) simp
qed

lemma qchain_append:
  "qchain p nx q \<Longrightarrow> distinct q \<Longrightarrow> q \<noteq> [] \<Longrightarrow> i \<notin> set q \<Longrightarrow> nx i = None \<Longrightarrow> qchain p (nx(last q := Some i)) (q @ [i])"
proof (induction q arbitrary: p)
  case Nil
  then show ?case by simp
next
  case (Cons j q)
  then show ?case by (cases "q = []") auto
qed

lemma enqueue_appends:
  assumes "qchain (idequeue s) (qnext s) q" "distinct q" "i \<notin> set q"
  obtains n where "enqueue i s = Ret () (s\<lparr>idequeue := Some (hd (q @ [i])), qnext := n\<rparr>)" "qchain (Some (hd (q @ [i]))) n (q @ [i])"
proof (cases q)
  case Nil
  then show thesis using that [of "(qnext s)(i := None)"] assms(1) by (simp add: enqueue_def)
next
  case (Cons h q')
  let ?n = "(qnext s)(i := None)"
  have "qchain (Some h) ?n q = qchain (Some h) (qnext s) q" by (rule qchain_cong) (use assms(3) in auto)
  then have c: "qchain (Some h) ?n q" using assms(1) Cons by simp
  have "queue_end ?n h = Some (last q)" using qchain_end [of ?n h q'] c Cons by simp
  then show thesis using that [of "?n(last q := Some i)"] qchain_append [OF c assms(2) _ assms(3)] assms(1) Cons
    by (simp add: enqueue_def Let_def)
qed

section \<open>Requests take effect in the order of the queue\<close>

text \<open>What one request does to the buffers and the sectors: the abstract disk.\<close>

definition served :: "(bool \<Rightarrow> nat \<Rightarrow> u8 list) \<Rightarrow> buf \<Rightarrow> buf" where
  "served m b = (if b_dirty b then b else b\<lparr>b_data := put_bytes (b_data b) 0 (m (drive_of b) (sector_of b))\<rparr>)\<lparr>b_valid := True, b_dirty := False\<rparr>"

fun serve :: "nat \<Rightarrow> (nat \<Rightarrow> buf) \<times> (bool \<Rightarrow> nat \<Rightarrow> u8 list) \<Rightarrow> (nat \<Rightarrow> buf) \<times> (bool \<Rightarrow> nat \<Rightarrow> u8 list)" where
  "serve i (B, m) = (B(i := served m (B i)), stored (B i) m)"

text \<open>
  The driver with the requests \<open>q\<close> queued stands for the disk on which they all have been served.
\<close>

definition disk_view :: "('d \<Rightarrow> ata_view) \<Rightarrow> nat list \<Rightarrow> ('d, 'z) ide_state_scheme \<Rightarrow> (nat \<Rightarrow> buf) \<times> (bool \<Rightarrow> nat \<Rightarrow> u8 list)" where
  "disk_view v q s = fold serve q (bufs s, sectors (v (dev s)))"

definition ide_ok :: "('d \<Rightarrow> ata_view) \<Rightarrow> nat list \<Rightarrow> ('d, 'z) ide_state_scheme \<Rightarrow> bool" where
  "ide_ok v q s \<longleftrightarrow> qchain (idequeue s) (qnext s) q \<and> distinct q \<and>
     (\<forall>i\<in>set q. \<not> (b_valid (bufs s i) \<and> \<not> b_dirty (bufs s i)) \<and> b_blockno (bufs s i) < FSSIZE) \<and>
     (q \<noteq> [] \<longrightarrow> started (v (dev s)) (bufs s (hd q)))"

lemma started_stored: "started v b \<Longrightarrow> stored b (sectors v) = sectors v"
  by (auto simp: started_def stored_def fun_eq_iff)

lemma serve_again: "serve i (B, stored (B i) m) = serve i (B, m)"
  by (auto simp: served_def stored_def fun_eq_iff)

lemma ide_fetch_fetches:
  assumes "ata_disk P v" "fault_free P" "started (v (dev s)) (bufs s i)" "m = sectors (v (dev s))"
  obtains d where "ide_fetch P i s = Ret () (upd_buf i (\<lambda>b. if b_dirty b then b else
      b\<lparr>b_data := put_bytes (b_data b) 0 (m (drive_of b) (sector_of b))\<rparr>) (s\<lparr>dev := d\<rparr>))"
    "sectors (v d) = m"
proof (cases "b_dirty (bufs s i)")
  case True
  then show thesis using that [of "dev s"] assms(4) by (simp add: ide_fetch_def upd_buf_def)
next
  case False
  obtain r d where p: "poll P (dev s) = Some (r, d)" "\<exists>e. r = fst (inb P 0x1f7 e)" "v d = (v (dev s))\<lparr>ready := True\<rparr>"
    using poll_ready [OF assms(1)] by blast
  have "and r (or IDE_DF IDE_ERR) = 0" using p(2) assms(2) by (auto simp: fault_free_def)
  moreover have "request (v d) = Some (False, drive_of (bufs s i), sector_of (bufs s i))" using assms(3) False p(3) by (simp add: started_def)
  note ata_diskD(8) [OF assms(1) _ this]
  ultimately show thesis using that [of "snd (insl P 0x1f0 128 d)"] False p(1,3) assms(4)
    by (simp add: ide_fetch_def idewait_def ide_fill_def BSIZE_def case_prod_beta upd_buf_def)
qed

text \<open>
  A request takes effect on the abstract disk when \<open>iderw\<close> queues it: its process goes to sleep on the
  buffer with the request at the end of the queue, and the disk the driver stands for has served it.
\<close>

lemma ide_rw_queues:
  assumes "ata_disk P v" "ide_ok v q s" "in_proc s me" "sleeplks s (BufLock i) = sl_held (p_pid (ptable s me))" "i \<notin> set q"
    and "\<not> (b_valid (bufs s i) \<and> \<not> b_dirty (bufs s i))" "b_dev (bufs s i) = 0 \<or> havedisk1 s" "b_blockno (bufs s i) < FSSIZE"
  shows "\<exists>t. ide_rw P i s = Swtch (with_locks [PtableLock] (upd_proc me (\<lambda>p. p\<lparr>p_chan := Some (ChanBuf i), p_state := SLEEPING\<rparr>) t)) \<and>
     ide_ok v (q @ [i]) t \<and> disk_view v (q @ [i]) t = serve i (disk_view v q s) \<and> bufs t = bufs s \<and> ptable t = ptable s \<and> in_proc t me"
proof -
  have q: "qchain (idequeue (with_locks [IdeLock] s)) (qnext (with_locks [IdeLock] s)) q" "distinct q" using assms(2) by (auto simp: ide_ok_def)
  obtain n where e: "enqueue i (with_locks [IdeLock] s) = Ret () (with_locks [IdeLock] (s\<lparr>idequeue := Some (hd (q @ [i])), qnext := n\<rparr>))"
    "qchain (Some (hd (q @ [i]))) n (q @ [i])" using enqueue_appends [OF q assms(5)] by auto
  let ?s = "s\<lparr>idequeue := Some (hd (q @ [i])), qnext := n\<rparr>"
  have pre: "ide_rw P i s = kbind (if hd (q @ [i]) = i then idestart P (Some i) (with_locks [IdeLock] ?s) else Ret () (with_locks [IdeLock] ?s)) (\<lambda>_. ide_loop i)"
    using assms(3-7) e(1) by (auto simp: ide_rw_def Let_def holdingsleep_quiet)
  have fin: "ide_loop i (with_locks [IdeLock] t) = Swtch (with_locks [PtableLock] (upd_proc me (\<lambda>p. p\<lparr>p_chan := Some (ChanBuf i), p_state := SLEEPING\<rparr>) t))"
    if "bufs t = bufs s" "in_proc t me" for t :: "('a, 'b) ide_state_scheme"
    using that assms(6) by (simp add: ide_loop_def sleep_with_locks)
  show ?thesis
  proof (cases "q = []")
    case True
    obtain d where d: "idestart P (Some i) (with_locks [IdeLock] ?s) = Ret () ((with_locks [IdeLock] ?s)\<lparr>dev := d\<rparr>)"
      "started (v d) (bufs s i)" "sectors (v d) = stored (bufs s i) (sectors (v (dev s)))"
      using idestart_starts [OF assms(1), of "with_locks [IdeLock] ?s" i] assms(8) by auto
    have "disk_view v (q @ [i]) (?s\<lparr>dev := d\<rparr>) = serve i (disk_view v q s)"
      using True serve_again [of i "bufs s"] d(3) by (simp add: disk_view_def)
    moreover have "ide_ok v (q @ [i]) (?s\<lparr>dev := d\<rparr>)" using True d(2) e(2) assms(6,8) by (auto simp: ide_ok_def)
    ultimately show ?thesis using True pre d(1) fin [of "?s\<lparr>dev := d\<rparr>"] assms(3) by (intro exI [of _ "?s\<lparr>dev := d\<rparr>"]) simp
  next
    case False
    then have "hd (q @ [i]) \<noteq> i" using assms(5) by (cases q) auto
    then have "ide_rw P i s = ide_loop i (with_locks [IdeLock] ?s)" using pre by simp
    moreover have "ide_ok v (q @ [i]) ?s" using False e(2) assms(2,5,6,8) by (auto simp: ide_ok_def)
    moreover have "disk_view v (q @ [i]) ?s = serve i (disk_view v q s)" by (simp add: disk_view_def)
    ultimately show ?thesis using fin [of ?s] assms(3) by (intro exI [of _ ?s]) simp
  qed
qed

text \<open>
  An interrupt completes the oldest request and no other: its buffer becomes valid and clean, its process
  runnable, the next request is started, and the disk the driver stands for is the same as before.
\<close>

lemma ideintr_completes:
  assumes "ata_disk P v" "fault_free P" "ide_ok v (i # q) s" "quiet s"
  shows "\<exists>t. ideintr P s = Ret () t \<and> quiet t \<and> ide_ok v q t \<and> disk_view v q t = disk_view v (i # q) s \<and>
    bufs t = (bufs s)(i := served (sectors (v (dev s))) (bufs s i)) \<and> ptable t = ptable (wakeup1 (ChanBuf i) s)"
proof -
  have ok: "idequeue s = Some i" "qchain (qnext s i) (qnext s) q" "distinct (i # q)" "started (v (dev s)) (bufs s i)"
    "\<forall>j\<in>set q. \<not> (b_valid (bufs s j) \<and> \<not> b_dirty (bufs s j)) \<and> b_blockno (bufs s j) < FSSIZE"
    using assms(3) by (auto simp: ide_ok_def)
  let ?s = "s\<lparr>idequeue := qnext s i\<rparr>" and ?B = "(bufs s)(i := served (sectors (v (dev s))) (bufs s i))"
  have "started (v (dev (with_locks [IdeLock] ?s))) (bufs (with_locks [IdeLock] ?s) i)" "sectors (v (dev s)) = sectors (v (dev (with_locks [IdeLock] ?s)))"
    using ok(4) by simp_all
  from ide_fetch_fetches [OF assms(1,2) this] obtain d where
    "ide_fetch P i (with_locks [IdeLock] ?s) = Ret () (upd_buf i (\<lambda>b. if b_dirty b then b else
      b\<lparr>b_data := put_bytes (b_data b) 0 (sectors (v (dev s)) (drive_of b) (sector_of b))\<rparr>) ((with_locks [IdeLock] ?s)\<lparr>dev := d\<rparr>))"
      (is "_ = Ret () (upd_buf i ?f _)") and d: "sectors (v d) = sectors (v (dev s))" .
  then have f: "ide_fetch P i (with_locks [IdeLock] ?s) = Ret () (with_locks [IdeLock] (upd_buf i ?f (?s\<lparr>dev := d\<rparr>)))"
    by (simp del: upd_buf_frame(9))
  have u: "upd_buf i (\<lambda>b. b\<lparr>b_dirty := False\<rparr>) (upd_buf i (\<lambda>b. b\<lparr>b_valid := True\<rparr>) (upd_buf i ?f (?s\<lparr>dev := d\<rparr>))) = ?s\<lparr>dev := d, bufs := ?B\<rparr>"
    by (simp add: upd_buf_def served_def)
  let ?t = "wakeup1 (ChanBuf i) (?s\<lparr>dev := d, bufs := ?B\<rparr>)"
  have run: "ideintr P s = kbind (if qnext s i \<noteq> None then idestart P (qnext s i) (with_locks [IdeLock] ?t) else Ret () (with_locks [IdeLock] ?t)) (\<lambda>_. release IdeLock)"
    using assms(4) ok(1) by (simp add: ideintr_def f u split del: if_split cong: if_cong)
  have t: "bufs ?t = ?B" "dev ?t = d" "idequeue ?t = qnext s i" "qnext ?t = qnext s" "quiet ?t" "ptable ?t = ptable (wakeup1 (ChanBuf i) s)"
    using assms(4) by (simp_all add: wakeup1_def)
  have view: "serve i (bufs s, sectors (v (dev s))) = (?B, sectors (v d))" using started_stored [OF ok(4)] d by simp
  have B: "?B j = bufs s j" if "j \<in> set q" for j using that ok(3) by auto
  show ?thesis
  proof (cases q)
    case Nil
    then have n: "qnext s i = None" using ok(2) by simp
    moreover have "ideintr P s = Ret () ?t" using run n t(5) by simp
    moreover have "disk_view v q ?t = disk_view v (i # q) s" using Nil view t by (simp add: disk_view_def)
    ultimately show ?thesis using Nil t by (intro exI [of _ ?t]) (simp add: ide_ok_def)
  next
    case (Cons j q')
    then have n: "qnext s i = Some j" using ok(2) by simp
    have j: "?B j = bufs s j" "b_blockno (bufs (with_locks [IdeLock] ?t) j) < FSSIZE" using B ok(5) Cons t(1) by auto
    obtain e where e: "idestart P (Some j) (with_locks [IdeLock] ?t) = Ret () ((with_locks [IdeLock] ?t)\<lparr>dev := e\<rparr>)"
      "started (v e) (?B j)" "sectors (v e) = stored (?B j) (sectors (v d))"
      using idestart_starts [OF assms(1) j(2)] t(1,2) by (metis bio_sel(1) ide_sel(5))
    have "ideintr P s = Ret () (?t\<lparr>dev := e\<rparr>)" using run n t(5) e(1) by simp
    moreover have "disk_view v q (?t\<lparr>dev := e\<rparr>) = disk_view v (i # q) s"
      using Cons view t e(3) serve_again [of j ?B] by (simp add: disk_view_def)
    moreover have "ide_ok v q (?t\<lparr>dev := e\<rparr>)" using Cons t ok B e(2) by (auto simp: ide_ok_def)
    ultimately show ?thesis using t by (intro exI [of _ "?t\<lparr>dev := e\<rparr>"]) simp
  qed
qed

primrec interrupts :: "'d ports \<Rightarrow> nat \<Rightarrow> ('d, 'z) ide_state_scheme \<Rightarrow> (unit, ('d, 'z) ide_state_scheme) res" where
  "interrupts P 0 s = Ret () s"
| "interrupts P (Suc n) s = kbind (ideintr P s) (\<lambda>_ s. interrupts P n s)"

text \<open>
  C14: As many interrupts as there are requests complete them all, in the order in which they were queued: the
  buffers and the sectors are then those of a disk that serves one request after the other.
\<close>

theorem ide_serves_in_order:
  assumes "ata_disk P v" "fault_free P" "ide_ok v q s" "quiet s"
  shows "\<exists>t. interrupts P (length q) s = Ret () t \<and> quiet t \<and> idequeue t = None \<and>
    (bufs t, sectors (v (dev t))) = fold serve q (bufs s, sectors (v (dev s)))"
  using assms(3,4)
proof (induction q arbitrary: s)
  case Nil
  then show ?case by (simp add: ide_ok_def)
next
  case (Cons i q)
  obtain t where "ideintr P s = Ret () t" "quiet t" "ide_ok v q t" "disk_view v q t = disk_view v (i # q) s"
    using ideintr_completes [OF assms(1,2) Cons.prems] by blast
  then show ?case using Cons.IH [of t] by (simp add: disk_view_def)
qed

section \<open>The driver of the memory disk\<close>

text \<open>The sectors as \<open>memide.c\<close> holds them, and buffers that agree in what the code looks at.\<close>

definition agree :: "buf \<Rightarrow> buf \<Rightarrow> bool" where
  "agree b c \<longleftrightarrow> b_valid b = b_valid c \<and> b_dirty b = b_dirty c \<and> b_dev b = b_dev c \<and> b_blockno b = b_blockno c \<and>
     b_refcnt b = b_refcnt c \<and> get_bytes (b_data b) 0 BSIZE = get_bytes (b_data c) 0 BSIZE"

definition mirrors :: "(bool \<Rightarrow> nat \<Rightarrow> u8 list) \<Rightarrow> (u32 \<Rightarrow> buffer) \<Rightarrow> bool" where
  "mirrors m k \<longleftrightarrow> (\<forall>w<FSSIZE. m True (unat w) = get_bytes (k w) 0 BSIZE)"

lemma memide_serves:
  assumes "iderw i s = Ret () t" "in_proc s me" "mirrors m (disk s)" "b_blockno (bufs s i) < FSSIZE"
  shows "agree (served m (bufs s i)) (bufs t i)" "\<And>j. j \<noteq> i \<Longrightarrow> bufs t j = bufs s j" "mirrors (stored (bufs s i) m) (disk t)"
proof -
  let ?b = "bufs s i"
  have d: "drive_of ?b" and t: "t = (if b_dirty ?b then upd_buf i (\<lambda>b. b\<lparr>b_dirty := False, b_valid := True\<rparr>)
      (s\<lparr>disk := (disk s)(b_blockno ?b := b_data ?b), writes := writes s @ [(b_blockno ?b, b_data ?b)]\<rparr>)
    else upd_buf i (\<lambda>b. b\<lparr>b_data := disk s (b_blockno b), b_valid := True\<rparr>) s)"
    using assms(1,2) by (auto simp: iderw_def holdingsleep_quiet Let_def drive_of_def upd_buf_def split: if_splits)
  have "get_bytes (put_bytes x 0 (m True (unat (b_blockno ?b)))) 0 BSIZE = get_bytes (disk s (b_blockno ?b)) 0 BSIZE" for x
    using assms(3,4) get_put_bytes [of x 0 "m True (unat (b_blockno ?b))"] by (simp add: mirrors_def)
  then show "agree (served m ?b) (bufs t i)" using d t by (simp add: agree_def served_def)
  show "bufs t j = bufs s j" if "j \<noteq> i" for j using that t by simp
  show "mirrors (stored ?b m) (disk t)" using assms(3) d t by (auto simp: mirrors_def stored_def BSIZE_def dest: unsigned_word_eqI)
qed

text \<open>
  C13: For a request that the driver of the memory disk serves, the driver of the IDE disk puts the process to sleep,
  and once the scheduler has let go of its lock the interrupt of the disk leaves the buffers and the disk as the driver
  of the memory disk does, with the process ready to run.
\<close>

theorem ide_agrees_with_memide:
  assumes "ata_disk P v" "fault_free P" "ide_ok v [] s" "havedisk1 s" "in_proc s me" "me < NPROC"
    and "iderw i s = Ret () m" "b_blockno (bufs s i) < FSSIZE" "mirrors (sectors (v (dev s))) (disk s)"
  shows "\<exists>t u. ide_rw P i s = Swtch (with_locks [PtableLock] t) \<and> p_state (ptable t me) = SLEEPING \<and>
    ideintr P t = Ret () u \<and> p_state (ptable u me) = RUNNABLE \<and>
    (\<forall>j. agree (bufs u j) (bufs m j)) \<and> mirrors (sectors (v (dev u))) (disk m)"
proof -
  have b: "sleeplks s (BufLock i) = sl_held (p_pid (ptable s me))" "\<not> (b_valid (bufs s i) \<and> \<not> b_dirty (bufs s i))"
    using assms(5,7) by (auto simp: iderw_def holdingsleep_quiet Let_def sl_held_def split: if_splits)
  let ?f = "\<lambda>p. p\<lparr>p_chan := Some (ChanBuf i), p_state := SLEEPING\<rparr>"
  obtain t where t: "ide_rw P i s = Swtch (with_locks [PtableLock] (upd_proc me ?f t))" "ide_ok v [i] t"
      "disk_view v [i] t = serve i (bufs s, sectors (v (dev s)))" "bufs t = bufs s" "in_proc t me"
    using ide_rw_queues [OF assms(1,3,5) b(1) _ b(2) _ assms(8)] assms(4) by (auto simp: disk_view_def simp del: serve.simps)
  let ?t = "upd_proc me ?f t"
  have ok: "ide_ok v [i] ?t" "quiet ?t" using t(2,5) by (simp_all add: ide_ok_def upd_proc_def)
  obtain u where u: "ideintr P ?t = Ret () u" "disk_view v [] u = disk_view v [i] ?t" "ptable u = ptable (wakeup1 (ChanBuf i) ?t)"
    using ideintr_completes [OF assms(1,2) ok] by blast
  have "(bufs u, sectors (v (dev u))) = serve i (bufs s, sectors (v (dev s)))" using u(2) t(3,4) by (simp add: disk_view_def upd_proc_def)
  then have r: "bufs u = (bufs s)(i := served (sectors (v (dev s))) (bufs s i))" "sectors (v (dev u)) = stored (bufs s i) (sectors (v (dev s)))"
    by simp_all
  note m = memide_serves [OF assms(7,5,9,8)]
  have "agree (bufs u j) (bufs m j)" for j using m(1) m(2) [of j] r(1) by (cases "j = i") (simp_all add: agree_def)
  moreover have "p_state (ptable ?t me) = SLEEPING" "p_state (ptable u me) = RUNNABLE" using u(3) assms(6) by (simp_all add: wakeup1_ptable upd_proc_def)
  ultimately show ?thesis using t(1) u(1) m(3) r(2) by (intro exI [of _ ?t] exI [of _ u]) simp
qed

text \<open>
  C38: When the disk reports an error for a read, the interrupt handler leaves the contents of the buffer as they are and
  marks them valid, and the process that asked for the block goes on as after a successful read.
\<close>

theorem ide_read_error_marks_valid:
  assumes "quiet s" "idequeue s = Some i" "qnext s i = None" "\<not> b_dirty (bufs s i)"
    and "poll P (dev s) = Some (r, d)" "and r (or IDE_DF IDE_ERR) \<noteq> 0"
  shows "\<exists>t. ideintr P s = Ret () t \<and> bufs t = (bufs s)(i := (bufs s i)\<lparr>b_valid := True\<rparr>) \<and>
     ptable t = ptable (wakeup1 (ChanBuf i) s)"
proof -
  let ?t = "wakeup1 (ChanBuf i) (upd_buf i (\<lambda>b. b\<lparr>b_dirty := False\<rparr>) (upd_buf i (\<lambda>b. b\<lparr>b_valid := True\<rparr>) (s\<lparr>idequeue := None, dev := d\<rparr>)))"
  have "ideintr P s = Ret () ?t" using assms by (simp add: ideintr_def ide_fetch_def idewait_def)
  moreover have "bufs ?t = (bufs s)(i := (bufs s i)\<lparr>b_valid := True\<rparr>)" using assms(4) by (cases "bufs s i") simp
  ultimately show ?thesis by (intro exI [of _ ?t]) (simp add: wakeup1_def)
qed

section \<open>Example\<close>

text \<open>A disk that is ready at every look at its status, and a process with a block to write and a block to read.\<close>

definition pad :: "u8 list \<Rightarrow> u8 list" where "pad bs = take 512 (bs @ replicate 512 0)"

lemma pad_512: "length (pad bs) = 512" "length bs = 512 \<Longrightarrow> pad bs = bs" by (simp_all add: pad_def)

definition ports_demo :: "u8 \<Rightarrow> ata_view ports" where
  "ports_demo st = \<lparr>inb = (\<lambda>p d. if p = 0x1f7 then (st, d\<lparr>ready := True\<rparr>) else (0, d)),
     outb = (\<lambda>p x d. if p = 0x3f6 then d
       else if p = 0x1f7 then d\<lparr>ready := False, request := Some (x = IDE_CMD_WRITE, drive d, lba d)\<rparr>
       else d\<lparr>task := (task d)(p := x)\<rparr>),
     insl = (\<lambda>p n d. case request d of Some (_, dr, l) \<Rightarrow> (pad (sectors d dr l), d\<lparr>request := None\<rparr>) | None \<Rightarrow> ([], d)),
     outsl = (\<lambda>p bs d. case request d of
       Some (_, dr, l) \<Rightarrow> d\<lparr>sectors := (sectors d)(dr := (sectors d dr)(l := bs)), request := None\<rparr> | None \<Rightarrow> d)\<rparr>"

definition view_demo :: "ata_view \<Rightarrow> ata_view" where
  "view_demo d = d\<lparr>sectors := (\<lambda>dr l. pad (sectors d dr l))\<rparr>"

lemma ports_demo_disk: "ata_disk (ports_demo 0x40) view_demo" "fault_free (ports_demo 0x40)"
proof -
  have i: "idle 0x40" by (simp add: idle_def IDE_BSY_def IDE_DRDY_def)
  then show "ata_disk (ports_demo 0x40) view_demo"
    by (auto simp: ata_disk_def ports_demo_def view_demo_def pad_512 drive_def lba_def fun_eq_iff)
  show "fault_free (ports_demo 0x40)" by (simp add: fault_free_def ports_demo_def IDE_DF_def IDE_ERR_def)
qed

definition ide_demo :: "ata_view ide_state" where
  "ide_demo = \<lparr>lapicid = 0, eflags_IF = True, ncpu = 1, cpus = (\<lambda>_. demo_cpu),
     locks = (\<lambda>_. free_lock), use_lock = True, freelist = 0x80400000, ram = (\<lambda>_. 0), kend = 0x80400000,
     ptable = demo_table, initproc = Some 0, nextpid = 5, ticks = 100, cons_locking = True,
     console = [], kpgdir = 0x803FF000, forkret_addr = 0x80103000, trapret_addr = 0x80106000, mlfq = False,
     sleeplks = (\<lambda>_. sl_held (p_pid (demo_table 1))),
     bufs = (\<lambda>_. \<lparr>b_valid = False, b_dirty = False, b_dev = 1, b_blockno = 70, b_refcnt = 1, b_data = (\<lambda>_. 0)\<rparr>)
       (0 := \<lparr>b_valid = True, b_dirty = True, b_dev = 1, b_blockno = 70, b_refcnt = 1, b_data = (\<lambda>_. 7)\<rparr>),
     lru = [0..<30], disk = (\<lambda>_ _. 0), disksize = 1000, writes = [],
     idequeue = None, qnext = (\<lambda>_. None), havedisk1 = True, ioapic = (\<lambda>_. 0),
     dev = \<lparr>ready = False, task = (\<lambda>_. 0), sectors = (\<lambda>_ _. replicate 512 0), request = None\<rparr>\<rparr>"

lemma ide_demo_in: "in_proc ide_demo 1"
  by (simp add: in_proc_def quiet_def cpu_known_def this_cpu_def ide_demo_def demo_cpu_def first_idx_one)

theorem ide_agrees_with_memide_witness:
  "\<exists>t u m. iderw 1 ide_demo = Ret () m \<and> ide_rw (ports_demo 0x40) 1 ide_demo = Swtch (with_locks [PtableLock] t) \<and>
     ideintr (ports_demo 0x40) t = Ret () u \<and> agree (bufs u 1) (bufs m 1)"
proof -
  obtain m where m: "iderw 1 ide_demo = Ret () m"
    using ide_demo_in by (simp add: iderw_def holdingsleep_quiet) (simp add: ide_demo_def)
  have "ide_ok view_demo [] ide_demo" "havedisk1 ide_demo" "b_blockno (bufs ide_demo 1) < FSSIZE"
    by (simp_all add: ide_ok_def ide_demo_def FSSIZE_def)
  moreover have "mirrors (sectors (view_demo (dev ide_demo))) (disk ide_demo)"
    by (simp add: mirrors_def ide_demo_def view_demo_def pad_512 get_bytes_def BSIZE_def list_eq_iff_nth_eq)
  ultimately show ?thesis using m ide_agrees_with_memide [OF ports_demo_disk, of ide_demo 1 1 m] ide_demo_in by (auto simp: NPROC_def)
qed

definition ide_queued :: "ata_view ide_state" where
  "ide_queued = ide_demo\<lparr>idequeue := Some 0, qnext := (\<lambda>_. None)(0 := Some 1),
     dev := (dev ide_demo)\<lparr>sectors := (\<lambda>_ _. replicate 512 7)\<rparr>\<rparr>"

theorem ide_serves_in_order_witness:
  "\<exists>t. interrupts (ports_demo 0x40) 2 ide_queued = Ret () t \<and> idequeue t = None \<and> b_valid (bufs t 1) \<and> b_data (bufs t 1) 5 = 7"
proof -
  have b: "get_bytes (\<lambda>_. 7) 0 512 = replicate 512 (7 :: u8)" by (simp add: list_eq_iff_nth_eq)
  have "bit (1 :: u32) 0" by simp
  then have "ide_ok view_demo [0, 1] ide_queued" using b
    by (simp add: ide_ok_def ide_queued_def ide_demo_def view_demo_def pad_512 FSSIZE_def started_def)
  moreover have "quiet ide_queued" using ide_demo_in by (simp add: ide_queued_def)
  ultimately obtain t where t: "interrupts (ports_demo 0x40) 2 ide_queued = Ret () t" "idequeue t = None"
    "(bufs t, sectors (view_demo (dev t))) = fold serve [0, 1] (bufs ide_queued, sectors (view_demo (dev ide_queued)))"
    using ide_serves_in_order [OF ports_demo_disk, of "[0, 1]" ide_queued] by (auto simp: numeral_2_eq_2)
  then have "bufs t 1 = served (stored (bufs ide_queued 0) (\<lambda>_ _. replicate 512 7)) (bufs ide_queued 1)"
    by (simp add: ide_queued_def view_demo_def pad_512)
  then have "b_valid (bufs t 1)" "b_data (bufs t 1) 5 = 7"
    using b by (simp_all add: served_def stored_def put_bytes_def ide_queued_def ide_demo_def)
  then show ?thesis using t(1,2) by blast
qed

theorem ide_read_error_marks_valid_witness:
  "\<exists>t. ideintr (ports_demo 0x41) (ide_queued\<lparr>idequeue := Some 1\<rparr>) = Ret () t \<and> b_valid (bufs t 1) \<and> b_data (bufs t 1) 5 = 0"
proof -
  have "poll (ports_demo 0x41) (dev ide_queued) = Some (0x41, (dev ide_queued)\<lparr>ready := True\<rparr>)"
    by (subst poll_step) (simp add: ports_demo_def idle_def IDE_BSY_def IDE_DRDY_def)
  moreover have "quiet ide_queued" using ide_demo_in by (simp add: ide_queued_def)
  ultimately show ?thesis
    using ide_read_error_marks_valid [of "ide_queued\<lparr>idequeue := Some 1\<rparr>" 1 "ports_demo 0x41" "0x41" "(dev ide_queued)\<lparr>ready := True\<rparr>"]
    by (auto simp: IDE_DF_def IDE_ERR_def) (auto simp: ide_queued_def ide_demo_def)
qed

end
