(* ===== verification/Keyboard.thy ===== *)
theory Keyboard
  imports Console Ports
begin

text \<open>
  The keyboard (\<open>kbd.c\<close> and the tables of \<open>kbd.h\<close>) and the serial port (\<open>uart.c\<close>). The keyboard
  controller hands out the scan codes of the keys one by one; \<open>kbdgetc\<close> keeps the modifier keys in
  \<open>shift\<close> and turns a scan code into a character for \<open>consoleintr\<close>. A table is a list of its first
  entries and the entries set by index; every other entry is 0.
\<close>

section \<open>The tables of \<open>kbd.h\<close>\<close>

definition SHIFT :: u32 where "SHIFT = 1"
definition CTL :: u32 where "CTL = 2"
definition ALT :: u32 where "ALT = 4"
definition CAPSLOCK :: u32 where "CAPSLOCK = 8"
definition NUMLOCK :: u32 where "NUMLOCK = 16"
definition SCROLLLOCK :: u32 where "SCROLLLOCK = 32"
definition E0ESC :: u32 where "E0ESC = 64"

definition table :: "'a::zero list \<Rightarrow> (u8 \<times> 'a) list \<Rightarrow> u8 \<Rightarrow> 'a" where
  "table xs ys k = (if unat k < length xs then xs ! unat k else case map_of ys k of Some c \<Rightarrow> c | None \<Rightarrow> 0)"

definition shiftcode :: "u8 \<Rightarrow> u32" where
  "shiftcode = table [] [(0x1D, CTL), (0x2A, SHIFT), (0x36, SHIFT), (0x38, ALT), (0x9D, CTL), (0xB8, ALT)]"

definition togglecode :: "u8 \<Rightarrow> u32" where
  "togglecode = table [] [(0x3A, CAPSLOCK), (0x45, NUMLOCK), (0x46, SCROLLLOCK)]"

text \<open>The special keys, the same in all three maps: \<open>KEY_UP\<close> and so on.\<close>

definition special_keys :: "(u8 \<times> u8) list" where
  "special_keys = [(0xC8, 0xE2), (0xD0, 0xE3), (0xC9, 0xE6), (0xD1, 0xE7), (0xCB, 0xE4), (0xCD, 0xE5),
     (0x97, 0xE0), (0xCF, 0xE1), (0xD2, 0xE8), (0xD3, 0xE9)]"

definition key_pad :: "u8 list" where
  "key_pad = [0, 32] @ replicate 13 0 @ str ''789-456+1230.'' @ replicate 4 0"

definition normalmap :: "u8 \<Rightarrow> u8" where
  "normalmap = table
     ([0, 0x1B] @ str ''1234567890-='' @ [8, 9] @ str ''qwertyuiop[]'' @ [10, 0] @ str ''asdfghjkl;'' @ [39, 96, 0, 92] @
      str ''zxcvbnm,./'' @ [0, 42] @ key_pad)
     ([(0x9C, 10), (0xB5, 47)] @ special_keys)"

definition shiftmap :: "u8 \<Rightarrow> u8" where
  "shiftmap = table
     ([0, 27] @ str ''!@#$%^&*()_+'' @ [8, 9] @ str ''QWERTYUIOP{}'' @ [10, 0] @ str ''ASDFGHJKL:'' @ [34, 126, 0, 124] @
      str ''ZXCVBNM<>?'' @ [0, 42] @ key_pad)
     ([(0x9C, 10), (0xB5, 47)] @ special_keys)"

text \<open>\<open>C(x)\<close>, computed in a byte.\<close>

definition ctl_chars :: "string \<Rightarrow> u8 list" where
  "ctl_chars cs = map (\<lambda>c. c - 64) (str cs)"

definition ctlmap :: "u8 \<Rightarrow> u8" where
  "ctlmap = table
     (replicate 16 0 @ ctl_chars ''QWERTYUIOP'' @ [0, 0, 13, 0] @ ctl_chars ''ASDFGHJKL'' @ [0, 0, 0, 0, 92 - 64] @
      ctl_chars ''ZXCVBNM'' @ [0, 0, 47 - 64, 0, 0])
     ([(0x9C, 13), (0xB5, 47 - 64)] @ special_keys)"

definition charcode :: "u32 \<Rightarrow> u8 \<Rightarrow> u8" where
  "charcode m = (if m = 0 then normalmap else if m = SHIFT then shiftmap else ctlmap)"

section \<open>One scan code\<close>

definition capslock :: "u8 \<Rightarrow> u8" where
  "capslock c = (if 97 \<le> c \<and> c \<le> 122 then c + (65 - 97) else if 65 \<le> c \<and> c \<le> 90 then c + (97 - 65) else c)"

definition kbd_char :: "u8 \<Rightarrow> u32 \<Rightarrow> int \<times> u32" where
  "kbd_char data shift =
     (let shift = or shift (shiftcode data);
          shift = xor shift (togglecode data);
          c = charcode (and shift (or CTL SHIFT)) data
      in (uint (if and shift CAPSLOCK \<noteq> 0 then capslock c else c), shift))"

definition kbd_key :: "u8 \<Rightarrow> u32 \<Rightarrow> int \<times> u32" where
  "kbd_key data shift =
     (if data = 0xE0 then (0, or shift E0ESC)
      else if and data 0x80 \<noteq> 0 then
        (let data = (if and shift E0ESC \<noteq> 0 then data else and data 0x7F)
         in (0, and shift (not (or (shiftcode data) E0ESC))))
      else if and shift E0ESC \<noteq> 0 then kbd_char (or data 0x80) (and shift (not E0ESC))
      else kbd_char data shift)"

text \<open>
  \<open>kbdgetc\<close>: the scan codes waiting in the controller are the list; with none of them the status
  shows no data, and the result is -1.
\<close>

fun kbdgetc :: "u8 list \<times> u32 \<Rightarrow> int \<times> u8 list \<times> u32" where
  "kbdgetc ([], shift) = (-1, [], shift)"
| "kbdgetc (data # ds, shift) = (case kbd_key data shift of (c, shift) \<Rightarrow> (c, ds, shift))"

text \<open>The characters that the loop of \<open>consoleintr\<close> gets, until there are no more.\<close>

fun kbd_chars :: "u8 list \<Rightarrow> u32 \<Rightarrow> int list \<times> u32" where
  "kbd_chars [] shift = ([], snd (snd (kbdgetc ([], shift))))"
| "kbd_chars (d # ds) shift =
     (case kbdgetc (d # ds, shift) of (c, _, shift) \<Rightarrow>
        if c < 0 then ([], shift) else case kbd_chars ds shift of (cs, shift) \<Rightarrow> (c # cs, shift))"

definition kbdintr :: "u8 list \<Rightarrow> u32 \<Rightarrow> 'z fs_state_scheme \<Rightarrow> (bool, 'z fs_state_scheme) res \<times> u32" where
  "kbdintr ds shift s = (case kbd_chars ds shift of (cs, shift) \<Rightarrow> (consoleintr cs s, shift))"

section \<open>The modifier keys\<close>

definition flags :: "u32 \<Rightarrow> bool" where "flags x \<longleftrightarrow> x < 128"

lemma flags_take_bit: "flags x \<longleftrightarrow> take_bit 7 x = x"
proof -
  have "unat (take_bit 7 x) = unat x mod 128" by (simp add: take_bit_eq_mod unat_mod_distrib)
  then have "take_bit 7 x = x \<longleftrightarrow> unat x mod 128 = unat x" by (simp add: word_unat_eq_iff)
  also have "\<dots> \<longleftrightarrow> unat x < 128" using mod_less_divisor [of 128 "unat x"] by auto
  finally show ?thesis by (simp add: flags_def word_less_nat_alt)
qed

lemma flags_and [simp]: "flags x \<Longrightarrow> flags (and x m)"
  unfolding flags_take_bit by (metis and.assoc and.commute take_bit_eq_mask)

lemma flags_or [simp]: "flags x \<Longrightarrow> flags y \<Longrightarrow> flags (or x y)" "flags x \<Longrightarrow> flags y \<Longrightarrow> flags (xor x y)"
  by (simp_all add: flags_take_bit)

text \<open>The flags that a scan code sets or clears are among the seven.\<close>

lemma code_flags [simp]: "flags (shiftcode k)" "flags (togglecode k)" "flags E0ESC"
  by (simp_all add: flags_def shiftcode_def togglecode_def table_def SHIFT_def CTL_def ALT_def CAPSLOCK_def NUMLOCK_def SCROLLLOCK_def E0ESC_def)


definition letter :: "u8 \<Rightarrow> bool" where "letter c \<longleftrightarrow> 97 \<le> c \<and> c \<le> 122"

lemma letter_table:
  "list_all (\<lambda>n. let k = word_of_nat n in letter (normalmap k) \<longrightarrow>
     shiftmap k = normalmap k - 32 \<and> shiftcode k = 0 \<and> togglecode k = 0 \<and> and k 0x80 = 0) [0..<88]"
  by code_simp

lemma letter_key:
  assumes "letter (normalmap k)"
  shows "shiftmap k = normalmap k - 32" "shiftcode k = 0" "togglecode k = 0" "and k 0x80 = 0" "k \<noteq> 0xE0"
proof -
  have "unat k < 88"
  proof (rule ccontr)
    assume "\<not> unat k < 88"
    then have "normalmap k = (case map_of ([(0x9C, 10), (0xB5, 47)] @ special_keys) k of Some c \<Rightarrow> c | None \<Rightarrow> 0)"
      by (simp add: normalmap_def table_def key_pad_def str_def)
    then show False using assms by (auto simp: letter_def special_keys_def split: if_splits)
  qed
  then show k: "shiftmap k = normalmap k - 32" "shiftcode k = 0" "togglecode k = 0" "and k 0x80 = 0"
    using letter_table assms by (auto simp: list_all_iff Let_def dest!: bspec [of _ _ "unat k"])
  show "k \<noteq> 0xE0" using k(4) by auto
qed


text \<open>
  With neither control nor an escape pending, the key of a letter gives the capital letter if exactly one of shift and caps lock
  is on, and the small letter otherwise.
\<close>

theorem kbd_letters:
  assumes "letter (normalmap k)" "and shift (or E0ESC CTL) = 0"
  shows "kbd_key k shift = (uint (if (and shift SHIFT \<noteq> 0) \<noteq> (and shift CAPSLOCK \<noteq> 0) then normalmap k - 32 else normalmap k), shift)"
proof -
  note k = letter_key [OF assms(1)]
  have "or (and shift E0ESC) (and shift CTL) = 0" using assms(2) by (simp add: bit.conj_disj_distrib)
  then have z: "and shift E0ESC = 0" "and shift CTL = 0" by (simp_all add: or_eq_0_iff)
  then have "and shift (or CTL SHIFT) = and shift SHIFT" by (simp add: bit.conj_disj_distrib)
  moreover have "and shift SHIFT = 0 \<or> and shift SHIFT = SHIFT" by (auto simp: SHIFT_def and_one_eq mod_2_eq_odd)
  moreover have "unat (normalmap k - 32) = unat (normalmap k) - 32"
    using assms(1) by (subst unat_sub) (auto simp: letter_def word_le_nat_alt)
  then have "capslock (normalmap k) = normalmap k - 32" "capslock (normalmap k - 32) = normalmap k"
    using assms(1) by (auto simp: capslock_def letter_def word_le_nat_alt)
  ultimately show ?thesis using k z by (auto simp: kbd_key_def kbd_char_def Let_def charcode_def SHIFT_def)
qed


theorem kbd_letters_witness: "letter (normalmap 0x1E) \<and> kbd_key 0x1E SHIFT = (65, SHIFT)"
proof -
  have a: "normalmap 0x1E = 97" by (simp add: normalmap_def table_def str_def)
  then have "letter (normalmap 0x1E)" by (simp add: letter_def)
  moreover have "and SHIFT (or E0ESC CTL) = 0" "and SHIFT CAPSLOCK = 0" "and SHIFT SHIFT \<noteq> 0" by (simp_all add: SHIFT_def E0ESC_def CTL_def CAPSLOCK_def)
  ultimately show ?thesis using kbd_letters [of "0x1E" SHIFT] a by simp
qed

section \<open>The serial port\<close>

definition COM1 :: u16 where "COM1 = 0x3f8"

record 'd uart_state =
  uart :: bool
  uart_ioapic :: ioapic_regs
  uart_dev :: 'd

definition uart_out :: "'d ports \<Rightarrow> u16 \<Rightarrow> u8 \<Rightarrow> 'd uart_state \<Rightarrow> 'd uart_state" where
  "uart_out P p x s = s\<lparr>uart_dev := outb P p x (uart_dev s)\<rparr>"

text \<open>The wait of \<open>uartputc\<close>, at most \<open>n\<close> looks at the status; the delay in between only takes time.\<close>

fun uart_wait :: "'d ports \<Rightarrow> nat \<Rightarrow> 'd \<Rightarrow> 'd" where
  "uart_wait P 0 d = d"
| "uart_wait P (Suc n) d = (case inb P (COM1 + 5) d of (st, d) \<Rightarrow> if and st 0x20 \<noteq> 0 then d else uart_wait P n d)"

definition uartputc :: "'d ports \<Rightarrow> int \<Rightarrow> 'd uart_state \<Rightarrow> 'd uart_state" where
  "uartputc P c s = (if \<not> uart s then s else uart_out P COM1 (word_of_int c) (s\<lparr>uart_dev := uart_wait P 128 (uart_dev s)\<rparr>))"

definition uartinit :: "'d ports \<Rightarrow> 'd uart_state \<Rightarrow> 'd uart_state" where
  "uartinit P s =
     (let s = uart_out P (COM1 + 2) 0 s;
          s = uart_out P (COM1 + 3) 0x80 s;
          s = uart_out P COM1 (115200 div 9600) s;
          s = uart_out P (COM1 + 1) 0 s;
          s = uart_out P (COM1 + 3) 0x03 s;
          s = uart_out P (COM1 + 4) 0 s;
          s = uart_out P (COM1 + 1) 0x01 s
      in case inb P (COM1 + 5) (uart_dev s) of (st, d) \<Rightarrow>
           if st = 0xFF then s\<lparr>uart_dev := d\<rparr>
           else let s = s\<lparr>uart := True, uart_dev := snd (inb P COM1 (snd (inb P (COM1 + 2) d)))\<rparr>;
                    s = s\<lparr>uart_ioapic := ioapicenable IRQ_COM1 0 (uart_ioapic s)\<rparr>
                in fold (\<lambda>c. uartputc P (uint c)) (str ''xv6...\<newline>'') s)"

definition uartgetc :: "'d ports \<Rightarrow> 'd uart_state \<Rightarrow> int \<times> 'd uart_state" where
  "uartgetc P s =
     (if \<not> uart s then (-1, s)
      else case inb P (COM1 + 5) (uart_dev s) of (st, d) \<Rightarrow>
        if and st 0x01 = 0 then (-1, s\<lparr>uart_dev := d\<rparr>)
        else case inb P COM1 d of (c, d) \<Rightarrow> (uint c, s\<lparr>uart_dev := d\<rparr>))"

text \<open>
  A port that keeps what is sent: whether or not it says in time that it is ready, every character
  put on it is sent, one after the other, once \<open>uartinit\<close> has found the port.
\<close>

lemma uart_wait_view:
  assumes "\<And>d. f (snd (inb P (COM1 + 5) d)) = f d"
  shows "f (uart_wait P n d) = f d"
proof (induction n arbitrary: d)
  case (Suc n)
  then show ?case using assms [of d] by (simp add: case_prod_beta)
qed simp

lemma uartputc_sends:
  assumes "\<And>d. f (snd (inb P (COM1 + 5) d)) = f d" "\<And>x d. f (outb P COM1 x d) = f d @ [x]" "uart s"
  shows "f (uart_dev (fold (\<lambda>c. uartputc P (uint c)) cs s)) = f (uart_dev s) @ cs"
  using assms(3)
proof (induction cs arbitrary: s)
  case (Cons c cs)
  then show ?case using uart_wait_view [of f P] assms(1,2) by (simp add: uartputc_def uart_out_def)
qed simp

end
