(* ===== verification/Screen.thy ===== *)
theory Screen
  imports Inodes
begin

text \<open>
  The text screen of the console, \<open>cgaputc\<close> of \<open>console.c\<close>. The screen is an array of cells, a character
  and its colour each; the display controller keeps the position of the cursor in its registers 14
  and 15, which hold what was last written to them.
\<close>

record screen =
  crt :: "nat \<Rightarrow> u16"
  crtc :: "nat \<Rightarrow> u8"

definition cursor :: "screen \<Rightarrow> nat" where
  "cursor v = unat (or (push_bit 8 (ucast (crtc v 14))) (ucast (crtc v 15)) :: u32)"

definition set_cursor :: "nat \<Rightarrow> screen \<Rightarrow> screen" where
  "set_cursor pos v = v\<lparr>crtc := (crtc v)(14 := ucast (drop_bit 8 (of_nat pos :: u32)), 15 := ucast (of_nat pos :: u32))\<rparr>"

definition scroll :: "nat \<Rightarrow> (nat \<Rightarrow> u16) \<Rightarrow> nat \<Rightarrow> u16" where
  "scroll pos m =
     (let m = (\<lambda>i. if i < 23 * 80 then m (i + 80) else m i)
      in (\<lambda>i. if pos \<le> i \<and> i < pos + (24 * 80 - pos) then 0 else m i))"

definition cgaputc :: "int \<Rightarrow> screen \<Rightarrow> (unit, screen) res" where
  "cgaputc c v =
     (let pos = cursor v;
          (v, pos) = (if c = 10 then (v, pos + (80 - pos mod 80))
                      else if c = BACKSPACE then (v, if pos > 0 then pos - 1 else pos)
                      else (v\<lparr>crt := (crt v)(pos := or (word_of_int (and c 0xff)) 0x0700)\<rparr>, pos + 1))
      in if pos > 25 * 80 then Panic ''pos under/overflow''
         else let (v, pos) = (if pos div 80 \<ge> 24 then (v\<lparr>crt := scroll (pos - 80) (crt v)\<rparr>, pos - 80) else (v, pos));
                  v = set_cursor pos v
              in Ret () (v\<lparr>crt := (crt v)(pos := or 32 0x0700)\<rparr>))"

lemma cursor_set [simp]:
  assumes "pos < 65536"
  shows "cursor (set_cursor pos v) = pos"
proof -
  have b: "or (push_bit 8 (ucast (ucast (drop_bit 8 w) :: u8))) (ucast (ucast w :: u8)) = take_bit 16 w" for w :: u32
    by (rule bit_word_eqI) (auto simp: bit_or_iff bit_push_bit_iff bit_ucast_iff bit_drop_bit_eq bit_take_bit_iff)
  have "unat (take_bit 16 (of_nat pos :: u32)) = pos"
    using assms by (simp add: unsigned_of_nat take_bit_eq_mod unat_mod_distrib)
  then show ?thesis by (simp add: cursor_def set_cursor_def b)
qed

lemma crt_set_cursor [simp]: "crt (set_cursor pos v) = crt v" "set_cursor pos (v\<lparr>crt := m\<rparr>) = (set_cursor pos v)\<lparr>crt := m\<rparr>"
    "cursor (v\<lparr>crt := m\<rparr>) = cursor v"
  by (simp_all add: set_cursor_def cursor_def)

text \<open>
  What a character does to a screen of 24 lines with the cursor at \<open>pos\<close>, before lines are moved up: the cells and
  the new position.
\<close>

definition typed_cell :: "int \<Rightarrow> nat \<Rightarrow> (nat \<Rightarrow> u16) \<Rightarrow> nat \<Rightarrow> u16" where
  "typed_cell c pos m = (if c = 10 \<or> c = BACKSPACE then m else m(pos := or (word_of_int (and c 0xff)) 0x0700))"

definition next_pos :: "int \<Rightarrow> nat \<Rightarrow> nat" where
  "next_pos c pos = (if c = 10 then 80 * (pos div 80 + 1) else if c = BACKSPACE then pos - 1 else pos + 1)"

text \<open>
  C25: With the cursor on the screen \<open>cgaputc\<close> does not panic and keeps it there. Before the cursor the screen shows the cells
  from before with the new character, moved up by one line when the cursor would leave the last line; the cursor
  stands on a blank.
\<close>

theorem cgaputc_shows:
  assumes "cursor v < 24 * 80"
  shows "\<exists>w n. cgaputc c v = Ret () w \<and> n = (if next_pos c (cursor v) < 24 * 80 then 0 else 80) \<and>
    cursor w = next_pos c (cursor v) - n \<and> cursor w < 24 * 80 \<and>
    (\<forall>i<cursor w. crt w i = typed_cell c (cursor v) (crt v) (i + n)) \<and> crt w (cursor w) = 0x0720"
proof -
  let ?p = "cursor v"
  have nl: "?p + (80 - ?p mod 80) = 80 * (?p div 80 + 1)"
    by presburger
  have le: "next_pos c ?p \<le> 24 * 80" using assms by (auto simp: next_pos_def)
  have run: "cgaputc c v = (let pos = next_pos c ?p; m = typed_cell c ?p (crt v);
       (m, pos) = (if pos \<ge> 24 * 80 then (scroll (pos - 80) m, pos - 80) else (m, pos))
     in Ret () ((set_cursor pos v)\<lparr>crt := m(pos := 0x0720)\<rparr>))"
  proof -
    have "(if c = 10 then (v, ?p + (80 - ?p mod 80)) else if c = BACKSPACE then (v, if ?p > 0 then ?p - 1 else ?p)
        else (v\<lparr>crt := (crt v)(?p := or (word_of_int (and c 0xff)) 0x0700)\<rparr>, ?p + 1)) =
      (v\<lparr>crt := typed_cell c ?p (crt v)\<rparr>, next_pos c ?p)" unfolding nl by (simp add: typed_cell_def next_pos_def)
    moreover have "24 \<le> next_pos c ?p div 80 \<longleftrightarrow> 24 * 80 \<le> next_pos c ?p" by (simp add: less_eq_div_iff_mult_less_eq)
    moreover have "\<not> next_pos c ?p > 25 * 80" using le by simp
    ultimately show ?thesis unfolding cgaputc_def Let_def by simp
  qed
  show ?thesis
  proof (cases "next_pos c ?p < 24 * 80")
    case True
    then show ?thesis using run by (auto simp: Let_def)
  next
    case False
    then have "next_pos c ?p = 24 * 80" using le by simp
    then show ?thesis using run by (auto simp: Let_def scroll_def)
  qed
qed

theorem cgaputc_shows_witness:
  "\<exists>w. cgaputc 65 \<lparr>crt = (\<lambda>_. 0), crtc = (\<lambda>_. 0)\<rparr> = Ret () w \<and> cursor w = 1 \<and> crt w 0 = 0x0741"
proof -
  have "cursor \<lparr>crt = (\<lambda>_. 0), crtc = (\<lambda>_. 0)\<rparr> = 0" by (simp add: cursor_def)
  then show ?thesis using cgaputc_shows [of "\<lparr>crt = (\<lambda>_. 0), crtc = (\<lambda>_. 0)\<rparr>" 65] by (auto simp: next_pos_def typed_cell_def BACKSPACE_def)
qed

end
