(* ===== verification/ShellParse.thy ===== *)
theory ShellParse
  imports SysFile "HOL-Library.Sublist"
begin

text \<open>
  The parser of the shell, \<open>sh.c\<close>. A pointer into the command line is the rest of the line that starts there; the
  end of the line is the empty rest, where the code reads the terminating NUL. A word is the pair of
  pointers to its start and its end, as in \<open>argv\<close> and \<open>eargv\<close>. \<open>panic\<close> of the shell ends the process that parses, the
  result \<open>Inl\<close> of its message.
\<close>

section \<open>Commands\<close>

type_synonym ptr = "u8 list"

datatype 'w cmd =
    EXEC "'w list"
  | REDIR "'w cmd" 'w u32 int
  | PIPE "'w cmd" "'w cmd"
  | LIST "'w cmd" "'w cmd"
  | BACK "'w cmd"

definition MAXARGS :: nat where "MAXARGS = 10"

definition whitespace :: "u8 list" where "whitespace = [32, 9, 13, 10, 11]"
definition symbols :: "u8 list" where "symbols = str ''<|>&;()''"

definition blank :: "u8 \<Rightarrow> bool" where "blank c \<longleftrightarrow> c \<in> set whitespace"
definition symbol :: "u8 \<Rightarrow> bool" where "symbol c \<longleftrightarrow> c \<in> set symbols"

text \<open>\<open>*s\<close>: the character a pointer points to.\<close>

definition deref_at :: "ptr \<Rightarrow> u8" where
  "deref_at s = (case s of [] \<Rightarrow> 0 | c # _ \<Rightarrow> c)"

section \<open>Tokens\<close>

definition skip :: "ptr \<Rightarrow> ptr" where "skip s = dropWhile blank s"

text \<open>The kind of the token at \<open>q\<close> and its end.\<close>

definition token :: "ptr \<Rightarrow> u8 \<times> ptr" where
  "token q =
     (let c = deref_at q in
      if c = 0 then (0, q)
      else if c \<in> set (str ''|();&<'') then (c, tl q)
      else if c = 62 then (if deref_at (tl q) = 62 then (43, tl (tl q)) else (c, tl q))
      else (97, dropWhile (\<lambda>c. \<not> blank c \<and> \<not> symbol c) q))"

definition gettoken :: "ptr \<Rightarrow> u8 \<times> (ptr \<times> ptr) \<times> ptr" where
  "gettoken s = (let q = skip s in case token q of (ret, eq) \<Rightarrow> (ret, (q, eq), skip eq))"

definition peek :: "ptr \<Rightarrow> string \<Rightarrow> bool \<times> ptr" where
  "peek s toks = (let s = skip s in (deref_at s \<noteq> 0 \<and> deref_at s \<in> set (str toks), s))"

lemma skip_skip [simp]: "skip (skip s) = skip s" "skip [] = []"
  by (simp_all add: skip_def)

lemma skip_le: "length (skip s) \<le> length s"
  unfolding skip_def by (rule length_dropWhile_le)

lemma token_le: "length (snd (token q)) \<le> length q"
  using length_dropWhile_le [of "\<lambda>c. \<not> blank c \<and> \<not> symbol c" q]
  by (auto simp: token_def Let_def)

lemma skip_hd: "skip s = c # r \<Longrightarrow> \<not> blank c"
  unfolding skip_def by (metis dropWhile_eq_Cons_conv)

lemma symbols_cases: "symbol c \<longleftrightarrow> c \<in> set (str ''|();&<'') \<or> c = 62"
  by (auto simp: symbol_def symbols_def str_def)

lemma token_less:
  assumes "\<not> blank (deref_at q)" "fst (token q) \<noteq> 0"
  shows "length (snd (token q)) < length q"
proof (cases q)
  case (Cons c r)
  then have "length (dropWhile (\<lambda>c. \<not> blank c \<and> \<not> symbol c) q) < length q" if "\<not> symbol c"
    using assms(1) that length_dropWhile_le [of "\<lambda>c. \<not> blank c \<and> \<not> symbol c" r] by (simp add: deref_at_def)
  moreover have "c \<in> set (str ''|();&<'') \<or> c = 62" if "symbol c" using that by (simp add: symbols_cases)
  ultimately show ?thesis using Cons assms(2) by (auto simp: token_def deref_at_def Let_def symbols_cases)
qed (use assms in \<open>simp add: token_def deref_at_def\<close>)

lemma deref_skip: "\<not> blank (deref_at (skip s))"
proof (cases "skip s")
  case (Cons c r)
  then show ?thesis using skip_hd [OF Cons] by (simp add: deref_at_def)
qed (simp add: deref_at_def blank_def whitespace_def)

lemma gettoken_le: "length (snd (snd (gettoken s))) \<le> length s"
  using skip_le [of "snd (token (skip s))"] token_le [of "skip s"] skip_le [of s]
  by (simp add: gettoken_def Let_def case_prod_beta)

lemma gettoken_less: "fst (gettoken s) \<noteq> 0 \<Longrightarrow> length (snd (snd (gettoken s))) < length s"
  using skip_le [of "snd (token (skip s))"] token_less [OF deref_skip, of s] skip_le [of s]
  by (simp add: gettoken_def Let_def case_prod_beta)

lemma peek_le: "length (snd (peek s toks)) \<le> length s"
  by (simp add: peek_def Let_def skip_le)

lemma peek_leD: "(p, s1) = peek s toks \<Longrightarrow> length s1 \<le> length s"
  by (metis peek_le snd_conv)

text \<open>A token that \<open>peek\<close> has seen is there.\<close>

lemma peek_gettoken:
  assumes "fst (peek s toks)"
  shows "fst (gettoken (snd (peek s toks))) \<noteq> 0" "length (snd (snd (gettoken (snd (peek s toks))))) < length s"
proof -
  have "deref_at (skip s) \<noteq> 0" using assms by (simp add: peek_def Let_def)
  then show t: "fst (gettoken (snd (peek s toks))) \<noteq> 0" by (auto simp: peek_def Let_def gettoken_def token_def)
  from gettoken_less [OF t] peek_le [of s toks] show "length (snd (snd (gettoken (snd (peek s toks))))) < length s" by simp
qed

lemma peek_tokD: "(True, s1) = peek s toks \<Longrightarrow> length (snd (snd (gettoken s1))) < length s"
  by (metis peek_gettoken(2) fst_conv snd_conv)

section \<open>The parser\<close>

fun pbind :: "string + 'a \<Rightarrow> ('a \<Rightarrow> string + 'b) \<Rightarrow> string + 'b" where
  "pbind (Inl e) f = Inl e"
| "pbind (Inr a) f = f a"

lemma pbind_cong [fundef_cong]:
  "m = m' \<Longrightarrow> (\<And>a. m' = Inr a \<Longrightarrow> f a = f' a) \<Longrightarrow> pbind m f = pbind m' f'"
  by (cases m') simp_all

lemma pbind_eq_Inr: "pbind m f = Inr b \<longleftrightarrow> (\<exists>a. m = Inr a \<and> f a = Inr b)"
  by (cases m) auto

type_synonym sh_cmd = "(ptr \<times> ptr) cmd"

function parseredirs :: "sh_cmd \<Rightarrow> ptr \<Rightarrow> string + sh_cmd \<times> ptr" where
  "parseredirs cmd s =
     (let (p, s1) = peek s ''<>'' in
      if \<not> p then Inr (cmd, s1)
      else let (tok, _, s2) = gettoken s1;
               (tok', w, s3) = gettoken s2
           in if tok' \<noteq> 97 then Inl ''missing file for redirection''
              else parseredirs (if tok = 60 then REDIR cmd w O_RDONLY 0 else REDIR cmd w (or O_WRONLY O_CREATE) 1) s3)"
  by pat_completeness auto
termination
proof (relation "measure (\<lambda>(_, s). length s)", simp)
  fix cmd :: sh_cmd and s x p s1 y tok z z' s2 u tok' v w s3
  assume a: "x = peek s ''<>''" "(p, s1) = x" "\<not> \<not> p" "y = gettoken s1" "(tok, z) = y" "(z', s2) = z" "u = gettoken s2"
    "(tok', v) = u" "(w, s3) = v"
  have "length s2 < length s" using peek_gettoken(2) [of s "''<>''"] a by (metis fst_conv snd_conv)
  moreover have "length s3 \<le> length s2" using gettoken_le [of s2] a by (metis snd_conv)
  ultimately show "((if tok = 60 then REDIR cmd w O_RDONLY 0 else REDIR cmd w (or O_WRONLY O_CREATE) 1, s3), cmd, s) \<in> measure (\<lambda>(_, s). length s)"
    by simp
qed

text \<open>
  \<open>parseexec\<close> adds words to the command it made first, which is by then inside the redirections parsed since.
\<close>

fun add_arg :: "sh_cmd \<Rightarrow> ptr \<times> ptr \<Rightarrow> sh_cmd" where
  "add_arg (EXEC ws) w = EXEC (ws @ [w])"
| "add_arg (REDIR c f m d) w = REDIR (add_arg c w) f m d"
| "add_arg c w = c"

lemma parseredirs_le: "parseredirs cmd s = Inr (cmd', s') \<Longrightarrow> length s' \<le> length s"
proof (induction cmd s rule: parseredirs.induct)
  case (1 cmd s)
  obtain p s1 where p: "peek s ''<>'' = (p, s1)" by fastforce
  obtain tok w s2 where t: "gettoken s1 = (tok, w, s2)" by (cases "gettoken s1")
  obtain tok' w' s3 where t': "gettoken s2 = (tok', w', s3)" by (cases "gettoken s2")
  have l: "length s1 \<le> length s" "length s2 \<le> length s1" "length s3 \<le> length s2"
    using peek_le [of s "''<>''"] gettoken_le [of s1] gettoken_le [of s2] p t t' by simp_all
  show ?case
  proof (cases "p \<and> tok' = 97")
    case True
    then show ?thesis using 1(1) [OF p [symmetric] refl _ t [symmetric] refl refl t' [symmetric] refl refl] "1.prems" p t t' l
      by (subst (asm) parseredirs.simps) (auto split: if_splits)
  next
    case False
    then show ?thesis using "1.prems" p t t' l by (subst (asm) parseredirs.simps) (auto split: if_splits)
  qed
qed

function exec_loop :: "nat \<Rightarrow> sh_cmd \<Rightarrow> ptr \<Rightarrow> string + sh_cmd \<times> ptr" where
  "exec_loop argc ret s =
     (let (p, s1) = peek s ''|)&;'' in
      if p then Inr (ret, s1)
      else let (tok, w, s2) = gettoken s1 in
           if tok = 0 then Inr (ret, s2)
           else if tok \<noteq> 97 then Inl ''syntax''
           else if argc + 1 \<ge> MAXARGS then Inl ''too many args''
           else pbind (parseredirs (add_arg ret w) s2) (\<lambda>(ret, s3). exec_loop (argc + 1) ret s3))"
  by pat_completeness auto
termination
proof (relation "measure (\<lambda>(_, _, s). length s)", simp)
  fix argc :: nat and ret :: sh_cmd and s x p s1 y tok z w s2 a ret' s3
  assume a: "x = peek s ''|)&;''" "(p, s1) = x" "y = gettoken s1" "(tok, z) = y" "(w, s2) = z" "tok \<noteq> 0"
    "parseredirs (add_arg ret w) s2 = Inr a" "(ret', s3) = a"
  have "length s2 < length s1" using gettoken_less [of s1] a by (metis fst_conv snd_conv)
  moreover have "length s1 \<le> length s" using peek_le [of s "''|)&;''"] a by (metis snd_conv)
  moreover have "length s3 \<le> length s2" using parseredirs_le a by metis
  ultimately show "((argc + 1, ret', s3), argc, ret, s) \<in> measure (\<lambda>(_, _, s). length s)" by simp
qed

lemma exec_loop_le: "exec_loop argc ret s = Inr (ret', s') \<Longrightarrow> length s' \<le> length s"
proof (induction argc ret s rule: exec_loop.induct)
  case (1 argc ret s)
  obtain p s1 where p: "peek s ''|)&;'' = (p, s1)" by fastforce
  obtain tok w s2 where t: "gettoken s1 = (tok, w, s2)" by (cases "gettoken s1")
  have l: "length s1 \<le> length s" "length s2 \<le> length s1" using peek_le [of s "''|)&;''"] gettoken_le [of s1] p t by simp_all
  show ?case
  proof (cases "\<not> p \<and> tok = 97 \<and> \<not> argc + 1 \<ge> MAXARGS")
    case True
    then obtain r s3 where r: "parseredirs (add_arg ret w) s2 = Inr (r, s3)" "exec_loop (argc + 1) r s3 = Inr (ret', s')"
      using "1.prems" p t by (subst (asm) exec_loop.simps) (auto simp: pbind_eq_Inr)
    have "length s' \<le> length s3" using 1(1) [OF p [symmetric] refl _ t [symmetric] refl refl _ _ _ r(1) refl r(2)] True by simp
    then show ?thesis using parseredirs_le [OF r(1)] l by simp
  next
    case False
    then show ?thesis using "1.prems" p t l by (subst (asm) exec_loop.simps) (auto split: if_splits)
  qed
qed

text \<open>The loop of \<open>parseline\<close> over \<open>&\<close>.\<close>

function backs :: "sh_cmd \<Rightarrow> ptr \<Rightarrow> sh_cmd \<times> ptr" where
  "backs cmd s =
     (let (p, s1) = peek s ''&'' in
      if p then backs (BACK cmd) (snd (snd (gettoken s1))) else (cmd, s1))"
  by pat_completeness auto
termination
proof (relation "measure (\<lambda>(_, s). length s)", simp)
  fix cmd :: sh_cmd and s x p s1
  assume "x = peek s ''&''" "(p, s1) = x" "p"
  then show "((BACK cmd, snd (snd (gettoken s1))), cmd, s) \<in> measure (\<lambda>(_, s). length s)"
    using peek_gettoken(2) [of s "''&''"] by (metis fst_conv snd_conv in_measure case_prod_conv)
qed

lemma backs_le: "length (snd (backs cmd s)) \<le> length s"
proof (induction cmd s rule: backs.induct)
  case (1 cmd s)
  obtain p s1 where p: "peek s ''&'' = (p, s1)" by fastforce
  have l: "length s1 \<le> length s" "length (snd (snd (gettoken s1))) \<le> length s1"
    using peek_le [of s "''&''"] gettoken_le [of s1] p by simp_all
  show ?case using 1 [OF p [symmetric] refl] l p by (subst backs.simps) auto
qed

declare parseredirs.simps [simp del] exec_loop.simps [simp del] backs.simps [simp del]

lemma backs_leD: "(c, s') = backs cmd s \<Longrightarrow> length s' \<le> length s"
  by (metis backs_le snd_conv)

text \<open>The four parsers; they end since what a parser leaves is no longer than what it was given.\<close>

function (domintros) parseline :: "ptr \<Rightarrow> string + sh_cmd \<times> ptr"
  and parsepipe :: "ptr \<Rightarrow> string + sh_cmd \<times> ptr"
  and parseexec :: "ptr \<Rightarrow> string + sh_cmd \<times> ptr"
  and parseblock :: "ptr \<Rightarrow> string + sh_cmd \<times> ptr" where
  "parseline s =
     pbind (parsepipe s) (\<lambda>(cmd, s).
     let (cmd, s) = backs cmd s;
         (p, s) = peek s '';''
     in if p then pbind (parseline (snd (snd (gettoken s)))) (\<lambda>(r, s). Inr (LIST cmd r, s))
        else Inr (cmd, s))"
| "parsepipe s =
     pbind (parseexec s) (\<lambda>(cmd, s).
     let (p, s) = peek s ''|''
     in if p then pbind (parsepipe (snd (snd (gettoken s)))) (\<lambda>(r, s). Inr (PIPE cmd r, s))
        else Inr (cmd, s))"
| "parseexec s =
     (let (p, s) = peek s ''(''
      in if p then parseblock s
         else pbind (parseredirs (EXEC []) s) (\<lambda>(ret, s). exec_loop 0 ret s))"
| "parseblock s =
     (let (p, s) = peek s ''(''
      in if \<not> p then Inl ''parseblock''
         else pbind (parseline (snd (snd (gettoken s)))) (\<lambda>(cmd, s).
              let (p, s) = peek s '')''
              in if \<not> p then Inl ''syntax - missing )''
                 else parseredirs cmd (snd (snd (gettoken s)))))"
  by pat_completeness auto

termination
proof -
  have parse_le:
    "parseline_parsepipe_parseexec_parseblock_dom (Inl (Inl s)) \<Longrightarrow> (\<And>c s'. parseline s = Inr (c, s') \<Longrightarrow> length s' \<le> length s)"
    "parseline_parsepipe_parseexec_parseblock_dom (Inl (Inr s)) \<Longrightarrow> (\<And>c s'. parsepipe s = Inr (c, s') \<Longrightarrow> length s' \<le> length s)"
    "parseline_parsepipe_parseexec_parseblock_dom (Inr (Inl s)) \<Longrightarrow> (\<And>c s'. parseexec s = Inr (c, s') \<Longrightarrow> length s' \<le> length s)"
    "parseline_parsepipe_parseexec_parseblock_dom (Inr (Inr s)) \<Longrightarrow> (\<And>c s'. parseblock s = Inr (c, s') \<Longrightarrow> length s' \<le> length s)" for s
  proof (induction rule: parseline_parsepipe_parseexec_parseblock.pinduct)
    case (1 s)
    from 1(4) obtain x y where x: "parsepipe s = Inr (x, y)" by (auto simp: parseline.psimps [OF 1(1)] pbind_eq_Inr)
    obtain c s1 where b: "(c, s1) = backs x y" by (metis surj_pair)
    obtain p s2 where p: "(p, s2) = peek s1 '';''" by (metis surj_pair)
    have l: "length y \<le> length s" "length s1 \<le> length y" "length s2 \<le> length s1" using 1(2) [OF x] backs_leD [OF b] peek_leD [OF p] by simp_all
    show ?case
    proof (cases p)
      case True
      obtain r where "parseline (snd (snd (gettoken s2))) = Inr (r, s')"
        using 1(4) x True by (auto simp: parseline.psimps [OF 1(1)] pbind_eq_Inr b [symmetric] p [symmetric])
      from 1(3) [OF x refl refl b refl p True this] show ?thesis using l gettoken_le [of s2] by simp
    next
      case False
      then show ?thesis using 1(4) x l by (auto simp: parseline.psimps [OF 1(1)] pbind_eq_Inr b [symmetric] p [symmetric])
    qed
  next
    case (2 s)
    from 2(4) obtain x y where x: "parseexec s = Inr (x, y)" by (auto simp: parsepipe.psimps [OF 2(1)] pbind_eq_Inr)
    obtain p s2 where p: "(p, s2) = peek y ''|''" by (metis surj_pair)
    have l: "length y \<le> length s" "length s2 \<le> length y" using 2(2) [OF x] peek_leD [OF p] by simp_all
    show ?case
    proof (cases p)
      case True
      obtain r where "parsepipe (snd (snd (gettoken s2))) = Inr (r, s')"
        using 2(4) x True by (auto simp: parsepipe.psimps [OF 2(1)] pbind_eq_Inr p [symmetric])
      from 2(3) [OF x refl refl p True this] show ?thesis using l gettoken_le [of s2] by simp
    next
      case False
      then show ?thesis using 2(4) x l by (auto simp: parsepipe.psimps [OF 2(1)] pbind_eq_Inr p [symmetric])
    qed
  next
    case (3 s)
    obtain p s2 where p: "(p, s2) = peek s ''(''" by (metis surj_pair)
    show ?case
    proof (cases p)
      case True
      then show ?thesis using 3(2) [OF refl p True] 3(3) peek_leD [OF p] by (fastforce simp: parseexec.psimps [OF 3(1)] p [symmetric])
    next
      case False
      then show ?thesis using 3(3) peek_leD [OF p] parseredirs_le exec_loop_le
        by (fastforce simp: parseexec.psimps [OF 3(1)] pbind_eq_Inr p [symmetric])
    qed
  next
    case (4 s)
    obtain p s2 where p: "(p, s2) = peek s ''(''" by (metis surj_pair)
    have pt: p using 4(3) by (auto simp: parseblock.psimps [OF 4(1)] p [symmetric] split: if_splits)
    with 4(3) obtain x y where x: "parseline (snd (snd (gettoken s2))) = Inr (x, y)"
      by (auto simp: parseblock.psimps [OF 4(1)] p [symmetric] pbind_eq_Inr)
    obtain p' s3 where p': "(p', s3) = peek y '')''" by (metis surj_pair)
    have "length s2 \<le> length s" "length y \<le> length s2" "length s3 \<le> length y"
      using peek_leD [OF p] 4(2) [OF refl p _ x] pt gettoken_le [of s2] peek_leD [OF p'] by simp_all
    moreover have "parseredirs x (snd (snd (gettoken s3))) = Inr (c, s')"
      using 4(3) x pt by (auto simp: parseblock.psimps [OF 4(1)] p [symmetric] p' [symmetric] split: if_splits)
    ultimately show ?case using parseredirs_le gettoken_le [of s3] by fastforce
  qed
  show ?thesis
  proof (relation "measures [\<lambda>x. case x of Inl (Inl s) \<Rightarrow> length s | Inl (Inr s) \<Rightarrow> length s | Inr (Inl s) \<Rightarrow> length s | Inr (Inr s) \<Rightarrow> length s,
      \<lambda>x. case x of Inl (Inl s) \<Rightarrow> 3 | Inl (Inr s) \<Rightarrow> 2 | Inr (Inl s) \<Rightarrow> 1 | Inr (Inr s) \<Rightarrow> 0]", goal_cases)
    case (3 s a x y xa xb ya xc xd yb)
    then have "length (snd (snd (gettoken yb))) < length ya" using peek_tokD [of yb ya] by simp
    moreover have "length ya \<le> length y" using 3 by (auto intro: backs_leD)
    moreover have "length y \<le> length s" using 3 parse_le(2) by blast
    ultimately show ?case by simp
  next
    case (5 s a x y xa xb ya)
    then have "length (snd (snd (gettoken ya))) < length y" using peek_tokD [of ya y] by simp
    moreover have "length y \<le> length s" using 5 parse_le(3) by blast
    ultimately show ?case by simp
  next
    case (6 s x xa y)
    then show ?case using peek_leD [of xa y s "''(''"] by (auto simp: le_less)
  next
    case (7 s x xa y)
    then show ?case using peek_tokD [of y s "''(''"] by simp
  qed simp_all
qed

declare parseline.simps [simp del] parsepipe.simps [simp del] parseexec.simps [simp del] parseblock.simps [simp del]

text \<open>The place of a pointer in the line, and \<open>nulterminate\<close> on the bytes of the line.\<close>

definition place :: "ptr \<Rightarrow> ptr \<Rightarrow> nat" where
  "place line p = length line - length p"

fun nulterminate :: "ptr \<Rightarrow> sh_cmd \<Rightarrow> buffer \<Rightarrow> buffer" where
  "nulterminate line (EXEC ws) b = fold (\<lambda>(q, eq) b. b(place line eq := 0)) ws b"
| "nulterminate line (REDIR c f m d) b = (nulterminate line c b)(place line (snd f) := 0)"
| "nulterminate line (PIPE l r) b = nulterminate line r (nulterminate line l b)"
| "nulterminate line (LIST l r) b = nulterminate line r (nulterminate line l b)"
| "nulterminate line (BACK c) b = nulterminate line c b"

definition line_bytes :: "ptr \<Rightarrow> buffer" where
  "line_bytes line i = (if i < length line then line ! i else 0)"

definition parsecmd :: "ptr \<Rightarrow> string + sh_cmd \<times> buffer" where
  "parsecmd line =
     pbind (parseline line) (\<lambda>(cmd, s).
     if snd (peek s []) \<noteq> [] then Inl ''syntax''
     else Inr (cmd, nulterminate line cmd (line_bytes line)))"

section \<open>Words\<close>

definition str_of :: "ptr \<times> ptr \<Rightarrow> cstring" where
  "str_of w = take (length (fst w) - length (snd w)) (fst w)"

definition word_char :: "u8 \<Rightarrow> bool" where
  "word_char c \<longleftrightarrow> c \<noteq> 0 \<and> \<not> blank c \<and> \<not> symbol c"

text \<open>A word of the line, which ends before a blank, a symbol or the end of the line.\<close>

definition word_ok :: "ptr \<Rightarrow> ptr \<times> ptr \<Rightarrow> bool" where
  "word_ok line w \<longleftrightarrow> (\<exists>x y. x \<noteq> [] \<and> list_all word_char x \<and> w = (x @ y, y) \<and> suffix (x @ y) line \<and> (y = [] \<or> \<not> word_char (hd y)))"

definition words_ok :: "ptr \<Rightarrow> sh_cmd \<Rightarrow> bool" where
  "words_ok line c \<longleftrightarrow> (\<forall>w\<in>set_cmd c. word_ok line w)"

lemma suffix_skip: "suffix s line \<Longrightarrow> suffix (skip s) line"
  unfolding skip_def by (meson suffix_dropWhile suffix_order.trans)

lemma suffix_rest: "suffix s line \<Longrightarrow> suffix (tl s) line"
  by (meson suffix_tl suffix_order.trans)

lemma suffix_token: "suffix q line \<Longrightarrow> suffix (snd (token q)) line"
  using suffix_dropWhile [of "\<lambda>c. \<not> blank c \<and> \<not> symbol c" q]
  by (auto simp: token_def Let_def intro: suffix_rest suffix_order.trans)

lemma suffix_gettoken: "suffix s line \<Longrightarrow> suffix (snd (snd (gettoken s))) line"
  by (simp add: gettoken_def Let_def case_prod_beta suffix_skip suffix_token)

lemma suffix_peek: "suffix s line \<Longrightarrow> suffix (snd (peek s toks)) line"
  by (simp add: peek_def Let_def suffix_skip)

lemma gettoken_word_ok:
  assumes "suffix s line" "0 \<notin> set line" "gettoken s = (97, w, s')"
  shows "word_ok line w"
proof -
  let ?P = "\<lambda>c. \<not> blank c \<and> \<not> symbol c"
  obtain c r where q: "skip s = c # r" using assms(3) by (cases "skip s") (auto simp: gettoken_def token_def deref_at_def)
  have su: "suffix (skip s) line" using suffix_skip [OF assms(1)] .
  then have nz: "0 \<notin> set (skip s)" using assms(2) by (meson set_mono_suffix subset_code(1))
  have c: "?P c" using skip_hd [OF q] assms(3) q nz by (auto simp: gettoken_def token_def deref_at_def Let_def symbols_cases str_def split: if_splits)
  then have w: "w = (skip s, dropWhile ?P (skip s))"
    using assms(3) q nz by (auto simp: gettoken_def token_def deref_at_def Let_def symbols_cases split: if_splits)
  let ?x = "takeWhile ?P (skip s)" and ?y = "dropWhile ?P (skip s)"
  have "?x \<noteq> []" using q c by simp
  moreover have "list_all word_char ?x" using nz
    by (auto simp: list_all_iff word_char_def dest: set_takeWhileD)
  moreover have "?y = [] \<or> \<not> word_char (hd ?y)" using hd_dropWhile [of ?P "skip s"] by (auto simp: word_char_def)
  ultimately show ?thesis unfolding word_ok_def using w su by - (rule exI [of _ ?x], rule exI [of _ ?y], simp)
qed

lemma words_ok_simps [simp]:
  "words_ok line (EXEC ws) \<longleftrightarrow> (\<forall>w\<in>set ws. word_ok line w)"
  "words_ok line (REDIR c w m d) \<longleftrightarrow> words_ok line c \<and> word_ok line w"
  "words_ok line (PIPE l r) \<longleftrightarrow> words_ok line l \<and> words_ok line r"
  "words_ok line (LIST l r) \<longleftrightarrow> words_ok line l \<and> words_ok line r"
  "words_ok line (BACK c) \<longleftrightarrow> words_ok line c"
  by (auto simp: words_ok_def)

lemma words_ok_add_arg: "words_ok line c \<Longrightarrow> word_ok line w \<Longrightarrow> words_ok line (add_arg c w)"
  by (induction c w rule: add_arg.induct) auto

text \<open>\<open>fine line (c, s)\<close>: the words of \<open>c\<close> are words of the line and \<open>s\<close> points into it.\<close>

definition fine :: "ptr \<Rightarrow> sh_cmd \<times> ptr \<Rightarrow> bool" where
  "fine line r \<longleftrightarrow> words_ok line (fst r) \<and> suffix (snd r) line"

lemma parseredirs_fine:
  "0 \<notin> set line \<Longrightarrow> suffix s line \<Longrightarrow> words_ok line cmd \<Longrightarrow> parseredirs cmd s = Inr r \<Longrightarrow> fine line r"
proof (induction cmd s rule: parseredirs.induct)
  case (1 cmd s)
  obtain p s1 where p: "peek s ''<>'' = (p, s1)" by fastforce
  obtain tok w s2 where t: "gettoken s1 = (tok, w, s2)" by (cases "gettoken s1")
  obtain tok' w' s3 where t': "gettoken s2 = (tok', w', s3)" by (cases "gettoken s2")
  have su: "suffix s1 line" "suffix s2 line" "suffix s3 line"
    using "1.prems"(2) suffix_peek [of s line "''<>''"] suffix_gettoken [of s1 line] suffix_gettoken [of s2 line] p t t' by simp_all
  show ?case
  proof (cases "p \<and> tok' = 97")
    case True
    let ?c = "if tok = 60 then REDIR cmd w' O_RDONLY 0 else REDIR cmd w' (or O_WRONLY O_CREATE) 1"
    have "word_ok line w'" using gettoken_word_ok [OF su(2) "1.prems"(1)] t' True by simp
    then have "words_ok line ?c" using "1.prems"(3) by simp
    moreover have "parseredirs ?c s3 = Inr r" using "1.prems"(4) p t t' True by (subst (asm) parseredirs.simps) simp
    ultimately show ?thesis
      using 1(1) [OF p [symmetric] refl _ t [symmetric] refl refl t' [symmetric] refl refl _ "1.prems"(1) su(3)] True by simp
  next
    case False
    then show ?thesis using "1.prems" p t t' su by (subst (asm) parseredirs.simps) (auto simp: fine_def split: if_splits)
  qed
qed

lemma exec_loop_fine:
  "0 \<notin> set line \<Longrightarrow> suffix s line \<Longrightarrow> words_ok line ret \<Longrightarrow> exec_loop argc ret s = Inr r \<Longrightarrow> fine line r"
proof (induction argc ret s rule: exec_loop.induct)
  case (1 argc ret s)
  obtain p s1 where p: "peek s ''|)&;'' = (p, s1)" by fastforce
  obtain tok w s2 where t: "gettoken s1 = (tok, w, s2)" by (cases "gettoken s1")
  have su: "suffix s1 line" "suffix s2 line"
    using "1.prems"(2) suffix_peek [of s line "''|)&;''"] suffix_gettoken [of s1 line] p t by simp_all
  show ?case
  proof (cases "\<not> p \<and> tok = 97 \<and> \<not> argc + 1 \<ge> MAXARGS")
    case True
    then obtain c s3 where r: "parseredirs (add_arg ret w) s2 = Inr (c, s3)" "exec_loop (argc + 1) c s3 = Inr r"
      using "1.prems"(4) p t by (subst (asm) exec_loop.simps) (auto simp: pbind_eq_Inr)
    have "word_ok line w" using gettoken_word_ok [OF su(1) "1.prems"(1)] t True by simp
    then have "fine line (c, s3)" using parseredirs_fine [OF "1.prems"(1) su(2) _ r(1)] words_ok_add_arg "1.prems"(3) by simp
    then show ?thesis using 1(1) [OF p [symmetric] refl _ t [symmetric] refl refl _ _ _ r(1) refl "1.prems"(1) _ _ r(2)] True by (simp add: fine_def)
  next
    case False
    then show ?thesis using "1.prems" p t su by (subst (asm) exec_loop.simps) (auto simp: fine_def split: if_splits)
  qed
qed

lemma backs_fine: "suffix s line \<Longrightarrow> words_ok line cmd \<Longrightarrow> fine line (backs cmd s)"
proof (induction cmd s rule: backs.induct)
  case (1 cmd s)
  obtain p s1 where p: "peek s ''&'' = (p, s1)" by fastforce
  have su: "suffix s1 line" "suffix (snd (snd (gettoken s1))) line"
    using "1.prems"(1) suffix_peek [of s line "''&''"] suffix_gettoken [of s1 line] p by simp_all
  then show ?case using 1(1) [OF p [symmetric] refl] "1.prems"(2) p by (subst backs.simps) (auto simp: fine_def)
qed

lemma parse_fine:
  assumes "0 \<notin> set line"
  shows "suffix s line \<Longrightarrow> parseline s = Inr r \<Longrightarrow> fine line r"
    and "suffix s line \<Longrightarrow> parsepipe s = Inr r \<Longrightarrow> fine line r"
    and "suffix s line \<Longrightarrow> parseexec s = Inr r \<Longrightarrow> fine line r"
    and "suffix s line \<Longrightarrow> parseblock s = Inr r \<Longrightarrow> fine line r"
proof (induction s and s and s and s arbitrary: r and r and r and r rule: parseline_parsepipe_parseexec_parseblock.induct)
  case (1 s)
  obtain c s1 where c: "parsepipe s = Inr (c, s1)" using "1.prems"(2) by (auto simp: parseline.simps [of s] pbind_eq_Inr)
  obtain c' s2 where b: "backs c s1 = (c', s2)" by (metis surj_pair)
  obtain p s3 where p: "peek s2 '';'' = (p, s3)" by (metis surj_pair)
  have f: "fine line (c', s2)" using 1(1) [OF "1.prems"(1) c] backs_fine [of s1 line c] b by (simp add: fine_def)
  then have s3: "suffix s3 line" using suffix_peek [of s2 line "'';''"] p by (simp add: fine_def)
  show ?case
  proof (cases p)
    case True
    obtain d s4 where d: "parseline (snd (snd (gettoken s3))) = Inr (d, s4)" "r = (LIST c' d, s4)"
      using "1.prems"(2) True c b p by (auto simp: parseline.simps [of s] pbind_eq_Inr)
    show ?thesis using 1(2) [OF c refl refl b [symmetric] refl p [symmetric] True suffix_gettoken [OF s3] d(1)] d(2) f by (simp add: fine_def)
  next
    case False
    then show ?thesis using "1.prems"(2) c b p f s3 by (auto simp: parseline.simps [of s] fine_def)
  qed
next
  case (2 s)
  obtain c s1 where c: "parseexec s = Inr (c, s1)" using "2.prems"(2) by (auto simp: parsepipe.simps [of s] pbind_eq_Inr)
  obtain p s3 where p: "peek s1 ''|'' = (p, s3)" by (metis surj_pair)
  have f: "fine line (c, s1)" using 2(1) [OF "2.prems"(1) c] .
  then have s3: "suffix s3 line" using suffix_peek [of s1 line "''|''"] p by (simp add: fine_def)
  show ?case
  proof (cases p)
    case True
    obtain d s4 where d: "parsepipe (snd (snd (gettoken s3))) = Inr (d, s4)" "r = (PIPE c d, s4)"
      using "2.prems"(2) True c p by (auto simp: parsepipe.simps [of s] pbind_eq_Inr)
    show ?thesis using 2(2) [OF c refl refl p [symmetric] True suffix_gettoken [OF s3] d(1)] d(2) f by (simp add: fine_def)
  next
    case False
    then show ?thesis using "2.prems"(2) c p f s3 by (auto simp: parsepipe.simps [of s] fine_def)
  qed
next
  case (3 s)
  obtain p s1 where p: "peek s ''('' = (p, s1)" by (metis surj_pair)
  have s1: "suffix s1 line" using suffix_peek [OF "3.prems"(1), of "''(''"] p by simp
  show ?case
  proof (cases p)
    case True
    then show ?thesis using 3(1) [OF refl p [symmetric] True s1] "3.prems"(2) p by (simp add: parseexec.simps [of s])
  next
    case False
    then obtain c s2 where c: "parseredirs (EXEC []) s1 = Inr (c, s2)" "exec_loop 0 c s2 = Inr r"
      using "3.prems"(2) p by (auto simp: parseexec.simps [of s] pbind_eq_Inr)
    show ?thesis using exec_loop_fine [OF assms _ _ c(2)] parseredirs_fine [OF assms s1 _ c(1)] by (simp add: fine_def)
  qed
next
  case (4 s)
  obtain p s1 where p: "peek s ''('' = (p, s1)" by (metis surj_pair)
  have s1: "suffix (snd (snd (gettoken s1))) line" using suffix_peek [OF "4.prems"(1), of "''(''"] suffix_gettoken p by fastforce
  have pt: p using "4.prems"(2) p by (auto simp: parseblock.simps [of s] split: if_splits)
  obtain c s2 where c: "parseline (snd (snd (gettoken s1))) = Inr (c, s2)"
    using "4.prems"(2) p pt by (auto simp: parseblock.simps [of s] pbind_eq_Inr)
  obtain p' s3 where p': "peek s2 '')'' = (p', s3)" by (metis surj_pair)
  have f: "fine line (c, s2)" using 4(1) [OF refl p [symmetric] _ s1 c] pt by simp
  then have "suffix (snd (snd (gettoken s3))) line" using suffix_peek [of s2 line "'')''"] suffix_gettoken p' by (fastforce simp: fine_def)
  moreover have "parseredirs c (snd (snd (gettoken s3))) = Inr r"
    using "4.prems"(2) p pt c p' by (auto simp: parseblock.simps [of s] split: if_splits)
  moreover have "words_ok line c" using f by (simp add: fine_def)
  ultimately show ?case using parseredirs_fine [OF assms] by blast
qed

text \<open>The bytes \<open>nulterminate\<close> clears are the ends of the words.\<close>

lemma nulterminate_eq:
  "nulterminate line c b i = (if \<exists>w\<in>set_cmd c. i = place line (snd w) then 0 else b i)"
proof (induction line c b rule: nulterminate.induct)
  case (1 line ws b)
  show ?case by (induction ws arbitrary: b) auto
qed auto

lemma word_ok_place:
  assumes "word_ok line w" "0 \<notin> set line"
  obtains x y z where "w = (x @ y, y)" "line = z @ x @ y" "place line (fst w) = length z" "place line (snd w) = length z + length x"
    "str_of w = x" "list_all word_char x" "y = [] \<or> \<not> word_char (hd y)" "x \<noteq> []"
proof -
  obtain x y z where "x \<noteq> []" "list_all word_char x" "w = (x @ y, y)" "line = z @ x @ y" "y = [] \<or> \<not> word_char (hd y)"
    using assms(1) by (auto simp: word_ok_def suffix_def)
  then show thesis using that [of x y z] by (simp add: place_def str_of_def)
qed

text \<open>A byte of a word is not the end of any word.\<close>

lemma word_end_not_inside:
  assumes "word_ok line w" "0 \<notin> set line" "i < length line" "word_char (line ! i)"
  shows "i \<noteq> place line (snd w)"
proof -
  obtain x y z where "line = z @ x @ y" "place line (snd w) = length z + length x" "y = [] \<or> \<not> word_char (hd y)"
    using word_ok_place [OF assms(1,2)] by metis
  then show ?thesis using assms(3,4) by (auto simp: nth_append hd_conv_nth)
qed

text \<open>
  When the shell accepts a line, \<open>nulterminate\<close> makes every word of the command a C string of its own and damages no other:
  the strings passed to \<open>exec\<close> and \<open>open\<close> are the words of the line, none of them empty or with a blank or symbol in it.
\<close>

theorem parsecmd_words:
  assumes "0 \<notin> set line" "parsecmd line = Inr (c, b)" "w \<in> set_cmd c"
  shows "cstr_at b (place line (fst w)) (length line + 1) = str_of w \<and> str_of w \<noteq> [] \<and> list_all word_char (str_of w)"
proof -
  obtain s where p: "parseline line = Inr (c, s)" "b = nulterminate line c (line_bytes line)"
    using assms(2) by (auto simp: parsecmd_def pbind_eq_Inr split: if_splits)
  then have ok: "\<forall>w\<in>set_cmd c. word_ok line w" using parse_fine(1) [OF assms(1) _ p(1)] by (simp add: fine_def words_ok_def)
  with assms(3) have wk: "word_ok line w" by blast
  obtain x y z where w: "line = z @ x @ y" "place line (fst w) = length z" "place line (snd w) = length z + length x"
    "str_of w = x" "list_all word_char x" "x \<noteq> []" using word_ok_place [OF wk assms(1)] by metis
  have "b (length z + k) = x ! k" if "k < length x" for k
  proof -
    have "line ! (length z + k) = x ! k" "length z + k < length line" using that w(1) by (simp_all add: nth_append)
    moreover have "word_char (x ! k)" using that w(5) by (simp add: list_all_length)
    ultimately show ?thesis using ok word_end_not_inside [OF _ assms(1), of _ "length z + k"]
      by (auto simp: p(2) nulterminate_eq line_bytes_def)
  qed
  moreover have "b (length z + length x) = 0" using assms(3) w(3) by (auto simp: p(2) nulterminate_eq)
  ultimately have "get_bytes b (length z) (length (x @ [0])) = x @ [0]"
    by (intro nth_equalityI) (auto simp: nth_append less_Suc_eq)
  moreover have "wf_cstr x" using w(5) by (auto simp: wf_cstr_def word_char_def list_all_iff)
  ultimately have "cstr_at b (length z) (length line + 1) = x" using w(1) by (intro cstr_atI) simp_all
  then show ?thesis using w by simp
qed

text \<open>The line \<open>cat<in|wc\<close>: three words, cut out by clearing the symbols after them.\<close>

lemma parse_example:
  "parseline (str ''cat<in|wc'') = Inr (PIPE (REDIR (EXEC [(str ''cat<in|wc'', str ''<in|wc'')]) (str ''in|wc'', str ''|wc'') O_RDONLY 0)
     (EXEC [(str ''wc'', [])]), [])"
  by code_simp

theorem parsecmd_words_witness:
  "\<exists>c b. parsecmd (str ''cat<in|wc'') = Inr (c, b) \<and> cstr_at b 0 10 = str ''cat''"
proof -
  let ?l = "str ''cat<in|wc''" and ?w = "(str ''cat<in|wc'', str ''<in|wc'')"
  have n: "0 \<notin> set ?l" by (simp add: str_def)
  have "snd (peek [] []) = []" by (simp add: peek_def)
  then obtain c b where p: "parsecmd ?l = Inr (c, b)" and w: "?w \<in> set_cmd c" by (simp add: parsecmd_def parse_example)
  have "place ?l (fst ?w) = 0" "length ?l + 1 = 10" "str_of ?w = str ''cat''" by (simp_all add: place_def str_of_def str_def)
  then show ?thesis using parsecmd_words [OF n p w] p by (metis (no_types))
qed

end
