(* ===== verification/ShellPrint.thy ===== *)
theory ShellPrint
  imports ShellParse
begin

text \<open>
  Every command the grammar of the shell can express is understood as it is written: a printer that puts
  parentheses where the levels of the grammar ask for them, and the proof that \<open>parsecmd\<close> reads back what it
  prints. The levels are 0 for \<open>parseexec\<close>, 1 for \<open>parsepipe\<close>, 2 for a command with \<open>&\<close>, 3 for \<open>parseline\<close>.
\<close>

section \<open>Printing\<close>

definition word_wf :: "cstring \<Rightarrow> bool" where
  "word_wf w \<longleftrightarrow> w \<noteq> [] \<and> list_all word_char w"

fun wf_cmd :: "cstring cmd \<Rightarrow> bool" where
  "wf_cmd (EXEC ws) \<longleftrightarrow> length ws < MAXARGS \<and> list_all word_wf ws"
| "wf_cmd (REDIR c f m d) \<longleftrightarrow> wf_cmd c \<and> word_wf f \<and> (m = O_RDONLY \<and> d = 0 \<or> m = or O_WRONLY O_CREATE \<and> d = 1)"
| "wf_cmd (PIPE l r) \<longleftrightarrow> wf_cmd l \<and> wf_cmd r"
| "wf_cmd (LIST l r) \<longleftrightarrow> wf_cmd l \<and> wf_cmd r"
| "wf_cmd (BACK c) \<longleftrightarrow> wf_cmd c"

definition show_words :: "cstring list \<Rightarrow> cstring" where
  "show_words ws = concat (map (\<lambda>w. 32 # w) ws)"

definition redir_sign :: "u32 \<Rightarrow> u8" where
  "redir_sign m = (if m = O_RDONLY then 60 else 62)"

definition paren :: "bool \<Rightarrow> cstring \<Rightarrow> cstring" where
  "paren b s = (if b then [32, 40] @ s @ [32, 41] else s)"

fun print_cmd :: "nat \<Rightarrow> cstring cmd \<Rightarrow> cstring" where
  "print_cmd k (EXEC ws) = show_words ws"
| "print_cmd k (REDIR c f m d) = print_cmd 0 c @ [32, redir_sign m, 32] @ f"
| "print_cmd k (PIPE l r) = paren (k < 1) (print_cmd 0 l @ [32, 124] @ print_cmd 1 r)"
| "print_cmd k (BACK c) = paren (k < 2) (print_cmd 2 c @ [32, 38])"
| "print_cmd k (LIST l r) = paren (k < 3) (print_cmd 2 l @ [32, 59] @ print_cmd 3 r)"

section \<open>Tokens of printed commands\<close>

text \<open>What follows a printed command: the end or a blank; and the next symbol is one of a given set.\<close>

definition sep :: "ptr \<Rightarrow> bool" where "sep s \<longleftrightarrow> s = [] \<or> hd s = 32"

definition next_in :: "u8 set \<Rightarrow> ptr \<Rightarrow> bool" where
  "next_in C s \<longleftrightarrow> sep s \<and> (skip s = [] \<or> hd (skip s) \<in> C)"

lemma blank_32 [simp]: "blank 32" by (simp add: blank_def whitespace_def)

lemma skip_32 [simp]: "skip (32 # s) = skip s" by (simp add: skip_def)

lemma skip_non [simp]: "\<not> blank c \<Longrightarrow> skip (c # s) = c # s" by (simp add: skip_def)

lemma not_blank [simp]: "\<not> blank 60" "\<not> blank 62" "\<not> blank 124" "\<not> blank 38" "\<not> blank 59" "\<not> blank 40" "\<not> blank 41"
  by (simp_all add: blank_def whitespace_def)

lemma sep_Cons [simp]: "sep (32 # s)" "sep []" by (simp_all add: sep_def)

lemma next_in_Cons [simp]: "\<not> blank c \<Longrightarrow> next_in C (32 # c # s) \<longleftrightarrow> c \<in> C"
  by (simp add: next_in_def)

lemma next_in_mono: "next_in C s \<Longrightarrow> C \<subseteq> D \<Longrightarrow> next_in D s"
  by (auto simp: next_in_def)

lemma peek_skip [simp]: "peek (skip s) toks = peek s toks"
  by (simp add: peek_def)

lemma gettoken_skip [simp]: "gettoken (skip s) = gettoken s"
  by (simp add: gettoken_def)

lemma peek_next_in:
  assumes "next_in C s" "C \<inter> set (str toks) = {}"
  shows "peek s toks = (False, skip s)"
  using assms by (cases "skip s") (auto simp: peek_def next_in_def deref_at_def)

lemma peek_sign: "\<not> blank c \<Longrightarrow> c \<noteq> 0 \<Longrightarrow> peek (32 # c # s) toks = (c \<in> set (str toks), c # s)"
  by (simp add: peek_def deref_at_def)

lemma peek_word:
  assumes "word_wf w" "set (str toks) \<subseteq> set symbols"
  shows "peek (32 # w @ s) toks = (False, w @ s)"
proof -
  obtain c r where "w = c # r" "word_char c" using assms(1) by (cases w) (auto simp: word_wf_def)
  then show ?thesis using assms(2) by (auto simp: peek_def deref_at_def word_char_def symbol_def)
qed

lemma gettoken_sign: "c \<in> {124, 40, 41, 59, 38, 60} \<Longrightarrow> gettoken (c # s) = (c, (c # s, s), skip s)"
  by (auto simp: gettoken_def token_def deref_at_def str_def)

lemma gettoken_out: "sep s \<Longrightarrow> gettoken (62 # s) = (62, (62 # s, s), skip s)"
  by (cases s) (auto simp: gettoken_def token_def deref_at_def str_def sep_def)

lemma gettoken_word:
  assumes "word_wf w" "sep s"
  shows "gettoken (w @ s) = (97, (w @ s, s), skip s)"
proof -
  obtain c r where c: "w = c # r" "word_char c" using assms(1) by (cases w) (auto simp: word_wf_def)
  have "dropWhile (\<lambda>c. \<not> blank c \<and> \<not> symbol c) (w @ s) = s"
    using assms by (subst dropWhile_append2) (auto simp: word_wf_def word_char_def list_all_iff sep_def dropWhile_eq_self_iff)
  then show ?thesis using c by (auto simp: gettoken_def token_def deref_at_def word_char_def symbols_cases)
qed

lemma str_of_word [simp]: "str_of (w @ s, s) = w"
  by (simp add: str_of_def)

section \<open>The parser on printed commands\<close>

lemma parse_skip [simp]:
  "parseredirs c (skip s) = parseredirs c s" "exec_loop n c (skip s) = exec_loop n c s" "backs c (skip s) = backs c s"
  "parseexec (skip s) = parseexec s" "parsepipe (skip s) = parsepipe s" "parseline (skip s) = parseline s"
proof -
  show "parseredirs c (skip s) = parseredirs c s" by (subst (1 2) parseredirs.simps) simp
  show "exec_loop n c (skip s) = exec_loop n c s" by (subst (1 2) exec_loop.simps) simp
  show "backs c (skip s) = backs c s" by (subst (1 2) backs.simps) simp
  show e: "parseexec (skip s) = parseexec s" by (subst (1 2) parseexec.simps) simp
  then show p: "parsepipe (skip s) = parsepipe s" by (subst (1 2) parsepipe.simps) simp
  then show "parseline (skip s) = parseline s" by (subst (1 2) parseline.simps) simp
qed

lemma redirs_done: "next_in C s \<Longrightarrow> C \<inter> {60, 62} = {} \<Longrightarrow> parseredirs c s = Inr (c, skip s)"
  by (subst parseredirs.simps) (simp add: peek_next_in str_def)

lemma redirs_step:
  assumes "word_wf f" "sep s" "m = O_RDONLY \<and> d = 0 \<or> m = or O_WRONLY O_CREATE \<and> d = 1"
  shows "parseredirs c (32 # redir_sign m # 32 # f @ s) = parseredirs (REDIR c (f @ s, s) m d) s"
proof -
  have ne: "or O_WRONLY O_CREATE \<noteq> O_RDONLY" by (simp add: O_WRONLY_def O_CREATE_def O_RDONLY_def)
  have w: "gettoken (skip (32 # f @ s)) = (97, (f @ s, s), skip s)" using gettoken_word [OF assms(1,2)] by simp
  show ?thesis
    using assms(3) ne w by (subst parseredirs.simps) (auto simp: redir_sign_def peek_sign gettoken_sign gettoken_out str_def)
qed

lemma redirs_word: "word_wf w \<Longrightarrow> parseredirs c (32 # w @ s) = Inr (c, w @ s)"
  by (subst parseredirs.simps) (simp add: peek_word symbols_def str_def)

abbreviation enders :: "u8 set" where "enders \<equiv> {124, 38, 59, 41}"

lemma exec_done:
  assumes "s = [] \<or> hd s \<in> enders"
  shows "exec_loop n c s = Inr (c, s)"
proof (cases s)
  case Nil
  then show ?thesis by (subst exec_loop.simps) (simp add: peek_def gettoken_def token_def deref_at_def)
next
  case (Cons a r)
  then show ?thesis using assms by (subst exec_loop.simps) (auto simp: peek_def deref_at_def str_def)
qed

lemma exec_word:
  assumes "word_wf w" "sep s" "n + 1 < MAXARGS"
  shows "exec_loop n c (w @ s) = pbind (parseredirs (add_arg c (w @ s, s)) s) (\<lambda>(c, s). exec_loop (n + 1) c s)"
proof -
  have "peek (w @ s) ''|)&;'' = (False, w @ s)" using peek_word [OF assms(1), of "''|)&;''" s] peek_skip [of "32 # w @ s"]
    by (simp add: peek_def symbols_def str_def)
  then show ?thesis using assms by (subst exec_loop.simps) (simp add: gettoken_word)
qed

lemma sep_words: "sep s \<Longrightarrow> sep (show_words ws @ s)"
  by (cases ws) (simp_all add: show_words_def)

lemma exec_words:
  assumes "list_all word_wf ws" "ws \<noteq> []" "sep s" "n + length ws < MAXARGS"
  shows "\<exists>vs. map str_of vs = ws \<and> exec_loop n (EXEC us) (show_words ws @ s) =
    pbind (parseredirs (EXEC (us @ vs)) s) (\<lambda>(c, s). exec_loop (n + length ws) c s)"
  using assms(1,2,4)
proof (induction ws arbitrary: n us)
  case (Cons w ws)
  let ?s = "show_words ws @ s"
  have step: "exec_loop n (EXEC us) (show_words (w # ws) @ s) =
      pbind (parseredirs (EXEC (us @ [(w @ ?s, ?s)])) ?s) (\<lambda>(c, s). exec_loop (n + 1) c s)"
    using exec_word [of w ?s n "EXEC us"] sep_words [OF assms(3)] Cons.prems parse_skip(2) [of n _ "32 # w @ ?s"]
      skip_non [of "hd w" "tl w @ ?s"] by (cases w) (auto simp: show_words_def word_wf_def word_char_def)
  show ?case
  proof (cases ws)
    case Nil
    then show ?thesis using step by (intro exI [of _ "[(w @ s, s)]"]) (simp add: show_words_def)
  next
    case (Cons v vs')
    let ?r = "show_words vs' @ s"
    have v: "word_wf v" "?s = 32 # v @ ?r" using Cons.prems(1) Cons by (simp_all add: show_words_def)
    then have "exec_loop n (EXEC us) (show_words (w # ws) @ s) = exec_loop (n + 1) (EXEC (us @ [(w @ ?s, ?s)])) (v @ ?r)"
      using step redirs_word [OF v(1)] by simp
    also have "\<dots> = exec_loop (n + 1) (EXEC (us @ [(w @ ?s, ?s)])) ?s"
      using parse_skip(2) [of "n + 1" _ ?s] v skip_non [of "hd v" "tl v @ ?r"] by (cases v) (auto simp: word_wf_def word_char_def)
    finally have e: "exec_loop n (EXEC us) (show_words (w # ws) @ s) = exec_loop (n + 1) (EXEC (us @ [(w @ ?s, ?s)])) ?s" .
    have "list_all word_wf ws" "ws \<noteq> []" "n + 1 + length ws < MAXARGS" using Cons.prems Cons by simp_all
    from Cons.IH [OF this, of "us @ [(w @ ?s, ?s)]"] obtain xs where "map str_of xs = ws" "exec_loop (n + 1) (EXEC (us @ [(w @ ?s, ?s)])) ?s =
        pbind (parseredirs (EXEC ((us @ [(w @ ?s, ?s)]) @ xs)) s) (\<lambda>(c, s). exec_loop (n + 1 + length ws) c s)"
      by blast
    then show ?thesis using e by (intro exI [of _ "(w @ ?s, ?s) # xs"]) simp
  qed
qed simp

text \<open>
  A printed command followed by \<open>s\<close> is read by the function of its level. At level 0 redirections may follow.
\<close>

definition reads0 :: "cstring cmd \<Rightarrow> bool" where
  "reads0 c \<longleftrightarrow> (\<forall>s. next_in (enders \<union> {60, 62}) s \<longrightarrow> (\<exists>d. map_cmd str_of d = c \<and>
     (\<forall>d' s'. parseredirs d s = Inr (d', s') \<and> (s' = [] \<or> hd s' \<in> enders) \<longrightarrow> parseexec (print_cmd 0 c @ s) = Inr (d', s'))))"

definition reads1 :: "cstring cmd \<Rightarrow> bool" where
  "reads1 c \<longleftrightarrow> (\<forall>s. next_in {38, 59, 41} s \<longrightarrow> (\<exists>d. map_cmd str_of d = c \<and> parsepipe (print_cmd 1 c @ s) = Inr (d, skip s)))"

definition pipe_backs :: "ptr \<Rightarrow> string + sh_cmd \<times> ptr" where
  "pipe_backs s = pbind (parsepipe s) (\<lambda>(c, s). Inr (backs c s))"

definition reads2 :: "cstring cmd \<Rightarrow> bool" where
  "reads2 c \<longleftrightarrow> (\<forall>s. next_in {38, 59, 41} s \<longrightarrow> (\<exists>d. map_cmd str_of d = c \<and> pipe_backs (print_cmd 2 c @ s) = Inr (backs d s)))"

definition reads3 :: "cstring cmd \<Rightarrow> bool" where
  "reads3 c \<longleftrightarrow> (\<forall>s. next_in {41} s \<longrightarrow> (\<exists>d. map_cmd str_of d = c \<and> parseline (print_cmd 3 c @ s) = Inr (d, skip s)))"

lemma parseline_backs:
  "parseline s = pbind (pipe_backs s) (\<lambda>(cmd, s).
     let (p, s) = peek s '';'' in
     if p then pbind (parseline (snd (snd (gettoken s)))) (\<lambda>(r, s). Inr (LIST cmd r, s)) else Inr (cmd, s))"
  unfolding parseline.simps [of s] pipe_backs_def by (cases "parsepipe s") (auto split: prod.splits)

lemma backs_done: "next_in C s \<Longrightarrow> 38 \<notin> C \<Longrightarrow> backs c s = (c, skip s)"
  by (subst backs.simps) (simp add: peek_next_in str_def)

lemma backs_step: "backs c (32 # 38 # s) = backs (BACK c) s"
  by (subst backs.simps) (simp add: peek_sign gettoken_sign str_def)

lemma reads01:
  assumes "reads0 c" "print_cmd 1 c = print_cmd 0 c"
  shows "reads1 c"
  unfolding reads1_def
proof (intro allI impI)
  fix s assume s: "next_in {38, 59, 41} s"
  then have "next_in (enders \<union> {60, 62}) s" by (rule next_in_mono) auto
  with assms(1) obtain d where d: "map_cmd str_of d = c"
    "\<And>d' s'. parseredirs d s = Inr (d', s') \<Longrightarrow> s' = [] \<or> hd s' \<in> enders \<Longrightarrow> parseexec (print_cmd 0 c @ s) = Inr (d', s')"
    unfolding reads0_def by meson
  have "parseexec (print_cmd 0 c @ s) = Inr (d, skip s)"
    using s by (intro d(2) redirs_done [OF s]) (auto simp: next_in_def)
  then show "\<exists>d. map_cmd str_of d = c \<and> parsepipe (print_cmd 1 c @ s) = Inr (d, skip s)"
    using d(1) assms(2) peek_next_in [OF s, of "''|''"] by (subst parsepipe.simps) (auto simp: str_def)
qed

lemma reads12:
  assumes "reads1 c" "print_cmd 2 c = print_cmd 1 c"
  shows "reads2 c"
  using assms unfolding reads1_def reads2_def pipe_backs_def by fastforce

lemma reads23:
  assumes "reads2 c" "print_cmd 3 c = print_cmd 2 c"
  shows "reads3 c"
  unfolding reads3_def
proof (intro allI impI)
  fix s assume s: "next_in {41} s"
  then have "next_in {38, 59, 41} s" by (rule next_in_mono) auto
  with assms(1) obtain d where "map_cmd str_of d = c" "pipe_backs (print_cmd 2 c @ s) = Inr (backs d s)" unfolding reads2_def by blast
  then show "\<exists>d. map_cmd str_of d = c \<and> parseline (print_cmd 3 c @ s) = Inr (d, skip s)"
    using assms(2) backs_done [OF s] peek_next_in [OF s, of "'';''"] by (auto simp: parseline_backs str_def)
qed

lemma reads30:
  assumes "reads3 c" "print_cmd 0 c = [32, 40] @ print_cmd 3 c @ [32, 41]"
  shows "reads0 c"
  unfolding reads0_def
proof (intro allI impI)
  fix s assume s: "next_in (enders \<union> {60, 62}) s"
  have "next_in {41} (32 # 41 # s)" by simp
  with assms(1) obtain d where d: "map_cmd str_of d = c" "parseline (print_cmd 3 c @ 32 # 41 # s) = Inr (d, skip (32 # 41 # s))"
    unfolding reads3_def by blast
  have o: "peek (40 # r) ''('' = (True, 40 # r)" for r by (simp add: peek_def deref_at_def str_def)
  have cl: "peek (41 # s) '')'' = (True, 41 # s)" by (simp add: peek_def deref_at_def str_def)
  have "parseblock (40 # print_cmd 3 c @ 32 # 41 # s) = parseredirs d s"
    using d(2) by (subst parseblock.simps) (simp add: o cl gettoken_sign)
  then have "parseexec (print_cmd 0 c @ s) = parseredirs d s"
    using assms(2) by (subst parseexec.simps) (simp add: peek_sign str_def)
  then show "\<exists>d. map_cmd str_of d = c \<and> (\<forall>d' s'. parseredirs d s = Inr (d', s') \<and> (s' = [] \<or> hd s' \<in> enders) \<longrightarrow> parseexec (print_cmd 0 c @ s) = Inr (d', s'))"
    using d(1) by auto
qed

lemma skip_word: "word_wf w \<Longrightarrow> skip (w @ x) = w @ x"
  by (cases w) (auto simp: word_wf_def word_char_def)

lemma parseexec_words:
  assumes "list_all word_wf ws" "ws \<noteq> []"
  shows "parseexec (show_words ws @ s) = exec_loop 0 (EXEC []) (show_words ws @ s)"
proof -
  obtain w r where Cons: "ws = w # r" using assms(2) by (cases ws) auto
  have w: "word_wf w" and ws: "show_words ws @ s = 32 # w @ show_words r @ s" using assms Cons by (simp_all add: show_words_def)
  have "peek (show_words ws @ s) ''('' = (False, w @ show_words r @ s)"
    using peek_word [OF w, of "''(''" "show_words r @ s"] ws by (simp add: symbols_def str_def)
  moreover have "parseredirs (EXEC []) (w @ show_words r @ s) = Inr (EXEC [], w @ show_words r @ s)"
    using redirs_word [OF w] parse_skip(1) [of "EXEC []" "32 # w @ show_words r @ s"] skip_word [OF w] by simp
  moreover have "exec_loop 0 (EXEC []) (w @ show_words r @ s) = exec_loop 0 (EXEC []) (show_words ws @ s)"
    using parse_skip(2) [of 0 "EXEC []" "32 # w @ show_words r @ s"] ws skip_word [OF w] by simp
  ultimately show ?thesis by (subst parseexec.simps) simp
qed

lemma reads_EXEC:
  assumes "wf_cmd (EXEC ws)"
  shows "reads0 (EXEC ws)"
  unfolding reads0_def
proof (intro allI impI)
  fix s assume s: "next_in (enders \<union> {60, 62}) s"
  show "\<exists>d. map_cmd str_of d = EXEC ws \<and> (\<forall>d' s'. parseredirs d s = Inr (d', s') \<and> (s' = [] \<or> hd s' \<in> enders) \<longrightarrow>
      parseexec (print_cmd 0 (EXEC ws) @ s) = Inr (d', s'))"
  proof (cases ws)
    case Nil
    have "peek s ''('' = (False, skip s)" using s by (rule peek_next_in) (auto simp: str_def)
    then have "parseexec s = pbind (parseredirs (EXEC []) s) (\<lambda>(c, s). exec_loop 0 c s)" by (subst parseexec.simps) simp
    then show ?thesis using Nil by (intro exI [of _ "EXEC []"]) (simp add: show_words_def exec_done)
  next
    case (Cons w r)
    have w: "word_wf w" "list_all word_wf ws" "length ws < MAXARGS" using assms Cons by simp_all
    note e = parseexec_words [OF w(2), of s]
    have "ws \<noteq> []" "sep s" "0 + length ws < MAXARGS" using s w(3) Cons by (simp_all add: next_in_def)
    from exec_words [OF w(2) this, of "[]"] obtain vs where "map str_of vs = ws"
      "exec_loop 0 (EXEC []) (show_words ws @ s) = pbind (parseredirs (EXEC ([] @ vs)) s) (\<lambda>(c, s). exec_loop (0 + length ws) c s)" by blast
    then show ?thesis using e Cons by (intro exI [of _ "EXEC vs"]) (simp add: exec_done)
  qed
qed

lemma reads_REDIR:
  assumes "reads0 c" "wf_cmd (REDIR c f m d)"
  shows "reads0 (REDIR c f m d)"
  unfolding reads0_def
proof (intro allI impI)
  fix s assume s: "next_in (enders \<union> {60, 62}) s"
  let ?s = "32 # redir_sign m # 32 # f @ s"
  have "next_in (enders \<union> {60, 62}) ?s" by (auto simp: redir_sign_def)
  with assms(1) obtain e where e: "map_cmd str_of e = c"
    "\<And>d' s'. parseredirs e ?s = Inr (d', s') \<Longrightarrow> s' = [] \<or> hd s' \<in> enders \<Longrightarrow> parseexec (print_cmd 0 c @ ?s) = Inr (d', s')"
    unfolding reads0_def by meson
  have "parseredirs e ?s = parseredirs (REDIR e (f @ s, s) m d) s"
    using assms(2) s by (intro redirs_step) (auto simp: next_in_def)
  then show "\<exists>d''. map_cmd str_of d'' = REDIR c f m d \<and> (\<forall>d' s'. parseredirs d'' s = Inr (d', s') \<and> (s' = [] \<or> hd s' \<in> enders) \<longrightarrow>
      parseexec (print_cmd 0 (REDIR c f m d) @ s) = Inr (d', s'))"
    using e by (intro exI [of _ "REDIR e (f @ s, s) m d"]) auto
qed

lemma reads0_plain:
  assumes "reads0 c" "next_in enders s"
  shows "\<exists>d. map_cmd str_of d = c \<and> parseexec (print_cmd 0 c @ s) = Inr (d, skip s)"
proof -
  have "next_in (enders \<union> {60, 62}) s" using assms(2) by (rule next_in_mono) auto
  with assms(1) obtain d where "map_cmd str_of d = c"
    "\<And>d' s'. parseredirs d s = Inr (d', s') \<Longrightarrow> s' = [] \<or> hd s' \<in> enders \<Longrightarrow> parseexec (print_cmd 0 c @ s) = Inr (d', s')"
    unfolding reads0_def by meson
  moreover have "parseredirs d s = Inr (d, skip s)" by (rule redirs_done [OF assms(2)]) auto
  ultimately show ?thesis using assms(2) by (auto simp: next_in_def)
qed

lemma reads_PIPE:
  assumes "reads0 l" "reads1 r"
  shows "reads1 (PIPE l r)"
  unfolding reads1_def
proof (intro allI impI)
  fix s assume s: "next_in {38, 59, 41} s"
  let ?s = "32 # 124 # print_cmd 1 r @ s"
  obtain d where d: "map_cmd str_of d = l" "parseexec (print_cmd 0 l @ ?s) = Inr (d, skip ?s)" using reads0_plain [OF assms(1), of ?s] by auto
  obtain e where e: "map_cmd str_of e = r" "parsepipe (print_cmd 1 r @ s) = Inr (e, skip s)" using assms(2) s unfolding reads1_def by blast
  have "peek (124 # x) ''|'' = (True, 124 # x)" for x by (simp add: peek_def deref_at_def str_def)
  then have "parsepipe (print_cmd 1 (PIPE l r) @ s) = Inr (PIPE d e, skip s)"
    using d(2) e(2) by (subst parsepipe.simps) (simp add: paren_def gettoken_sign)
  then show "\<exists>d. map_cmd str_of d = PIPE l r \<and> parsepipe (print_cmd 1 (PIPE l r) @ s) = Inr (d, skip s)"
    using d(1) e(1) by (intro exI [of _ "PIPE d e"]) simp
qed

lemma reads_BACK:
  assumes "reads2 c"
  shows "reads2 (BACK c)"
  unfolding reads2_def
proof (intro allI impI)
  fix s assume "next_in {38, 59, 41} s"
  have "next_in {38, 59, 41} (32 # 38 # s)" by simp
  with assms obtain d where "map_cmd str_of d = c" "pipe_backs (print_cmd 2 c @ 32 # 38 # s) = Inr (backs d (32 # 38 # s))"
    unfolding reads2_def by blast
  then show "\<exists>d. map_cmd str_of d = BACK c \<and> pipe_backs (print_cmd 2 (BACK c) @ s) = Inr (backs d s)"
    by (intro exI [of _ "BACK d"]) (simp add: paren_def backs_step)
qed

lemma reads_LIST:
  assumes "reads2 l" "reads3 r"
  shows "reads3 (LIST l r)"
  unfolding reads3_def
proof (intro allI impI)
  fix s assume s: "next_in {41} s"
  let ?s = "32 # 59 # print_cmd 3 r @ s"
  have n: "next_in {59} ?s" "next_in {38, 59, 41} ?s" by simp_all
  obtain d where d: "map_cmd str_of d = l" "pipe_backs (print_cmd 2 l @ ?s) = Inr (backs d ?s)" using assms(1) n(2) unfolding reads2_def by blast
  obtain e where e: "map_cmd str_of e = r" "parseline (print_cmd 3 r @ s) = Inr (e, skip s)" using assms(2) s unfolding reads3_def by blast
  have "peek (59 # x) '';'' = (True, 59 # x)" for x by (simp add: peek_def deref_at_def str_def)
  then have "parseline (print_cmd 3 (LIST l r) @ s) = Inr (LIST d e, skip s)"
    using d(2) e(2) backs_done [OF n(1)] by (simp add: parseline_backs [of "print_cmd 2 l @ ?s"] paren_def gettoken_sign)
  then show "\<exists>d. map_cmd str_of d = LIST l r \<and> parseline (print_cmd 3 (LIST l r) @ s) = Inr (d, skip s)"
    using d(1) e(1) by (intro exI [of _ "LIST d e"]) simp
qed

lemma reads_all: "wf_cmd c \<Longrightarrow> reads0 c \<and> reads1 c \<and> reads2 c \<and> reads3 c"
proof (induction c)
  case (EXEC ws)
  then have "reads0 (EXEC ws)" by (rule reads_EXEC)
  then show ?case using reads01 reads12 reads23 by simp
next
  case (REDIR c f m d)
  then have "reads0 (REDIR c f m d)" by (intro reads_REDIR) auto
  then show ?case using reads01 reads12 reads23 by simp
next
  case (PIPE l r)
  then have "reads1 (PIPE l r)" by (intro reads_PIPE) auto
  then have "reads2 (PIPE l r)" "reads3 (PIPE l r)" using reads12 reads23 by (simp_all add: paren_def)
  then show ?case using \<open>reads1 (PIPE l r)\<close> reads30 by (simp add: paren_def)
next
  case (LIST l r)
  then have "reads3 (LIST l r)" by (intro reads_LIST) auto
  then have "reads0 (LIST l r)" using reads30 by (simp add: paren_def)
  then show ?case using \<open>reads3 (LIST l r)\<close> reads01 reads12 by (simp add: paren_def)
next
  case (BACK c)
  then have "reads2 (BACK c)" by (intro reads_BACK) auto
  then have "reads3 (BACK c)" using reads23 by (simp add: paren_def)
  then show ?case using \<open>reads2 (BACK c)\<close> reads30 [of "BACK c"] reads01 [of "BACK c"] by (simp add: paren_def)
qed

text \<open>
  What the printer writes the shell reads back: the command with the same words, redirections, pipes, lists and
  background marks in the same places.
\<close>

theorem parsecmd_print_roundtrip:
  assumes "wf_cmd c"
  shows "\<exists>d b. parsecmd (print_cmd 3 c) = Inr (d, b) \<and> map_cmd str_of d = c"
proof -
  have "next_in {41} []" by (simp add: next_in_def)
  then obtain d where "map_cmd str_of d = c" "parseline (print_cmd 3 c) = Inr (d, [])"
    using reads_all [OF assms] unfolding reads3_def by fastforce
  then show ?thesis by (auto simp: parsecmd_def peek_def)
qed


theorem parsecmd_print_roundtrip_witness:
  "\<exists>d b. parsecmd (print_cmd 3 (LIST (BACK (EXEC [str ''a''])) (PIPE (EXEC [str ''b'', str ''c'']) (REDIR (LIST (EXEC [str ''d'']) (EXEC [])) (str ''f'') O_RDONLY 0)))) = Inr (d, b) \<and>
     map_cmd str_of d = LIST (BACK (EXEC [str ''a''])) (PIPE (EXEC [str ''b'', str ''c'']) (REDIR (LIST (EXEC [str ''d'']) (EXEC [])) (str ''f'') O_RDONLY 0))"
  by (rule parsecmd_print_roundtrip)
    (simp add: MAXARGS_def word_wf_def word_char_def blank_def symbol_def whitespace_def symbols_def str_def)


end
