(* ===== verification/UserSys.thy ===== *)
theory UserSys
  imports SysFile
begin

text \<open>
  User programs as the calls they make. A program run against a list of replies of the kernel gives the calls it makes, in
  order, and what became of it: a value with the replies that are left, the end of the process by \<open>exit\<close>, a
  wait for the next reply, or a crash by an access outside of the program's objects. \<open>fork\<close> has one reply
  in each process: a run with the reply 0 is that of the child. The loops of the programs make a call in each
  round, so a run over a finite list of replies ends; \<open>uloop\<close> is such a loop, with the outcome \<open>Loops\<close> for a
  round without a call, which the rule \<open>uloop_unfold\<close> excludes.

  The calls of the library \<open>ulib.c\<close> that programs use to read and print stand here too.
\<close>

section \<open>Calls and runs\<close>

datatype call =
    Fork | Fork2 cstring | Wait | Sleep int | PipeCall | Read int nat | Write int "u8 list" | Close int | Kill int
  | ExecCall cstring "cstring list" | Exec2 cstring "cstring list" u32 | Open cstring u32 | Mknod cstring int int
  | Unlink cstring | Fstat int | Link cstring cstring | Mkdir cstring | Chdir cstring | Dup int
  | Getadmin cstring | Setmemorylimit u32 u32 | Printproclist
  | Inituser | Usercheck cstring cstring | Useradd cstring cstring | Userdel cstring | Chmod cstring u32 | Whoami

record reply =
  rval :: int
  rdata :: "u8 list"
  rfds :: "int \<times> int"

datatype 'a out = Val 'a "reply list" | Exited | Blocked | Crashed | Loops

type_synonym 'a prog = "reply list \<Rightarrow> call list \<times> 'a out"

definition uret :: "'a \<Rightarrow> 'a prog" where
  "uret a rs = ([], Val a rs)"

definition uexit :: "'a prog" where
  "uexit rs = ([], Exited)"

definition ucrash :: "'a prog" where
  "ucrash rs = ([], Crashed)"

definition usys :: "call \<Rightarrow> reply prog" where
  "usys c rs = ([c], case rs of [] \<Rightarrow> Blocked | r # rs \<Rightarrow> Val r rs)"

definition ubind :: "'a prog \<Rightarrow> ('a \<Rightarrow> 'b prog) \<Rightarrow> 'b prog" where
  "ubind m f rs =
     (case m rs of (cs, v) \<Rightarrow>
        (case v of Val a rs \<Rightarrow> (case f a rs of (cs', v) \<Rightarrow> (cs @ cs', v))
         | Exited \<Rightarrow> (cs, Exited) | Blocked \<Rightarrow> (cs, Blocked) | Crashed \<Rightarrow> (cs, Crashed) | Loops \<Rightarrow> (cs, Loops)))"

lemma ubind_cong [fundef_cong]:
  "m rs = m' rs' \<Longrightarrow> (\<And>a rs1. snd (m' rs') = Val a rs1 \<Longrightarrow> f a rs1 = f' a rs1) \<Longrightarrow> ubind m f rs = ubind m' f' rs'"
  by (auto simp: ubind_def split: prod.splits out.splits)

lemma uret_bind [simp]: "ubind (uret a) f rs = f a rs" "ubind uexit f rs = ([], Exited)" "ubind ucrash f rs = ([], Crashed)"
  by (simp_all add: ubind_def uret_def uexit_def ucrash_def split: prod.splits)

lemma usys_bind [simp]:
  "ubind (usys c) f [] = ([c], Blocked)" "ubind (usys c) f (r # rs) = (c # fst (f r rs), snd (f r rs))"
  by (simp_all add: ubind_def usys_def split: prod.splits)

lemma ubind_run: "m rs = (cs, Val a rs1) \<Longrightarrow> ubind m f rs = (cs @ fst (f a rs1), snd (f a rs1))"
  by (simp add: ubind_def case_prod_beta)

lemma ubind_Val: "snd (ubind m f rs) = Val b rs2 \<longleftrightarrow> (\<exists>a rs1. snd (m rs) = Val a rs1 \<and> snd (f a rs1) = Val b rs2)"
  by (auto simp: ubind_def split: prod.splits out.splits)

lemma ubind_assoc: "ubind (ubind m f) g rs = ubind m (\<lambda>a. ubind (f a) g) rs"
  by (auto simp: ubind_def split: prod.splits out.splits)

lemma usys_less: "snd (usys c rs) = Val r rs1 \<Longrightarrow> length rs1 < length rs"
  by (auto simp: usys_def split: list.splits)

text \<open>Every call takes one reply: the calls of a run that goes on match the replies it used.\<close>

definition tame :: "'a prog \<Rightarrow> bool" where
  "tame m \<longleftrightarrow> (\<forall>rs cs a rs'. m rs = (cs, Val a rs') \<longrightarrow> (\<exists>pre. rs = pre @ rs' \<and> length pre = length cs))"

text \<open>Calls of a run that goes on are at least one.\<close>

definition busy :: "'a prog \<Rightarrow> bool" where
  "busy m \<longleftrightarrow> (\<forall>rs cs a rs'. m rs = (cs, Val a rs') \<longrightarrow> cs \<noteq> [])"

lemma tameD: "tame m \<Longrightarrow> snd (m rs) = Val a rs' \<Longrightarrow> length rs' \<le> length rs"
  by (cases "m rs") (fastforce simp: tame_def)

lemma busyD: "tame m \<Longrightarrow> busy m \<Longrightarrow> snd (m rs) = Val a rs' \<Longrightarrow> length rs' < length rs"
  by (cases "m rs") (fastforce simp: tame_def busy_def)

lemma ubind_eq_Val:
  "ubind m f rs = (cs, Val b rs2) \<longleftrightarrow> (\<exists>cs1 a rs1 cs2. m rs = (cs1, Val a rs1) \<and> f a rs1 = (cs2, Val b rs2) \<and> cs = cs1 @ cs2)"
  by (auto simp: ubind_def split: prod.splits out.splits)

lemma tame_base [simp]: "tame (uret a)" "tame uexit" "tame ucrash" "tame (usys c)"
  by (auto simp: tame_def uret_def uexit_def ucrash_def usys_def split: list.splits)

lemma tame_bind [simp]:
  assumes "tame m" "\<And>a. tame (f a)"
  shows "tame (ubind m f)"
  unfolding tame_def
proof (intro allI impI)
  fix rs cs b rs2 assume "ubind m f rs = (cs, Val b rs2)"
  then obtain cs1 a rs1 cs2 where "m rs = (cs1, Val a rs1)" "f a rs1 = (cs2, Val b rs2)" "cs = cs1 @ cs2" unfolding ubind_eq_Val by blast
  moreover from this obtain p q where "rs = p @ rs1" "length p = length cs1" "rs1 = q @ rs2" "length q = length cs2"
    using assms unfolding tame_def by meson
  ultimately show "\<exists>pre. rs = pre @ rs2 \<and> length pre = length cs" by (intro exI [of _ "p @ q"]) simp
qed

lemma tame_if [simp]: "tame m \<Longrightarrow> tame m' \<Longrightarrow> tame (if b then m else m')"
  by simp

lemma busy_base [simp]: "busy (usys c)" "busy uexit" "busy ucrash"
  by (auto simp: busy_def usys_def uexit_def ucrash_def split: list.splits)

lemma busy_bind1: "busy m \<Longrightarrow> busy (ubind m f)"
  unfolding busy_def ubind_eq_Val by blast

lemma busy_bind2: "(\<And>a. busy (f a)) \<Longrightarrow> busy (ubind m f)"
  unfolding busy_def ubind_eq_Val by blast

section \<open>Loops\<close>

text \<open>A round ends with the state of the next one, \<open>Inl\<close>, or with the result of the loop, \<open>Inr\<close>.\<close>

function uloop :: "('s \<Rightarrow> ('s + 'r) prog) \<Rightarrow> 's \<Rightarrow> 'r prog" where
  "uloop body s rs =
     (case body s rs of (cs, v) \<Rightarrow>
        (case v of
           Val x rs' \<Rightarrow>
             (case x of Inr r \<Rightarrow> (cs, Val r rs')
              | Inl s' \<Rightarrow> if length rs' < length rs then (case uloop body s' rs' of (cs', v) \<Rightarrow> (cs @ cs', v)) else (cs, Loops))
         | Exited \<Rightarrow> (cs, Exited) | Blocked \<Rightarrow> (cs, Blocked) | Crashed \<Rightarrow> (cs, Crashed) | Loops \<Rightarrow> (cs, Loops)))"
  by pat_completeness auto
termination
  by (relation "measure (\<lambda>(_, _, rs). length rs)") auto

declare uloop.simps [simp del]

lemma uloop_unfold:
  assumes "tame (body s)" "busy (body s)"
  shows "uloop body s rs = ubind (body s) (\<lambda>x. case x of Inl s' \<Rightarrow> uloop body s' | Inr r \<Rightarrow> uret r) rs"
proof -
  have "length rs' < length rs" if "body s rs = (cs, Val x rs')" for cs x rs'
    using busyD [OF assms, of rs x rs'] that by simp
  then show ?thesis by (subst uloop.simps) (auto simp: ubind_def uret_def split: prod.splits out.splits sum.splits)
qed

lemma uloop_induct:
  assumes "\<And>s rs. (\<And>cs s' rs'. body s rs = (cs, Val (Inl s') rs') \<Longrightarrow> length rs' < length rs \<Longrightarrow> P s' rs') \<Longrightarrow> P s rs"
  shows "P s rs"
  by (induction "length rs" arbitrary: s rs rule: less_induct) (rule assms, auto)

lemma uloop_again:
  "body s rs = (cs, Val (Inl s') rs') \<Longrightarrow> length rs' < length rs \<Longrightarrow>
     uloop body s rs = (cs @ fst (uloop body s' rs'), snd (uloop body s' rs'))"
  by (subst uloop.simps) (simp add: case_prod_beta)

lemma uloop_stop:
  "body s rs = (cs, v) \<Longrightarrow> (\<And>s' rs'. v \<noteq> Val (Inl s') rs') \<Longrightarrow> fst (uloop body s rs) = cs"
  "body s rs = (cs, Val (Inr r) rs') \<Longrightarrow> uloop body s rs = (cs, Val r rs')"
  by (subst uloop.simps; auto split: out.splits sum.splits)+

lemma uloop_tame [simp]:
  assumes "\<And>s. tame (body s)"
  shows "tame (uloop body s)"
proof -
  have "\<exists>pre. rs = pre @ rs' \<and> length pre = length cs" if "uloop body s rs = (cs, Val r rs')" for rs cs r rs'
    using that
  proof (induction s rs arbitrary: cs rule: uloop_induct [where body = body])
    case (1 s rs)
    obtain cs1 x rs1 where b: "body s rs = (cs1, Val x rs1)"
      using "1.prems" by (subst (asm) uloop.simps) (auto split: out.splits prod.splits)
    then obtain p where p: "rs = p @ rs1" "length p = length cs1" using assms unfolding tame_def by meson
    show ?case
    proof (cases x)
      case (Inl s')
      have l: "length rs1 < length rs" using "1.prems" b Inl by (subst (asm) uloop.simps) (auto split: if_splits)
      note u = uloop_again [of body, OF b [unfolded Inl] l]
      obtain cs2 where c: "uloop body s' rs1 = (cs2, Val r rs')" "cs = cs1 @ cs2" using "1.prems" u by (cases "uloop body s' rs1") auto
      from "1.IH" [OF b [unfolded Inl] l c(1)] obtain q where "rs1 = q @ rs'" "length q = length cs2" by blast
      then show ?thesis using p c(2) by (intro exI [of _ "p @ q"]) simp
    next
      case (Inr r')
      then show ?thesis using "1.prems" uloop_stop(2) [of body, OF b [unfolded Inr]] p by auto
    qed
  qed
  then show ?thesis by (auto simp: tame_def)
qed

lemma uloop_calls:
  assumes "\<And>s rs. list_all P (fst (body s rs))"
  shows "list_all P (fst (uloop body s rs))"
proof (induction s rs rule: uloop_induct [where body = body])
  case (1 s rs)
  obtain cs v where b: "body s rs = (cs, v)" by fastforce
  have cs: "list_all P cs" using assms [of s rs] b by simp
  show ?case
  proof (cases "\<exists>s' rs'. v = Val (Inl s') rs' \<and> length rs' < length rs")
    case True
    then show ?thesis using "1.IH" b cs uloop_again [of body s rs cs] by auto
  next
    case False
    then have "fst (uloop body s rs) = cs" using b by (subst uloop.simps) (auto split: out.splits sum.splits)
    then show ?thesis using cs by simp
  qed
qed

section \<open>Printing and reading\<close>

text \<open>\<open>putc\<close> writes one byte and does not look at the result.\<close>

fun uputs :: "int \<Rightarrow> u8 list \<Rightarrow> unit prog" where
  "uputs fd [] = uret ()"
| "uputs fd (c # cs) = ubind (usys (Write fd [c])) (\<lambda>_. uputs fd cs)"

definition uprintf :: "int \<Rightarrow> string \<Rightarrow> fmt_arg list \<Rightarrow> unit prog" where
  "uprintf fd fmt args = (case printf (str fmt) args of Some bs \<Rightarrow> uputs fd bs | None \<Rightarrow> ucrash)"

lemma tame_print [simp]: "tame (uputs fd cs)" "tame (uprintf fd fmt args)"
proof -
  show p: "tame (uputs fd cs)" for cs by (induction cs) simp_all
  show "tame (uprintf fd fmt args)" by (simp add: uprintf_def p split: option.split)
qed

text \<open>A buffer is the list of its bytes; as a string it ends at its first NUL.\<close>

definition as_cstr :: "u8 list \<Rightarrow> cstring" where
  "as_cstr bs = takeWhile (\<lambda>c. c \<noteq> 0) bs"

text \<open>\<open>gets\<close>: the bytes stored in a buffer of \<open>n\<close>, before the NUL.\<close>

fun ugets :: "nat \<Rightarrow> cstring prog" where
  "ugets 0 = uret []"
| "ugets (Suc 0) = uret []"
| "ugets (Suc (Suc n)) =
     ubind (usys (Read 0 1)) (\<lambda>r.
     if rval r < 1 then uret []
     else let c = hd (rdata r) in
          if c = 10 \<or> c = 13 then uret [c] else ubind (ugets (Suc n)) (\<lambda>cs. uret (c # cs)))"

lemma tame_gets [simp]: "tame (ugets n)"
  by (induction n rule: ugets.induct) (simp_all add: Let_def)

text \<open>\<open>stat\<close>.\<close>

definition ustat :: "cstring \<Rightarrow> (int \<times> u8 list) prog" where
  "ustat n =
     ubind (usys (Open n O_RDONLY)) (\<lambda>fd.
     if rval fd < 0 then uret (-1, [])
     else ubind (usys (Fstat (rval fd))) (\<lambda>r.
          ubind (usys (Close (rval fd))) (\<lambda>_. uret (rval r, rdata r))))"

section \<open>Helpers of the shell and the process manager\<close>

text \<open>\<open>panic\<close>, \<open>fork1\<close> and the start of \<open>main\<close>, which opens the console until three descriptors are open, are the same in \<open>sh.c\<close> and \<open>pmanager.c\<close>.\<close>

definition upanic :: "string \<Rightarrow> 'a prog" where
  "upanic s = ubind (uprintf 2 ''%s\<newline>'' [AStr (str s)]) (\<lambda>_. uexit)"

definition fork1 :: "int prog" where
  "fork1 = ubind (usys Fork) (\<lambda>r. if rval r = -1 then upanic ''fork'' else uret (rval r))"

definition open_three :: "(unit + int) prog" where
  "open_three =
     ubind (usys (Open (str ''console'') O_RDWR)) (\<lambda>fd.
     if rval fd \<ge> 0 then
       (if rval fd \<ge> 3 then ubind (usys (Close (rval fd))) (\<lambda>_. uret (Inr (rval fd))) else uret (Inl ()))
     else uret (Inr (rval fd)))"

text \<open>The result of \<open>getcmd\<close> is None at the end of the input.\<close>

definition getcmd :: "string \<Rightarrow> u8 list option prog" where
  "getcmd sign =
     ubind (uprintf 2 sign []) (\<lambda>_.
     ubind (ugets 100) (\<lambda>buf.
     uret (if as_cstr buf = [] then None else Some buf)))"

lemma fork1_run: "rval r \<noteq> -1 \<Longrightarrow> ubind fork1 f (r # rs) = (Fork # fst (f (rval r) rs), snd (f (rval r) rs))"
  by (simp add: fork1_def ubind_assoc)

lemma tame_helpers [simp]: "tame (upanic s)" "tame fork1" "tame open_three" "tame (getcmd sign)"
  by (simp_all add: upanic_def fork1_def open_three_def getcmd_def)

section \<open>What \<open>gets\<close> reads\<close>

text \<open>One reply per character typed.\<close>

definition typed_chars :: "u8 list \<Rightarrow> reply list" where
  "typed_chars cs = map (\<lambda>c. \<lparr>rval = 1, rdata = [c], rfds = (0, 0)\<rparr>) cs"

lemma ugets_line:
  assumes "list_all (\<lambda>c. c \<noteq> 10 \<and> c \<noteq> 13) cs" "length cs + 1 < n" "e = 10 \<or> e = 13"
  shows "ugets n (typed_chars (cs @ [e]) @ rs) = (replicate (length cs + 1) (Read 0 1), Val (cs @ [e]) rs)"
  using assms(1,2)
proof (induction cs arbitrary: n)
  case Nil
  then obtain m where "n = Suc (Suc m)" by (cases n rule: ugets.cases) auto
  then show ?case using assms(3) by (simp add: typed_chars_def uret_def)
next
  case (Cons c cs)
  then obtain m where n: "n = Suc (Suc m)" by (cases n rule: ugets.cases) auto
  have "ugets (Suc m) (typed_chars (cs @ [e]) @ rs) = (replicate (length cs + 1) (Read 0 1), Val (cs @ [e]) rs)"
    using Cons.IH [of "Suc m"] Cons.prems n by simp
  from ubind_run [where m = "ugets (Suc m)" and f = "\<lambda>cs. uret (c # cs)", OF this] Cons.prems(1) n show ?case by (simp add: typed_chars_def Let_def uret_def)
qed

definition answer :: "int \<Rightarrow> reply" where
  "answer n = \<lparr>rval = n, rdata = [], rfds = (0, 0)\<rparr>"

lemma answer_sel [simp]: "rval (answer n) = n"
  by (simp add: answer_def)

definition written :: reply where
  "written = \<lparr>rval = 1, rdata = [], rfds = (0, 0)\<rparr>"

lemma uputs_run: "uputs fd bs (replicate (length bs) written @ rs) = (map (\<lambda>c. Write fd [c]) bs, Val () rs)"
  by (induction bs) (simp_all add: uret_def)

section \<open>Runs that make only harmless calls\<close>

text \<open>\<open>only_calls P m\<close>: every call of every run of \<open>m\<close> satisfies \<open>P\<close>.\<close>

definition only_calls :: "(call \<Rightarrow> bool) \<Rightarrow> 'a prog \<Rightarrow> bool" where
  "only_calls P m \<longleftrightarrow> (\<forall>rs. list_all P (fst (m rs)))"

lemma only_base [simp]: "only_calls P (uret a)" "only_calls P uexit" "only_calls P ucrash" "only_calls P (usys c) \<longleftrightarrow> P c"
  by (simp_all add: only_calls_def uret_def uexit_def ucrash_def usys_def)

lemma only_bind [simp]: "only_calls P m \<Longrightarrow> (\<And>a. only_calls P (f a)) \<Longrightarrow> only_calls P (ubind m f)"
  unfolding only_calls_def
proof
  fix rs assume m: "\<forall>rs. list_all P (fst (m rs))" and f: "\<And>a. \<forall>rs. list_all P (fst (f a rs))"
  from m [rule_format, of rs] show "list_all P (fst (ubind m f rs))"
    using f by (auto simp: ubind_def split: prod.splits out.splits) (metis fst_conv)
qed

lemma only_if [simp]: "only_calls P m \<Longrightarrow> only_calls P m' \<Longrightarrow> only_calls P (if b then m else m')"
  by simp

lemma only_print [simp]:
  assumes "\<And>c. P (Write fd [c])"
  shows "only_calls P (uputs fd cs)" "only_calls P (uprintf fd fmt args)"
proof -
  show p: "only_calls P (uputs fd cs)" for cs using assms by (induction cs) simp_all
  show "only_calls P (uprintf fd fmt args)" by (simp add: uprintf_def p split: option.split)
qed

lemma only_gets [simp]: "P (Read 0 1) \<Longrightarrow> only_calls P (ugets n)"
  by (induction n rule: ugets.induct) (simp_all add: Let_def)

lemma only_loop [simp]: "(\<And>s. only_calls P (body s)) \<Longrightarrow> only_calls P (uloop body s)"
  by (simp add: only_calls_def uloop_calls)

section \<open>Properties of whole runs\<close>

text \<open>
  A property of the calls of a run and the replies to them that holds of a run in pieces when it holds of every piece.
  Sequencing and loops keep it.
\<close>

definition always :: "(call list \<Rightarrow> reply list \<Rightarrow> bool) \<Rightarrow> 'a prog \<Rightarrow> bool" where
  "always Q m \<longleftrightarrow> (\<forall>rs. Q (fst (m rs)) rs)"

locale run_property =
  fixes Q :: "call list \<Rightarrow> reply list \<Rightarrow> bool"
  assumes empty: "Q [] rs"
    and append: "length pre = length cs \<Longrightarrow> Q cs (pre @ rs) \<Longrightarrow> Q cs' rs \<Longrightarrow> Q (cs @ cs') (pre @ rs)"
begin

lemma always_base: "always Q (uret a)" "always Q uexit" "always Q ucrash"
  by (simp_all add: always_def uret_def uexit_def ucrash_def empty)

lemma always_bind:
  assumes m: "tame m" "always Q m" and f: "\<And>a. always Q (f a)"
  shows "always Q (ubind m f)"
  unfolding always_def
proof
  fix rs
  obtain cs v where r: "m rs = (cs, v)" by fastforce
  have q: "Q cs rs" using m(2) r unfolding always_def by (metis fst_conv)
  show "Q (fst (ubind m f rs)) rs"
  proof (cases v)
    case (Val a rs1)
    then obtain pre where "rs = pre @ rs1" "length pre = length cs" using m(1) r unfolding tame_def by blast
    moreover have "Q (fst (f a rs1)) rs1" using f [of a] by (simp add: always_def)
    ultimately show ?thesis using append [of pre cs rs1] q ubind_run [of m rs cs a rs1 f] r Val by simp
  qed (use q r in \<open>simp_all add: ubind_def\<close>)
qed

lemma always_loop:
  assumes "\<And>s. tame (body s)" "\<And>s. always Q (body s)"
  shows "always Q (uloop body s)"
  unfolding always_def
proof
  fix rs show "Q (fst (uloop body s rs)) rs"
  proof (induction s rs rule: uloop_induct [where body = body])
    case (1 s rs)
    obtain cs v where r: "body s rs = (cs, v)" by fastforce
    have q: "Q cs rs" using assms(2) [of s] r unfolding always_def by (metis fst_conv)
    show ?case
    proof (cases "\<exists>s' rs'. v = Val (Inl s') rs' \<and> length rs' < length rs")
      case True
      then obtain s' rs' where v: "v = Val (Inl s') rs'" "length rs' < length rs" by blast
      then obtain pre where "rs = pre @ rs'" "length pre = length cs" using assms(1) [of s] r unfolding tame_def by blast
      then show ?thesis
        using append [of pre cs rs'] q "1.IH" [OF r [unfolded v] v(2)] uloop_again [of body, OF r [unfolded v] v(2)] by simp
    next
      case False
      then have "fst (uloop body s rs) = cs" using r by (subst uloop.simps) (auto split: out.splits sum.splits)
      then show ?thesis using q by simp
    qed
  qed
qed

end

section \<open>Calls that follow a check\<close>

text \<open>Every call that needs it comes right after a call, answered so that \<open>ok\<close> holds of the three.\<close>

definition guarded :: "(call \<Rightarrow> bool) \<Rightarrow> (call \<Rightarrow> call \<Rightarrow> reply \<Rightarrow> bool) \<Rightarrow> call list \<Rightarrow> reply list \<Rightarrow> bool" where
  "guarded needs ok cs rs \<longleftrightarrow> (\<forall>i < length cs. needs (cs ! i) \<longrightarrow> 0 < i \<and> ok (cs ! i) (cs ! (i - 1)) (rs ! (i - 1)))"

lemma guarded_append:
  assumes "length pre = length cs" "guarded needs ok cs (pre @ rs)" "guarded needs ok cs' rs"
  shows "guarded needs ok (cs @ cs') (pre @ rs)"
  unfolding guarded_def
proof (intro allI impI)
  fix i assume i: "i < length (cs @ cs')" "needs ((cs @ cs') ! i)"
  show "0 < i \<and> ok ((cs @ cs') ! i) ((cs @ cs') ! (i - 1)) ((pre @ rs) ! (i - 1))"
  proof (cases "i < length cs")
    case True
    then show ?thesis using assms(1,2) i by (auto simp: guarded_def nth_append)
  next
    case False
    define j where "j = i - length cs"
    have "j < length cs'" "needs (cs' ! j)" using False i by (auto simp: j_def nth_append)
    then have "0 < j" "ok (cs' ! j) (cs' ! (j - 1)) (rs ! (j - 1))" using assms(3) by (auto simp: guarded_def)
    moreover from this obtain k where "j = Suc k" by (cases j) auto
    moreover have "i = j + length cs" using False by (simp add: j_def)
    ultimately show ?thesis using assms(1) by (simp add: nth_append)
  qed
qed

interpretation gd: run_property "guarded needs ok" for needs ok
  by unfold_locales (simp_all add: guarded_append guarded_def [of _ _ "[]"])

lemma guarded_none: "list_all (\<lambda>c. \<not> needs c) cs \<Longrightarrow> guarded needs ok cs rs"
  unfolding guarded_def list_all_length by blast

lemma guarded_pair:
  assumes "list_all (\<lambda>c. \<not> needs c) cs" "\<not> needs g" "ok c g r"
  shows "guarded needs ok (g # c # cs) (r # rs)"
  using assms unfolding guarded_def list_all_length by (auto simp: nth_Cons split: nat.splits)

lemma only_guarded: "only_calls (\<lambda>c. \<not> needs c) m \<Longrightarrow> always (guarded needs ok) m"
  unfolding only_calls_def always_def using guarded_none by blast

end
