(* ===== verification/ShellRun.thy ===== *)
theory ShellRun
  imports ShellPrint UserSys
begin

text \<open>
  Running commands: \<open>runcmd\<close> and \<open>main\<close> of \<open>sh.c\<close>. A command whose words are strings is run by the process that reads the
  replies; the child of a \<open>fork\<close> is the run with the reply 0.
\<close>

section \<open>Commands\<close>

fun runcmd :: "cstring cmd \<Rightarrow> unit prog" where
  "runcmd (EXEC argv) =
     (case argv of [] \<Rightarrow> uexit
      | a # _ \<Rightarrow>
          ubind (usys (ExecCall a argv)) (\<lambda>_.
          ubind (uprintf 2 ''exec %s failed\<newline>'' [AStr a]) (\<lambda>_. uexit)))"
| "runcmd (REDIR c file mode fd) =
     ubind (usys (Close fd)) (\<lambda>_.
     ubind (usys (Open file mode)) (\<lambda>r.
     if rval r < 0 then ubind (uprintf 2 ''open %s failed\<newline>'' [AStr file]) (\<lambda>_. uexit)
     else ubind (runcmd c) (\<lambda>_. uexit)))"
| "runcmd (LIST left right) =
     ubind fork1 (\<lambda>pid.
     ubind (if pid = 0 then runcmd left else uret ()) (\<lambda>_.
     ubind (usys Wait) (\<lambda>_.
     ubind (runcmd right) (\<lambda>_. uexit))))"
| "runcmd (PIPE left right) =
     ubind (usys PipeCall) (\<lambda>p.
     if rval p < 0 then upanic ''pipe''
     else let (p0, p1) = rfds p in
       ubind fork1 (\<lambda>pid.
       ubind (if pid = 0 then
                ubind (usys (Close 1)) (\<lambda>_. ubind (usys (Dup p1)) (\<lambda>_.
                ubind (usys (Close p0)) (\<lambda>_. ubind (usys (Close p1)) (\<lambda>_. runcmd left))))
              else uret ()) (\<lambda>_.
       ubind fork1 (\<lambda>pid.
       ubind (if pid = 0 then
                ubind (usys (Close 0)) (\<lambda>_. ubind (usys (Dup p0)) (\<lambda>_.
                ubind (usys (Close p0)) (\<lambda>_. ubind (usys (Close p1)) (\<lambda>_. runcmd right))))
              else uret ()) (\<lambda>_.
       ubind (usys (Close p0)) (\<lambda>_.
       ubind (usys (Close p1)) (\<lambda>_.
       ubind (usys Wait) (\<lambda>_.
       ubind (usys Wait) (\<lambda>_. uexit)))))))))"
| "runcmd (BACK c) =
     ubind fork1 (\<lambda>pid.
     ubind (if pid = 0 then runcmd c else uret ()) (\<lambda>_. uexit))"

section \<open>A line\<close>

text \<open>\<open>runcmd(parsecmd(buf))\<close>: the strings are read out of the line that \<open>nulterminate\<close> has cut.\<close>

definition run_line :: "cstring \<Rightarrow> unit prog" where
  "run_line line =
     (case parseline line of Inl e \<Rightarrow> upanic e
      | Inr (cmd, s) \<Rightarrow>
          let s = snd (peek s []) in
          if s \<noteq> [] then ubind (uprintf 2 ''leftovers: %s\<newline>'' [AStr s]) (\<lambda>_. upanic ''syntax'')
          else let b = nulterminate line cmd (line_bytes line)
               in runcmd (map_cmd (\<lambda>w. cstr_at b (place line (fst w)) (length line + 1)) cmd))"

definition sh_round :: "cstring \<Rightarrow> (unit + unit) prog" where
  "sh_round curuser =
     ubind (getcmd ''$ '') (\<lambda>l.
     case l of None \<Rightarrow> uret (Inr ())
     | Some buf \<Rightarrow>
         if take 3 buf = str ''cd '' then
           let d = drop 3 (butlast (as_cstr buf)) in
           ubind (usys (Chdir d)) (\<lambda>r.
           ubind (if rval r < 0 then uprintf 2 ''cannot cd %s\<newline>'' [AStr d] else uret ()) (\<lambda>_. uret (Inl ())))
         else if take 7 buf = str ''logout\<newline>'' then
           ubind (uprintf 1 ''sh: See you later!\<newline>'' []) (\<lambda>_. ubind (usys Wait) (\<lambda>_. uexit))
         else if take 7 buf = str ''whoami\<newline>'' then
           ubind (uprintf 1 ''%s\<newline>'' [AStr curuser]) (\<lambda>_. uret (Inl ()))
         else
           ubind fork1 (\<lambda>pid.
           ubind (if pid = 0 then run_line (as_cstr buf) else uret ()) (\<lambda>_.
           ubind (usys Wait) (\<lambda>_. uret (Inl ())))))"

definition sh_main :: "unit prog" where
  "sh_main =
     ubind (uloop (\<lambda>_. open_three) ()) (\<lambda>_.
     ubind (usys Whoami) (\<lambda>r.
     let curuser = as_cstr (rdata r) in
     ubind (uprintf 1 ''sh: Hello, %s!\<newline>'' [AStr curuser]) (\<lambda>_.
     ubind (uloop (\<lambda>_. sh_round curuser) ()) (\<lambda>_. uexit))))"

text \<open>\<open>runcmd\<close> never returns.\<close>

lemma upanic_ends: "snd (upanic e rs) \<noteq> Val a rs'"
  by (auto simp: upanic_def ubind_Val uexit_def)

lemma runcmd_ends: "snd (runcmd c rs) \<noteq> Val u rs'"
  by (induction c arbitrary: rs rs')
    (auto simp: ubind_Val uexit_def upanic_ends case_prod_beta Let_def split: list.splits if_splits)

lemma run_child: "ubind (runcmd c) f rs = runcmd c rs" for f :: "unit \<Rightarrow> unit prog"
proof -
  have "\<not> (\<exists>rs'. snd (runcmd c rs) = Val () rs')" using runcmd_ends [of c rs] by blast
  then show ?thesis by (auto simp: ubind_def split: prod.splits out.splits)
qed

section \<open>A printed command is run as it is\<close>

lemma print_no_NUL: "wf_cmd c \<Longrightarrow> 0 \<notin> set (print_cmd k c)"
proof (induction c arbitrary: k)
  case (EXEC ws)
  then show ?case by (auto simp: show_words_def word_wf_def word_char_def list_all_iff)
qed (auto simp: paren_def redir_sign_def word_wf_def word_char_def list_all_iff)

text \<open>C15: a command written out as a line, in which every word is free of blanks and symbols, is run by the shell exactly as the
  command: the line is parsed back and each string that reaches \<open>exec\<close> and \<open>open\<close> is the word that was written.\<close>

theorem shell_runs_printed:
  assumes "wf_cmd c"
  shows "run_line (print_cmd 3 c) = runcmd c"
proof -
  let ?l = "print_cmd 3 c"
  obtain d b where p: "parsecmd ?l = Inr (d, b)" "map_cmd str_of d = c" using parsecmd_print_roundtrip [OF assms] by blast
  then obtain s where s: "parseline ?l = Inr (d, s)" "snd (peek s []) = []" "b = nulterminate ?l d (line_bytes ?l)"
    by (auto simp: parsecmd_def pbind_eq_Inr split: if_splits)
  have "map_cmd (\<lambda>w. cstr_at b (place ?l (fst w)) (length ?l + 1)) d = map_cmd str_of d"
    using parsecmd_words [OF print_no_NUL [OF assms] p(1)] by (intro cmd.map_cong) auto
  then show ?thesis using s p(2) by (simp add: run_line_def)
qed

section \<open>Pipes\<close>

text \<open>
  The descriptors of a process: what each one refers to, an object of before or an end of the new pipe. The kernel gives
  the lowest free descriptor; a reply it would not give has no table after it.
\<close>

datatype fd_object = Old nat | ReadEnd | WriteEnd

type_synonym fd_table = "nat \<Rightarrow> fd_object option"

definition lowest_free :: "fd_table \<Rightarrow> int" where
  "lowest_free T = (case first_idx NOFILE (\<lambda>i. T i = None) of Some i \<Rightarrow> int i | None \<Rightarrow> -1)"

definition fd_step :: "call \<Rightarrow> reply \<Rightarrow> fd_table \<Rightarrow> fd_table option" where
  "fd_step c r T =
     (case c of
        Close fd \<Rightarrow> Some (T(nat fd := None))
      | Dup fd \<Rightarrow> if rval r = lowest_free T \<and> 0 \<le> rval r then Some (T(nat (rval r) := T (nat fd))) else None
      | PipeCall \<Rightarrow>
          let (p0, p1) = rfds r; T' = T(nat p0 := Some ReadEnd) in
          if p0 = lowest_free T \<and> 0 \<le> p0 \<and> p1 = lowest_free T' \<and> 0 \<le> p1 then Some (T'(nat p1 := Some WriteEnd)) else None
      | _ \<Rightarrow> Some T)"

fun fd_after :: "call list \<Rightarrow> reply list \<Rightarrow> fd_table \<Rightarrow> fd_table option" where
  "fd_after (c # cs) (r # rs) T = (case fd_step c r T of None \<Rightarrow> None | Some T \<Rightarrow> fd_after cs rs T)"
| "fd_after _ _ T = Some T"

lemma lowest_free_iff: "lowest_free T = int k \<longleftrightarrow> k < NOFILE \<and> T k = None \<and> (\<forall>j<k. T j \<noteq> None)"
proof -
  have "lowest_free T = int k \<longleftrightarrow> first_idx NOFILE (\<lambda>i. T i = None) = Some k" by (auto simp: lowest_free_def split: option.splits)
  then show ?thesis by (simp only: first_idx_Some)
qed

lemma pipe_fds:
  assumes "fd_step PipeCall p T = Some T1" "rfds p = (p0, p1)" "T 0 \<noteq> None" "T 1 \<noteq> None"
  obtains k0 k1 where "p0 = int k0" "p1 = int k1" "k0 \<noteq> k1" "1 < k0" "1 < k1" "T k0 = None" "T k1 = None"
    "T1 = T(k0 := Some ReadEnd, k1 := Some WriteEnd)"
proof -
  from assms(1,2) have p: "p0 = lowest_free T" "0 \<le> p0" "p1 = lowest_free (T(nat p0 := Some ReadEnd))" "0 \<le> p1"
      "T1 = T(nat p0 := Some ReadEnd, nat p1 := Some WriteEnd)"
    by (auto simp: fd_step_def Let_def split: if_splits)
  define k0 k1 where "k0 = nat p0" and "k1 = nat p1"
  have k: "p0 = int k0" "p1 = int k1" using p(2,4) by (simp_all add: k0_def k1_def)
  then have f: "T k0 = None" "(T(k0 := Some ReadEnd)) k1 = None"
    using p(1,3) lowest_free_iff [of T k0] lowest_free_iff [of "T(k0 := Some ReadEnd)" k1] by auto
  then have "k0 \<noteq> k1" "T k1 = None" by (auto split: if_splits)
  moreover have "1 < k" if "T k = None" for k using that assms(3,4) by (cases k; cases "k - 1") auto
  ultimately show ?thesis using that [of k0 k1] k f(1) p(5) by simp
qed

text \<open>C27: in a pipeline the child on the left runs its command with the descriptor 1 on the write end of the pipe and the
  child on the right with the descriptor 0 on the read end. All other descriptors are as before: neither child keeps another
  descriptor of the pipe open, on which the reader would wait for ever.\<close>

theorem pipe_plumbing:
  assumes "T 0 \<noteq> None" and "T 1 \<noteq> None" and "rval p \<ge> 0" and "rfds p = (p0, p1)" and "rval f0 = 0" and "rval f1 > 0"
  shows "runcmd (PIPE left right) ([p, f0, a, d, b, c] @ rs) =
      ([PipeCall, Fork, Close 1, Dup p1, Close p0, Close p1] @ fst (runcmd left rs), snd (runcmd left rs)) \<and>
    fd_after [PipeCall, Fork, Close 1, Dup p1, Close p0, Close p1] [p, f0, a, d, b, c] T \<in> {None, Some (T(1 := Some WriteEnd))} \<and>
    runcmd (PIPE left right) ([p, f1, f0, a, d, b, c] @ rs) =
      ([PipeCall, Fork, Fork, Close 0, Dup p0, Close p0, Close p1] @ fst (runcmd right rs), snd (runcmd right rs)) \<and>
    fd_after [PipeCall, Fork, Fork, Close 0, Dup p0, Close p0, Close p1] [p, f1, f0, a, d, b, c] T \<in> {None, Some (T(0 := Some ReadEnd))}"
proof (intro conjI)
  show "runcmd (PIPE left right) ([p, f0, a, d, b, c] @ rs) =
      ([PipeCall, Fork, Close 1, Dup p1, Close p0, Close p1] @ fst (runcmd left rs), snd (runcmd left rs))"
    using assms(3-5) by (simp add: fork1_run ubind_assoc run_child)
  show "runcmd (PIPE left right) ([p, f1, f0, a, d, b, c] @ rs) =
      ([PipeCall, Fork, Fork, Close 0, Dup p0, Close p0, Close p1] @ fst (runcmd right rs), snd (runcmd right rs))"
    using assms(3-6) by (simp add: fork1_run ubind_assoc run_child)
  have fork: "fd_step Fork r T = Some T" "fd_step (Close fd) r T = Some (T(nat fd := None))" for r T fd by (simp_all add: fd_step_def)
  show "fd_after [PipeCall, Fork, Close 1, Dup p1, Close p0, Close p1] [p, f0, a, d, b, c] T \<in> {None, Some (T(1 := Some WriteEnd))}"
  proof (cases "fd_step PipeCall p T")
    case (Some T1)
    from pipe_fds [OF Some assms(4,1,2)] obtain k0 k1 where k: "p0 = int k0" "p1 = int k1" "k0 \<noteq> k1" "1 < k0" "1 < k1" "T k0 = None" "T k1 = None"
      "T1 = T(k0 := Some ReadEnd, k1 := Some WriteEnd)" .
    have "lowest_free (T1(1 := None)) = int 1" using k assms(1) by (subst lowest_free_iff) (auto simp: NOFILE_def)
    then have "fd_step (Dup p1) d (T1(1 := None)) \<in> {None, Some (T1(1 := Some WriteEnd))}" using k by (auto simp: fd_step_def fun_upd_def)
    moreover have "T1(1 := Some WriteEnd, k0 := None, k1 := None) = T(1 := Some WriteEnd)" using k by (auto simp: fun_upd_def)
    ultimately show ?thesis using Some k by (auto simp: fork)
  qed simp
  show "fd_after [PipeCall, Fork, Fork, Close 0, Dup p0, Close p0, Close p1] [p, f1, f0, a, d, b, c] T \<in> {None, Some (T(0 := Some ReadEnd))}"
  proof (cases "fd_step PipeCall p T")
    case (Some T1)
    from pipe_fds [OF Some assms(4,1,2)] obtain k0 k1 where k: "p0 = int k0" "p1 = int k1" "k0 \<noteq> k1" "1 < k0" "1 < k1" "T k0 = None" "T k1 = None"
      "T1 = T(k0 := Some ReadEnd, k1 := Some WriteEnd)" .
    have "lowest_free (T1(0 := None)) = int 0" by (subst lowest_free_iff) (auto simp: NOFILE_def)
    then have "fd_step (Dup p0) d (T1(0 := None)) \<in> {None, Some (T1(0 := Some ReadEnd))}" using k by (auto simp: fd_step_def fun_upd_def)
    moreover have "T1(0 := Some ReadEnd, k0 := None, k1 := None) = T(0 := Some ReadEnd)" using k by (auto simp: fun_upd_def)
    ultimately show ?thesis using Some k by (auto simp: fork)
  qed simp
qed

section \<open>Witnesses\<close>

theorem shell_runs_printed_witness:
  "run_line (str '' cat < in | wc'') = runcmd (PIPE (REDIR (EXEC [str ''cat'']) (str ''in'') O_RDONLY 0) (EXEC [str ''wc'']))"
proof -
  let ?c = "PIPE (REDIR (EXEC [str ''cat'']) (str ''in'') O_RDONLY 0) (EXEC [str ''wc''])"
  have "print_cmd 3 ?c = str '' cat < in | wc''" by code_simp
  moreover have "wf_cmd ?c" by code_simp
  ultimately show ?thesis using shell_runs_printed [of ?c] by simp
qed

definition demo_fds :: fd_table where
  "demo_fds k = (if k < 3 then Some (Old k) else None)"

text \<open>With three descriptors open the pipe takes 3 and 4.\<close>

theorem pipe_plumbing_witness:
  "fd_after [PipeCall, Fork, Close 1, Dup 4, Close 3, Close 4]
     [(answer 0)\<lparr>rfds := (3, 4)\<rparr>, answer 0, answer 0, answer 1, answer 0, answer 0] demo_fds = Some (demo_fds(1 := Some WriteEnd))"
proof -
  let ?p = "(answer 0)\<lparr>rfds := (3, 4)\<rparr>"
  let ?a = "fd_after [PipeCall, Fork, Close 1, Dup 4, Close 3, Close 4] [?p, answer 0, answer 0, answer 1, answer 0, answer 0] demo_fds"
  have "lowest_free demo_fds = 3" "lowest_free (demo_fds(3 := Some ReadEnd)) = 4"
      "lowest_free (demo_fds(3 := Some ReadEnd, 4 := Some WriteEnd, 1 := None)) = 1"
    by code_simp+
  then have "?a \<noteq> None" by (simp add: fd_step_def)
  moreover have "?a \<in> {None, Some (demo_fds(1 := Some WriteEnd))}"
    using pipe_plumbing [of demo_fds ?p 3 4 "answer 0" "answer 5" "EXEC []" "EXEC []" "answer 0" "answer 1" "answer 0" "answer 0" "[]"]
    by (simp add: demo_fds_def)
  ultimately show ?thesis by auto
qed

end
