(* ===== verification/Login.thy ===== *)
theory Login
  imports UserSys Users
begin

text \<open>
  The programs around accounts: \<open>login.c\<close>, \<open>init.c\<close> and the commands of Project 3 that add and delete accounts and
  change the permissions of a file. \<close>

definition first_byte :: "u8 list \<Rightarrow> u8" where
  "first_byte bs = (case bs of [] \<Rightarrow> 0 | c # _ \<Rightarrow> c)"

section \<open>Logging in\<close>

text \<open>
  \<open>id[strlen(id) - 1]\<close> is outside of the array for an empty string. The check before it keeps empty names
  out, but not an empty password, which \<open>gets\<close> gives at the end of the input.
\<close>

definition chop_newline :: "u8 list \<Rightarrow> cstring prog" where
  "chop_newline bs =
     (let s = as_cstr bs in
      if s = [] then ucrash else if last s = 10 then uret (butlast s) else uret s)"

definition prompt :: "(int \<times> cstring) prog" where
  "prompt =
     ubind (uprintf 1 ''ID: '' []) (\<lambda>_.
     ubind (ugets 20) (\<lambda>id.
     ubind (uprintf 1 ''PW: '' []) (\<lambda>_.
     ubind (ugets 20) (\<lambda>pw.
     if first_byte id = 0 \<or> first_byte id = 10 \<or> first_byte pw = 10 then uret (-1, as_cstr id)
     else ubind (chop_newline id) (\<lambda>id.
          ubind (chop_newline pw) (\<lambda>pw.
          ubind (usys (Usercheck id pw)) (\<lambda>r. uret (rval r, id))))))))"

definition login_message :: "int \<Rightarrow> unit prog" where
  "login_message flag =
     (if flag = -1 then uprintf 1 ''login: you forgot to type ID or PW\<newline>'' []
      else if flag = 0 then uprintf 1 ''login: ID does not exist or wrong password\<newline>'' []
      else uprintf 1 ''login: unknown error occured\<newline>'' [])"

text \<open>\<open>while((wpid=wait()) >= 0 && wpid != pid) printf(1, "zombie!\n");\<close>\<close>

definition reap_round :: "int \<Rightarrow> (unit + unit) prog" where
  "reap_round pid =
     ubind (usys Wait) (\<lambda>w.
     if rval w \<ge> 0 \<and> rval w \<noteq> pid then ubind (uprintf 1 ''zombie!\<newline>'' []) (\<lambda>_. uret (Inl ())) else uret (Inr ()))"

definition reap :: "int \<Rightarrow> unit prog" where
  "reap pid = uloop (\<lambda>_. reap_round pid) ()"

text \<open>What follows \<open>fork2\<close>, in the child and in the parent.\<close>

definition login_child :: "cstring \<Rightarrow> reply \<Rightarrow> (unit + unit) prog" where
  "login_child uid r =
     (let pid = rval r in
      if pid < 0 then ubind (uprintf 1 ''login: fork failed\<newline>'' []) (\<lambda>_. uexit)
      else if pid = 0 then
        ubind (usys (ExecCall (str ''sh'') [str ''sh'', uid])) (\<lambda>_.
        ubind (uprintf 1 ''login: exec sh failed\<newline>'' []) (\<lambda>_. uexit))
      else ubind (reap pid) (\<lambda>_. uret (Inl ())))"

definition login_round :: "(unit + unit) prog" where
  "login_round =
     ubind prompt (\<lambda>(flag, id).
     if flag < 1 then ubind (login_message flag) (\<lambda>_. uret (Inl ()))
     else ubind (usys (Fork2 id)) (login_child id))"

definition login :: "unit prog" where
  "login = uloop (\<lambda>_. login_round) ()"

section \<open>The first process and the account commands\<close>

definition init_round :: "(unit + unit) prog" where
  "init_round =
     ubind (uprintf 1 ''init: starting login\<newline>'' []) (\<lambda>_.
     ubind (usys Fork) (\<lambda>r.
     let pid = rval r in
     if pid < 0 then ubind (uprintf 1 ''init: fork failed\<newline>'' []) (\<lambda>_. uexit)
     else if pid = 0 then
       ubind (usys (ExecCall (str ''login'') [str ''login''])) (\<lambda>_.
       ubind (uprintf 1 ''init: exec login failed\<newline>'' []) (\<lambda>_. uexit))
     else ubind (reap pid) (\<lambda>_. uret (Inl ()))))"

text \<open>The lines about the scheduling policy are chosen when the program is built.\<close>

datatype policy = MULTILEVEL_SCHED | MLFQ_SCHED u32 | DEFAULT

definition policy_lines :: "policy \<Rightarrow> unit prog" where
  "policy_lines p =
     (case p of
        MULTILEVEL_SCHED \<Rightarrow> uprintf 1 ''policy: MULTILEVEL_SCHED\<newline>'' []
      | MLFQ_SCHED k \<Rightarrow>
          ubind (uprintf 1 ''policy: MLFQ_SCHED\<newline>'' []) (\<lambda>_. uprintf 1 ''MLFQ_K: %d\<newline>'' [AInt k])
      | DEFAULT \<Rightarrow> uprintf 1 ''policy: DEFAULT\<newline>'' [])"

definition init :: "policy \<Rightarrow> unit prog" where
  "init p =
     ubind (usys (Open (str ''console'') O_RDWR)) (\<lambda>r.
     ubind (if rval r < 0 then ubind (usys (Mknod (str ''console'') 1 1)) (\<lambda>_. usys (Open (str ''console'') O_RDWR)) else uret r) (\<lambda>_.
     ubind (usys (Dup 0)) (\<lambda>_.
     ubind (usys (Dup 0)) (\<lambda>_.
     ubind (policy_lines p) (\<lambda>_.
     ubind (usys Inituser) (\<lambda>_.
     uloop (\<lambda>_. init_round) ()))))))"

text \<open>\<open>username[strlen(username) - 1] = 0\<close>, which is a write before the array for an empty string.\<close>

definition chop_last :: "u8 list \<Rightarrow> cstring prog" where
  "chop_last bs = (let s = as_cstr bs in if s = [] then ucrash else uret (butlast s))"

definition useradd_main :: "unit prog" where
  "useradd_main =
     ubind (uprintf 1 ''[Add user]\<newline>'' []) (\<lambda>_.
     ubind (uprintf 1 ''Username: '' []) (\<lambda>_.
     ubind (ubind (ugets 50) chop_last) (\<lambda>username.
     ubind (uprintf 1 ''Password: '' []) (\<lambda>_.
     ubind (ubind (ugets 50) chop_last) (\<lambda>password.
     ubind (usys (Useradd username password)) (\<lambda>r.
     ubind (if rval r = 0 then uprintf 1 ''Useradd successful\<newline>'' [] else uprintf 1 ''Useradd failed!\<newline>'' []) (\<lambda>_.
     uexit)))))))"

definition userdel_main :: "unit prog" where
  "userdel_main =
     ubind (uprintf 1 ''[Delete user]\<newline>'' []) (\<lambda>_.
     ubind (uprintf 1 ''Username: '' []) (\<lambda>_.
     ubind (ubind (ugets 50) chop_last) (\<lambda>username.
     ubind (usys (Userdel username)) (\<lambda>r.
     ubind (if rval r = 0 then uprintf 1 ''Userdel successful\<newline>'' [] else uprintf 1 ''Userdel failed!\<newline>'' []) (\<lambda>_.
     uexit)))))"

definition chmod_bits :: "u8 \<Rightarrow> u32 \<Rightarrow> u32 \<Rightarrow> u32 \<Rightarrow> u32 \<Rightarrow> u32" where
  "chmod_bits d r w x mode =
     (let mode = (if and d 4 \<noteq> 0 then or mode r else mode);
          mode = (if and d 2 \<noteq> 0 then or mode w else mode)
      in if and d 1 \<noteq> 0 then or mode x else mode)"

definition chmod_main :: "cstring list \<Rightarrow> unit prog" where
  "chmod_main argv =
     (if length argv < 3 then
        ubind (uprintf 1 ''Usage: PRJ03_chmod mode target\<newline>'' []) (\<lambda>_.
        ubind (uprintf 1 ''mode: AB where A,B=[0,7]. A is for the owner and B is for others.\<newline>'' []) (\<lambda>_.
        ubind (uprintf 1 ''Each number is a sum of three options:\<newline>'' []) (\<lambda>_.
        ubind (uprintf 1 ''  4: read\<newline>'' []) (\<lambda>_.
        ubind (uprintf 1 ''  2: write\<newline>'' []) (\<lambda>_.
        ubind (uprintf 1 ''  1: execute\<newline>\<newline>'' []) (\<lambda>_. uexit))))))
      else let m = argv ! 1 in
        if strlen m \<noteq> 2 \<or> m ! 0 < 48 \<or> m ! 0 > 55 \<or> m ! 1 < 48 \<or> m ! 1 > 55 then
          ubind (uprintf 1 ''Invalid mode: %s\<newline>'' [AStr m]) (\<lambda>_. uexit)
        else let mode = chmod_bits (m ! 0 - 48) MODE_RUSR MODE_WUSR MODE_XUSR 0;
                 mode = chmod_bits (m ! 1 - 48) MODE_ROTH MODE_WOTH MODE_XOTH mode
             in ubind (usys (Chmod (argv ! 2) mode)) (\<lambda>r.
                ubind (if rval r = 0 then uprintf 1 ''chmod successful\<newline>'' [] else uprintf 1 ''chmod failed!\<newline>'' []) (\<lambda>_.
                uexit)))"

section \<open>A shell is started only for a checked user\<close>

definition is_fork2 :: "call \<Rightarrow> bool" where
  "is_fork2 c \<longleftrightarrow> (case c of Fork2 u \<Rightarrow> True | _ \<Rightarrow> False)"

text \<open>The call before \<open>fork2\<close> is a check of the same name that succeeded.\<close>

definition user_checked :: "call \<Rightarrow> call \<Rightarrow> reply \<Rightarrow> bool" where
  "user_checked c g r \<longleftrightarrow> (case (c, g) of (Fork2 u, Usercheck w p) \<Rightarrow> u = w \<and> 1 \<le> rval r | _ \<Rightarrow> False)"

abbreviation not_fork2 :: "call \<Rightarrow> bool" where
  "not_fork2 \<equiv> \<lambda>c. \<not> is_fork2 c"

lemma is_fork2_simps [simp]:
  "\<not> is_fork2 (Read fd n)" "\<not> is_fork2 (Write fd bs)" "\<not> is_fork2 Wait" "\<not> is_fork2 (Usercheck u p)" "\<not> is_fork2 (ExecCall f a)" "is_fork2 (Fork2 u)"
  by (simp_all add: is_fork2_def)

lemma only_chop [simp]: "only_calls P (chop_newline bs)" "only_calls P (chop_last bs)"
  by (simp_all add: chop_newline_def chop_last_def Let_def)

lemma prompt_not_fork2 [simp]: "only_calls not_fork2 prompt"
  by (simp add: prompt_def)

lemma reap_not_fork2 [simp]: "only_calls not_fork2 (reap pid)"
  by (simp add: reap_def reap_round_def)

lemma tame_login [simp]: "tame (login_child u r)" "tame (chop_newline bs)" "tame (chop_last bs)" "tame prompt" "tame (reap pid)" "tame (login_message f)"
  by (simp_all add: chop_newline_def chop_last_def Let_def prompt_def reap_def reap_round_def login_message_def login_child_def)

text \<open>A prompt that succeeds ends with the check of the name it returns.\<close>

definition ends_checked :: "(int \<times> cstring) prog \<Rightarrow> bool" where
  "ends_checked m \<longleftrightarrow> (\<forall>rs cs flag id rs'. m rs = (cs, Val (flag, id) rs') \<longrightarrow> 1 \<le> flag \<longrightarrow>
     (\<exists>cs0 p pre r. cs = cs0 @ [Usercheck id p] \<and> rs = pre @ r # rs' \<and> length pre = length cs0 \<and> rval r = flag))"

lemma ends_checked_bind [simp]:
  assumes "tame m" "\<And>a. ends_checked (f a)"
  shows "ends_checked (ubind m f)"
  unfolding ends_checked_def
proof (intro allI impI)
  fix rs cs flag id rs' assume "ubind m f rs = (cs, Val (flag, id) rs')" "1 \<le> flag"
  then obtain cs1 a rs1 cs2 where m: "m rs = (cs1, Val a rs1)" and f: "f a rs1 = (cs2, Val (flag, id) rs')" and cs: "cs = cs1 @ cs2"
    unfolding ubind_eq_Val by blast
  obtain pre where pre: "rs = pre @ rs1" "length pre = length cs1" using assms(1) m unfolding tame_def by blast
  obtain cs0 p pre' r where "cs2 = cs0 @ [Usercheck id p]" "rs1 = pre' @ r # rs'" "length pre' = length cs0" "rval r = flag"
    using assms(2) [of a] f \<open>1 \<le> flag\<close> unfolding ends_checked_def by blast
  then show "\<exists>cs0 p pre r. cs = cs0 @ [Usercheck id p] \<and> rs = pre @ r # rs' \<and> length pre = length cs0 \<and> rval r = flag"
    using pre cs by (intro exI [of _ "cs1 @ cs0"] exI [of _ p] exI [of _ "pre @ pre'"] exI [of _ r]) simp
qed

lemma ends_checked_prompt: "ends_checked prompt"
proof -
  have fail: "ends_checked (uret (-1, id))" for id by (simp add: ends_checked_def uret_def)
  have check: "ends_checked (ubind (usys (Usercheck id p)) (\<lambda>r. uret (rval r, id)))" for id p
    by (auto simp: ends_checked_def ubind_eq_Val uret_def usys_def split: list.splits)
  show ?thesis by (simp add: prompt_def fail check)
qed

lemma tame_round [simp]: "tame login_round"
  by (auto simp: login_round_def Let_def intro!: tame_bind)

lemma login_child_not_fork2 [simp]: "only_calls not_fork2 (login_child u r)"
  by (simp add: login_child_def Let_def)

lemma round_checked: "always (guarded is_fork2 user_checked) login_round"
  unfolding always_def
proof
  fix rs
  obtain cs v where p: "prompt rs = (cs, v)" by fastforce
  have n: "list_all not_fork2 cs" using prompt_not_fork2 p unfolding only_calls_def by (metis fst_conv)
  show "guarded is_fork2 user_checked (fst (login_round rs)) rs"
  proof (cases "\<exists>flag id rs1. v = Val (flag, id) rs1 \<and> 1 \<le> flag")
    case True
    then obtain flag id rs1 where v: "v = Val (flag, id) rs1" "1 \<le> flag" by blast
    obtain cs0 pw pre r where e: "cs = cs0 @ [Usercheck id pw]" "rs = pre @ r # rs1" "length pre = length cs0" "rval r = flag"
      using ends_checked_prompt p v unfolding ends_checked_def by blast
    define cs1 where "cs1 = (case rs1 of [] \<Rightarrow> [] | q # rs2 \<Rightarrow> fst (login_child id q rs2))"
    have "list_all not_fork2 cs1" using login_child_not_fork2 by (auto simp: cs1_def only_calls_def split: list.splits)
    then have "guarded is_fork2 user_checked (Usercheck id pw # Fork2 id # cs1) (r # rs1)" using v(2) e(4) by (intro guarded_pair) (simp_all add: user_checked_def)
    moreover have "fst (login_round rs) = cs0 @ Usercheck id pw # Fork2 id # cs1"
      using p v e(1) by (cases rs1) (simp_all add: login_round_def ubind_run [of prompt, OF p [unfolded v(1)]] cs1_def login_child_def [symmetric])
    moreover have "guarded is_fork2 user_checked cs0 rs" using n e(1) by (simp add: guarded_none)
    ultimately show ?thesis using guarded_append e(2,3) by simp
  next
    case False
    have m: "list_all not_fork2 (fst (ubind (login_message flag) (\<lambda>_. uret (Inl ())) rs1))" for flag rs1
    proof -
      have "only_calls not_fork2 (ubind (login_message flag) (\<lambda>_. uret (Inl ())))" by (simp add: login_message_def)
      then show ?thesis unfolding only_calls_def by blast
    qed
    from False have "list_all not_fork2 (fst (login_round rs))"
      using n p m by (cases v) (auto simp: login_round_def ubind_def [of prompt] case_prod_beta)
    then show ?thesis by (rule guarded_none)
  qed
qed

lemma login_checked: "always (guarded is_fork2 user_checked) login"
  unfolding login_def by (rule gd.always_loop) (simp_all add: round_checked)

text \<open>The names and passwords given to the check are strings.\<close>

definition strings_only :: "call \<Rightarrow> bool" where
  "strings_only c \<longleftrightarrow> (\<forall>u p. c = Usercheck u p \<longrightarrow> wf_cstr u \<and> wf_cstr p)"

lemma only_chop_newline:
  assumes "\<And>a. wf_cstr a \<Longrightarrow> only_calls P (f a)"
  shows "only_calls P (ubind (chop_newline bs) f)"
proof -
  have "wf_cstr (as_cstr bs)" by (auto simp: wf_cstr_def as_cstr_def dest: set_takeWhileD)
  then have "wf_cstr (as_cstr bs)" "wf_cstr (butlast (as_cstr bs))" by (auto simp: wf_cstr_def dest: in_set_butlastD)
  then show ?thesis using assms by (auto simp: only_calls_def chop_newline_def Let_def)
qed

lemma strings_only_simps [simp]:
  "strings_only (Read fd n)" "strings_only (Write fd bs)" "strings_only Wait" "strings_only (ExecCall f a)" "strings_only (Fork2 u)"
  "strings_only (Usercheck u p) \<longleftrightarrow> wf_cstr u \<and> wf_cstr p"
  by (simp_all add: strings_only_def)

lemma login_strings: "only_calls strings_only login"
proof -
  have p: "only_calls strings_only prompt" by (simp add: prompt_def only_chop_newline)
  show ?thesis by (auto simp: login_def login_round_def login_child_def login_message_def reap_def reap_round_def Let_def p intro!: only_loop only_bind)
qed

text \<open>C16: the login program starts a shell for a user only right after the kernel found that user's name with the typed
  password in the account table. Whatever is typed, whatever the kernel answers to the other calls, and however the
  table changes in between: if the \<open>i\<close>-th call is \<open>fork2(u)\<close> and the call before it was answered from the table in
  the kernel state \<open>s\<close> of that moment, then that table has a row with the name \<open>u\<close> and the password that was checked.\<close>

theorem login_shell_for_account:
  assumes "login rs = (cs, v)" and "i < length cs" and "cs ! i = Fork2 u"
    and "\<And>w p. cs ! (i - 1) = Usercheck w p \<Longrightarrow> rval (rs ! (i - 1)) = usercheck w p s"
  shows "0 < i \<and> (\<exists>p. cs ! (i - 1) = Usercheck u p \<and> (\<exists>k<NUM_USER. uname (utable s) k = u \<and> upass (utable s) k = p))"
proof -
  have "guarded is_fork2 user_checked cs rs" using login_checked assms(1) unfolding always_def by (metis fst_conv)
  then have "0 < i" "user_checked (Fork2 u) (cs ! (i - 1)) (rs ! (i - 1))" using assms(2,3) unfolding guarded_def by (force, force)
  then obtain p where p: "0 < i" "cs ! (i - 1) = Usercheck u p" "1 \<le> rval (rs ! (i - 1))"
    by (auto simp: user_checked_def split: call.splits)
  have "list_all strings_only cs" using login_strings assms(1) unfolding only_calls_def by (metis fst_conv)
  then have "strings_only (Usercheck u p)" using p(2) assms(2) unfolding list_all_length by (metis less_imp_diff_less)
  then show ?thesis using p assms(4) [of u p] by (auto simp: usercheck_iff split: if_splits)
qed

lemma prompt_prints: "printf (str ''ID: '') [] = Some (str ''ID: '')" "printf (str ''PW: '') [] = Some (str ''PW: '')"
  by code_simp+

text \<open>The replies to a user who types a name and a password, each followed by a newline.\<close>

definition credentials :: "cstring \<Rightarrow> cstring \<Rightarrow> reply list" where
  "credentials u p = replicate 4 written @ typed_chars (u @ [10]) @ replicate 4 written @ typed_chars (p @ [10])"

definition plain_line :: "cstring \<Rightarrow> bool" where
  "plain_line u \<longleftrightarrow> u \<noteq> [] \<and> length u < 19 \<and> list_all (\<lambda>c. c \<noteq> 0 \<and> c \<noteq> 10 \<and> c \<noteq> 13) u"

lemma chop_line:
  assumes "list_all (\<lambda>c. c \<noteq> 0 \<and> c \<noteq> 10 \<and> c \<noteq> 13) u"
  shows "chop_newline (u @ [10]) rs = ([], Val u rs)"
proof -
  have "takeWhile (\<lambda>c. c \<noteq> 0) (u @ [10]) = u @ [10]" using assms by (subst takeWhile_append2) (auto simp: list_all_iff)
  then show ?thesis by (simp add: chop_newline_def as_cstr_def uret_def)
qed

lemma run_prompts:
  assumes "fmt = ''ID: '' \<or> fmt = ''PW: ''"
  shows "ubind (uprintf 1 fmt []) f (replicate 4 written @ X) = (map (\<lambda>c. Write 1 [c]) (str fmt) @ fst (f () X), snd (f () X))"
proof (rule ubind_run)
  have "length (str fmt) = 4" "printf (str fmt) [] = Some (str fmt)" using assms prompt_prints by (auto simp: str_def)
  then show "uprintf 1 fmt [] (replicate 4 written @ X) = (map (\<lambda>c. Write 1 [c]) (str fmt), Val () X)"
    using uputs_run [of 1 "str fmt" X] by (simp add: uprintf_def)
qed

lemma run_line:
  assumes "plain_line a"
  shows "ubind (ugets 20) f (typed_chars (a @ [10]) @ X) = (replicate (length a + 1) (Read 0 1) @ fst (f (a @ [10]) X), snd (f (a @ [10]) X))"
  using ubind_run [of "ugets 20", OF ugets_line [of a 20 10 X]] assms by (simp add: plain_line_def list_all_iff)

lemma run_chop:
  assumes "plain_line a"
  shows "ubind (chop_newline (a @ [10])) f X = f a X"
  using ubind_run [of "chop_newline (a @ [10])" X "[]" a X f] chop_line assms by (simp add: plain_line_def)

lemma first_byte_line:
  assumes "plain_line a"
  shows "first_byte (a @ [10]) \<noteq> 0" "first_byte (a @ [10]) \<noteq> 10"
  using assms by (cases a; simp add: first_byte_def plain_line_def)+

lemma prompt_typed:
  assumes "plain_line u" "plain_line p"
  shows "\<exists>cs. prompt (credentials u p @ r # rs) = (cs @ [Usercheck u p], Val (rval r, u) rs)"
  using assms by (simp add: prompt_def credentials_def run_prompts run_line run_chop first_byte_line) (simp add: uret_def)

lemma login_wrong: "\<exists>bs. printf (str ''login: ID does not exist or wrong password\<newline>'') [] = Some (108 # 111 # bs)"
proof -
  have "printf (str ''login: ID does not exist or wrong password\<newline>'') [] = Some (str ''login: ID does not exist or wrong password\<newline>'')"
    by code_simp
  then show ?thesis by (simp add: str_def)
qed

lemma login_accepts:
  assumes "plain_line u" "plain_line p"
  shows "\<exists>cs. login (credentials u p @ [answer 1, answer 0]) =
      (cs @ [Usercheck u p, Fork2 u, ExecCall (str ''sh'') [str ''sh'', u]], Blocked) \<and> length cs = length (credentials u p)"
proof -
  obtain cs where p: "prompt (credentials u p @ [answer 1, answer 0]) = (cs @ [Usercheck u p], Val (rval (answer 1), u) [answer 0])"
    using prompt_typed [OF assms, of "answer 1" "[answer 0]"] by auto
  have "length cs = length (credentials u p)" using tame_login(4) p unfolding tame_def by fastforce
  moreover have "login_round (credentials u p @ [answer 1, answer 0]) = (cs @ [Usercheck u p, Fork2 u, ExecCall (str ''sh'') [str ''sh'', u]], Blocked)"
    unfolding login_round_def ubind_run [of prompt, OF p] by (simp add: login_child_def)
  ultimately show ?thesis unfolding login_def by (intro exI [of _ cs]) (subst uloop.simps, simp)
qed

text \<open>C17: the login program decides as the account table does. After a name and a password are typed and the kernel has
  answered the check from its table, the next program to be executed in the child is the shell of that user if the
  table has a row with both, and otherwise there is no child: the program goes on to print its message.\<close>

theorem login_decides:
  assumes "plain_line u" and "plain_line p"
  shows "(last (fst (login (credentials u p @ [answer (usercheck u p s), answer 0]))) = ExecCall (str ''sh'') [str ''sh'', u]) =
    (\<exists>k<NUM_USER. uname (utable s) k = u \<and> upass (utable s) k = p)"
proof -
  let ?r = "answer (usercheck u p s)" and ?rs = "credentials u p @ [answer (usercheck u p s), answer 0]"
  have "wf_cstr u" "wf_cstr p" using assms by (auto simp: plain_line_def wf_cstr_def list_all_iff)
  then have uc: "usercheck u p s = (if \<exists>k<NUM_USER. uname (utable s) k = u \<and> upass (utable s) k = p then 1 else 0)" by (rule usercheck_iff)
  obtain cs where "prompt ?rs = (cs @ [Usercheck u p], Val (rval ?r, u) [answer 0])" using prompt_typed [OF assms, of ?r "[answer 0]"] by auto
  from ubind_run [of prompt, OF this] have run: "ubind prompt f ?rs =
      ((cs @ [Usercheck u p]) @ fst (f (rval ?r, u) [answer 0]), snd (f (rval ?r, u) [answer 0]))" for f :: "int \<times> cstring \<Rightarrow> (unit + unit) prog" .
  show ?thesis
  proof (cases "\<exists>k<NUM_USER. uname (utable s) k = u \<and> upass (utable s) k = p")
    case True
    then have "usercheck u p s = 1" using uc by simp
    then show ?thesis using login_accepts [OF assms] True by auto
  next
    case False
    obtain bs where "printf (str ''login: ID does not exist or wrong password\<newline>'') [] = Some (108 # 111 # bs)" using login_wrong by blast
    then have "login_round ?rs = (cs @ [Usercheck u p, Write 1 [108], Write 1 [111]], Blocked)"
      unfolding login_round_def run using uc False by (simp add: login_message_def uprintf_def ubind_def usys_def)
    from uloop_stop(1) [of "\<lambda>_. login_round", OF this] False show ?thesis by (simp add: login_def)
  qed
qed

text \<open>C36: a password that ends with the end of the input makes the login program read before its buffer: the check for empty
  input looks at the name twice and at the password only for a newline.\<close>

theorem login_empty_password_crashes:
  assumes "plain_line u"
  shows "snd (login (replicate 4 written @ typed_chars (u @ [10]) @ replicate 4 written @ [answer 0])) = Crashed"
proof -
  have "ubind (ugets 20) f [answer 0] = (Read 0 1 # fst (f [] []), snd (f [] []))" for f :: "cstring \<Rightarrow> (int \<times> cstring) prog"
    using ubind_run [of "ugets 20" "[answer 0]" "[Read 0 1]" "[]" "[]" f] by (simp add: numeral_eq_Suc uret_def)
  then have "snd (prompt (replicate 4 written @ typed_chars (u @ [10]) @ replicate 4 written @ [answer 0])) = Crashed"
    using assms by (simp add: prompt_def run_prompts run_line run_chop first_byte_line)
       (simp add: first_byte_def chop_newline_def as_cstr_def)
  then show ?thesis unfolding login_def by (subst uloop.simps) (simp add: login_round_def ubind_def [of prompt] case_prod_beta)
qed

section \<open>Witnesses for logging in\<close>

lemma demo_lines: "plain_line (str ''root'')" "plain_line (str ''1234'')"
  by (simp_all add: plain_line_def str_def)

theorem login_shell_for_account_witness:
  "\<exists>p k. k < NUM_USER \<and> uname (utable user_demo) k = str ''root'' \<and> upass (utable user_demo) k = p"
proof -
  let ?c = "credentials (str ''root'') (str ''1234'')" and ?k = "length (credentials (str ''root'') (str ''1234''))"
  have check: "usercheck (str ''root'') (str ''1234'') user_demo = 1" using usercheck_iff [of "str ''root''" "str ''1234''" user_demo]
    by (auto simp: wf_cstr_def str_def user_demo_rows NUM_USER_def)
  obtain cs where cs: "login (?c @ [answer 1, answer 0]) =
      (cs @ [Usercheck (str ''root'') (str ''1234''), Fork2 (str ''root''), ExecCall (str ''sh'') [str ''sh'', str ''root'']], Blocked)"
      "length cs = ?k" using login_accepts [OF demo_lines] by blast
  from login_shell_for_account [OF cs(1), of "?k + 1" "str ''root''" user_demo] cs(2) check show ?thesis
    by (auto simp: nth_append)
qed

theorem login_decides_witness:
  "last (fst (login (credentials (str ''root'') (str ''1234'') @ [answer (usercheck (str ''root'') (str ''1234'') user_demo), answer 0]))) =
     ExecCall (str ''sh'') [str ''sh'', str ''root'']"
proof -
  have "\<exists>k<NUM_USER. uname (utable user_demo) k = str ''root'' \<and> upass (utable user_demo) k = str ''1234''"
    by (rule exI [of _ 0]) (simp add: user_demo_rows NUM_USER_def)
  then show ?thesis using login_decides [OF demo_lines, of user_demo] by blast
qed

theorem login_empty_password_crashes_witness:
  "snd (login (replicate 4 written @ typed_chars (str ''root'' @ [10]) @ replicate 4 written @ [answer 0])) = Crashed"
  by (rule login_empty_password_crashes [OF demo_lines(1)])

section \<open>Permissions from two digits\<close>

definition octal :: "u8 \<Rightarrow> bool" where
  "octal c \<longleftrightarrow> 48 \<le> c \<and> c \<le> 55"

lemma octal_cases:
  assumes "octal c"
  shows "c \<in> {48, 49, 50, 51, 52, 53, 54, 55}"
proof -
  have "48 \<le> unat c" "unat c \<le> 55" using assms by (simp_all add: octal_def word_le_nat_alt)
  then have "unat c \<in> {48, 49, 50, 51, 52, 53, 54, 55}" by auto
  then have "(of_nat (unat c) :: u8) \<in> of_nat ` {48, 49, 50, 51, 52, 53, 54, 55}" by (rule imageI)
  then show ?thesis by simp
qed

lemma chmod_bits_octal:
  assumes "octal a" "octal b"
  shows "chmod_bits (b - 48) MODE_ROTH MODE_WOTH MODE_XOTH (chmod_bits (a - 48) MODE_RUSR MODE_WUSR MODE_XUSR 0) =
    8 * ucast (a - 48) + ucast (b - 48)"
proof -
  have "list_all (\<lambda>a. list_all (\<lambda>b. chmod_bits (b - 48) MODE_ROTH MODE_WOTH MODE_XOTH (chmod_bits (a - 48) MODE_RUSR MODE_WUSR MODE_XUSR 0) =
      8 * ucast (a - 48) + ucast (b - 48)) [48, 49, 50, 51, 52, 53, 54, 55 :: u8]) [48, 49, 50, 51, 52, 53, 54, 55 :: u8]"
    by code_simp
  moreover have "a \<in> set [48, 49, 50, 51, 52, 53, 54, 55]" "b \<in> set [48, 49, 50, 51, 52, 53, 54, 55]"
    using octal_cases [OF assms(1)] octal_cases [OF assms(2)] by simp_all
  ultimately show ?thesis unfolding list_all_iff by blast
qed

text \<open>the program that changes permissions reads its first argument as two octal digits, the owner's and the others',
  and asks for the mode with that value; anything but two such digits is refused without a call that changes a file.\<close>

theorem chmod_main_mode:
  "chmod_main (prog # m # target # args) =
     (if length m = 2 \<and> octal (m ! 0) \<and> octal (m ! 1)
      then ubind (usys (Chmod target (8 * ucast (m ! 0 - 48) + ucast (m ! 1 - 48)))) (\<lambda>r.
           ubind (uprintf 1 (if rval r = 0 then ''chmod successful\<newline>'' else ''chmod failed!\<newline>'') []) (\<lambda>_. uexit))
      else ubind (uprintf 1 ''Invalid mode: %s\<newline>'' [AStr m]) (\<lambda>_. uexit))"
proof (cases "length m = 2 \<and> octal (m ! 0) \<and> octal (m ! 1)")
  case True
  then have "\<not> m ! 0 < 48" "\<not> 55 < m ! 0" "\<not> m ! 1 < 48" "\<not> 55 < m ! 1" "strlen m = 2"
    by (auto simp: octal_def strlen_def)
  then show ?thesis using True by (auto simp: chmod_main_def chmod_bits_octal Let_def if_distrib [of "\<lambda>f. uprintf 1 f []"] cong: if_cong)
next
  case False
  then show ?thesis by (auto simp: chmod_main_def strlen_def octal_def not_le)
qed

end
