(* ===== verification/Utils.thy ===== *)
theory Utils
  imports UserSys Grep
begin

text \<open>
  The file utilities: \<open>cat.c\<close>, \<open>wc.c\<close>, \<open>echo.c\<close>, \<open>kill.c\<close>, \<open>ln.c\<close>, \<open>mkdir.c\<close>, \<open>rm.c\<close>, \<open>ls.c\<close>, \<open>zombie.c\<close> and
  the loops of \<open>grep.c\<close> around its matcher, as programs over system calls. The data of the reply to a \<open>read\<close> are
  the bytes it put into the buffer.
\<close>

section \<open>Loops over the arguments\<close>

text \<open>\<open>for(i = 1; i < argc; i++)\<close> with a body that tells whether to go on.\<close>

fun for_args :: "('a \<Rightarrow> bool prog) \<Rightarrow> 'a list \<Rightarrow> unit prog" where
  "for_args body [] = uret ()"
| "for_args body (a # as) = ubind (body a) (\<lambda>go. if go then for_args body as else uret ())"

section \<open>cat\<close>

definition cat_round :: "int \<Rightarrow> (unit + int) prog" where
  "cat_round fd =
     ubind (usys (Read fd 512)) (\<lambda>n.
     if rval n > 0 then
       ubind (usys (Write 1 (rdata n))) (\<lambda>w.
       if rval w \<noteq> rval n then ubind (uprintf 1 ''cat: write error\<newline>'' []) (\<lambda>_. uexit) else uret (Inl ()))
     else uret (Inr (rval n)))"

definition cat :: "int \<Rightarrow> unit prog" where
  "cat fd =
     ubind (uloop (\<lambda>_. cat_round fd) ()) (\<lambda>n.
     if n < 0 then ubind (uprintf 1 ''cat: read error\<newline>'' []) (\<lambda>_. uexit) else uret ())"

text \<open>Each file named by an argument is opened, worked on and closed; without arguments it is the standard input.\<close>

definition each_file :: "string \<Rightarrow> (int \<Rightarrow> cstring \<Rightarrow> unit prog) \<Rightarrow> cstring list \<Rightarrow> unit prog" where
  "each_file cannot_open work names =
     ubind (for_args (\<lambda>name.
       ubind (usys (Open name 0)) (\<lambda>fd.
       if rval fd < 0 then ubind (uprintf 1 cannot_open [AStr name]) (\<lambda>_. uexit)
       else ubind (work (rval fd) name) (\<lambda>_. ubind (usys (Close (rval fd))) (\<lambda>_. uret True)))) names) (\<lambda>_. uexit)"

definition cat_main :: "cstring list \<Rightarrow> unit prog" where
  "cat_main argv =
     (if length argv \<le> 1 then ubind (cat 0) (\<lambda>_. uexit)
      else each_file ''cat: cannot open %s\<newline>'' (\<lambda>fd _. cat fd) (tl argv))"

section \<open>wc\<close>

record counts =
  lines :: u32
  wrds :: u32
  chars :: u32
  inword :: bool

definition wc_byte :: "u8 \<Rightarrow> counts \<Rightarrow> counts" where
  "wc_byte b k =
     (let k = k\<lparr>chars := chars k + 1\<rparr>;
          k = (if b = 10 then k\<lparr>lines := lines k + 1\<rparr> else k)
      in if strchr [32, 13, 9, 10, 11] b \<noteq> None then k\<lparr>inword := False\<rparr>
         else if \<not> inword k then k\<lparr>wrds := wrds k + 1, inword := True\<rparr> else k)"

definition wc_round :: "int \<Rightarrow> counts \<Rightarrow> (counts + int \<times> counts) prog" where
  "wc_round fd k =
     ubind (usys (Read fd 512)) (\<lambda>n.
     if rval n > 0 then uret (Inl (fold wc_byte (rdata n) k)) else uret (Inr (rval n, k)))"

definition wc :: "int \<Rightarrow> cstring \<Rightarrow> unit prog" where
  "wc fd name =
     ubind (uloop (wc_round fd) \<lparr>lines = 0, wrds = 0, chars = 0, inword = False\<rparr>) (\<lambda>(n, k).
     if n < 0 then ubind (uprintf 1 ''wc: read error\<newline>'' []) (\<lambda>_. uexit)
     else uprintf 1 ''%d %d %d %s\<newline>'' [AInt (lines k), AInt (wrds k), AInt (chars k), AStr name])"

definition wc_main :: "cstring list \<Rightarrow> unit prog" where
  "wc_main argv =
     (if length argv \<le> 1 then ubind (wc 0 []) (\<lambda>_. uexit)
      else each_file ''wc: cannot open %s\<newline>'' wc (tl argv))"

section \<open>grep\<close>

function ugrep_lines :: "cstring \<Rightarrow> u8 list \<Rightarrow> u8 list prog" where
  "ugrep_lines pattern b =
     (case strchr b newline of None \<Rightarrow> uret b
      | Some k \<Rightarrow>
          ubind (if match pattern (take k b) then ubind (usys (Write 1 (take (Suc k) b))) (\<lambda>_. uret ()) else uret ()) (\<lambda>_.
          ugrep_lines pattern (drop (Suc k) b)))"
  by pat_completeness auto
termination by (relation "measure (\<lambda>(_, b). length b)") (auto dest: strchr_less)

declare ugrep_lines.simps [simp del]

definition ugrep_round :: "cstring \<Rightarrow> int \<Rightarrow> u8 list \<Rightarrow> (u8 list + unit) prog" where
  "ugrep_round pattern fd carry =
     ubind (usys (Read fd (1024 - length carry - 1))) (\<lambda>n.
     if rval n > 0 then
       let b = carry @ rdata n in
       ubind (ugrep_lines pattern b) (\<lambda>rest. uret (Inl (if length rest = length b then [] else rest)))
     else uret (Inr ()))"

definition ugrep :: "cstring \<Rightarrow> int \<Rightarrow> unit prog" where
  "ugrep pattern fd = uloop (ugrep_round pattern fd) []"

definition grep_main :: "cstring list \<Rightarrow> unit prog" where
  "grep_main argv =
     (if length argv \<le> 1 then ubind (uprintf 2 ''usage: grep pattern [file ...]\<newline>'' []) (\<lambda>_. uexit)
      else if length argv \<le> 2 then ubind (ugrep (argv ! 1) 0) (\<lambda>_. uexit)
      else each_file ''grep: cannot open %s\<newline>'' (\<lambda>fd _. ugrep (argv ! 1) fd) (drop 2 argv))"

section \<open>echo, kill, ln, mkdir, rm and zombie\<close>

fun echo_args :: "cstring list \<Rightarrow> unit prog" where
  "echo_args [] = uret ()"
| "echo_args (a # as) =
     ubind (uprintf 1 ''%s%s'' [AStr a, AStr (if as \<noteq> [] then [32] else [10])]) (\<lambda>_. echo_args as)"

definition echo_main :: "cstring list \<Rightarrow> unit prog" where
  "echo_main argv = ubind (echo_args (tl argv)) (\<lambda>_. uexit)"

definition kill_main :: "cstring list \<Rightarrow> unit prog" where
  "kill_main argv =
     (if length argv < 2 then ubind (uprintf 2 ''usage: kill pid...\<newline>'' []) (\<lambda>_. uexit)
      else ubind (for_args (\<lambda>a. ubind (usys (Kill (sint (atoi a)))) (\<lambda>_. uret True)) (tl argv)) (\<lambda>_. uexit))"

definition ln_main :: "cstring list \<Rightarrow> unit prog" where
  "ln_main argv =
     (if length argv \<noteq> 3 then ubind (uprintf 2 ''Usage: ln old new\<newline>'' []) (\<lambda>_. uexit)
      else ubind (usys (Link (argv ! 1) (argv ! 2))) (\<lambda>r.
           ubind (if rval r < 0 then uprintf 2 ''link %s %s: failed\<newline>'' [AStr (argv ! 1), AStr (argv ! 2)] else uret ()) (\<lambda>_.
           uexit)))"

definition mkdir_main :: "cstring list \<Rightarrow> unit prog" where
  "mkdir_main argv =
     (if length argv < 2 then ubind (uprintf 2 ''Usage: mkdir files...\<newline>'' []) (\<lambda>_. uexit)
      else ubind (for_args (\<lambda>a. ubind (usys (Mkdir a)) (\<lambda>r.
             if rval r < 0 then ubind (uprintf 2 ''mkdir: %s failed to create\<newline>'' [AStr a]) (\<lambda>_. uret False)
             else uret True)) (tl argv)) (\<lambda>_. uexit))"

definition rm_main :: "cstring list \<Rightarrow> unit prog" where
  "rm_main argv =
     (if length argv < 2 then ubind (uprintf 2 ''Usage: rm files...\<newline>'' []) (\<lambda>_. uexit)
      else ubind (for_args (\<lambda>a. ubind (usys (Unlink a)) (\<lambda>r.
             if rval r < 0 then ubind (uprintf 2 ''rm: %s failed to delete\<newline>'' [AStr a]) (\<lambda>_. uret False)
             else uret True)) (tl argv)) (\<lambda>_. uexit))"

definition zombie_main :: "unit prog" where
  "zombie_main = ubind (usys Fork) (\<lambda>r. ubind (if rval r > 0 then ubind (usys (Sleep 5)) (\<lambda>_. uret ()) else uret ()) (\<lambda>_. uexit))"

section \<open>ls\<close>

definition fmtname :: "cstring \<Rightarrow> cstring" where
  "fmtname path =
     (let p = rev (takeWhile (\<lambda>c. c \<noteq> slash) (rev path))
      in if length p \<ge> DIRSIZ then p else p @ replicate (DIRSIZ - length p) 32)"

definition auth_bit :: "u32 \<Rightarrow> u32 \<Rightarrow> u8 \<Rightarrow> u8" where
  "auth_bit mode m c = (if and mode m \<noteq> 0 then c else 45)"

definition auth :: "u16 \<Rightarrow> u32 \<Rightarrow> cstring prog" where
  "auth ty mode =
     (if ty = T_DIR \<or> ty = T_FILE \<or> ty = T_DEV then
        uret [if ty = T_DIR then 100 else if ty = T_FILE then 45 else 99,
              auth_bit mode MODE_RUSR 114, auth_bit mode MODE_WUSR 119, auth_bit mode MODE_XUSR 120,
              auth_bit mode MODE_ROTH 114, auth_bit mode MODE_WOTH 119, auth_bit mode MODE_XOTH 120]
      else ubind (uprintf 2 ''ls: unknown file type\<newline>'' []) (\<lambda>_. uexit))"

text \<open>The fields of the \<open>struct stat\<close>; as a string \<open>userid\<close> ends at the first NUL.\<close>

definition st_type :: "u8 list \<Rightarrow> u16" where "st_type st = load16 (\<lambda>i. st ! i) 0"
definition st_ino :: "u8 list \<Rightarrow> u32" where "st_ino st = load32 (\<lambda>i. st ! i) 8"
definition st_size :: "u8 list \<Rightarrow> u32" where "st_size st = load32 (\<lambda>i. st ! i) 16"
definition st_userid :: "u8 list \<Rightarrow> cstring" where "st_userid st = takeWhile (\<lambda>c. c \<noteq> 0) (drop 20 st)"
definition st_mode :: "u8 list \<Rightarrow> u32" where "st_mode st = load32 (\<lambda>i. st ! i) 36"

definition ls_entry :: "cstring \<Rightarrow> u8 list \<Rightarrow> unit prog" where
  "ls_entry path st =
     ubind (auth (st_type st) (st_mode st)) (\<lambda>res.
     uprintf 1 ''%s %s %s %d %d\<newline>'' [AStr (fmtname path), AStr (st_userid st), AStr res, AInt (st_ino st), AInt (st_size st)])"

definition ls_round :: "int \<Rightarrow> cstring \<Rightarrow> (unit + unit) prog" where
  "ls_round fd path =
     ubind (usys (Read fd 16)) (\<lambda>n.
     if rval n \<noteq> 16 then uret (Inr ())
     else if de_inum (rdata n) = 0 then uret (Inl ())
     else let buf = path @ slash # de_name (rdata n) in
       ubind (ustat buf) (\<lambda>(r, st).
       if r < 0 then ubind (uprintf 1 ''ls: cannot stat %s\<newline>'' [AStr buf]) (\<lambda>_. uret (Inl ()))
       else ubind (ls_entry buf st) (\<lambda>_. uret (Inl ()))))"

definition ls :: "cstring \<Rightarrow> unit prog" where
  "ls path =
     ubind (usys (Open path 0)) (\<lambda>fd.
     if rval fd < 0 then uprintf 2 ''ls: cannot open %s\<newline>'' [AStr path]
     else ubind (usys (Fstat (rval fd))) (\<lambda>r.
     if rval r < 0 then
       ubind (uprintf 2 ''ls: cannot stat %s\<newline>'' [AStr path]) (\<lambda>_. ubind (usys (Close (rval fd))) (\<lambda>_. uret ()))
     else ubind
       (if st_type (rdata r) = T_FILE then ls_entry path (rdata r)
        else if st_type (rdata r) = T_DIR then
          (if length path + 1 + DIRSIZ + 1 > 512 then uprintf 1 ''ls: path too long\<newline>'' []
           else uloop (\<lambda>_. ls_round (rval fd) path) ())
        else uret ()) (\<lambda>_.
       ubind (usys (Close (rval fd))) (\<lambda>_. uret ()))))"

definition ls_main :: "cstring list \<Rightarrow> unit prog" where
  "ls_main argv =
     (if length argv < 2 then ubind (ls (str ''.'')) (\<lambda>_. uexit)
      else ubind (for_args (\<lambda>a. ubind (ls a) (\<lambda>_. uret True)) (tl argv)) (\<lambda>_. uexit))"

section \<open>Copying\<close>

text \<open>What the calls of a run write to the standard output, and what its reads returned.\<close>

definition written_to :: "int \<Rightarrow> call list \<Rightarrow> u8 list" where
  "written_to fd cs = concat (map (\<lambda>c. case c of Write f bs \<Rightarrow> if f = fd then bs else [] | _ \<Rightarrow> []) cs)"

definition data_read :: "int \<Rightarrow> call list \<Rightarrow> reply list \<Rightarrow> u8 list" where
  "data_read fd cs rs =
     concat (map2 (\<lambda>c r. case c of Read f n \<Rightarrow> if f = fd \<and> rval r > 0 then rdata r else [] | _ \<Rightarrow> []) cs rs)"

lemma written_to_append [simp]: "written_to fd (cs @ cs') = written_to fd cs @ written_to fd cs'"
  by (simp add: written_to_def)

lemma data_read_append: "length pre = length cs \<Longrightarrow> data_read fd (cs @ cs') (pre @ rs) = data_read fd cs pre @ data_read fd cs' rs"
  by (simp add: data_read_def)

lemma tame_cat_round [simp]: "tame (cat_round fd)"
  by (simp add: cat_round_def)

lemma cat_round_Val:
  assumes "cat_round fd rs = (cs, Val x rs')"
  obtains r w where "rs = r # w # rs'" "cs = [Read fd 512, Write 1 (rdata r)]" "x = Inl ()" "rval r > 0" "rval w = rval r"
  | r where "rs = r # rs'" "cs = [Read fd 512]" "x = Inr (rval r)" "rval r \<le> 0"
  using assms by (cases rs; cases "tl rs")
    (auto simp: cat_round_def uret_def uexit_def ubind_def [of "uprintf 1 _ _"] split: if_splits prod.splits out.splits)

lemma cat_loop_copies:
  "uloop (\<lambda>_. cat_round fd) u rs = (cs, Val n rs') \<Longrightarrow> written_to 1 cs = data_read fd cs rs"
proof (induction u rs arbitrary: cs rule: uloop_induct [where body = "\<lambda>_. cat_round fd"])
  case (1 u rs)
  obtain cs1 x rs1 where b: "cat_round fd rs = (cs1, Val x rs1)"
    using "1.prems" by (subst (asm) uloop.simps) (auto split: out.splits prod.splits)
  from b show ?case
  proof (cases rule: cat_round_Val)
    case (1 r w)
    note c = this
    have b': "cat_round fd rs = (cs1, Val (Inl ()) rs1)" using b c by simp
    have l: "length rs1 < length rs" using c by simp
    note u = uloop_again [of "\<lambda>_. cat_round fd", OF b' l]
    obtain cs2 where c2: "uloop (\<lambda>_. cat_round fd) () rs1 = (cs2, Val n rs')" "cs = cs1 @ cs2"
      using "1.prems" u by (cases "uloop (\<lambda>_. cat_round fd) () rs1") auto
    from "1.IH" [OF b' l] c2 have "written_to 1 cs2 = data_read fd cs2 rs1" by simp
    then show ?thesis using c c2(2) data_read_append [of "[r, w]" cs1 fd cs2 rs1] by (simp add: written_to_def data_read_def)
  next
    case (2 r)
    then have "cs = cs1" using "1.prems" uloop_stop(2) [of "\<lambda>_. cat_round fd" u rs cs1] b by auto
    then show ?thesis using 2 by (simp add: written_to_def data_read_def)
  qed
qed

text \<open>when \<open>cat\<close> returns it has written to the standard output exactly the bytes that its reads returned, in
  their order: every other course, a failed read or a short write, ends the program.\<close>

theorem cat_copies_all:
  assumes "cat fd rs = (cs, Val u rs')"
  shows "written_to 1 cs = data_read fd cs rs"
proof -
  obtain n where "uloop (\<lambda>_. cat_round fd) () rs = (cs, Val n rs')"
    using assms unfolding cat_def ubind_eq_Val by (auto simp: ubind_eq_Val uexit_def uret_def split: if_splits)
  then show ?thesis by (rule cat_loop_copies)
qed

section \<open>Printing the matching lines\<close>









section \<open>Counting\<close>

definition space :: "u8 \<Rightarrow> bool" where
  "space c \<longleftrightarrow> c \<in> {32, 13, 9, 10, 11}"

text \<open>The places where a word begins.\<close>

definition word_starts :: "u8 list \<Rightarrow> nat" where
  "word_starts t = card {i. i < length t \<and> \<not> space (t ! i) \<and> (i = 0 \<or> space (t ! (i - 1)))}"

lemma word_starts_snoc:
  "word_starts (t @ [b]) = word_starts t + (if \<not> space b \<and> (t = [] \<or> space (last t)) then 1 else 0)"
proof -
  let ?S = "\<lambda>t. {i. i < length t \<and> \<not> space (t ! i) \<and> (i = 0 \<or> space (t ! (i - 1)))}"
  have "?S (t @ [b]) = ?S t \<union> (if \<not> space b \<and> (t = [] \<or> space (last t)) then {length t} else {})"
  proof (cases "t = []")
    case False
    then have "last t = t ! (length t - 1)" "length t - 1 < length t" by (simp_all add: last_conv_nth)
    then show ?thesis using False by (auto simp: nth_append less_Suc_eq split: if_splits)
  qed auto
  moreover have "finite (?S t)" "length t \<notin> ?S t" by auto
  ultimately show ?thesis by (simp add: word_starts_def)
qed

lemma strchr_None: "strchr s c = None \<longleftrightarrow> c \<notin> set (takeWhile (\<lambda>x. x \<noteq> 0) s)"
  unfolding strchr_def first_idx_None by (auto simp: in_set_conv_nth takeWhile_nth)

lemma strchr_space: "strchr [32, 13, 9, 10, 11] b = None \<longleftrightarrow> \<not> space b"
  by (simp add: strchr_None space_def)

lemma wc_byte_step:
  "wc_byte b \<lparr>lines = l, wrds = w, chars = c, inword = i\<rparr> =
     \<lparr>lines = l + (if b = 10 then 1 else 0), wrds = w + (if \<not> space b \<and> \<not> i then 1 else 0), chars = c + 1, inword = (\<not> space b)\<rparr>"
  by (cases "b = 10") (simp_all add: wc_byte_def strchr_space space_def Let_def)

lemma count_list_snoc: "count_list (t @ [b]) x = count_list t x + (if b = x then 1 else 0)"
  by (induction t) auto

lemma fold_wc:
  "fold wc_byte t \<lparr>lines = 0, wrds = 0, chars = 0, inword = False\<rparr> =
     \<lparr>lines = of_nat (count_list t 10), wrds = of_nat (word_starts t), chars = of_nat (length t), inword = (t \<noteq> [] \<and> \<not> space (last t))\<rparr>"
proof (induction t rule: rev_induct)
  case Nil
  then show ?case by (simp add: word_starts_def)
next
  case (snoc b t)
  then show ?case by (auto simp: wc_byte_step word_starts_snoc count_list_snoc)
qed

definition file_reads :: "u8 list list \<Rightarrow> reply list" where
  "file_reads chunks = map (\<lambda>b. \<lparr>rval = int (length b), rdata = b, rfds = (0, 0)\<rparr>) chunks @ [answer 0]"

lemma wc_loop_run:
  assumes "list_all (\<lambda>b. b \<noteq> []) chunks"
  shows "uloop (wc_round fd) k (file_reads chunks @ rs) =
    (replicate (length chunks + 1) (Read fd 512), Val (0, fold wc_byte (concat chunks) k) rs)"
  using assms
proof (induction chunks arbitrary: k)
  case Nil
  have "wc_round fd k (file_reads [] @ rs) = ([Read fd 512], Val (Inr (0, k)) rs)" by (simp add: wc_round_def file_reads_def uret_def)
  from uloop_stop(2) [of "wc_round fd", OF this] show ?case by simp
next
  case (Cons b chunks)
  have "wc_round fd k (file_reads (b # chunks) @ rs) = ([Read fd 512], Val (Inl (fold wc_byte b k)) (file_reads chunks @ rs))"
    using Cons.prems by (simp add: wc_round_def file_reads_def uret_def)
  from uloop_again [of "wc_round fd", OF this] Cons show ?case by (simp add: file_reads_def)
qed

text \<open>C29: \<open>wc\<close> prints the numbers of newlines, of words and of bytes of the whole file, modulo \<open>2^32\<close>, however its contents are cut
  into the results of the reads: a word that is cut in two is counted once.\<close>

theorem wc_counts:
  assumes "list_all (\<lambda>b. b \<noteq> []) chunks"
  shows "wc fd name (file_reads chunks @ rs) =
    (let t = concat chunks;
         (cs, v) = uprintf 1 ''%d %d %d %s\<newline>''
           [AInt (of_nat (count_list t 10)), AInt (of_nat (word_starts t)), AInt (of_nat (length t)), AStr name] rs
     in (replicate (length chunks + 1) (Read fd 512) @ cs, v))"
proof -
  note run = ubind_run [of "uloop (wc_round fd) \<lparr>lines = 0, wrds = 0, chars = 0, inword = False\<rparr>", OF wc_loop_run [OF assms]]
  show ?thesis unfolding wc_def run fold_wc by (simp add: case_prod_beta Let_def)
qed

section \<open>What \<open>ls\<close> shows\<close>

lemma auth_bit_iff: "c \<noteq> 45 \<Longrightarrow> auth_bit m (2 ^ n) c = auth_bit m' (2 ^ n) c \<longleftrightarrow> bit m n = bit m' n"
  by (auto simp: auth_bit_def and_exp_eq_0_iff_not_bit)

text \<open>The permissions \<open>ls\<close> shows are those of the six bits of the mode: two files of a type show the same exactly
  when these bits agree.\<close>

lemma auth_shows_mode:
  assumes "ty = T_DIR \<or> ty = T_FILE \<or> ty = T_DEV"
  shows "auth ty m rs = auth ty m' rs \<longleftrightarrow> take_bit 6 m = take_bit 6 m'"
proof -
  have in6: "bit (take_bit 6 x) n = (n < 6 \<and> bit x n)" for x :: u32 and n by (simp add: bit_take_bit_iff)
  have "take_bit 6 m = take_bit 6 m' \<longleftrightarrow> (\<forall>n<6. bit m n = bit m' n)"
  proof
    assume "take_bit 6 m = take_bit 6 m'"
    then show "\<forall>n<6. bit m n = bit m' n" using in6 [of m] in6 [of m'] by auto
  next
    assume "\<forall>n<6. bit m n = bit m' n"
    then show "take_bit 6 m = take_bit 6 m'" by (intro bit_eqI) (auto simp: in6)
  qed
  also have "\<dots> \<longleftrightarrow> (bit m 5 = bit m' 5 \<and> bit m 4 = bit m' 4 \<and> bit m 3 = bit m' 3 \<and> bit m 2 = bit m' 2 \<and> bit m (Suc 0) = bit m' (Suc 0) \<and> bit m 0 = bit m' 0)"
    by (simp only: numeral_eq_Suc pred_numeral_simps All_less_Suc) (simp add: numeral_eq_Suc All_less_Suc)
  also have "\<dots> \<longleftrightarrow> auth ty m rs = auth ty m' rs"
    using assms unfolding auth_bit_iff [of 114 m 5 m', symmetric, simplified] auth_bit_iff [of 119 m 4 m', symmetric, simplified]
      auth_bit_iff [of 120 m 3 m', symmetric, simplified] auth_bit_iff [of 114 m 2 m', symmetric, simplified]
      auth_bit_iff [of 119 m 1 m', symmetric, simplified] auth_bit_iff [of 120 m 0 m', symmetric, simplified]
    by (simp add: auth_def uret_def MODE_RUSR_def MODE_WUSR_def MODE_XUSR_def MODE_ROTH_def MODE_WOTH_def MODE_XOTH_def)
  finally show ?thesis by simp
qed

text \<open>The name of a directory entry is shown padded to \<open>DIRSIZ\<close> columns, whatever the path before it.\<close>

lemma fmtname_entry:
  assumes "slash \<notin> set name" "length name \<le> DIRSIZ"
  shows "fmtname (path @ slash # name) = name @ replicate (DIRSIZ - length name) 32"
proof -
  have "takeWhile (\<lambda>c. c \<noteq> slash) (rev (path @ slash # name)) = rev name"
    using assms(1) by (simp add: takeWhile_append2) (metis (mono_tags) takeWhile_append2 append_Nil2 set_rev takeWhile.simps(2))
  then show ?thesis using assms(2) by (simp add: fmtname_def)
qed

section \<open>Witnesses\<close>

theorem cat_copies_all_witness:
  "written_to 1 (fst (cat 3 [\<lparr>rval = 2, rdata = [104, 105], rfds = (0, 0)\<rparr>, answer 2, answer 0])) = [104, 105]"
proof -
  let ?rs = "[\<lparr>rval = 2, rdata = [104, 105], rfds = (0, 0)\<rparr>, answer 2, answer 0]"
  have "cat 3 ?rs = ([Read 3 512, Write 1 [104, 105], Read 3 512], Val () [])" by code_simp
  then show ?thesis using cat_copies_all [of 3 ?rs "[Read 3 512, Write 1 [104, 105], Read 3 512]" "()" "[]"]
    by (simp add: data_read_def)
qed


theorem wc_counts_witness:
  "wc 3 (str ''f'') (file_reads [[97, 32, 98], [99, 10]] @ []) =
     (let (cs, v) = uprintf 1 ''%d %d %d %s\<newline>'' [AInt 1, AInt 2, AInt 5, AStr (str ''f'')] [] in (replicate 3 (Read 3 512) @ cs, v))"
proof -
  have "of_nat (word_starts [97, 32, 98, 99, 10]) = (2 :: u32)"
    using fold_wc [of "[97, 32, 98, 99, 10]"] by (simp add: wc_byte_step space_def)
  then show ?thesis using wc_counts [of "[[97, 32, 98], [99, 10]]" 3 "str ''f''" "[]"] by (simp add: Let_def numeral_3_eq_3)
qed

end
