(* ===== verification/Pmanager.thy ===== *)
theory Pmanager
  imports UserSys
begin

text \<open>
  The process manager of Project 2, \<open>pmanager.c\<close>: its tokeniser, the parser of its commands and the loop that runs them.
  A token is the string that ends at the NUL the tokeniser writes; the static pointer \<open>_buffer\<close> is the rest of the line.
\<close>

section \<open>Commands\<close>

datatype pm_cmd = PM_LIST | PM_KILL u32 | PM_EXEC cstring u32 | PM_MLIM u32 u32 | PM_EXIT

definition PM_MAXARGS :: nat where "PM_MAXARGS = 3"

definition password :: cstring where "password = str ''2016024875''"

text \<open>
  \<open>strtok1\<close> gives the token and the new value of \<open>_buffer\<close>. Leading delimiters move \<open>_buffer\<close> along; when no delimiter follows
  the token, \<open>_buffer\<close> stays at its start.
\<close>

definition strtok1 :: "cstring \<Rightarrow> u8 list \<Rightarrow> (cstring \<times> cstring) option" where
  "strtok1 buf delim =
     (if buf = [] then None
      else let ret = dropWhile (\<lambda>c. c \<in> set delim) buf;
               tok = takeWhile (\<lambda>c. c \<notin> set delim) ret;
               rest = drop (length tok) ret
           in Some (tok, if rest = [] then ret else tl rest))"

text \<open>The loop of \<open>parseline\<close>: at most \<open>n\<close> tokens.\<close>

fun pm_parseline :: "nat \<Rightarrow> cstring \<Rightarrow> cstring list" where
  "pm_parseline 0 buf = []"
| "pm_parseline (Suc n) buf =
     (case strtok1 buf [32] of None \<Rightarrow> [] | Some (tok, rest) \<Rightarrow> tok # pm_parseline n rest)"

definition pm_arg :: "cstring list \<Rightarrow> nat \<Rightarrow> cstring option" where
  "pm_arg arg i = (if i < length arg then Some (arg ! i) else None)"

text \<open>The check that an argument has digits only begins with \<open>strlen(arg[i])\<close>, a read through the null pointer when there is no such argument.\<close>

datatype 'a parse = Accept 'a | Reject | NullDeref

definition numeric :: "cstring option \<Rightarrow> (cstring \<Rightarrow> 'a parse) \<Rightarrow> 'a parse" where
  "numeric a f =
     (case a of None \<Rightarrow> NullDeref
      | Some w \<Rightarrow> if list_all (\<lambda>c. 48 \<le> c \<and> c \<le> 57) w then f w else Reject)"

definition pm_parsecmd :: "cstring \<Rightarrow> pm_cmd parse" where
  "pm_parsecmd s =
     (let arg = pm_parseline (PM_MAXARGS + 1) (butlast s @ [32]);
          name = (case pm_arg arg 0 of None \<Rightarrow> [] | Some w \<Rightarrow> w)
      in if pm_arg arg 0 = None then NullDeref
         else if name = str ''list'' then (if pm_arg arg 1 \<noteq> None then Reject else Accept PM_LIST)
         else if name = str ''kill'' then
           (if pm_arg arg 2 \<noteq> None then Reject
            else numeric (pm_arg arg 1) (\<lambda>pid. Accept (PM_KILL (atoi pid))))
         else if name = str ''execute'' then
           (if pm_arg arg 3 \<noteq> None then Reject
            else numeric (pm_arg arg 2) (\<lambda>stacksize. Accept (PM_EXEC (arg ! 1) (atoi stacksize))))
         else if name = str ''memlim'' then
           (if pm_arg arg 3 \<noteq> None then Reject
            else numeric (pm_arg arg 1) (\<lambda>pid. numeric (pm_arg arg 2) (\<lambda>limit. Accept (PM_MLIM (atoi pid) (atoi limit)))))
         else if name = str ''exit'' then (if pm_arg arg 1 \<noteq> None then Reject else Accept PM_EXIT)
         else Reject)"

section \<open>Running them\<close>

text \<open>\<open>child.pid[0]\<close> to \<open>child.pid[child.head]\<close> as a list.\<close>

fun kill_children :: "int list \<Rightarrow> unit prog" where
  "kill_children [] = uret ()"
| "kill_children (pid # pids) = ubind (usys (Kill pid)) (\<lambda>_. ubind (usys Wait) (\<lambda>_. kill_children pids))"

definition pm_runcmd :: "int list \<Rightarrow> pm_cmd \<Rightarrow> int prog" where
  "pm_runcmd child cmd =
     (case cmd of
        PM_LIST \<Rightarrow> ubind (usys Printproclist) (\<lambda>_. uret 0)
      | PM_KILL pid \<Rightarrow>
          ubind (usys (Kill (sint pid))) (\<lambda>r.
          ubind (if rval r = 0 \<and> sint pid > 0 then uprintf 1 ''Successfully killed PID %d.\<newline>'' [AInt pid]
                 else uprintf 1 ''Failed to kill PID %d.\<newline>'' [AInt pid]) (\<lambda>_. uret 0))
      | PM_EXEC path stacksize \<Rightarrow>
          ubind fork1 (\<lambda>ret.
          if ret = 0 then
            ubind (usys (Getadmin password)) (\<lambda>g.
            if rval g \<noteq> 0 then upanic ''getadmin in execute cmd''
            else ubind (usys (Exec2 path [path] stacksize)) (\<lambda>e.
                 ubind (if rval e = -1 then uprintf 2 ''Failed to execute '%s'.\<newline>'' [AStr path] else uret ()) (\<lambda>_. uret ret)))
          else uret ret)
      | PM_MLIM pid limit \<Rightarrow>
          ubind (usys (Setmemorylimit pid limit)) (\<lambda>r.
          ubind (if rval r = 0 then uprintf 1 ''Successfully set the memory limit of PID %d.\<newline>'' [AInt pid]
                 else uprintf 1 ''Failed to set the memory limit of PID %d.\<newline>'' [AInt pid]) (\<lambda>_. uret 0))
      | PM_EXIT \<Rightarrow> ubind (kill_children child) (\<lambda>_. uexit))"

text \<open>A new child is recorded; the array has 100 entries.\<close>

definition record_child :: "int list \<Rightarrow> int \<Rightarrow> int list prog" where
  "record_child child ret =
     (if ret > 0 \<and> ret \<notin> set child then if length child < 100 then uret (child @ [ret]) else ucrash
      else uret child)"

definition pm_round :: "int list \<Rightarrow> (int list + unit) prog" where
  "pm_round child =
     ubind (getcmd ''> '') (\<lambda>l.
     case l of None \<Rightarrow> uret (Inr ())
     | Some buf \<Rightarrow>
         (case pm_parsecmd (as_cstr buf) of
            Accept cmd \<Rightarrow> ubind (pm_runcmd child cmd) (\<lambda>ret. ubind (record_child child ret) (\<lambda>child. uret (Inl child)))
          | Reject \<Rightarrow> ubind (uprintf 1 ''Wrong input! Try again!\<newline>'' []) (\<lambda>_. uret (Inl child))
          | NullDeref \<Rightarrow> ucrash))"

definition pm_main :: "unit prog" where
  "pm_main =
     ubind (uloop (\<lambda>_. open_three) ()) (\<lambda>fd.
     ubind (usys (Getadmin password)) (\<lambda>g.
     if rval g \<noteq> 0 then ubind (usys (Close fd)) (\<lambda>_. upanic ''getadmin'')
     else ubind (uloop pm_round []) (\<lambda>_. uexit)))"

section \<open>Commands are read as they are written\<close>

text \<open>The decimal notation of a number, and the words of a command.\<close>

definition decimal :: "u32 \<Rightarrow> cstring" where
  "decimal w = rev (the (fill_digits 16 (str ''0123456789ABCDEF'') 10 w))"

fun pm_words :: "pm_cmd \<Rightarrow> cstring list" where
  "pm_words PM_LIST = [str ''list'']"
| "pm_words (PM_KILL pid) = [str ''kill'', decimal pid]"
| "pm_words (PM_EXEC path n) = [str ''execute'', path, decimal n]"
| "pm_words (PM_MLIM pid limit) = [str ''memlim'', decimal pid, decimal limit]"
| "pm_words PM_EXIT = [str ''exit'']"

text \<open>Words with blanks before them.\<close>

fun spaced :: "nat list \<Rightarrow> cstring list \<Rightarrow> cstring" where
  "spaced (k # ks) (w # ws) = replicate k 32 @ w @ spaced ks ws"
| "spaced _ _ = []"

definition pm_word :: "cstring \<Rightarrow> bool" where
  "pm_word w \<longleftrightarrow> w \<noteq> [] \<and> 32 \<notin> set w"

lemma decimal_reads: "list_all is_digit (decimal w)" "decimal w \<noteq> []" "atoi (decimal w) = w"
proof -
  obtain buf where buf: "fill_digits 16 (str ''0123456789ABCDEF'') 10 w = Some buf" "buf \<noteq> []" using fill_digits_10 by blast
  with atoi_fill_digits [OF kernel_and_user_digits(1) buf(1)] show "list_all is_digit (decimal w)" "decimal w \<noteq> []" "atoi (decimal w) = w"
    by (simp_all add: decimal_def atoi_def)
qed

lemma pm_word_decimal [simp]: "pm_word (decimal w)"
  using decimal_reads [of w] by (auto simp: pm_word_def is_digit_def list_all_iff)

lemma strtok1_word:
  assumes "pm_word w"
  shows "strtok1 (replicate k 32 @ w @ 32 # rest) [32] = Some (w, rest)"
proof -
  have d: "dropWhile (\<lambda>c. c \<in> set [32]) (replicate k 32 @ w @ 32 # rest) = w @ 32 # rest"
    using assms by (cases w) (auto simp: pm_word_def dropWhile_append)
  have "takeWhile (\<lambda>c. c \<notin> set [32]) (w @ 32 # rest) = w"
    using assms by (subst takeWhile_append2) (auto simp: pm_word_def)
  with d show ?thesis by (simp add: strtok1_def Let_def)
qed

lemma spaced_step:
  assumes "length ks = length ws" "list_all (\<lambda>k. 0 < k) ks"
  obtains rest where "spaced ks ws @ [32] = 32 # rest" "ws = [] \<and> rest = [] \<or>
    (\<exists>k ks'. ks = k # ks' \<and> rest = spaced ((k - 1) # ks') ws @ [32])"
proof (cases ws)
  case (Cons w ws')
  then obtain k ks' where "ks = Suc k # ks'" using assms by (cases ks; cases "hd ks") auto
  then show ?thesis using that [of "spaced (k # ks') ws @ [32]"] Cons by auto
qed (use that in auto)

lemma pm_parseline_words:
  "length ks = length ws \<Longrightarrow> list_all (\<lambda>k. 0 < k) (tl ks) \<Longrightarrow> list_all pm_word ws \<Longrightarrow> ws \<noteq> [] \<Longrightarrow> length ws \<le> n \<Longrightarrow>
     pm_parseline n (spaced ks ws @ [32]) = ws"
proof (induction n arbitrary: ks ws)
  case (Suc n)
  obtain k ks' w ws' where e: "ks = k # ks'" "ws = w # ws'" using Suc.prems(1,4) by (cases ks; cases ws) auto
  have l: "length ks' = length ws'" "list_all (\<lambda>k. 0 < k) ks'" using Suc.prems(1,2) e by auto
  from l show ?case
  proof (rule spaced_step)
    fix rest assume r: "spaced ks' ws' @ [32] = 32 # rest" "ws' = [] \<and> rest = [] \<or>
      (\<exists>k ks2. ks' = k # ks2 \<and> rest = spaced ((k - 1) # ks2) ws' @ [32])"
    have s: "strtok1 (spaced ks ws @ [32]) [32] = Some (w, rest)" using strtok1_word [of w k rest] Suc.prems(3) e r(1) by simp
    have "pm_parseline n rest = ws'"
    proof (cases "ws' = []")
      case True
      then have "rest = []" using r(2) l(1) by auto
      then show ?thesis using True by (cases n) (simp_all add: strtok1_def)
    next
      case False
      then obtain k2 ks2 where k: "ks' = k2 # ks2" "rest = spaced ((k2 - 1) # ks2) ws' @ [32]" using r(2) by blast
      then show ?thesis using Suc.IH [of "(k2 - 1) # ks2" ws'] l Suc.prems(3,5) e False by simp
    qed
    then show ?thesis using s e by simp
  qed
qed simp

text \<open>C28: the process manager reads back a command that is typed with any number of blanks before and between its words, and with
  its numbers in decimal notation.\<close>

theorem pm_parsecmd_reads:
  assumes "\<And>path n. c = PM_EXEC path n \<Longrightarrow> pm_word path" and "length ks = length (pm_words c)" and "list_all (\<lambda>k. 0 < k) (tl ks)"
  shows "pm_parsecmd (spaced ks (pm_words c) @ [10]) = Accept c"
proof -
  have w: "pm_word (str ''list'')" "pm_word (str ''kill'')" "pm_word (str ''execute'')" "pm_word (str ''memlim'')" "pm_word (str ''exit'')"
    by (simp_all add: pm_word_def str_def)
  have "list_all pm_word (pm_words c)" using assms(1) w by (cases c) simp_all
  moreover have "length (pm_words c) \<le> PM_MAXARGS + 1" "pm_words c \<noteq> []" by (cases c; simp add: PM_MAXARGS_def)+
  ultimately have p: "pm_parseline (PM_MAXARGS + 1) (spaced ks (pm_words c) @ [32]) = pm_words c"
    using assms(2,3) by (intro pm_parseline_words)
  have d: "list_all (\<lambda>c. 48 \<le> c \<and> c \<le> 57) (decimal w)" for w using decimal_reads(1) [of w] by (simp add: is_digit_def [abs_def])
  have "str ''kill'' \<noteq> str ''list''" "str ''execute'' \<noteq> str ''list''" "str ''execute'' \<noteq> str ''kill''" "str ''memlim'' \<noteq> str ''list''"
    "str ''memlim'' \<noteq> str ''kill''" "str ''memlim'' \<noteq> str ''execute''" "str ''exit'' \<noteq> str ''list''" "str ''exit'' \<noteq> str ''kill''"
    "str ''exit'' \<noteq> str ''execute''" "str ''exit'' \<noteq> str ''memlim''" by (simp_all add: str_def)
  then show ?thesis unfolding pm_parsecmd_def butlast_snoc p
    by (cases c) (simp_all add: Let_def pm_arg_def numeric_def d decimal_reads(3))
qed

section \<open>Only an administrator runs \<open>exec2\<close>\<close>

definition is_exec2 :: "call \<Rightarrow> bool" where
  "is_exec2 c \<longleftrightarrow> (case c of Exec2 path argv n \<Rightarrow> True | _ \<Rightarrow> False)"

definition admin_granted :: "call \<Rightarrow> call \<Rightarrow> reply \<Rightarrow> bool" where
  "admin_granted c g r \<longleftrightarrow> g = Getadmin password \<and> rval r = 0"

lemma is_exec2_simps [simp]:
  "\<not> is_exec2 (Read fd n)" "\<not> is_exec2 (Write fd bs)" "\<not> is_exec2 Wait" "\<not> is_exec2 (Kill pid)" "\<not> is_exec2 Fork" "\<not> is_exec2 (Close fd)"
  "\<not> is_exec2 (Open f m)" "\<not> is_exec2 (Getadmin p)" "\<not> is_exec2 (Setmemorylimit q l)" "\<not> is_exec2 Printproclist" "is_exec2 (Exec2 path argv k)"
  by (simp_all add: is_exec2_def)

abbreviation admin_only :: "'a prog \<Rightarrow> bool" where
  "admin_only \<equiv> always (guarded is_exec2 admin_granted)"

lemma no_exec2 [simp]:
  "only_calls (\<lambda>c. \<not> is_exec2 c) (kill_children pids)" "only_calls (\<lambda>c. \<not> is_exec2 c) (upanic s)"
  "only_calls (\<lambda>c. \<not> is_exec2 c) fork1" "only_calls (\<lambda>c. \<not> is_exec2 c) open_three" "only_calls (\<lambda>c. \<not> is_exec2 c) (getcmd sign)"
  "only_calls (\<lambda>c. \<not> is_exec2 c) (record_child child ret)"
proof -
  show "only_calls (\<lambda>c. \<not> is_exec2 c) (kill_children pids)" by (induction pids) simp_all
  show u: "only_calls (\<lambda>c. \<not> is_exec2 c) (upanic s)" for s by (simp add: upanic_def)
  show "only_calls (\<lambda>c. \<not> is_exec2 c) fork1" by (simp add: fork1_def u)
qed (simp_all add: open_three_def getcmd_def record_child_def)

text \<open>The child of \<open>execute\<close>, from \<open>getadmin\<close> on.\<close>

lemma exec_child_admin:
  "admin_only (ubind (usys (Getadmin password)) (\<lambda>g. if rval g \<noteq> 0 then upanic ''getadmin in execute cmd''
     else ubind (usys (Exec2 path argv n)) f))" if f: "\<And>e. only_calls (\<lambda>c. \<not> is_exec2 c) (f e)"
  unfolding always_def
proof
  fix rs
  let ?m = "ubind (usys (Getadmin password)) (\<lambda>g. if rval g \<noteq> 0 then upanic ''getadmin in execute cmd'' else ubind (usys (Exec2 path argv n)) f)"
  show "guarded is_exec2 admin_granted (fst (?m rs)) rs"
  proof (cases "\<exists>g rs'. rs = g # rs' \<and> rval g = 0")
    case True
    then obtain g rs' where g: "rs = g # rs'" "rval g = 0" by blast
    define cs where "cs = (case rs' of [] \<Rightarrow> [] | e # rs2 \<Rightarrow> fst (f e rs2))"
    have "list_all (\<lambda>c. \<not> is_exec2 c) cs" using f by (auto simp: cs_def only_calls_def split: list.splits)
    then have "guarded is_exec2 admin_granted (Getadmin password # Exec2 path argv n # cs) rs"
      unfolding g(1) using g(2) by (intro guarded_pair) (simp_all add: admin_granted_def)
    moreover have "fst (?m rs) = Getadmin password # Exec2 path argv n # cs" using g by (cases rs') (simp_all add: cs_def)
    ultimately show ?thesis by simp
  next
    case False
    have "list_all (\<lambda>c. \<not> is_exec2 c) (fst (upanic s rs'))" for s rs' using no_exec2(2) unfolding only_calls_def by blast
    then show ?thesis using False by (cases rs) (auto intro!: guarded_none)
  qed
qed

lemma tame_pm [simp]: "tame (kill_children pids)" "tame (pm_runcmd child c)" "tame (record_child child ret)" "tame (pm_round child)"
proof -
  show k: "tame (kill_children pids)" for pids by (induction pids) simp_all
  show r: "tame (pm_runcmd child c)" for child c by (cases c) (simp_all add: pm_runcmd_def k)
  show q: "tame (record_child child ret)" for child ret by (simp add: record_child_def)
  show "tame (pm_round child)" by (auto simp: pm_round_def r q split: option.split parse.split intro!: tame_bind)
qed

lemma pm_runcmd_admin: "admin_only (pm_runcmd child c)"
proof (cases c)
  case (PM_EXEC path n)
  have f: "admin_only fork1" by (rule only_guarded) simp
  show ?thesis unfolding pm_runcmd_def PM_EXEC pm_cmd.case
    by (rule gd.always_bind [OF tame_helpers(2) f]) (auto simp: gd.always_base intro!: exec_child_admin)
qed (auto simp: pm_runcmd_def intro!: only_guarded)

lemma pm_round_admin: "admin_only (pm_round child)"
proof -
  have "admin_only (getcmd sign)" for sign by (rule only_guarded) simp
  moreover have "admin_only (ubind (pm_runcmd child c) (\<lambda>ret. ubind (record_child child ret) (\<lambda>child. uret (Inl child))))" for c
    by (intro gd.always_bind tame_pm pm_runcmd_admin only_guarded) simp
  moreover have "admin_only (ubind (uprintf 1 ''Wrong input! Try again!\<newline>'' []) (\<lambda>_. uret (Inl child)))" by (rule only_guarded) simp
  ultimately show ?thesis unfolding pm_round_def
    by (intro gd.always_bind) (auto simp: gd.always_base split: option.split parse.split)
qed

text \<open>C18: in every run of the process manager, and of the children it starts, \<open>exec2\<close> is called only right after \<open>getadmin\<close> with the
  password of the administrator has succeeded in the same process.\<close>

theorem pm_exec2_needs_admin:
  assumes "pm_main rs = (cs, v)" and "i < length cs" and "cs ! i = Exec2 path argv n"
  shows "0 < i \<and> cs ! (i - 1) = Getadmin password \<and> rval (rs ! (i - 1)) = 0"
proof -
  have "admin_only (uloop (\<lambda>_. open_three) ())" "admin_only (usys (Getadmin password))" by (rule only_guarded; simp)+
  moreover have "admin_only (uloop pm_round [])" by (intro gd.always_loop tame_pm pm_round_admin)
  moreover have "admin_only (usys (Close fd))" "admin_only (upanic s)" for fd s by (rule only_guarded; simp)+
  ultimately have "admin_only pm_main"
    unfolding pm_main_def by (auto simp: gd.always_base intro!: gd.always_bind)
  then have "guarded is_exec2 admin_granted cs rs" using assms(1) unfolding always_def by (metis fst_conv)
  then show ?thesis using assms(2,3) unfolding guarded_def admin_granted_def by force
qed

section \<open>Missing arguments and failed programs\<close>



text \<open>When \<open>exec2\<close> fails the child returns to the loop of \<open>main\<close> as a second process manager with the same table, on the same input.\<close>

lemma failed_exec_stays:
  assumes "printf (str ''Failed to execute '%s'.\<newline>'') [AStr path] = Some m"
  shows "snd (ubind (pm_runcmd child (PM_EXEC path n)) (record_child child) ([answer 0, answer 0, answer (-1)] @ replicate (length m) written @ rs)) = Val child rs"
proof -
  have "uprintf 2 ''Failed to execute '%s'.\<newline>'' [AStr path] (replicate (length m) written @ rs) = (map (\<lambda>c. Write 2 [c]) m, Val () rs)"
    using uputs_run [of 2 m rs] assms by (simp add: uprintf_def)
  note w = ubind_run [of "uprintf 2 ''Failed to execute '%s'.\<newline>'' [AStr path]", OF this]
  show ?thesis by (simp add: pm_runcmd_def ubind_assoc fork1_run w record_child_def uret_def)
qed

text \<open>\<open>exit\<close> kills every child that was recorded, in order, waits once for each, and ends.\<close>

lemma pm_exit_kills:
  "length rs = 2 * length pids \<Longrightarrow>
     pm_runcmd pids PM_EXIT rs = (concat (map (\<lambda>pid. [Kill pid, Wait]) pids), Exited)"
proof -
  assume "length rs = 2 * length pids"
  then have "kill_children pids rs = (concat (map (\<lambda>pid. [Kill pid, Wait]) pids), Val () [])"
  proof (induction pids arbitrary: rs)
    case (Cons pid pids)
    then obtain a b rs' where "rs = a # b # rs'" "length rs' = 2 * length pids" by (cases rs; cases "tl rs") auto
    then show ?case using Cons.IH by simp
  qed (simp add: uret_def)
  note run = ubind_run [of "kill_children pids", OF this]
  show ?thesis by (simp add: pm_runcmd_def run uexit_def)
qed

section \<open>Witnesses\<close>

theorem pm_parsecmd_reads_witness: "pm_parsecmd (str ''  memlim 5   4096'' @ [10]) = Accept (PM_MLIM 5 4096)"
proof -
  have "spaced [2, 1, 3] (pm_words (PM_MLIM 5 4096)) = str ''  memlim 5   4096''" by code_simp
  then show ?thesis using pm_parsecmd_reads [of "PM_MLIM 5 4096" "[2, 1, 3]"] by simp
qed


text \<open>A run of the child of \<open>execute a 1\<close>.\<close>

definition demo_run :: "reply list" where
  "demo_run = [answer (-1), answer 0] @ replicate 2 written @ typed_chars (str ''execute a 1'' @ [10]) @ [answer 0, answer 0]"

theorem pm_exec2_needs_admin_witness:
  "\<exists>i. fst (pm_main demo_run) ! i = Exec2 (str ''a'') [str ''a''] 1 \<and> fst (pm_main demo_run) ! (i - 1) = Getadmin password \<and> rval (demo_run ! (i - 1)) = 0"
proof -
  let ?cs = "fst (pm_main demo_run)"
  have c: "?cs ! 18 = Exec2 (str ''a'') [str ''a''] 1" "18 < length ?cs" by code_simp+
  have "pm_main demo_run = (?cs, snd (pm_main demo_run))" by simp
  from pm_exec2_needs_admin [OF this c(2,1)] c show ?thesis by (intro exI [of _ 18]) simp
qed

end
