(* ===== verification/Spec2Isabelle.thy ===== *)
theory Spec2Isabelle
  imports Syscalls Accounts Console Grep SpaceCopy Ide Keyboard Screen ShellRun Login Utils Pmanager
begin

text \<open>
  \<^bold>\<open>A verification library for the xv6 kernel of ELE3021\<close> (\<open>src/xv6-public\<close>): the teaching kernel xv6 for the i386 with
  three course projects: multilevel and feedback-queue schedulers (Project 1), administrator mode, memory limits and
  \<open>exec2\<close> (Project 2), user accounts and file permissions (Project 3).

  \<^bold>\<open>The parts of the program and how they interact.\<close> User programs enter the kernel by a trap (\<open>trap.c\<close>), whose system
  calls are dispatched by \<open>syscall.c\<close> to \<open>sysproc.c\<close>, \<open>sysfile.c\<close> and the wrappers of the projects. Processes live in
  the table of \<open>proc.c\<close>, run under one of three schedulers chosen at build time, and have their memory in page tables
  (\<open>vm.c\<close>) over pages of \<open>kalloc.c\<close>. Files are descriptors (\<open>file.c\<close>) of pipes (\<open>pipe.c\<close>), of the console
  (\<open>console.c\<close>) or of inodes (\<open>fs.c\<close>), which change blocks only inside operations of the write-ahead log (\<open>log.c\<close>) over
  the buffer cache (\<open>bio.c\<close>) and a disk (\<open>memide.c\<close>, or \<open>ide.c\<close> with real hardware). The account table of \<open>PRJ03_syscall.c\<close> is kept in the file
  \<open>/shadow\<close>. Everything synchronises by spin locks and sleep locks.

  \<^bold>\<open>How code is modelled.\<close> A kernel function is a function from the state to an outcome (\<open>res\<close> in \<open>Prelude\<close>): \<open>Ret v s\<close>
  returns, \<open>Panic\<close> is a call of \<open>panic\<close>, \<open>Fault\<close> is an access the hardware or the C language does not define,
  \<open>Spins\<close> is a processor that waits for ever for a lock it can never get, and \<open>Swtch s\<close> is the switch to the scheduler in
  the state \<open>s\<close>. Code after a switch is a definition of its own, with the suffix \<open>_return\<close>, which starts from any
  state the other processes may have left. \<open>kbind\<close> is the semicolon of C. The state is one record, extended theory by theory:
  \<open>machine\<close> (processors and locks), \<open>mem_state\<close> (RAM and the free list), \<open>proc_state\<close>, \<open>sleep_state\<close>, \<open>bio_state\<close>,
  \<open>log_state\<close>, \<open>fs_state\<close>, \<open>file_state\<close>, \<open>vm_state\<close>, \<open>user_state\<close> and \<open>kern_state\<close>. C structs with a layout the code
  depends on (pages on the free list, pipes, trap frames, page tables, on-disk inodes, the account table) are bytes in \<open>ram\<close>
  or in a block; the others are records. \<open>uint\<close> is a 32-bit word, \<open>int\<close> is \<open>int\<close> with conversions written out.

  \<^bold>\<open>The theories.\<close>
  \<^item> \<open>Prelude\<close>: outcomes, weakest preconditions \<open>wp\<close>, loops over arrays, and the generic locales \<open>invariant_system\<close> (invariants
    of a step relation) and \<open>slot_table\<close> (a table whose entries are taken first-fit).
  \<^item> \<open>Bytes\<close>, \<open>CStrings\<close>, \<open>Format\<close>: byte buffers and little-endian words; \<open>string.c\<close>, \<open>ulib.c\<close>; \<open>printf.c\<close> and \<open>cprintf\<close>.
  \<^item> \<open>Spinlock\<close>: \<open>spinlock.c\<close>. The canonical states \<open>quiet\<close>, \<open>with_locks\<close> and \<open>in_proc\<close> let the simplifier run code that locks.
  \<^item> \<open>Kalloc\<close>: \<open>kalloc.c\<close>. The locale \<open>page_pool\<close>, interpreted as \<open>kpool\<close>, is the contract of a pool of distinct pages.
  \<^item> \<open>ProcTable\<close>: \<open>proc.c\<close> without memory and files: allocation, \<open>sleep\<close>, \<open>wakeup\<close>, \<open>kill\<close>, and the calls of Projects 1 and 2.
  \<^item> \<open>Sched\<close>: the three schedulers as step functions on a program counter. The locale \<open>sched_loop\<close>, interpreted as \<open>rr\<close>,
    \<open>ml\<close> and \<open>mlfq\<close>, shows that no step panics; \<open>mlfq_runs\<close> interprets \<open>invariant_system\<close> for levels and quanta.
  \<^item> \<open>Bio\<close>: \<open>sleeplock.c\<close>, \<open>bio.c\<close> and \<open>memide.c\<close>; under \<open>bio_ok\<close> the cache is a store of blocks \<open>blk\<close>.
  \<^item> \<open>Logging\<close>: \<open>log.c\<close> with the sequence of block writes a commit makes, and recovery after a crash at any of them.
  \<^item> \<open>Inodes\<close>, \<open>FsOps\<close>: \<open>fs.c\<close>; \<open>FsOps\<close> holds what its operations do to the blocks inside an operation (\<open>in_op\<close>).
  \<^item> \<open>Files\<close>: \<open>file.c\<close> and \<open>pipe.c\<close>. The locale \<open>fifo\<close>, interpreted as \<open>pipe_fifo\<close>, is the contract of a bounded queue;
    \<open>open_files\<close> interprets \<open>slot_table\<close>.
  \<^item> \<open>Console\<close>: the input buffer of \<open>console.c\<close> (its operations stand in \<open>Inodes\<close>, since \<open>readi\<close> reaches them).
  \<^item> \<open>Ports\<close>, \<open>Ide\<close>, \<open>Keyboard\<close>, \<open>Screen\<close>: port accesses as a parameter and \<open>ioapic.c\<close>; \<open>ide.c\<close> over a disk described by
    \<open>ata_disk\<close>; \<open>kbd.c\<close>, \<open>kbd.h\<close> and \<open>uart.c\<close>; the text screen of \<open>console.c\<close>.
  \<^item> \<open>Vm\<close>, \<open>Args\<close>: \<open>vm.c\<close> and the argument fetching of \<open>syscall.c\<close>. \<open>PageTables\<close>, \<open>AddrSpace\<close> and \<open>SpaceCopy\<close> hold the
    meaning of the page tables, \<open>umem\<close>: what a process reads at an address; the invariant \<open>uspace\<close> says that its pages have
    frames of their own, apart from its tables and the free list.
  \<^item> \<open>Users\<close>, \<open>Accounts\<close>: \<open>PRJ03_syscall.c\<close>; \<open>Accounts\<close> follows \<open>userdel\<close> down to the disk.
  \<^item> \<open>SysFile\<close>, \<open>Exec\<close>, \<open>ProcLife\<close>, \<open>Syscalls\<close>: \<open>sysfile.c\<close>; \<open>exec.c\<close> and \<open>exec2\<close>; the rest of \<open>proc.c\<close>;
    \<open>sysproc.c\<close>, the dispatch and \<open>trap.c\<close>.
  \<^item> \<open>UserSys\<close>: user programs as the calls they make against the replies of the kernel, with loops (\<open>uloop\<close>) and the calls of
    \<open>ulib.c\<close> that programs use. The locale \<open>run_property\<close>, interpreted as \<open>gd\<close> for \<open>guarded\<close>, is the contract of a
    property that sequencing and loops keep.
  \<^item> \<open>ShellParse\<close>, \<open>ShellPrint\<close>, \<open>ShellRun\<close>: \<open>sh.c\<close>: the parser, a printer it inverts, and the running of commands.
  \<^item> \<open>Login\<close>: \<open>login.c\<close>, \<open>init.c\<close>, \<open>PRJ03_useradd.c\<close>, \<open>PRJ03_userdel.c\<close> and \<open>PRJ03_chmod.c\<close>. \<open>Pmanager\<close>: \<open>pmanager.c\<close>.
  \<^item> \<open>Grep\<close>, \<open>Utils\<close>: the functions of \<open>grep.c\<close>; \<open>cat.c\<close>, \<open>wc.c\<close>, \<open>ls.c\<close>, the other file utilities and \<open>grep\<close> as programs.

  \<^bold>\<open>What is shown.\<close> Storage: a commit is atomic under crashes and installs exactly its transaction; \<open>log_write\<close> and
  \<open>begin_op\<close> keep the log within bounds; inodes, blocks and file contents are read back as written; deleting an account
  is durable. Scheduling: what each scheduler picks, that no scheduler panics, that levels and quanta stay in range, and that
  round robin serves everyone. Processes: no lost wakeup, sizes within the limits, argument pointers within the process.
  Memory: \<open>allocuvm\<close> adds pages of zeroes, \<open>deallocuvm\<close> gives back exactly its frames, \<open>copyuvm\<close> makes a copy that shares no
  page. Disk: the queue of the IDE driver serves requests in order and has the effect of the driver of the memory disk.
  User programs: the shell runs what is written on a line and connects pipelines; a shell is started only for a user whose
  password was found in the account table; the process manager executes programs only as administrator; \<open>wc\<close> and
  \<open>grep\<close> do not depend on how a file is cut into reads, except where a defect of \<open>grep\<close> makes it lose a line.
  Pipes and console: bytes arrive in order, once, and never overrun a buffer. Several theorems show what goes wrong where
  the code has a defect: a lock that is not released, a scan that tests the wrong process, starvation, a log that admits
  too much, accounts that cannot log in or need no password.

  \<^bold>\<open>Bounds and fuel.\<close> No function of the model has fuel. Loops over arrays are folds over their index range; the others
  are recursive functions with a termination proof: the bytes left (\<open>readi_loop\<close>, \<open>writei_loop\<close>, pipes, \<open>grep\<close>), the
  addresses left (\<open>deallocuvm_loop\<close>, where an address that wraps around is the outcome \<open>Fault\<close>), the characters left
  (\<open>printf\<close>, paths, the tokens and nesting of a line of the shell). The loops of user programs end with the replies: each
  round makes a call, and a run over a finite list of replies is finite. Loops that wait end in \<open>Swtch\<close>, because \<open>sleep\<close> does.

  \<^bold>\<open>Not modelled.\<close> The boot loader, the assembly of context switch and trap entry, and the local interrupt
  controllers, whose effects are device accesses. In the kernel above the drivers what a device delivers is an argument of
  the handler that receives it, and the disk is that of \<open>memide.c\<close>. The order of initialisation in \<open>main.c\<close>. The allocator \<open>umalloc.c\<close>, \<open>mkfs.c\<close>
  and the test programs. The kernel and a user program are joined by the replies: theorems about a program hold for all
  replies, or for those that a kernel function of the model gives.
  Other processors appear only through the locks they hold. \<open>getshmem\<close> has no body in the source.
\<close>

end
